(* ===== verification/Efl_Prelude.thy ===== *)
theory Efl_Prelude
  imports Main "HOL-Library.Word" "HOL-Library.Monad_Syntax"
begin

text \<open>
  The vocabulary the components share: the C integer types as words, bounds-checked
  reads of a C array (an out-of-range read has no value, it is \<^theory_text>\<open>None\<close>), and
  the generic facts on words and lists the component proofs rest on.
\<close>

unbundle bit_operations_syntax

section \<open>C integer types\<close>

type_synonym u8 = "8 word"
type_synonym u16 = "16 word"
type_synonym u32 = "32 word"
type_synonym u64 = "64 word"

text \<open>
  An \<^verbatim>\<open>int\<close> that the code passes as a \<^verbatim>\<open>size_t\<close>: a negative value becomes a huge size.
\<close>

definition size_of_int :: "u32 \<Rightarrow> nat" where
  "size_of_int x = unat (scast x :: u64)"

lemma uint_scast_size: "uint (scast (x :: u32) :: u64) = take_bit 64 (sint x)"
  by transfer simp

lemma sint_bounds: "- (2 ^ 31) \<le> sint (x :: u32)" "sint (x :: u32) < 2 ^ 31"
  using sint_ge [of x] sint_lt [of x] by simp_all

lemma size_of_int: "0 \<le> sint x \<Longrightarrow> size_of_int x = nat (sint x)"
  using sint_bounds [of x]
  by (simp only: size_of_int_def unat_eq_nat_uint uint_scast_size take_bit_eq_mod) simp

lemma size_of_int_negative:
  assumes "sint x < 0"
  shows "size_of_int x = nat (2 ^ 64 + sint x)"
proof -
  have "sint x mod 2 ^ 64 = (2 ^ 64 + sint x) mod 2 ^ 64" by simp
  also have "\<dots> = 2 ^ 64 + sint x"
    using assms sint_bounds [of x] by (intro mod_pos_pos_trivial) simp_all
  finally show ?thesis
    by (simp only: size_of_int_def unat_eq_nat_uint uint_scast_size take_bit_eq_mod)
qed

text \<open>An \<^verbatim>\<open>int\<close> expression whose exact value is \<open>x\<close> wraps around.\<close>

lemma sint_of_int_wrap:
  assumes "- (2 ^ 31) \<le> x - k * 2 ^ 32" "x - k * 2 ^ 32 < 2 ^ 31"
  shows "sint (word_of_int x :: u32) = x - k * 2 ^ 32"
proof -
  have "x mod 2 ^ 32 = (x - k * 2 ^ 32) mod 2 ^ 32"
    using mod_mult_self1 [of "x - k * 2 ^ 32" k "2 ^ 32"] by (simp only: diff_add_cancel)
  then have "(word_of_int x :: u32) = word_of_int (x - k * 2 ^ 32)"
    by (simp only: word_of_int_eq_iff take_bit_eq_mod) simp
  then show ?thesis using assms by (simp only: int_word_sint) simp
qed

text \<open>The bytes of a C string literal, without its terminator.\<close>

definition bytes_of :: "string \<Rightarrow> u8 list" where
  "bytes_of s = map of_char s"

section \<open>Outcomes\<close>

text \<open>
  What a C call can do: run into undefined behaviour (a read or write outside an object,
  a NULL dereference), or return a value.
\<close>

datatype 'a c_result = Undefined | Returned 'a

section \<open>Bounds-checked array access\<close>

text \<open>
  \<open>nth_opt xs i\<close> is the C read \<open>xs[i]\<close> of an array that holds exactly the elements
  of \<open>xs\<close>; outside the array the read is undefined behaviour and has no value.
\<close>

definition nth_opt :: "'a list \<Rightarrow> nat \<Rightarrow> 'a option" where
  "nth_opt xs i = (if i < length xs then Some (xs ! i) else None)"

lemma nth_opt_simps [simp]:
  "nth_opt [] i = None"
  "nth_opt (x # xs) 0 = Some x"
  "nth_opt (x # xs) (Suc i) = nth_opt xs i"
  by (auto simp: nth_opt_def)

lemma nth_opt_append:
  "nth_opt (xs @ ys) i = (if i < length xs then Some (xs ! i) else nth_opt ys (i - length xs))"
  by (auto simp: nth_opt_def nth_append)

lemma nth_opt_append_right [simp]: "nth_opt (xs @ ys) (length xs) = nth_opt ys 0"
  by (simp add: nth_opt_append)

lemma nth_opt_append_plus [simp]: "nth_opt (xs @ ys) (length xs + i) = nth_opt ys i"
  by (simp add: nth_opt_append)

lemma nth_opt_Some_iff: "nth_opt xs i = Some x \<longleftrightarrow> i < length xs \<and> xs ! i = x"
  by (auto simp: nth_opt_def)

section \<open>Words\<close>

lemma less_8_cases:
  assumes "n < (8::nat)"
  shows "n = 0 \<or> n = 1 \<or> n = 2 \<or> n = 3 \<or> n = 4 \<or> n = 5 \<or> n = 6 \<or> n = 7"
  using assms by arith

lemma u8_bit_ge [simp]: "8 \<le> n \<Longrightarrow> \<not> bit (a :: u8) n"
  using bit_imp_le_length [of a n] by auto

text \<open>Bit-by-bit equality of 8-bit words, as eight propositional goals.\<close>

lemma u8_eqI:
  fixes a b :: u8
  assumes "\<And>n. n \<in> {0, 1, 2, 3, 4, 5, 6, 7} \<Longrightarrow> bit a n = bit b n"
  shows "a = b"
proof (rule bit_word_eqI)
  fix n assume "n < LENGTH(8)"
  then have "n < 8" by simp
  from less_8_cases [OF this] show "bit a n = bit b n" using assms by auto
qed

lemma unat_less_256: "unat (a :: u8) < 256"
proof -
  have "unat a < 2 ^ LENGTH(8)" by (rule unsigned_less)
  then show ?thesis by simp
qed

lemma unat_take_bit_mod: "unat (take_bit k x) = unat x mod 2 ^ k"
proof -
  have "unat (take_bit k x) = take_bit k (unat x)" by (rule unsigned_take_bit_eq)
  then show ?thesis by (simp only: take_bit_eq_mod)
qed

lemma unat_drop_bit_div: "unat (drop_bit k x) = unat x div 2 ^ k"
proof -
  have "unat (drop_bit k x) = drop_bit k (unat x)" by (rule unat_drop_bit_eq)
  then show ?thesis by (simp only: drop_bit_eq_div)
qed

text \<open>Digits of a number in a mixed base.\<close>

lemma mod_block:
  "r < k \<Longrightarrow> (q * k + r) mod (k * m) = k * (q mod m) + (r :: nat)"
  using mod_mult2_eq [of "q * k + r" k m] by simp

text \<open>A number below \<open>2 ^ k\<close> has no bit from \<open>k\<close> on.\<close>

lemma below_power_bits:
  fixes w :: "'a::len word"
  assumes "unat w < 2 ^ k" "bit w n"
  shows "n < k"
proof -
  have "take_bit k w = w" using assms(1) by (simp add: word_unat_eq_iff unsigned_take_bit_eq take_bit_nat_eq_self)
  with assms(2) show ?thesis by (metis bit_take_bit_iff)
qed

lemma u8_bit7: "bit (x :: u8) 7 \<longleftrightarrow> 128 \<le> unat x"
proof
  assume "bit x 7"
  then have "\<not> unat x < 2 ^ 7" using below_power_bits by blast
  then show "128 \<le> unat x" by simp
next
  assume "128 \<le> unat x"
  with unat_less_256 [of x] have "unat x div 2 ^ 7 = 1" by simp
  then have "bit (unat x) 7" by (simp add: bit_iff_odd)
  then show "bit x 7" by (simp add: bit_unsigned_iff)
qed

lemma u8_and_80: "(x :: u8) AND 0x80 = 0 \<longleftrightarrow> \<not> bit x 7"
  using and_exp_eq_0_iff_not_bit [of x 7] by simp

end
