(* ===== verification/Emile_Base64.thy ===== *)
theory Emile_Base64
  imports Efl_Prelude "HOL-Library.Signed_Division"
begin

text \<open>
  The base64 codec of \<^verbatim>\<open>src/src/lib/emile/emile_base64.c\<close>. An \<^verbatim>\<open>Eina_Binbuf\<close> or
  \<^verbatim>\<open>Eina_Strbuf\<close> that the caller passes is its byte list (\<open>None\<close> is the NULL buffer);
  \<open>alloc_ok\<close> says whether \<^verbatim>\<open>malloc\<close> succeeds.
\<close>

section \<open>Tables and character classes\<close>

definition base64_table_normal :: "u8 list" where
  "base64_table_normal =
     bytes_of ''ABCDEFGHIJKLMNOPQRSTUVWXYZabcdefghijklmnopqrstuvwxyz0123456789+/''"

definition base64_table_url :: "u8 list" where
  "base64_table_url =
     bytes_of ''ABCDEFGHIJKLMNOPQRSTUVWXYZabcdefghijklmnopqrstuvwxyz0123456789-_''"

definition base64_table :: "bool \<Rightarrow> u8 list" where
  "base64_table url = (if url then base64_table_url else base64_table_normal)"

text \<open>\<^verbatim>\<open>isalnum\<close> of the C locale.\<close>

definition isalnum :: "u8 \<Rightarrow> bool" where
  "isalnum c \<longleftrightarrow> (48 \<le> c \<and> c \<le> 57) \<or> (65 \<le> c \<and> c \<le> 90) \<or> (97 \<le> c \<and> c \<le> 122)"

definition is_base64_char :: "u8 \<Rightarrow> bool \<Rightarrow> bool" where
  "is_base64_char c url =
     (if url then isalnum c \<or> c = 45 \<or> c = 95
      else isalnum c \<or> c = 43 \<or> c = 47)"

text \<open>
  \<^verbatim>\<open>strchr (table, c) - table\<close>: the search includes the terminator, so a zero byte is
  found at the table's length; \<open>None\<close> is the NULL result.
\<close>

fun strchr_from :: "nat \<Rightarrow> u8 list \<Rightarrow> u8 \<Rightarrow> nat option" where
  "strchr_from k [] c = (if c = 0 then Some k else None)"
| "strchr_from k (t # ts) c = (if t = c then Some k else strchr_from (Suc k) ts c)"

definition strchr_index :: "u8 list \<Rightarrow> u8 \<Rightarrow> nat option" where
  "strchr_index tab c = strchr_from 0 tab c"

section \<open>Encoder\<close>

text \<open>The four 6-bit groups of a three-byte block (\<^verbatim>\<open>outarr\<close>).\<close>

definition enc_group :: "u8 \<Rightarrow> u8 \<Rightarrow> u8 \<Rightarrow> u8 list" where
  "enc_group i0 i1 i2 =
     [drop_bit 2 (i0 AND 0xfc),
      push_bit 4 (i0 AND 0x03) + drop_bit 4 (i1 AND 0xf0),
      push_bit 2 (i1 AND 0x0f) + drop_bit 6 (i2 AND 0xc0),
      i2 AND 0x3f]"

definition enc_chars :: "u8 list \<Rightarrow> u8 list \<Rightarrow> u8 list" where
  "enc_chars tab out = map (\<lambda>v. tab ! unat v) out"

text \<open>
  The main loop: \<open>inarr\<close> is the filled prefix \<^verbatim>\<open>inarr[0..i)\<close>, \<open>dest\<close> the characters
  written so far.
\<close>

fun enc_loop :: "u8 list \<Rightarrow> u8 list \<Rightarrow> u8 list \<Rightarrow> u8 list \<Rightarrow> u8 list \<times> u8 list" where
  "enc_loop tab [] inarr dest = (inarr, dest)"
| "enc_loop tab (c # src) inarr dest =
     (let inarr = inarr @ [c] in
      if length inarr = 3
      then enc_loop tab src []
             (dest @ enc_chars tab (enc_group (inarr ! 0) (inarr ! 1) (inarr ! 2)))
      else enc_loop tab src inarr dest)"

definition enc_tail :: "u8 list \<Rightarrow> bool \<Rightarrow> u8 list \<Rightarrow> u8 list" where
  "enc_tail tab url inarr =
     (let i = length inarr in
      if i = 0 then []
      else let a = inarr @ replicate (3 - i) 0;
               out = enc_group (a ! 0) (a ! 1) (a ! 2)
           in enc_chars tab (take (i + 1) out) @ (if url then [] else replicate (3 - i) 61))"

definition emile_base64_encode_common ::
    "bool \<Rightarrow> u8 list option \<Rightarrow> bool \<Rightarrow> u8 list option" where
  "emile_base64_encode_common alloc_ok inp url =
     (case inp of None \<Rightarrow> None
      | Some src \<Rightarrow>
          if \<not> alloc_ok then None
          else let tab = base64_table url; (inarr, dest) = enc_loop tab src [] []
               in Some (dest @ enc_tail tab url inarr))"

section \<open>Decoder\<close>

definition dec_group :: "u8 \<Rightarrow> u8 \<Rightarrow> u8 \<Rightarrow> u8 \<Rightarrow> u8 list" where
  "dec_group i0 i1 i2 i3 =
     [push_bit 2 i0 + drop_bit 4 (i1 AND 0x30),
      push_bit 4 (i1 AND 0xf) + drop_bit 2 (i2 AND 0x3c),
      push_bit 6 (i2 AND 0x3) + i3]"

text \<open>
  \<^verbatim>\<open>inarr[i] = strchr (table, inarr[i]) - table\<close>; a character outside the table makes
  \<^verbatim>\<open>strchr\<close> return NULL, which the code does not test: no value then.
\<close>

fun dec_indices :: "u8 list \<Rightarrow> u8 list \<Rightarrow> u8 list option" where
  "dec_indices tab [] = Some []"
| "dec_indices tab (c # cs) =
     (case strchr_index tab c of None \<Rightarrow> None
      | Some v \<Rightarrow> map_option (\<lambda>vs. of_nat v # vs) (dec_indices tab cs))"

definition dec_block :: "u8 list \<Rightarrow> u8 list \<Rightarrow> u8 list option" where
  "dec_block tab inarr =
     map_option (\<lambda>v. dec_group (v ! 0) (v ! 1) (v ! 2) (v ! 3)) (dec_indices tab inarr)"

text \<open>
  Writing into the destination: \<open>room\<close> bytes were allocated, and a write past them is
  undefined.
\<close>

definition dec_write :: "nat \<Rightarrow> u8 list \<Rightarrow> u8 list \<Rightarrow> u8 list option" where
  "dec_write room dest out = (if length dest + length out \<le> room then Some (dest @ out) else None)"

text \<open>
  The main loop. \<open>len\<close> is the \<^verbatim>\<open>int\<close> counter, \<open>k\<close> the \<^verbatim>\<open>int\<close> index of the next character, whose
  increment past \<^verbatim>\<open>INT_MAX\<close> has no value; \<open>src\<close> is the text from \<open>k\<close> on. At its end the code
  either stops on the counter or reads the terminator, which is no base64 character.
\<close>

fun dec_loop ::
    "bool \<Rightarrow> nat \<Rightarrow> u32 \<Rightarrow> nat \<Rightarrow> u8 list \<Rightarrow> u8 list \<Rightarrow> u8 list \<Rightarrow> (u8 list \<times> u8 list) option" where
  "dec_loop url room len k [] inarr dest = Some (inarr, dest)"
| "dec_loop url room len k (c # src) inarr dest =
     (if len \<noteq> 0 \<and> c \<noteq> 61 \<and> is_base64_char c url
      then if k + 1 < 2 ^ 31
           then let inarr = inarr @ [c] in
                if length inarr = 4
                then do { out \<leftarrow> dec_block (base64_table url) inarr;
                          dest \<leftarrow> dec_write room dest out;
                          dec_loop url room (len - 1) (k + 1) src [] dest }
                else dec_loop url room (len - 1) (k + 1) src inarr dest
           else None
      else Some (inarr, dest))"

definition dec_tail :: "u8 list \<Rightarrow> u8 list \<Rightarrow> u8 list option" where
  "dec_tail tab inarr =
     (let i = length inarr in
      if i = 0 then Some []
      else map_option (take (i - 1)) (dec_block tab (inarr @ replicate (4 - i) 0)))"

text \<open>
  The argument of \<^verbatim>\<open>malloc\<close>, \<^verbatim>\<open>(len * 3 / 4) + 1\<close> in \<^verbatim>\<open>int\<close> arithmetic that wraps around and
  divides towards zero; \<open>len\<close> is the length of the text truncated to an \<^verbatim>\<open>int\<close>.
\<close>

definition dec_size :: "u32 \<Rightarrow> nat" where
  "dec_size len = size_of_int (word_of_int (sint (len * 3) sdiv 4) + 1)"

definition emile_base64_decode_common ::
    "bool \<Rightarrow> u8 list option \<Rightarrow> bool \<Rightarrow> u8 list option c_result" where
  "emile_base64_decode_common alloc_ok inp url =
     (case inp of None \<Rightarrow> Returned None
      | Some src \<Rightarrow>
          let len = of_nat (length src) in
          if \<not> url \<and> sint len smod 4 \<noteq> 0 then Returned None
          else if \<not> alloc_ok then Returned None
          else (case do { (inarr, dest) \<leftarrow> dec_loop url (dec_size len) len 0 src [] [];
                          out \<leftarrow> dec_tail (base64_table url) inarr;
                          dest \<leftarrow> dec_write (dec_size len) dest out;
                          dec_write (dec_size len) dest [0];
                          Some dest }
                of None \<Rightarrow> Undefined | Some dest \<Rightarrow> Returned (Some dest)))"

section \<open>The tables\<close>

lemma length_base64_table [simp]: "length (base64_table url) = 64"
  by (simp add: base64_table_def base64_table_normal_def base64_table_url_def bytes_of_def)

lemma distinct_base64_table: "distinct (base64_table url @ [0])"
proof (cases url)
  case True
  have "distinct (base64_table_url @ [0])" by code_simp
  with True show ?thesis by (simp add: base64_table_def)
next
  case False
  have "distinct (base64_table_normal @ [0])" by code_simp
  with False show ?thesis by (simp add: base64_table_def)
qed

lemma base64_table_chars: "\<forall>c \<in> set (base64_table url). c \<noteq> 61 \<and> is_base64_char c url"
proof (cases url)
  case True
  have "\<forall>c \<in> set base64_table_url. c \<noteq> 61 \<and> is_base64_char c True" by code_simp
  with True show ?thesis by (simp add: base64_table_def)
next
  case False
  have "\<forall>c \<in> set base64_table_normal. c \<noteq> 61 \<and> is_base64_char c False" by code_simp
  with False show ?thesis by (simp add: base64_table_def)
qed

lemma base64_table_nth:
  "i < 64 \<Longrightarrow> base64_table url ! i \<noteq> 61 \<and> is_base64_char (base64_table url ! i) url"
  using base64_table_chars [of url] nth_mem [of i "base64_table url"] by auto

lemma strchr_from_shift: "strchr_from k ts c = map_option ((+) k) (strchr_from 0 ts c)"
proof (induction ts arbitrary: k)
  case (Cons t ts)
  show ?case
    using Cons.IH [of "Suc k"] Cons.IH [of "Suc 0"]
    by (cases "strchr_from 0 ts c") auto
qed simp

lemma strchr_from_nth:
  "distinct (ts @ [0]) \<Longrightarrow> i < length ts \<Longrightarrow> strchr_from k ts (ts ! i) = Some (k + i)"
proof (induction ts arbitrary: k i)
  case (Cons t ts)
  show ?case
  proof (cases i)
    case (Suc j)
    with Cons.prems have "t \<noteq> ts ! j" by (metis Suc_less_eq distinct.simps(2) append_Cons length_Cons nth_mem UnCI set_append)
    with Suc Cons show ?thesis by simp
  qed simp
qed simp

lemma strchr_index_table [simp]: "i < 64 \<Longrightarrow> strchr_index (base64_table url) (base64_table url ! i) = Some i"
  using strchr_from_nth [OF distinct_base64_table, of i url 0] by (simp add: strchr_index_def)

lemma strchr_from_last: "0 \<notin> set ts \<Longrightarrow> strchr_from k ts 0 = Some (k + length ts)"
  by (induction ts arbitrary: k) auto

lemma strchr_index_zero [simp]: "strchr_index (base64_table url) 0 = Some 64"
  using distinct_base64_table [of url] strchr_from_last [of "base64_table url" 0]
  by (simp add: strchr_index_def)

section \<open>One block\<close>

lemma length_enc_group [simp]: "length (enc_group a b c) = 4"
  by (simp add: enc_group_def)

lemma enc_group_decomp:
  "enc_group a b c =
     [drop_bit 2 a, push_bit 4 (take_bit 2 a) OR drop_bit 4 b,
      push_bit 2 (take_bit 4 b) OR drop_bit 6 c, take_bit 6 c]"
proof -
  have "drop_bit 2 (a AND 0xfc) = drop_bit 2 a"
    by (rule u8_eqI) (auto simp: bit_simps)
  moreover have "push_bit 4 (a AND 0x03) + drop_bit 4 (b AND 0xf0)
      = push_bit 4 (take_bit 2 a) OR drop_bit 4 b"
    by (subst disjunctive_add_eq_or) (rule u8_eqI, auto simp: bit_simps)+
  moreover have "push_bit 2 (b AND 0x0f) + drop_bit 6 (c AND 0xc0)
      = push_bit 2 (take_bit 4 b) OR drop_bit 6 c"
    by (subst disjunctive_add_eq_or) (rule u8_eqI, auto simp: bit_simps)+
  moreover have "c AND 0x3f = take_bit 6 c"
    by (rule u8_eqI) (auto simp: bit_simps)
  ultimately show ?thesis by (simp add: enc_group_def)
qed

lemma dec_group_decomp:
  assumes "i1 = take_bit 6 i1" "i2 = take_bit 6 i2" "i3 = take_bit 6 i3"
  shows "dec_group i0 i1 i2 i3 =
     [push_bit 2 i0 OR drop_bit 4 i1, push_bit 4 i1 OR drop_bit 2 i2, push_bit 6 i2 OR i3]"
proof -
  have b: "bit i1 6 = False" "bit i1 7 = False" "bit i2 6 = False" "bit i2 7 = False"
    "bit i3 6 = False" "bit i3 7 = False"
    by (subst assms, simp add: bit_simps)+
  have "push_bit 2 i0 + drop_bit 4 (i1 AND 0x30) = push_bit 2 i0 OR drop_bit 4 i1"
    by (subst disjunctive_add_eq_or) (rule u8_eqI, auto simp: bit_simps b)+
  moreover have "push_bit 4 (i1 AND 0xf) + drop_bit 2 (i2 AND 0x3c) = push_bit 4 i1 OR drop_bit 2 i2"
    by (subst disjunctive_add_eq_or) (rule u8_eqI, auto simp: bit_simps b)+
  moreover have "push_bit 6 (i2 AND 0x3) + i3 = push_bit 6 i2 OR i3"
    by (subst disjunctive_add_eq_or) (rule u8_eqI, auto simp: bit_simps b)+
  ultimately show ?thesis by (simp add: dec_group_def)
qed

lemma enc_group_sextets: "v \<in> set (enc_group a b c) \<Longrightarrow> take_bit 6 v = v"
  by (auto simp: enc_group_decomp intro!: u8_eqI simp: bit_simps)

lemma enc_group_less: "v \<in> set (enc_group a b c) \<Longrightarrow> unat v < 64"
proof -
  assume "v \<in> set (enc_group a b c)"
  then have "unat v = unat (take_bit 6 v)" by (simp add: enc_group_sextets)
  also have "\<dots> = take_bit 6 (unat v)" by (simp add: unsigned_take_bit_eq)
  also have "\<dots> < 64" using take_bit_nat_less_exp [of 6 "unat v"] by simp
  finally show ?thesis .
qed

text \<open>The block decoder undoes the block encoder.\<close>

lemma dec_group_enc_group:
  "dec_group (enc_group a b c ! 0) (enc_group a b c ! 1) (enc_group a b c ! 2) (enc_group a b c ! 3)
   = [a, b, c]"
proof -
  have "dec_group (enc_group a b c ! 0) (enc_group a b c ! 1) (enc_group a b c ! 2)
      (enc_group a b c ! 3) =
    [push_bit 2 (enc_group a b c ! 0) OR drop_bit 4 (enc_group a b c ! 1),
     push_bit 4 (enc_group a b c ! 1) OR drop_bit 2 (enc_group a b c ! 2),
     push_bit 6 (enc_group a b c ! 2) OR enc_group a b c ! 3]"
    by (rule dec_group_decomp) (rule enc_group_sextets [symmetric], rule nth_mem, simp)+
  also have "\<dots> = [a, b, c]"
    by (auto simp: enc_group_decomp bit_simps intro!: u8_eqI)
  finally show ?thesis .
qed

section \<open>The encoder computes RFC 4648\<close>

text \<open>
  The reference encoding, over numbers: a block of three octets is a 24-bit number whose
  four base-64 digits, most significant first, select the characters. A final block of one
  or two octets is completed with zero bits; the plain variant pads it with \<^verbatim>\<open>=\<close>.
\<close>

definition digits64 :: "nat \<Rightarrow> nat list" where
  "digits64 n = [n div 64 ^ 3 mod 64, n div 64 ^ 2 mod 64, n div 64 mod 64, n mod 64]"

fun rfc4648 :: "bool \<Rightarrow> u8 list \<Rightarrow> u8 list" where
  "rfc4648 url [] = []"
| "rfc4648 url [a] =
     map ((!) (base64_table url)) (take 2 (digits64 (unat a * 65536)))
     @ (if url then [] else [61, 61])"
| "rfc4648 url [a, b] =
     map ((!) (base64_table url)) (take 3 (digits64 (unat a * 65536 + unat b * 256)))
     @ (if url then [] else [61])"
| "rfc4648 url (a # b # c # r) =
     map ((!) (base64_table url)) (digits64 (unat a * 65536 + unat b * 256 + unat c))
     @ rfc4648 url r"

lemma unat_push_or:
  assumes "unat (x :: u8) < 2 ^ (8 - n)" "n < 8" "unat y < 2 ^ n"
  shows "unat (push_bit n x OR y) = 2 ^ n * unat x + unat y"
proof -
  have y: "y = take_bit n y"
    using assms(3) by (simp add: word_unat_eq_iff unsigned_take_bit_eq take_bit_nat_eq_self)
  have "push_bit n x AND y = 0"
    by (subst y, rule u8_eqI) (auto simp: bit_simps)
  then have "push_bit n x OR y = push_bit n x + y" by (simp add: disjunctive_add_eq_or)
  moreover have lt: "2 ^ n * unat x + unat y < 256"
  proof -
    have "2 ^ n * unat x + 2 ^ n \<le> 2 ^ n * 2 ^ (8 - n)"
      using mult_le_mono2 [of "Suc (unat x)" "2 ^ (8 - n)" "2 ^ n"] assms(1) by simp
    also have "\<dots> = (256 :: nat)" using assms(2) by (simp flip: power_add)
    finally show ?thesis using assms(3) by simp
  qed
  moreover have "unat (push_bit n x) = 2 ^ n * unat x"
  proof -
    have "unat (push_bit n x) = take_bit 8 (push_bit n (unat x))"
      by (simp add: unsigned_push_bit_eq)
    also have "\<dots> = 2 ^ n * unat x"
      using lt by (simp add: push_bit_eq_mult take_bit_nat_eq_self_iff mult.commute)
    finally show ?thesis .
  qed
  ultimately show ?thesis by (simp add: unat_word_ariths)
qed

lemma digits64_block:
  assumes "a < 256" "b < 256" "c < (256 :: nat)"
  shows "digits64 (a * 65536 + b * 256 + c) =
    [a div 4, 16 * (a mod 4) + b div 16, 4 * (b mod 16) + c div 64, c mod 64]"
proof -
  define n where "n = a * 65536 + b * 256 + c"
  have "n div 65536 = a" using assms by (simp add: n_def)
  then have "n div 262144 = a div 4" using div_mult2_eq [of n 65536 4] by simp
  then have d0: "n div 262144 mod 64 = a div 4" using assms(1) by simp
  have "n div 256 = a * 256 + b" using assms by (simp add: n_def)
  moreover have "(a * 256 + b) div 16 = a * 16 + b div 16" by simp
  ultimately have "n div 4096 = a * 16 + b div 16" using div_mult2_eq [of n 256 16] by simp
  moreover have "(a * 16 + b div 16) mod 64 = 16 * (a mod 4) + b div 16"
    using assms(2) mod_block [of "b div 16" 16 a 4] by simp
  ultimately have d1: "n div 4096 mod 64 = 16 * (a mod 4) + b div 16" by simp
  have "n div 64 = a * 1024 + b * 4 + c div 64" by (simp add: n_def)
  moreover have "(a * 1024 + b * 4 + c div 64) mod 64 = (b * 4 + c div 64) mod 64"
    using mod_mult_self1 [of "b * 4 + c div 64" "a * 16" 64] by (simp add: ac_simps)
  moreover have "(b * 4 + c div 64) mod 64 = 4 * (b mod 16) + c div 64"
    using assms(3) mod_block [of "c div 64" 4 b 16] by simp
  ultimately have d2: "n div 64 mod 64 = 4 * (b mod 16) + c div 64" by simp
  have "n mod 64 = c mod 64"
    using mod_mult_self1 [of c "a * 1024 + b * 4" 64] by (simp add: n_def algebra_simps)
  with d0 d1 d2 show ?thesis unfolding digits64_def n_def [symmetric] by simp
qed

lemma unat_enc_group:
  "map unat (enc_group a b c) = digits64 (unat a * 65536 + unat b * 256 + unat c)"
proof -
  have lt: "unat a < 256" "unat b < 256" "unat c < 256" by (rule unat_less_256)+
  note s = unat_take_bit_mod unat_drop_bit_div
  have 1: "unat (push_bit 4 (take_bit 2 a) OR drop_bit 4 b) = 16 * (unat a mod 4) + unat b div 16"
    using lt by (subst unat_push_or) (simp_all add: s, presburger?)
  have 2: "unat (push_bit 2 (take_bit 4 b) OR drop_bit 6 c) = 4 * (unat b mod 16) + unat c div 64"
    using lt by (subst unat_push_or) (simp_all add: s, presburger?)
  show ?thesis
    unfolding enc_group_decomp using lt by (simp add: 1 2 s digits64_block)
qed

lemma enc_chars_group:
  "enc_chars tab (enc_group a b c) =
     map ((!) tab) (digits64 (unat a * 65536 + unat b * 256 + unat c))"
  unfolding unat_enc_group [symmetric] enc_chars_def by simp

lemma enc_chars_take: "enc_chars tab (take n out) = take n (enc_chars tab out)"
  by (simp add: enc_chars_def take_map)

text \<open>Characters already written are never touched again.\<close>

lemma enc_loop_dest: "enc_loop tab src inarr (d @ e) = apsnd ((@) d) (enc_loop tab src inarr e)"
  by (induction src arbitrary: inarr e) (simp_all add: Let_def)

definition enc_all :: "bool \<Rightarrow> u8 list \<Rightarrow> u8 list" where
  "enc_all url src =
     (let (inarr, dest) = enc_loop (base64_table url) src [] [] in
      dest @ enc_tail (base64_table url) url inarr)"

lemma enc_all_block:
  "enc_all url (a # b # c # r) = enc_chars (base64_table url) (enc_group a b c) @ enc_all url r"
proof -
  let ?e = "enc_chars (base64_table url) (enc_group a b c)"
  have "enc_loop (base64_table url) (a # b # c # r) [] [] = enc_loop (base64_table url) r [] (?e @ [])"
    by (simp add: Let_def)
  also have "\<dots> = apsnd ((@) ?e) (enc_loop (base64_table url) r [] [])"
    by (rule enc_loop_dest)
  finally show ?thesis by (simp add: enc_all_def split: prod.splits)
qed

lemma enc_all_rfc4648: "enc_all url src = rfc4648 url src"
proof (induction url src rule: rfc4648.induct)
  case (1 url) show ?case by (simp add: enc_all_def enc_tail_def)
next
  case (2 url a)
  show ?case
    by (simp add: enc_all_def enc_tail_def Let_def numeral_2_eq_2 enc_chars_take enc_chars_group
        del: take_Suc_Cons) (simp add: take_map)
next
  case (3 url a b)
  show ?case
    by (simp add: enc_all_def enc_tail_def Let_def numeral_2_eq_2 enc_chars_take enc_chars_group
        del: take_Suc_Cons) (simp add: take_map numeral_3_eq_3)
next
  case (4 url a b c r)
  then show ?case by (simp add: enc_all_block enc_chars_group)
qed

lemma encode_common_eq:
  "emile_base64_encode_common True (Some src) url = Some (rfc4648 url src)"
  using enc_all_rfc4648 [of url src]
  by (simp add: emile_base64_encode_common_def enc_all_def Let_def split: prod.splits)

section \<open>The decoder without its buffer\<close>

text \<open>
  The loop with neither the counter nor the allocated size: what the decoder computes when
  the counter is the length of the text and the buffer is large enough.
\<close>

fun scan_loop ::
    "bool \<Rightarrow> u8 list \<Rightarrow> u8 list \<Rightarrow> u8 list \<Rightarrow> (u8 list \<times> u8 list) option" where
  "scan_loop url [] inarr dest = Some (inarr, dest)"
| "scan_loop url (c # src) inarr dest =
     (if c \<noteq> 61 \<and> is_base64_char c url
      then let inarr = inarr @ [c] in
           if length inarr = 4
           then (case dec_block (base64_table url) inarr of None \<Rightarrow> None
                 | Some out \<Rightarrow> scan_loop url src [] (dest @ out))
           else scan_loop url src inarr dest
      else Some (inarr, dest))"

lemma scan_loop_grows:
  "scan_loop url src inarr dest = Some (i, d) \<Longrightarrow> length dest \<le> length d"
proof (induction src arbitrary: inarr dest)
  case (Cons c src)
  from Cons.prems show ?case
    by (auto simp: Let_def split: if_splits option.splits dest!: Cons.IH)
qed simp

lemma dec_loop_scans:
  assumes "unat len = length src" "k + length src < 2 ^ 31"
  shows "dec_loop url room len k src inarr dest =
    (case scan_loop url src inarr dest of None \<Rightarrow> None
     | Some (i, d) \<Rightarrow> if length d \<le> room \<or> d = dest then Some (i, d) else None)"
  using assms
proof (induction src arbitrary: len k inarr dest)
  case (Cons c src)
  then have n: "len \<noteq> 0" "unat (len - 1) = length src" "k + 1 + length src < 2 ^ 31" "k + 1 < 2 ^ 31"
    using Cons.prems by (auto simp: unat_minus_one unat_eq_0 [symmetric] simp del: unat_eq_0)
  note IH = Cons.IH [OF n(2,3)]
  show ?case
  proof (cases "c \<noteq> 61 \<and> is_base64_char c url \<and> length inarr = 3")
    case False
    then show ?thesis using n(1,4) IH by (auto simp: Let_def)
  next
    case True
    then show ?thesis
      using n(1,4) IH
      by (auto simp: Let_def dec_write_def dec_block_def dec_group_def split: option.splits
          dest!: scan_loop_grows)
  qed
qed simp

section \<open>The decoder on encoded text\<close>

lemma dec_indices_chars:
  "\<forall>v \<in> set vs. unat v < 64 \<Longrightarrow> dec_indices (base64_table url) (enc_chars (base64_table url) vs) = Some vs"
  by (induction vs) (auto simp: enc_chars_def)

lemma dec_block_enc_group:
  "dec_block (base64_table url) (enc_chars (base64_table url) (enc_group a b c)) = Some [a, b, c]"
  using dec_group_enc_group [of a b c]
  by (simp add: dec_block_def dec_indices_chars enc_group_less)

lemma scan_loop_push:
  assumes "c \<noteq> 61" "is_base64_char c url" "length inarr < 3"
  shows "scan_loop url (c # src) inarr dest = scan_loop url src (inarr @ [c]) dest"
  using assms by simp

lemma scan_loop_block:
  assumes "\<forall>v \<in> {v0, v1, v2, v3}. unat v < 64"
    and "dec_block (base64_table url) (enc_chars (base64_table url) [v0, v1, v2, v3]) = Some out"
  shows "scan_loop url (enc_chars (base64_table url) [v0, v1, v2, v3] @ rest) [] dest =
    scan_loop url rest [] (dest @ out)"
  using assms base64_table_nth [of _ url] by (simp add: enc_chars_def)

lemma scan_loop_enc_group:
  "scan_loop url (enc_chars (base64_table url) (enc_group a b c) @ rest) [] dest =
    scan_loop url rest [] (dest @ [a, b, c])"
proof -
  obtain v0 v1 v2 v3 where v: "enc_group a b c = [v0, v1, v2, v3]"
    by (simp add: enc_group_def)
  have "\<forall>v \<in> {v0, v1, v2, v3}. unat v < 64"
    using enc_group_less [of _ a b c] unfolding v by simp
  then show ?thesis
    using dec_block_enc_group [of url a b c] unfolding v by (rule scan_loop_block)
qed

text \<open>
  A final block of \<open>k < 4\<close> characters, followed by the padding the encoder writes: the
  loop stops with the characters pending and the tail decodes \<open>k - 1\<close> octets.
\<close>

lemma scan_loop_stop: "n = 0 \<or> \<not> url \<Longrightarrow> scan_loop url (replicate n 61) inarr dest = Some (inarr, dest)"
  by (cases n) auto

lemma scan_loop_partial:
  assumes "\<forall>v \<in> set vs. unat v < 64" "length inarr + length vs < 4"
  shows "scan_loop url (enc_chars (base64_table url) vs @ rest) inarr dest =
    scan_loop url rest (inarr @ enc_chars (base64_table url) vs) dest"
  using assms
proof (induction vs arbitrary: inarr)
  case (Cons v vs)
  have "scan_loop url (enc_chars (base64_table url) (v # vs) @ rest) inarr dest =
      scan_loop url (enc_chars (base64_table url) vs @ rest) (inarr @ [base64_table url ! unat v]) dest"
    using Cons.prems base64_table_nth [of "unat v" url] by (simp add: enc_chars_def)
  also have "\<dots> = scan_loop url rest (inarr @ enc_chars (base64_table url) (v # vs)) dest"
    using Cons.prems by (subst Cons.IH) (simp_all add: enc_chars_def)
  finally show ?case .
qed (simp add: enc_chars_def)

lemma dec_tail_two:
  assumes "unat v0 < 64" "unat v1 < 64"
  shows "dec_tail (base64_table url) (enc_chars (base64_table url) [v0, v1]) =
    Some (take 1 (dec_group v0 v1 64 64))"
  using assms by (simp add: dec_tail_def Let_def dec_block_def enc_chars_def numeral_2_eq_2)

lemma dec_tail_three:
  assumes "unat v0 < 64" "unat v1 < 64" "unat v2 < 64"
  shows "dec_tail (base64_table url) (enc_chars (base64_table url) [v0, v1, v2]) =
    Some (take 2 (dec_group v0 v1 v2 64))"
  using assms by (simp add: dec_tail_def Let_def dec_block_def enc_chars_def numeral_2_eq_2)

lemma dec_group_take:
  "take 1 (dec_group v0 v1 x y) = take 1 (dec_group v0 v1 v2 v3)"
  "take 2 (dec_group v0 v1 v2 y) = take 2 (dec_group v0 v1 v2 v3)"
  by (simp_all add: dec_group_def numeral_2_eq_2)

lemma dec_tail_enc:
  assumes "k = 1 \<or> k = 2"
  shows "dec_tail (base64_table url) (enc_chars (base64_table url) (take (k + 1) (enc_group a b c)))
    = Some (take k [a, b, c])"
proof -
  obtain v0 v1 v2 v3 where v: "enc_group a b c = [v0, v1, v2, v3]"
    by (simp add: enc_group_def)
  have lt: "unat v0 < 64" "unat v1 < 64" "unat v2 < 64"
    using enc_group_less [of _ a b c] unfolding v by simp_all
  have g: "dec_group v0 v1 v2 v3 = [a, b, c]"
    using dec_group_enc_group [of a b c] unfolding v by simp
  show ?thesis
    using assms
  proof
    assume "k = 1"
    then show ?thesis
      using dec_tail_two [OF lt(1,2), of url] dec_group_take(1) [of v0 v1 64 64 v2 v3]
      by (simp add: v g)
  next
    assume "k = 2"
    then show ?thesis
      using dec_tail_three [OF lt, of url] dec_group_take(2) [of v0 v1 v2 64 v3]
      by (simp add: v g)
  qed
qed

section \<open>Round trip\<close>

definition dec_all :: "bool \<Rightarrow> u8 list \<Rightarrow> u8 list \<Rightarrow> u8 list option" where
  "dec_all url src dest =
     (case scan_loop url src [] dest of None \<Rightarrow> None
      | Some (inarr, dest) \<Rightarrow> map_option ((@) dest) (dec_tail (base64_table url) inarr))"

lemma dec_all_partial:
  assumes k: "k = 1 \<or> k = 2" and pad: "pad = (if url then [] else replicate (3 - k) 61)"
  shows "dec_all url (enc_chars (base64_table url) (take (k + 1) (enc_group a b c)) @ pad) dest
    = Some (dest @ take k [a, b, c])"
proof -
  have lt: "\<forall>v \<in> set (take (k + 1) (enc_group a b c)). unat v < 64"
    by (meson enc_group_less in_set_takeD)
  have "scan_loop url pad inarr dest = Some (inarr, dest)" for inarr
    using k scan_loop_stop [of _ url] by (auto simp: pad)
  then show ?thesis
    using k lt dec_tail_enc [OF k, of url a b c]
    by (auto simp: dec_all_def scan_loop_partial)
qed

lemma dec_all_rfc4648: "dec_all url (rfc4648 url src) dest = Some (dest @ src)"
proof (induction url src arbitrary: dest rule: rfc4648.induct)
  case (1 url) show ?case by (simp add: dec_all_def dec_tail_def)
next
  case (2 url a)
  have "rfc4648 url [a] = enc_chars (base64_table url) (take (1 + 1) (enc_group a 0 0))
      @ (if url then [] else replicate (3 - 1) 61)"
    by (simp only: enc_chars_take enc_chars_group) (simp add: take_map numeral_2_eq_2)
  then show ?case by (simp only:) (subst dec_all_partial, simp_all)
next
  case (3 url a b)
  have "rfc4648 url [a, b] = enc_chars (base64_table url) (take (2 + 1) (enc_group a b 0))
      @ (if url then [] else replicate (3 - 2) 61)"
    by (simp only: enc_chars_take enc_chars_group) (simp add: take_map)
  then show ?case by (simp only:) (subst dec_all_partial, simp_all)
next
  case (4 url a b c r)
  have "dec_all url (rfc4648 url (a # b # c # r)) dest = dec_all url (rfc4648 url r) (dest @ [a, b, c])"
    using scan_loop_enc_group [of url a b c "rfc4648 url r" dest]
    by (simp add: dec_all_def enc_chars_group)
  with 4 show ?case by simp
qed

lemma length_rfc4648:
  "length (rfc4648 url src) =
     (if url then (4 * length src + 2) div 3 else 4 * ((length src + 2) div 3))"
proof (induction url src rule: rfc4648.induct)
  case (4 url a b c r)
  then show ?case
    using div_mult_self1 [of 3 "4 * length r + 2" 4] div_mult_self1 [of 3 "length r + 2" 1]
    by (auto simp: digits64_def algebra_simps)
qed (simp_all add: digits64_def)

lemma sdiv_four: "0 \<le> x \<Longrightarrow> x sdiv 4 = x div (4 :: int)"
    "x \<le> 0 \<Longrightarrow> x sdiv 4 = - (- x div (4 :: int))"
  by (auto simp: signed_divide_int_def sgn_if)

lemma smod_four:
  assumes "length src < 2 ^ 31"
  shows "sint (of_nat (length src) :: u32) smod 4 = int (length src mod 4)"
proof -
  have "sint (of_nat (length src) :: u32) = int (length src)"
    using sint_of_int_wrap [of "int (length src)" 0] assms by simp
  then show ?thesis by (simp add: signed_modulo_int_def sgn_if zmod_int)
qed

lemma decode_common_eq:
  assumes "length src < 2 ^ 31"
  shows "emile_base64_decode_common True (Some src) url =
     (if \<not> url \<and> length src mod 4 \<noteq> 0 then Returned None
      else case dec_all url src [] of None \<Rightarrow> Undefined
           | Some out \<Rightarrow> if length out < dec_size (of_nat (length src)) then Returned (Some out)
                         else Undefined)"
proof -
  have n: "unat (of_nat (length src) :: u32) = length src"
    using assms by (simp add: unat_of_nat)
  have l: "dec_loop url room (of_nat (length src)) 0 src [] [] =
      (case scan_loop url src [] [] of None \<Rightarrow> None
       | Some (i, d) \<Rightarrow> if length d \<le> room \<or> d = [] then Some (i, d) else None)" for url room
    using dec_loop_scans [OF n, of 0] assms by simp
  show ?thesis
  proof (cases "scan_loop url src [] []")
    case None
    then show ?thesis
      by (cases url)
        (simp_all add: emile_base64_decode_common_def smod_four [OF assms] l dec_all_def Let_def)
  next
    case (Some p)
    obtain i d where p: "p = (i, d)" by (cases p)
    show ?thesis
    proof (cases "dec_tail (base64_table url) i")
      case None
      then show ?thesis using Some
        by (cases url)
          (simp_all add: emile_base64_decode_common_def smod_four [OF assms] l dec_all_def Let_def p)
    next
      case out: (Some out)
      then show ?thesis using Some
        by (cases url)
          (simp_all add: emile_base64_decode_common_def smod_four [OF assms] l dec_all_def Let_def p
            dec_write_def)
    qed
  qed
qed

text \<open>
  The allocated size. Up to 1431655762 characters it is what the comment says or, where
  \<^verbatim>\<open>len * 3\<close> wraps to a negative number, a size that only a huge block satisfies; from then on
  the product wraps to a small positive number.
\<close>

lemma dec_size_product:
  assumes "- (2 ^ 31) \<le> int n * 3 - k * 2 ^ 32" "int n * 3 - k * 2 ^ 32 < 2 ^ 31"
  shows "sint (word_of_int (sint (of_nat n * 3 :: u32) sdiv 4) + 1 :: u32) =
    (int n * 3 - k * 2 ^ 32) sdiv 4 + 1"
proof -
  let ?x = "int n * 3 - k * 2 ^ 32"
  have p: "sint (of_nat n * 3 :: u32) = ?x"
    using sint_of_int_wrap [OF assms] by simp
  have "\<bar>?x sdiv 4\<bar> \<le> 2 ^ 31 div 4"
    using assms by (cases "0 \<le> ?x") (simp_all add: sdiv_four)
  then show ?thesis
    using sint_of_int_wrap [of "?x sdiv 4 + 1" 0] unfolding p by simp
qed

lemma dec_size_enough:
  assumes "n < 1431655763"
  shows "n * 3 div 4 < dec_size (of_nat n)"
proof (cases "int n * 3 < 2 ^ 31")
  case True
  then have "sint (word_of_int (sint (of_nat n * 3 :: u32) sdiv 4) + 1 :: u32) = int (n * 3 div 4) + 1"
    using dec_size_product [of n 0] by (simp add: sdiv_four zdiv_int)
  then show ?thesis by (simp add: dec_size_def size_of_int)
next
  case False
  then have "sint (word_of_int (sint (of_nat n * 3 :: u32) sdiv 4) + 1 :: u32) =
      1 - (2 ^ 32 - int n * 3) div 4"
    using assms dec_size_product [of n 1] by (simp add: sdiv_four)
  moreover have "2 \<le> (2 ^ 32 - int n * 3) div 4" "(2 ^ 32 - int n * 3) div 4 \<le> 2 ^ 32"
    using assms by simp_all
  ultimately show ?thesis using assms by (simp add: dec_size_def size_of_int_negative)
qed

lemma dec_size_short:
  assumes "1431655763 \<le> n" "n < 2 ^ 31"
  shows "dec_size (of_nat n) \<le> n * 3 div 4 - 2 ^ 30 + 2"
proof -
  have "sint (word_of_int (sint (of_nat n * 3 :: u32) sdiv 4) + 1 :: u32) =
      (int n * 3 - 2 ^ 32) sdiv 4 + 1"
    using assms dec_size_product [of n 1] by simp
  moreover have "0 \<le> (int n * 3 - 2 ^ 32) sdiv 4 + 1"
    "(int n * 3 - 2 ^ 32) sdiv 4 + 1 \<le> int (n * 3 div 4 - 2 ^ 30 + 2)"
    using assms by (cases "0 \<le> int n * 3 - 2 ^ 32"; simp add: sdiv_four)+
  ultimately show ?thesis by (simp add: dec_size_def size_of_int)
qed

lemma decode_encode:
  assumes "length src < 1073741821"
  shows "emile_base64_decode_common True (emile_base64_encode_common True (Some src) url) url
   = Returned (Some src)"
proof -
  let ?n = "length (rfc4648 url src)"
  have n: "?n < 1431655763" "length src \<le> ?n * 3 div 4" "url \<or> ?n mod 4 = 0"
    using assms by (auto simp: length_rfc4648)
  then have "length src < dec_size (of_nat ?n)" using dec_size_enough [OF n(1)] by simp
  then show ?thesis
    using n by (auto simp: encode_common_eq decode_common_eq dec_all_rfc4648)
qed

section \<open>Arbitrary input: no NULL from strchr, no write past the buffer\<close>

lemma base64_table_codes:
  "base64_table url =
     map of_nat ([65..<91] @ [97..<123] @ [48..<58] @ (if url then [45, 95] else [43, 47]))"
proof (cases url)
  case True
  have "base64_table_url = map of_nat ([65..<91] @ [97..<123] @ [48..<58] @ [45, 95])"
    by code_simp
  with True show ?thesis by (simp only: base64_table_def if_True)
next
  case False
  have "base64_table_normal = map of_nat ([65..<91] @ [97..<123] @ [48..<58] @ [43, 47])"
    by code_simp
  with False show ?thesis by (simp only: base64_table_def if_False)
qed

lemma is_base64_char_table: "is_base64_char c url \<Longrightarrow> c \<in> set (base64_table url)"
proof -
  assume c: "is_base64_char c url"
  then have "unat c \<in> set ([65..<91] @ [97..<123] @ [48..<58] @ (if url then [45, 95] else [43, 47]))"
    by (auto simp: is_base64_char_def isalnum_def word_le_nat_alt simp del: upt_rec_numeral split: if_splits)
  then have "of_nat (unat c) \<in> set (base64_table url)"
    unfolding base64_table_codes set_map by (rule imageI)
  then show "c \<in> set (base64_table url)" by simp
qed

lemma strchr_index_char: "is_base64_char c url \<Longrightarrow> \<exists>i. strchr_index (base64_table url) c = Some i"
  using is_base64_char_table [of c url] strchr_index_table [of _ url]
  by (auto simp: in_set_conv_nth)

lemma dec_indices_defined:
  "\<forall>c \<in> set cs. c = 0 \<or> is_base64_char c url \<Longrightarrow>
   \<exists>vs. dec_indices (base64_table url) cs = Some vs"
proof (induction cs)
  case (Cons c cs)
  then obtain vs where "dec_indices (base64_table url) cs = Some vs" by auto
  moreover obtain i where "strchr_index (base64_table url) c = Some i"
    using Cons.prems strchr_index_char [of c url] by auto
  ultimately show ?case by simp
qed simp

lemma dec_block_defined:
  assumes "\<forall>c \<in> set cs. c = 0 \<or> is_base64_char c url"
  shows "\<exists>out. dec_block (base64_table url) cs = Some out \<and> length out = 3"
  using dec_indices_defined [OF assms] by (auto simp: dec_block_def dec_group_def)

lemma scan_loop_defined:
  assumes "\<forall>c \<in> set inarr. is_base64_char c url" "length inarr < 4"
  shows "\<exists>i d. scan_loop url src inarr dest = Some (i, d) \<and> length i < 4
    \<and> (\<forall>c \<in> set i. is_base64_char c url)
    \<and> 4 * length d + 3 * length i \<le> 3 * length src + 3 * length inarr + 4 * length dest"
  using assms
proof (induction src arbitrary: inarr dest)
  case (Cons c src)
  let ?a = "inarr @ [c]"
  show ?case
  proof (cases "c \<noteq> 61 \<and> is_base64_char c url")
    case stop: False
    then show ?thesis using Cons.prems by auto
  next
    case go: True
    then have a: "\<forall>x \<in> set ?a. is_base64_char x url" using Cons.prems by auto
    show ?thesis
    proof (cases "length ?a = 4")
      case False
      then show ?thesis using go a Cons.prems Cons.IH [OF a, of dest] by (auto simp: Let_def)
    next
      case True
      obtain out where "dec_block (base64_table url) ?a = Some out" "length out = 3"
        using dec_block_defined [of ?a url] a by auto
      then show ?thesis using go True Cons.IH [of "[]" "dest @ out"] by (auto simp: Let_def)
    qed
  qed
qed auto

lemma dec_tail_defined:
  assumes "\<forall>c \<in> set i. is_base64_char c url" "length i < 4"
  shows "\<exists>out. dec_tail (base64_table url) i = Some out \<and> length out = length i - 1"
proof (cases "i = []")
  case False
  have "\<forall>c \<in> set (i @ replicate (4 - length i) 0). c = 0 \<or> is_base64_char c url"
    using assms by auto
  from dec_block_defined [OF this] assms False show ?thesis
    by (auto simp: dec_tail_def Let_def min_def)
qed (simp add: dec_tail_def)

lemma dec_all_bounds:
  "\<exists>out. dec_all url src [] = Some out \<and> length out \<le> length src * 3 div 4"
proof -
  obtain i d where l: "scan_loop url src [] [] = Some (i, d)" "length i < 4"
    "\<forall>c \<in> set i. is_base64_char c url" "4 * length d + 3 * length i \<le> 3 * length src"
    using scan_loop_defined [of "[]" url src "[]"] by auto
  obtain out where t: "dec_tail (base64_table url) i = Some out" "length out = length i - 1"
    using dec_tail_defined [OF l(3,2)] by auto
  have "length d + length out \<le> length src * 3 div 4"
    using l(2,4) t(2) by linarith
  with l(1) t(1) show ?thesis by (simp add: dec_all_def)
qed

lemma decode_bounds:
  assumes "length src < 1431655763"
  shows "\<exists>r. emile_base64_decode_common ok (Some src) url = Returned r
    \<and> (\<forall>out. r = Some out \<longrightarrow> length out \<le> length src * 3 div 4
            \<and> length out < dec_size (of_nat (length src)))"
proof (cases ok)
  case True
  obtain out where "dec_all url src [] = Some out" "length out \<le> length src * 3 div 4"
    using dec_all_bounds [of url src] by blast
  then show ?thesis using True assms dec_size_enough [OF assms] by (simp add: decode_common_eq)
qed (simp add: emile_base64_decode_common_def Let_def)

text \<open>A text of base64 characters only is decoded to its end.\<close>

lemma scan_loop_full:
  assumes "\<forall>c \<in> set src. c \<noteq> 61 \<and> is_base64_char c url" "length inarr < 4"
    and "scan_loop url src inarr dest = Some (i, d)"
  shows "4 * length d + 3 * length i = 3 * length src + 3 * length inarr + 4 * length dest
    \<and> length i < 4"
  using assms
proof (induction src arbitrary: inarr dest)
  case (Cons c src)
  have len: "dec_block tab cs = Some out \<Longrightarrow> length out = 3" for tab cs out
    by (auto simp: dec_block_def dec_group_def)
  show ?case
  proof (cases "length inarr = 3")
    case True
    then obtain out where "length out = 3" "scan_loop url src [] (dest @ out) = Some (i, d)"
      using Cons.prems len by (auto simp: Let_def split: option.splits)
    then show ?thesis using Cons.IH [of "[]" "dest @ out"] Cons.prems True by simp
  next
    case False
    then show ?thesis using Cons.IH [of "inarr @ [c]" dest] Cons.prems by (simp add: Let_def)
  qed
qed simp

lemma decode_overruns:
  assumes "\<forall>c \<in> set src. c \<noteq> 61 \<and> is_base64_char c url" "url \<or> length src mod 4 = 0"
    and "1431655763 \<le> length src" "length src < 2 ^ 31"
  shows "emile_base64_decode_common True (Some src) url = Undefined"
proof -
  obtain i d where l: "scan_loop url src [] [] = Some (i, d)" "length i < 4"
    "\<forall>c \<in> set i. is_base64_char c url" 
    using scan_loop_defined [of "[]" url src "[]"] by auto
  obtain out where t: "dec_tail (base64_table url) i = Some out" "length out = length i - 1"
    using dec_tail_defined [OF l(3,2)] by auto
  have "4 * length d + 3 * length i = 3 * length src"
    using scan_loop_full [OF assms(1) _ l(1)] by simp
  then have "dec_size (of_nat (length src)) \<le> length (d @ out)"
    using dec_size_short [OF assms(3,4)] assms(3) l(2) t(2) by simp
  then show ?thesis
    using assms(2) by (auto simp: decode_common_eq [OF assms(4)] dec_all_def l(1) t(1))
qed

section \<open>The four functions of the interface\<close>

definition emile_base64_encode :: "bool \<Rightarrow> u8 list option \<Rightarrow> u8 list option" where
  "emile_base64_encode ok src = emile_base64_encode_common ok src False"

definition emile_base64url_encode :: "bool \<Rightarrow> u8 list option \<Rightarrow> u8 list option" where
  "emile_base64url_encode ok src = emile_base64_encode_common ok src True"

definition emile_base64_decode :: "bool \<Rightarrow> u8 list option \<Rightarrow> u8 list option c_result" where
  "emile_base64_decode ok src = emile_base64_decode_common ok src False"

definition emile_base64url_decode :: "bool \<Rightarrow> u8 list option \<Rightarrow> u8 list option c_result" where
  "emile_base64url_decode ok src = emile_base64_decode_common ok src True"

lemmas emile_base64_api =
  emile_base64_encode_def emile_base64url_encode_def emile_base64_decode_def
  emile_base64url_decode_def


text \<open>
  C1: decoding what was encoded gives back the bytes, in both alphabets, without padding too,
  for fewer than \<^verbatim>\<open>2^30 - 3\<close> bytes, the lengths whose text the decoder has a buffer for.
\<close>

theorem base64_round_trip:
  assumes "length src < 1073741821"
  shows "emile_base64_decode True (emile_base64_encode True (Some src)) = Returned (Some src)
  \<and> emile_base64url_decode True (emile_base64url_encode True (Some src)) = Returned (Some src)"
  by (simp add: emile_base64_api decode_encode assms)

theorem base64_round_trip_witness:
  "emile_base64_decode True (emile_base64_encode True (Some [0, 255])) = Returned (Some [0, 255])
  \<and> emile_base64url_decode True (emile_base64url_encode True (Some [0, 255])) =
      Returned (Some [0, 255])"
  using base64_round_trip [of "[0, 255]"] by simp

text \<open>
  C3: on any text of fewer than 1431655763 characters, base64 or not, the decoders have a
  defined result: they never look up a character that is missing from the table, and every
  byte they write, the terminator included, lies in the block whose size is the wrapping
  \<^verbatim>\<open>int\<close> expression \<^verbatim>\<open>(len * 3 / 4) + 1\<close>; a result has at most three bytes for four characters.
\<close>

theorem base64_decode_safe:
  assumes "length src < 1431655763"
  shows "\<exists>r r'. emile_base64_decode ok (Some src) = Returned r
    \<and> emile_base64url_decode ok (Some src) = Returned r'
    \<and> (\<forall>out \<in> set_option r \<union> set_option r'. length out \<le> length src * 3 div 4
        \<and> length out < dec_size (of_nat (length src)))"
  using decode_bounds [OF assms, of ok False] decode_bounds [OF assms, of ok True]
  unfolding emile_base64_api by (elim exE conjE) (intro exI conjI, assumption+, auto)

theorem base64_decode_safe_witness:
  "\<exists>r r'. emile_base64_decode True (Some [65, 66, 61, 61]) = Returned r
    \<and> emile_base64url_decode True (Some [65, 66, 61, 61]) = Returned r'
    \<and> (\<forall>out \<in> set_option r \<union> set_option r'. length out \<le> 3 \<and> length out < dec_size 4)"
  using base64_decode_safe [of "[65, 66, 61, 61]" True] by simp

text \<open>
  the bound of the safe lengths is exact. From 1431655763 characters up to the largest
  length an \<^verbatim>\<open>int\<close> holds, the product \<^verbatim>\<open>len * 3\<close> wraps to a small number, the block is too short
  and the decoder of the URL alphabet writes past it, whatever letters and digits the text
  consists of; so does the plain decoder when the length is a multiple of four.
\<close>

theorem base64_decode_overruns:
  assumes "1431655763 \<le> length src" "length src < 2 ^ 31" "\<forall>c \<in> set src. isalnum c"
  shows "emile_base64url_decode True (Some src) = Undefined
    \<and> (length src mod 4 = 0 \<longrightarrow> emile_base64_decode True (Some src) = Undefined)"
proof -
  have "\<forall>c \<in> set src. c \<noteq> 61 \<and> is_base64_char c url" for url
    using assms(3) by (auto simp: is_base64_char_def isalnum_def)
  from decode_overruns [OF this _ assms(1,2)] show ?thesis by (simp add: emile_base64_api)
qed

theorem base64_decode_overruns_witness:
  "emile_base64url_decode True (Some (replicate 1431655764 65)) = Undefined
  \<and> emile_base64_decode True (Some (replicate 1431655764 65)) = Undefined"
  using base64_decode_overruns [of "replicate 1431655764 65"] by (simp add: isalnum_def)

text \<open>
  the length of the encoded text: four characters for every started group of three bytes,
  or without padding the number of characters that carry data.
\<close>

theorem base64_encode_length:
  "map_option length (emile_base64_encode True (Some src)) = Some (4 * ((length src + 2) div 3))
  \<and> map_option length (emile_base64url_encode True (Some src)) = Some ((4 * length src + 2) div 3)"
  by (simp add: emile_base64_api encode_common_eq length_rfc4648)

end
