(* ===== verification/Embryo_Program.thy ===== *)
theory Embryo_Program
  imports Efl_Prelude
begin

text \<open>
  The state of an Embryo virtual machine (\<^verbatim>\<open>src/src/lib/embryo/embryo_private.h\<close>,
  little-endian build): the memory block that \<^verbatim>\<open>ep->base\<close> points to, as a byte list with
  bounds-checked accesses, the record \<^verbatim>\<open>Embryo_Program\<close>, the fields of the file header
  and the tables it locates. Addresses are byte offsets into a block, as \<^typ>\<open>int\<close>:
  the code adds \<^verbatim>\<open>int\<close> offsets to 64-bit pointers, so the sums do not wrap; an access
  outside the block has no value.
\<close>

section \<open>Cells and memory blocks\<close>

type_synonym cell = "32 word" \<comment> \<open>\<^verbatim>\<open>Embryo_Cell\<close>; the operators choose the signedness\<close>
type_synonym mem = "u8 list"

definition in_block :: "mem \<Rightarrow> int \<Rightarrow> nat \<Rightarrow> bool" where
  "in_block m a n \<longleftrightarrow> 0 \<le> a \<and> a + int n \<le> int (length m)"

definition cell_of_bytes :: "u8 \<Rightarrow> u8 \<Rightarrow> u8 \<Rightarrow> u8 \<Rightarrow> cell" where
  "cell_of_bytes b0 b1 b2 b3 =
     ucast b0 OR push_bit 8 (ucast b1) OR push_bit 16 (ucast b2) OR push_bit 24 (ucast b3)"

definition byte_of_cell :: "nat \<Rightarrow> cell \<Rightarrow> u8" where
  "byte_of_cell k v = ucast (drop_bit (8 * k) v)"

definition load8 :: "mem \<Rightarrow> int \<Rightarrow> u8 option" where
  "load8 m a = (if in_block m a 1 then Some (m ! nat a) else None)"

definition load16 :: "mem \<Rightarrow> int \<Rightarrow> u16 option" where
  "load16 m a =
     (if in_block m a 2
      then Some (ucast (m ! nat a) OR push_bit 8 (ucast (m ! (nat a + 1)))) else None)"

definition load32 :: "mem \<Rightarrow> int \<Rightarrow> cell option" where
  "load32 m a =
     (if in_block m a 4
      then Some (cell_of_bytes (m ! nat a) (m ! (nat a + 1)) (m ! (nat a + 2)) (m ! (nat a + 3)))
      else None)"

definition store8 :: "mem \<Rightarrow> int \<Rightarrow> cell \<Rightarrow> mem option" where
  "store8 m a v = (if in_block m a 1 then Some (m[nat a := byte_of_cell 0 v]) else None)"

definition store16 :: "mem \<Rightarrow> int \<Rightarrow> cell \<Rightarrow> mem option" where
  "store16 m a v =
     (if in_block m a 2
      then Some (m[nat a := byte_of_cell 0 v, nat a + 1 := byte_of_cell 1 v]) else None)"

definition store32 :: "mem \<Rightarrow> int \<Rightarrow> cell \<Rightarrow> mem option" where
  "store32 m a v =
     (if in_block m a 4
      then Some (m[nat a := byte_of_cell 0 v, nat a + 1 := byte_of_cell 1 v,
                   nat a + 2 := byte_of_cell 2 v, nat a + 3 := byte_of_cell 3 v])
      else None)"

text \<open>Stores keep the block's length; what is read back.\<close>

lemma store_length:
  "store8 m a v = Some m' \<Longrightarrow> length m' = length m"
  "store16 m a v = Some m' \<Longrightarrow> length m' = length m"
  "store32 m a v = Some m' \<Longrightarrow> length m' = length m"
  by (auto simp: store8_def store16_def store32_def split: if_splits)

lemma in_block_length: "length m' = length m \<Longrightarrow> in_block m' a n = in_block m a n"
  by (simp add: in_block_def)

lemma load32_defined: "load32 m a \<noteq> None \<longleftrightarrow> in_block m a 4"
  by (simp add: load32_def)

lemma store32_defined: "store32 m a v \<noteq> None \<longleftrightarrow> in_block m a 4"
  by (simp add: store32_def)

lemma cell_of_bytes_of_cell:
  "cell_of_bytes (byte_of_cell 0 v) (byte_of_cell 1 v) (byte_of_cell 2 v) (byte_of_cell 3 v) = v"
proof (rule bit_word_eqI)
  fix n assume n: "n < LENGTH(32)"
  have [simp]: "bit (ucast w :: cell) k \<longleftrightarrow> k < 8 \<and> bit w k" for w :: u8 and k
    using u8_bit_ge [of k w] by (cases "k < 8") (auto simp: bit_simps)
  have [simp]: "bit (byte_of_cell k v) j \<longleftrightarrow> j < 8 \<and> bit v (8 * k + j)" for k j
    by (auto simp: byte_of_cell_def bit_simps)
  from n show "bit (cell_of_bytes (byte_of_cell 0 v) (byte_of_cell 1 v) (byte_of_cell 2 v)
      (byte_of_cell 3 v)) n = bit v n"
    unfolding cell_of_bytes_def
    by (cases "n < 8"; cases "n < 16"; cases "n < 24") (auto simp: bit_simps)
qed

lemma store32_load32:
  assumes "store32 m a v = Some m'"
  shows "load32 m' a = Some v"
proof -
  have b: "in_block m a 4" and m': "m' = m[nat a := byte_of_cell 0 v, nat a + 1 := byte_of_cell 1 v,
      nat a + 2 := byte_of_cell 2 v, nat a + 3 := byte_of_cell 3 v]"
    using assms by (auto simp: store32_def split: if_splits)
  from b have len: "nat a + 3 < length m" by (simp add: in_block_def) linarith
  have "m' ! nat a = byte_of_cell 0 v" "m' ! (nat a + 1) = byte_of_cell 1 v"
    "m' ! (nat a + 2) = byte_of_cell 2 v" "m' ! (nat a + 3) = byte_of_cell 3 v"
    using len by (simp_all add: m' nth_list_update)
  moreover have "in_block m' a 4" using b by (simp add: m' in_block_def)
  ultimately show ?thesis using cell_of_bytes_of_cell [of v] by (simp add: load32_def)
qed

lemma store32_nth:
  assumes "store32 m a v = Some m'" "int i < a \<or> a + 4 \<le> int i"
  shows "m' ! i = m ! i"
  using assms by (auto simp: store32_def in_block_def nth_list_update split: if_splits)

lemma store32_load32_other:
  assumes "store32 m a v = Some m'" "b + 4 \<le> a \<or> a + 4 \<le> b"
  shows "load32 m' b = load32 m b"
proof (cases "in_block m b 4")
  case False
  then show ?thesis using in_block_length [OF store_length(3) [OF assms(1)], of b 4] by (simp add: load32_def)
next
  case True
  then have "0 \<le> b" by (simp add: in_block_def)
  then have "m' ! (nat b + k) = m ! (nat b + k)" if "k < 4" for k
    using assms(2) that by (intro store32_nth [OF assms(1)]) auto
  from this [of 0] this [of 1] this [of 2] this [of 3] show ?thesis
    using True store_length(3) [OF assms(1)] by (simp add: load32_def in_block_def)
qed

section \<open>Errors, statuses, parameters\<close>

text \<open>The values of the enum \<^verbatim>\<open>Embryo_Error\<close> that the machine itself uses.\<close>

definition EMBRYO_ERROR_NONE :: int where "EMBRYO_ERROR_NONE = 0"
definition EMBRYO_ERROR_STACKERR :: int where "EMBRYO_ERROR_STACKERR = 3"
definition EMBRYO_ERROR_BOUNDS :: int where "EMBRYO_ERROR_BOUNDS = 4"
definition EMBRYO_ERROR_MEMACCESS :: int where "EMBRYO_ERROR_MEMACCESS = 5"
definition EMBRYO_ERROR_INVINSTR :: int where "EMBRYO_ERROR_INVINSTR = 6"
definition EMBRYO_ERROR_STACKLOW :: int where "EMBRYO_ERROR_STACKLOW = 7"
definition EMBRYO_ERROR_HEAPLOW :: int where "EMBRYO_ERROR_HEAPLOW = 8"
definition EMBRYO_ERROR_CALLBACK :: int where "EMBRYO_ERROR_CALLBACK = 9"
definition EMBRYO_ERROR_DIVIDE :: int where "EMBRYO_ERROR_DIVIDE = 11"
definition EMBRYO_ERROR_SLEEP :: int where "EMBRYO_ERROR_SLEEP = 12"
definition EMBRYO_ERROR_INDEX :: int where "EMBRYO_ERROR_INDEX = 20"
definition EMBRYO_ERROR_INIT :: int where "EMBRYO_ERROR_INIT = 22"

lemmas embryo_errors =
  EMBRYO_ERROR_NONE_def EMBRYO_ERROR_STACKERR_def EMBRYO_ERROR_BOUNDS_def
  EMBRYO_ERROR_MEMACCESS_def EMBRYO_ERROR_INVINSTR_def EMBRYO_ERROR_STACKLOW_def
  EMBRYO_ERROR_HEAPLOW_def EMBRYO_ERROR_CALLBACK_def EMBRYO_ERROR_DIVIDE_def
  EMBRYO_ERROR_SLEEP_def EMBRYO_ERROR_INDEX_def EMBRYO_ERROR_INIT_def

datatype embryo_status =
    EMBRYO_PROGRAM_FAIL | EMBRYO_PROGRAM_OK | EMBRYO_PROGRAM_SLEEP
  | EMBRYO_PROGRAM_BUSY | EMBRYO_PROGRAM_TOOLONG

definition EMBRYO_CELL_NONE :: cell where "EMBRYO_CELL_NONE = 0x7fffffff"
definition EMBRYO_FUNCTION_NONE :: cell where "EMBRYO_FUNCTION_NONE = 0x7fffffff"
definition EMBRYO_FUNCTION_MAIN :: cell where "EMBRYO_FUNCTION_MAIN = -1"
definition EMBRYO_FUNCTION_CONT :: cell where "EMBRYO_FUNCTION_CONT = -2"

definition EMBRYO_FLAG_COMPACT :: cell where "EMBRYO_FLAG_COMPACT = 0x04"
definition EMBRYO_FLAG_RELOC :: cell where "EMBRYO_FLAG_RELOC = 0x8000"

text \<open>\<^verbatim>\<open>STKMARGIN\<close>: sixteen cells.\<close>

definition STKMARGIN :: cell where "STKMARGIN = 64"

text \<open>
  \<^verbatim>\<open>Embryo_Param\<close>: the three ways a parameter is pushed. The C structure tells them
  apart by which pointer is set.
\<close>

datatype embryo_param = Param_string "u8 list" | Param_array "cell list" | Param_cell cell

record embryo_program =
  ep_base :: "mem option"
  ep_pushes :: int
  ep_cip :: cell
  ep_frm :: cell
  ep_hea :: cell
  ep_hlw :: cell
  ep_stk :: cell
  ep_stp :: cell
  ep_flags :: cell
  ep_error :: int
  ep_pri :: cell
  ep_alt :: cell
  ep_reset_stk :: cell
  ep_reset_hea :: cell
  ep_native_calls :: "nat option list"
  ep_native_calls_alloc :: nat
  ep_code :: mem
  ep_retval :: cell
  ep_params :: "embryo_param list"
  ep_params_size :: nat
  ep_params_alloc :: nat
  ep_run_count :: int
  ep_max_run_cycles :: int
  ep_data :: nat

section \<open>The file header and its tables\<close>

text \<open>Offsets of the packed structure \<^verbatim>\<open>Embryo_Header\<close>; its size is 56 bytes.\<close>

definition sizeof_Embryo_Header :: nat where "sizeof_Embryo_Header = 56"

definition hdr_size :: "mem \<Rightarrow> cell option" where "hdr_size m = load32 m 0"
definition hdr_magic :: "mem \<Rightarrow> u16 option" where "hdr_magic m = load16 m 4"
definition hdr_file_version :: "mem \<Rightarrow> u8 option" where "hdr_file_version m = load8 m 6"
definition hdr_ep_version :: "mem \<Rightarrow> u8 option" where "hdr_ep_version m = load8 m 7"
definition hdr_flags :: "mem \<Rightarrow> u16 option" where "hdr_flags m = load16 m 8"
definition hdr_defsize :: "mem \<Rightarrow> u16 option" where "hdr_defsize m = load16 m 10"
definition hdr_cod :: "mem \<Rightarrow> cell option" where "hdr_cod m = load32 m 12"
definition hdr_dat :: "mem \<Rightarrow> cell option" where "hdr_dat m = load32 m 16"
definition hdr_hea :: "mem \<Rightarrow> cell option" where "hdr_hea m = load32 m 20"
definition hdr_stp :: "mem \<Rightarrow> cell option" where "hdr_stp m = load32 m 24"
definition hdr_cip :: "mem \<Rightarrow> cell option" where "hdr_cip m = load32 m 28"
definition hdr_publics :: "mem \<Rightarrow> cell option" where "hdr_publics m = load32 m 32"
definition hdr_natives :: "mem \<Rightarrow> cell option" where "hdr_natives m = load32 m 36"
definition hdr_libraries :: "mem \<Rightarrow> cell option" where "hdr_libraries m = load32 m 40"
definition hdr_pubvars :: "mem \<Rightarrow> cell option" where "hdr_pubvars m = load32 m 44"
definition hdr_tags :: "mem \<Rightarrow> cell option" where "hdr_tags m = load32 m 48"
definition hdr_nametable :: "mem \<Rightarrow> cell option" where "hdr_nametable m = load32 m 52"

lemmas hdr_defs =
  hdr_size_def hdr_magic_def hdr_file_version_def hdr_ep_version_def hdr_flags_def
  hdr_defsize_def hdr_cod_def hdr_dat_def hdr_hea_def hdr_stp_def hdr_cip_def hdr_publics_def
  hdr_natives_def hdr_libraries_def hdr_pubvars_def hdr_tags_def hdr_nametable_def

text \<open>
  C division and remainder of \<^verbatim>\<open>int\<close>: the quotient truncates towards zero.
\<close>

definition c_div :: "int \<Rightarrow> int \<Rightarrow> int" where
  "c_div a b = sgn a * sgn b * (\<bar>a\<bar> div \<bar>b\<bar>)"

definition c_mod :: "int \<Rightarrow> int \<Rightarrow> int" where
  "c_mod a b = a - b * c_div a b"

text \<open>\<^verbatim>\<open>NUMENTRIES\<close>: entries between two tables.\<close>

definition numentries :: "cell option \<Rightarrow> cell option \<Rightarrow> u16 option \<Rightarrow> int option" where
  "numentries next field defsize =
     do { n \<leftarrow> next; f \<leftarrow> field; d \<leftarrow> defsize;
          if d = 0 then None else Some (c_div (sint (n - f)) (sint d)) }"

text \<open>\<^verbatim>\<open>GETENTRY\<close>: the block offset of an entry.\<close>

definition getentry :: "cell option \<Rightarrow> u16 option \<Rightarrow> int \<Rightarrow> int option" where
  "getentry table defsize idx =
     do { t \<leftarrow> table; d \<leftarrow> defsize; Some (sint t + idx * sint d) }"

text \<open>\<^verbatim>\<open>GETENTRYNAME\<close>: the block offset of an entry's name.\<close>

definition getentryname :: "mem \<Rightarrow> int \<Rightarrow> int option" where
  "getentryname m entry =
     do { d \<leftarrow> hdr_defsize m;
          if sint d = 8 then map_option uint (load32 m (entry + 4)) else Some (entry + 4) }"

text \<open>
  A C string in a block: the bytes up to the terminator, \<open>None\<close> when the terminator is
  not found inside the block.
\<close>

fun take_cstring :: "u8 list \<Rightarrow> u8 list option" where
  "take_cstring [] = None"
| "take_cstring (c # cs) = (if c = 0 then Some [] else map_option ((#) c) (take_cstring cs))"

definition cstring_at :: "mem \<Rightarrow> int \<Rightarrow> u8 list option" where
  "cstring_at m a = (if 0 \<le> a then take_cstring (drop (nat a) m) else None)"

end
