(* ===== verification/Embryo_Ops.thy ===== *)
theory Embryo_Ops
  imports Embryo_Program
begin

text \<open>
  The instructions of \<^verbatim>\<open>embryo_program_run\<close>
  (\<^verbatim>\<open>src/src/lib/embryo/embryo_amx.c\<close>), one definition per opcode, over the local
  registers of the run and the program record. The macros of \<^verbatim>\<open>embryo_private.h\<close>
  (\<^verbatim>\<open>GETPARAM\<close>, \<^verbatim>\<open>PUSH\<close>, \<^verbatim>\<open>POP\<close>, the \<^verbatim>\<open>CHK\<close> macros, \<^verbatim>\<open>ABORT\<close>, \<^verbatim>\<open>OK\<close>,
  \<^verbatim>\<open>TOOLONG\<close>) take the rest of the instruction as a continuation.

  A step ends in \<open>Next\<close> (the \<^verbatim>\<open>BREAK\<close> of the opcode), in \<open>Stop\<close> (a
  \<^verbatim>\<open>return\<close> from the run with a status) or in \<open>Fault\<close>: undefined behaviour of the C
  code, that is an access outside the memory block, a shift by a negative amount or by the
  cell width or more, and the division overflow that traps. Signed additions, subtractions,
  multiplications and left shifts of cells are taken modulo \<open>2 ^ 32\<close>.
\<close>

section \<open>Run-time state\<close>

text \<open>The local variables of the run that instructions change; \<open>cip\<close> is relative to the code.\<close>

record regs =
  pri :: cell
  alt :: cell
  stk :: cell
  frm :: cell
  hea :: cell
  cip :: int

text \<open>
  What is fixed during a run: the offsets of the code and data segments and the code size as
  read at entry, the values \<^verbatim>\<open>reset_stk\<close> and \<^verbatim>\<open>reset_hea\<close>, the cycle limit, and
  the native functions, which belong to the program that embeds the machine: a native gets the
  program record and the address of its parameters, and either returns a cell and the changed
  record or does not return.
\<close>

record run_env =
  re_code :: int
  re_data :: int
  re_codesize :: cell
  re_reset_stk :: cell
  re_reset_hea :: cell
  re_max :: int
  re_natives :: "nat \<Rightarrow> embryo_program \<Rightarrow> int \<Rightarrow> (cell \<times> embryo_program) option"

datatype step_result = Next regs embryo_program | Stop embryo_status embryo_program | Fault

type_synonym instr = "run_env \<Rightarrow> regs \<Rightarrow> embryo_program \<Rightarrow> step_result"

section \<open>Macros\<close>

definition peek :: "embryo_program \<Rightarrow> int \<Rightarrow> (cell \<Rightarrow> step_result) \<Rightarrow> step_result" where
  "peek p a k =
     (case ep_base p of None \<Rightarrow> Fault
      | Some m \<Rightarrow> (case load32 m a of None \<Rightarrow> Fault | Some v \<Rightarrow> k v))"

definition poke ::
    "embryo_program \<Rightarrow> int \<Rightarrow> cell \<Rightarrow> (embryo_program \<Rightarrow> step_result) \<Rightarrow> step_result" where
  "poke p a v k =
     (case ep_base p of None \<Rightarrow> Fault
      | Some m \<Rightarrow> (case store32 m a v of None \<Rightarrow> Fault
                 | Some m' \<Rightarrow> k (p\<lparr>ep_base := Some m'\<rparr>)))"

definition data_at :: "run_env \<Rightarrow> cell \<Rightarrow> int" where
  "data_at e off = re_data e + sint off"

definition frame_at :: "run_env \<Rightarrow> regs \<Rightarrow> cell \<Rightarrow> int" where
  "frame_at e r off = re_data e + sint (frm r) + sint off"

definition GETPARAM ::
    "run_env \<Rightarrow> regs \<Rightarrow> embryo_program \<Rightarrow> (cell \<Rightarrow> regs \<Rightarrow> step_result) \<Rightarrow> step_result" where
  "GETPARAM e r p k = peek p (re_code e + cip r) (\<lambda>v. k v (r\<lparr>cip := cip r + 4\<rparr>))"

definition PUSH ::
    "run_env \<Rightarrow> regs \<Rightarrow> embryo_program \<Rightarrow> cell \<Rightarrow> (regs \<Rightarrow> embryo_program \<Rightarrow> step_result)
      \<Rightarrow> step_result" where
  "PUSH e r p v k =
     (let r = r\<lparr>stk := stk r - 4\<rparr> in poke p (data_at e (stk r)) v (\<lambda>p. k r p))"

definition POP ::
    "run_env \<Rightarrow> regs \<Rightarrow> embryo_program \<Rightarrow> (cell \<Rightarrow> regs \<Rightarrow> step_result) \<Rightarrow> step_result" where
  "POP e r p k = peek p (data_at e (stk r)) (\<lambda>v. k v (r\<lparr>stk := stk r + 4\<rparr>))"

definition ABORT :: "run_env \<Rightarrow> embryo_program \<Rightarrow> int \<Rightarrow> step_result" where
  "ABORT e p v =
     Stop EMBRYO_PROGRAM_FAIL
       (p\<lparr>ep_stk := re_reset_stk e, ep_hea := re_reset_hea e,
          ep_run_count := ep_run_count p - 1, ep_error := v, ep_max_run_cycles := re_max e\<rparr>)"

definition OK :: "run_env \<Rightarrow> embryo_program \<Rightarrow> int \<Rightarrow> step_result" where
  "OK e p v =
     Stop EMBRYO_PROGRAM_OK
       (p\<lparr>ep_stk := re_reset_stk e, ep_hea := re_reset_hea e,
          ep_run_count := ep_run_count p - 1, ep_error := v, ep_max_run_cycles := re_max e\<rparr>)"

definition TOOLONG :: "run_env \<Rightarrow> regs \<Rightarrow> embryo_program \<Rightarrow> step_result" where
  "TOOLONG e r p =
     Stop EMBRYO_PROGRAM_TOOLONG
       (p\<lparr>ep_pri := pri r, ep_cip := of_int (cip r), ep_alt := alt r, ep_frm := frm r,
          ep_stk := stk r, ep_hea := hea r, ep_reset_stk := re_reset_stk e,
          ep_reset_hea := re_reset_hea e, ep_run_count := ep_run_count p - 1,
          ep_max_run_cycles := re_max e\<rparr>)"

definition CHKMARGIN :: "regs \<Rightarrow> embryo_program \<Rightarrow> step_result \<Rightarrow> step_result" where
  "CHKMARGIN r p k =
     (if sint (stk r) < sint (hea r + STKMARGIN)
      then Stop EMBRYO_PROGRAM_FAIL (p\<lparr>ep_error := EMBRYO_ERROR_STACKERR\<rparr>) else k)"

definition CHKSTACK :: "regs \<Rightarrow> embryo_program \<Rightarrow> step_result \<Rightarrow> step_result" where
  "CHKSTACK r p k =
     (if sint (ep_stp p) < sint (stk r)
      then Stop EMBRYO_PROGRAM_FAIL
             (p\<lparr>ep_run_count := ep_run_count p - 1, ep_error := EMBRYO_ERROR_STACKLOW\<rparr>)
      else k)"

definition CHKHEAP :: "regs \<Rightarrow> embryo_program \<Rightarrow> step_result \<Rightarrow> step_result" where
  "CHKHEAP r p k =
     (if sint (hea r) < sint (ep_hlw p)
      then Stop EMBRYO_PROGRAM_FAIL
             (p\<lparr>ep_run_count := ep_run_count p - 1, ep_error := EMBRYO_ERROR_HEAPLOW\<rparr>)
      else k)"

definition mem_protected :: "regs \<Rightarrow> embryo_program \<Rightarrow> cell \<Rightarrow> bool" where
  "mem_protected r p x \<longleftrightarrow>
     sint (hea r) \<le> sint x \<and> sint x < sint (stk r) \<or> ep_stp p \<le> x"

definition CHKMEM ::
    "run_env \<Rightarrow> regs \<Rightarrow> embryo_program \<Rightarrow> cell \<Rightarrow> step_result \<Rightarrow> step_result" where
  "CHKMEM e r p x k = (if mem_protected r p x then ABORT e p EMBRYO_ERROR_MEMACCESS else k)"

text \<open>\<^verbatim>\<open>cip = JUMPABS (code, cip)\<close>, and the skip of the untaken address.\<close>

definition jumpabs :: instr where
  "jumpabs e r p = peek p (re_code e + cip r) (\<lambda>v. Next (r\<lparr>cip := sint v\<rparr>) p)"

definition jump_if :: "bool \<Rightarrow> instr" where
  "jump_if b e r p = (if b then jumpabs e r p else Next (r\<lparr>cip := cip r + 4\<rparr>) p)"

definition of_cond :: "bool \<Rightarrow> cell" where
  "of_cond b = (if b then 1 else 0)"

text \<open>A shift amount the C operators define.\<close>

definition shift_ok :: "cell \<Rightarrow> bool" where
  "shift_ok n \<longleftrightarrow> 0 \<le> sint n \<and> sint n < 32"

text \<open>Consecutive bytes of the block.\<close>

definition load_bytes :: "mem \<Rightarrow> int \<Rightarrow> nat \<Rightarrow> u8 list option" where
  "load_bytes m a n = (if in_block m a n then Some (take n (drop (nat a) m)) else None)"

definition store_bytes :: "mem \<Rightarrow> int \<Rightarrow> u8 list \<Rightarrow> mem option" where
  "store_bytes m a bs =
     (if in_block m a (length bs)
      then Some (take (nat a) m @ bs @ drop (nat a + length bs) m) else None)"

section \<open>Loads\<close>

definition op_load_pri :: instr where
  "op_load_pri e r p = GETPARAM e r p (\<lambda>offs r.
     peek p (data_at e offs) (\<lambda>v. Next (r\<lparr>pri := v\<rparr>) p))"

definition op_load_alt :: instr where
  "op_load_alt e r p = GETPARAM e r p (\<lambda>offs r.
     peek p (data_at e offs) (\<lambda>v. Next (r\<lparr>alt := v\<rparr>) p))"

definition op_load_s_pri :: instr where
  "op_load_s_pri e r p = GETPARAM e r p (\<lambda>offs r.
     peek p (frame_at e r offs) (\<lambda>v. Next (r\<lparr>pri := v\<rparr>) p))"

definition op_load_s_alt :: instr where
  "op_load_s_alt e r p = GETPARAM e r p (\<lambda>offs r.
     peek p (frame_at e r offs) (\<lambda>v. Next (r\<lparr>alt := v\<rparr>) p))"

definition op_lref_pri :: instr where
  "op_lref_pri e r p = GETPARAM e r p (\<lambda>offs r.
     peek p (data_at e offs) (\<lambda>offs. peek p (data_at e offs) (\<lambda>v. Next (r\<lparr>pri := v\<rparr>) p)))"

definition op_lref_alt :: instr where
  "op_lref_alt e r p = GETPARAM e r p (\<lambda>offs r.
     peek p (data_at e offs) (\<lambda>offs. peek p (data_at e offs) (\<lambda>v. Next (r\<lparr>alt := v\<rparr>) p)))"

definition op_lref_s_pri :: instr where
  "op_lref_s_pri e r p = GETPARAM e r p (\<lambda>offs r.
     peek p (frame_at e r offs) (\<lambda>offs. peek p (data_at e offs) (\<lambda>v. Next (r\<lparr>pri := v\<rparr>) p)))"

definition op_lref_s_alt :: instr where
  "op_lref_s_alt e r p = GETPARAM e r p (\<lambda>offs r.
     peek p (frame_at e r offs) (\<lambda>offs. peek p (data_at e offs) (\<lambda>v. Next (r\<lparr>alt := v\<rparr>) p)))"

definition op_load_i :: instr where
  "op_load_i e r p = CHKMEM e r p (pri r)
     (peek p (data_at e (pri r)) (\<lambda>v. Next (r\<lparr>pri := v\<rparr>) p))"

definition op_lodb_i :: instr where
  "op_lodb_i e r p = GETPARAM e r p (\<lambda>offs r. CHKMEM e r p (pri r)
     (case ep_base p of None \<Rightarrow> Fault
      | Some m \<Rightarrow>
          if offs = 1 then
            (case load8 m (data_at e (pri r)) of None \<Rightarrow> Fault
             | Some v \<Rightarrow> Next (r\<lparr>pri := ucast v\<rparr>) p)
          else if offs = 2 then
            (case load16 m (data_at e (pri r)) of None \<Rightarrow> Fault
             | Some v \<Rightarrow> Next (r\<lparr>pri := ucast v\<rparr>) p)
          else if offs = 4 then
            (case load32 m (data_at e (pri r)) of None \<Rightarrow> Fault
             | Some v \<Rightarrow> Next (r\<lparr>pri := v\<rparr>) p)
          else ABORT e p EMBRYO_ERROR_INVINSTR))"

definition op_const_pri :: instr where
  "op_const_pri e r p = GETPARAM e r p (\<lambda>v r. Next (r\<lparr>pri := v\<rparr>) p)"

definition op_const_alt :: instr where
  "op_const_alt e r p = GETPARAM e r p (\<lambda>v r. Next (r\<lparr>alt := v\<rparr>) p)"

definition op_addr_pri :: instr where
  "op_addr_pri e r p = GETPARAM e r p (\<lambda>v r. Next (r\<lparr>pri := v + frm r\<rparr>) p)"

definition op_addr_alt :: instr where
  "op_addr_alt e r p = GETPARAM e r p (\<lambda>v r. Next (r\<lparr>alt := v + frm r\<rparr>) p)"

section \<open>Stores\<close>

definition op_stor_pri :: instr where
  "op_stor_pri e r p = GETPARAM e r p (\<lambda>offs r.
     poke p (data_at e offs) (pri r) (\<lambda>p. Next r p))"

definition op_stor_alt :: instr where
  "op_stor_alt e r p = GETPARAM e r p (\<lambda>offs r.
     poke p (data_at e offs) (alt r) (\<lambda>p. Next r p))"

definition op_stor_s_pri :: instr where
  "op_stor_s_pri e r p = GETPARAM e r p (\<lambda>offs r.
     poke p (frame_at e r offs) (pri r) (\<lambda>p. Next r p))"

definition op_stor_s_alt :: instr where
  "op_stor_s_alt e r p = GETPARAM e r p (\<lambda>offs r.
     poke p (frame_at e r offs) (alt r) (\<lambda>p. Next r p))"

definition op_sref_pri :: instr where
  "op_sref_pri e r p = GETPARAM e r p (\<lambda>offs r.
     peek p (data_at e offs) (\<lambda>offs. poke p (data_at e offs) (pri r) (\<lambda>p. Next r p)))"

definition op_sref_alt :: instr where
  "op_sref_alt e r p = GETPARAM e r p (\<lambda>offs r.
     peek p (data_at e offs) (\<lambda>offs. poke p (data_at e offs) (alt r) (\<lambda>p. Next r p)))"

definition op_sref_s_pri :: instr where
  "op_sref_s_pri e r p = GETPARAM e r p (\<lambda>offs r.
     peek p (frame_at e r offs) (\<lambda>offs. poke p (data_at e offs) (pri r) (\<lambda>p. Next r p)))"

definition op_sref_s_alt :: instr where
  "op_sref_s_alt e r p = GETPARAM e r p (\<lambda>offs r.
     peek p (frame_at e r offs) (\<lambda>offs. poke p (data_at e offs) (alt r) (\<lambda>p. Next r p)))"

definition op_stor_i :: instr where
  "op_stor_i e r p = CHKMEM e r p (alt r)
     (poke p (data_at e (alt r)) (pri r) (\<lambda>p. Next r p))"

definition op_strb_i :: instr where
  "op_strb_i e r p = GETPARAM e r p (\<lambda>offs r. CHKMEM e r p (alt r)
     (case ep_base p of None \<Rightarrow> Fault
      | Some m \<Rightarrow>
          if offs = 1 then
            (case store8 m (data_at e (alt r)) (pri r) of None \<Rightarrow> Fault
             | Some m' \<Rightarrow> Next r (p\<lparr>ep_base := Some m'\<rparr>))
          else if offs = 2 then
            (case store16 m (data_at e (alt r)) (pri r) of None \<Rightarrow> Fault
             | Some m' \<Rightarrow> Next r (p\<lparr>ep_base := Some m'\<rparr>))
          else if offs = 4 then
            (case store32 m (data_at e (alt r)) (pri r) of None \<Rightarrow> Fault
             | Some m' \<Rightarrow> Next r (p\<lparr>ep_base := Some m'\<rparr>))
          else ABORT e p EMBRYO_ERROR_INVINSTR))"

section \<open>Indexed access, alignment\<close>

definition op_lidx :: instr where
  "op_lidx e r p =
     (let offs = pri r * 4 + alt r in
      CHKMEM e r p offs (peek p (data_at e offs) (\<lambda>v. Next (r\<lparr>pri := v\<rparr>) p)))"

definition op_lidx_b :: instr where
  "op_lidx_b e r p = GETPARAM e r p (\<lambda>n r.
     if \<not> shift_ok n then Fault
     else let offs = push_bit (unat n) (pri r) + alt r in
          CHKMEM e r p offs (peek p (data_at e offs) (\<lambda>v. Next (r\<lparr>pri := v\<rparr>) p)))"

definition op_idxaddr :: instr where
  "op_idxaddr e r p = Next (r\<lparr>pri := pri r * 4 + alt r\<rparr>) p"

definition op_idxaddr_b :: instr where
  "op_idxaddr_b e r p = GETPARAM e r p (\<lambda>n r.
     if \<not> shift_ok n then Fault
     else Next (r\<lparr>pri := push_bit (unat n) (pri r) + alt r\<rparr>) p)"

text \<open>On a little-endian machine the alignment opcodes only consume their parameter.\<close>

definition op_align_pri :: instr where
  "op_align_pri e r p = GETPARAM e r p (\<lambda>_ r. Next r p)"

definition op_align_alt :: instr where
  "op_align_alt e r p = GETPARAM e r p (\<lambda>_ r. Next r p)"

text \<open>The definitions of this group, for proofs that go through all of them.\<close>

lemmas op_memory_defs =
  op_load_pri_def op_load_alt_def op_load_s_pri_def op_load_s_alt_def op_lref_pri_def
  op_lref_alt_def op_lref_s_pri_def op_lref_s_alt_def op_load_i_def op_lodb_i_def
  op_const_pri_def op_const_alt_def op_addr_pri_def op_addr_alt_def op_stor_pri_def
  op_stor_alt_def op_stor_s_pri_def op_stor_s_alt_def op_sref_pri_def op_sref_alt_def
  op_sref_s_pri_def op_sref_s_alt_def op_stor_i_def op_strb_i_def op_lidx_def
  op_lidx_b_def op_idxaddr_def op_idxaddr_b_def op_align_pri_def op_align_alt_def

end
