(* ===== verification/Embryo_Ops_Control.thy ===== *)
theory Embryo_Ops_Control
  imports Embryo_Ops
begin

text \<open>
  The register, stack and control-flow instructions of \<^verbatim>\<open>embryo_program_run\<close>
  (\<^verbatim>\<open>src/src/lib/embryo/embryo_amx.c\<close>).
\<close>

section \<open>Control registers\<close>

definition op_lctrl :: instr where
  "op_lctrl e r p = GETPARAM e r p (\<lambda>offs r.
     if offs = 0 then peek p 12 (\<lambda>v. Next (r\<lparr>pri := v\<rparr>) p)
     else if offs = 1 then peek p 16 (\<lambda>v. Next (r\<lparr>pri := v\<rparr>) p)
     else if offs = 2 then Next (r\<lparr>pri := hea r\<rparr>) p
     else if offs = 3 then Next (r\<lparr>pri := ep_stp p\<rparr>) p
     else if offs = 4 then Next (r\<lparr>pri := stk r\<rparr>) p
     else if offs = 5 then Next (r\<lparr>pri := frm r\<rparr>) p
     else if offs = 6 then Next (r\<lparr>pri := of_int (cip r)\<rparr>) p
     else ABORT e p EMBRYO_ERROR_INVINSTR)"

definition op_sctrl :: instr where
  "op_sctrl e r p = GETPARAM e r p (\<lambda>offs r.
     if offs = 0 \<or> offs = 1 \<or> offs = 2 then Next (r\<lparr>hea := pri r\<rparr>) p
     else if offs = 3 then Next r p
     else if offs = 4 then Next (r\<lparr>stk := pri r\<rparr>) p
     else if offs = 5 then Next (r\<lparr>frm := pri r\<rparr>) p
     else if offs = 6 then Next (r\<lparr>cip := sint (pri r)\<rparr>) p
     else ABORT e p EMBRYO_ERROR_INVINSTR)"

definition op_move_pri :: instr where
  "op_move_pri e r p = Next (r\<lparr>pri := alt r\<rparr>) p"

definition op_move_alt :: instr where
  "op_move_alt e r p = Next (r\<lparr>alt := pri r\<rparr>) p"

definition op_xchg :: instr where
  "op_xchg e r p = Next (r\<lparr>pri := alt r, alt := pri r\<rparr>) p"

section \<open>Stack and heap\<close>

definition op_push_pri :: instr where
  "op_push_pri e r p = PUSH e r p (pri r) Next"

definition op_push_alt :: instr where
  "op_push_alt e r p = PUSH e r p (alt r) Next"

definition op_push_c :: instr where
  "op_push_c e r p = GETPARAM e r p (\<lambda>offs r. PUSH e r p offs Next)"

text \<open>
  \<^verbatim>\<open>while (offs--) PUSH (pri)\<close>: as many pushes as \<^verbatim>\<open>offs\<close> read as unsigned, unless
  one of them leaves the block first.
\<close>

fun push_times :: "nat \<Rightarrow> instr" where
  "push_times 0 e r p = Next r p"
| "push_times (Suc n) e r p = PUSH e r p (pri r) (\<lambda>r p. push_times n e r p)"

definition op_push_r :: instr where
  "op_push_r e r p = GETPARAM e r p (\<lambda>offs r. push_times (unat offs) e r p)"

definition op_push :: instr where
  "op_push e r p = GETPARAM e r p (\<lambda>offs r.
     peek p (data_at e offs) (\<lambda>v. PUSH e r p v Next))"

definition op_push_s :: instr where
  "op_push_s e r p = GETPARAM e r p (\<lambda>offs r.
     peek p (frame_at e r offs) (\<lambda>v. PUSH e r p v Next))"

definition op_pop_pri :: instr where
  "op_pop_pri e r p = POP e r p (\<lambda>v r. Next (r\<lparr>pri := v\<rparr>) p)"

definition op_pop_alt :: instr where
  "op_pop_alt e r p = POP e r p (\<lambda>v r. Next (r\<lparr>alt := v\<rparr>) p)"

definition op_stack :: instr where
  "op_stack e r p = GETPARAM e r p (\<lambda>offs r.
     let r = r\<lparr>alt := stk r, stk := stk r + offs\<rparr>
     in CHKMARGIN r p (CHKSTACK r p (Next r p)))"

definition op_heap :: instr where
  "op_heap e r p = GETPARAM e r p (\<lambda>offs r.
     let r = r\<lparr>alt := hea r, hea := hea r + offs\<rparr>
     in CHKMARGIN r p (CHKHEAP r p (Next r p)))"

section \<open>Calls and returns\<close>

definition op_proc :: instr where
  "op_proc e r p = PUSH e r p (frm r) (\<lambda>r p.
     let r = r\<lparr>frm := stk r\<rparr> in CHKMARGIN r p (Next r p))"

definition op_ret :: instr where
  "op_ret e r p = POP e r p (\<lambda>f r. let r = r\<lparr>frm := f\<rparr> in
     POP e r p (\<lambda>offs r.
       if re_codesize e \<le> offs then ABORT e p EMBRYO_ERROR_MEMACCESS
       else Next (r\<lparr>cip := sint offs\<rparr>) p))"

definition op_retn :: instr where
  "op_retn e r p = POP e r p (\<lambda>f r. let r = r\<lparr>frm := f\<rparr> in
     POP e r p (\<lambda>offs r.
       if re_codesize e \<le> offs then ABORT e p EMBRYO_ERROR_MEMACCESS
       else let r = r\<lparr>cip := sint offs\<rparr> in
            peek p (data_at e (stk r)) (\<lambda>n.
              let r = r\<lparr>stk := stk r + (n + 4)\<rparr> in Next r (p\<lparr>ep_stk := stk r\<rparr>))))"

definition op_call :: instr where
  "op_call e r p = PUSH e r p (of_int (cip r) + 4) (\<lambda>r p. jumpabs e r p)"

definition op_call_pri :: instr where
  "op_call_pri e r p = PUSH e r p (of_int (cip r)) (\<lambda>r p. Next (r\<lparr>cip := sint (pri r)\<rparr>) p)"

section \<open>Jumps\<close>

definition op_jump :: instr where
  "op_jump e r p = jumpabs e r p"

definition op_jrel :: instr where
  "op_jrel e r p = peek p (re_code e + cip r) (\<lambda>offs.
     Next (r\<lparr>cip := cip r + sint offs + 4\<rparr>) p)"

definition op_jzer :: instr where
  "op_jzer e r p = jump_if (pri r = 0) e r p"

definition op_jnz :: instr where
  "op_jnz e r p = jump_if (pri r \<noteq> 0) e r p"

definition op_jeq :: instr where
  "op_jeq e r p = jump_if (pri r = alt r) e r p"

definition op_jneq :: instr where
  "op_jneq e r p = jump_if (pri r \<noteq> alt r) e r p"

definition op_jless :: instr where
  "op_jless e r p = jump_if (pri r < alt r) e r p"

definition op_jleq :: instr where
  "op_jleq e r p = jump_if (pri r \<le> alt r) e r p"

definition op_jgrtr :: instr where
  "op_jgrtr e r p = jump_if (alt r < pri r) e r p"

definition op_jgeq :: instr where
  "op_jgeq e r p = jump_if (alt r \<le> pri r) e r p"

definition op_jsless :: instr where
  "op_jsless e r p = jump_if (sint (pri r) < sint (alt r)) e r p"

definition op_jsleq :: instr where
  "op_jsleq e r p = jump_if (sint (pri r) \<le> sint (alt r)) e r p"

definition op_jsgrtr :: instr where
  "op_jsgrtr e r p = jump_if (sint (alt r) < sint (pri r)) e r p"

definition op_jsgeq :: instr where
  "op_jsgeq e r p = jump_if (sint (alt r) \<le> sint (pri r)) e r p"

definition op_jump_pri :: instr where
  "op_jump_pri e r p = Next (r\<lparr>cip := sint (pri r)\<rparr>) p"

text \<open>
  The case table: \<open>n\<close> records of a value and an address, from offset \<open>a\<close>. The scan
  stops at the first record whose value is \<^verbatim>\<open>pri\<close>; \<open>dflt\<close> is the address of the
  none-matched case.
\<close>

fun switch_scan :: "nat \<Rightarrow> int \<Rightarrow> int \<Rightarrow> instr" where
  "switch_scan 0 a dflt e r p = Next (r\<lparr>cip := dflt\<rparr>) p"
| "switch_scan (Suc n) a dflt e r p = peek p (re_code e + a) (\<lambda>v.
     if v = pri r
     then peek p (re_code e + a + 4) (\<lambda>t. Next (r\<lparr>cip := sint t\<rparr>) p)
     else switch_scan n (a + 8) dflt e r p)"

definition op_switch :: instr where
  "op_switch e r p = peek p (re_code e + cip r) (\<lambda>tbl.
     let cptr = sint tbl + 4 in
     peek p (re_code e + cptr) (\<lambda>num.
       peek p (re_code e + cptr + 4) (\<lambda>dflt.
         switch_scan (nat (sint num)) (cptr + 8) (sint dflt) e r p)))"

section \<open>Exchange with the stack top, addresses, no-operations\<close>

definition op_swap_pri :: instr where
  "op_swap_pri e r p = peek p (data_at e (stk r)) (\<lambda>offs.
     poke p (data_at e (stk r)) (pri r) (\<lambda>p. Next (r\<lparr>pri := offs\<rparr>) p))"

definition op_swap_alt :: instr where
  "op_swap_alt e r p = peek p (data_at e (stk r)) (\<lambda>offs.
     poke p (data_at e (stk r)) (alt r) (\<lambda>p. Next (r\<lparr>alt := offs\<rparr>) p))"

definition op_pushaddr :: instr where
  "op_pushaddr e r p = GETPARAM e r p (\<lambda>offs r. PUSH e r p (frm r + offs) Next)"

text \<open>
  \<^verbatim>\<open>EMBRYO_OP_NONE\<close>, the debugging opcodes and every value past the last opcode only
  move on to the next cell.
\<close>

definition op_none :: instr where
  "op_none e r p = Next r p"

definition op_nop :: instr where
  "op_nop e r p = Next r p"

text \<open>The definitions of this group, for proofs that go through all of them.\<close>

lemmas op_control_defs =
  op_lctrl_def op_sctrl_def op_move_pri_def op_move_alt_def op_xchg_def
  op_push_pri_def op_push_alt_def op_push_c_def op_push_r_def op_push_def
  op_push_s_def op_pop_pri_def op_pop_alt_def op_stack_def op_heap_def
  op_proc_def op_ret_def op_retn_def op_call_def op_call_pri_def
  op_jump_def op_jrel_def op_jzer_def op_jnz_def op_jeq_def
  op_jneq_def op_jless_def op_jleq_def op_jgrtr_def op_jgeq_def
  op_jsless_def op_jsleq_def op_jsgrtr_def op_jsgeq_def op_jump_pri_def
  op_switch_def op_swap_pri_def op_swap_alt_def op_pushaddr_def op_none_def
  op_nop_def

end
