(* ===== verification/Embryo_Ops_Alu.thy ===== *)
theory Embryo_Ops_Alu
  imports Embryo_Ops
begin

text \<open>
  The arithmetic, logic, comparison and counting instructions of
  \<^verbatim>\<open>embryo_program_run\<close> (\<^verbatim>\<open>src/src/lib/embryo/embryo_amx.c\<close>).
\<close>

section \<open>Shifts\<close>

definition op_shl :: instr where
  "op_shl e r p =
     (if shift_ok (alt r) then Next (r\<lparr>pri := push_bit (unat (alt r)) (pri r)\<rparr>) p else Fault)"

definition op_shr :: instr where
  "op_shr e r p =
     (if shift_ok (alt r) then Next (r\<lparr>pri := drop_bit (unat (alt r)) (pri r)\<rparr>) p else Fault)"

definition op_sshr :: instr where
  "op_sshr e r p =
     (if shift_ok (alt r)
      then Next (r\<lparr>pri := signed_drop_bit (unat (alt r)) (pri r)\<rparr>) p else Fault)"

definition op_shl_c_pri :: instr where
  "op_shl_c_pri e r p = GETPARAM e r p (\<lambda>n r.
     if shift_ok n then Next (r\<lparr>pri := push_bit (unat n) (pri r)\<rparr>) p else Fault)"

definition op_shl_c_alt :: instr where
  "op_shl_c_alt e r p = GETPARAM e r p (\<lambda>n r.
     if shift_ok n then Next (r\<lparr>alt := push_bit (unat n) (alt r)\<rparr>) p else Fault)"

definition op_shr_c_pri :: instr where
  "op_shr_c_pri e r p = GETPARAM e r p (\<lambda>n r.
     if shift_ok n then Next (r\<lparr>pri := drop_bit (unat n) (pri r)\<rparr>) p else Fault)"

definition op_shr_c_alt :: instr where
  "op_shr_c_alt e r p = GETPARAM e r p (\<lambda>n r.
     if shift_ok n then Next (r\<lparr>alt := drop_bit (unat n) (alt r)\<rparr>) p else Fault)"

section \<open>Multiplication and division\<close>

definition op_smul :: instr where
  "op_smul e r p = Next (r\<lparr>pri := pri r * alt r\<rparr>) p"

text \<open>
  The signed division of the C code, dividend \<open>n\<close> by divisor \<open>d\<close>: the remainder is
  made to have the sign of the divisor before dividing. \<open>None\<close> where a C operator traps
  (the quotient \<open>INT_MIN / -1\<close>); the sum of the remainder and the divisor wraps.
\<close>

definition c_divides :: "cell \<Rightarrow> cell \<Rightarrow> bool" where
  "c_divides n d \<longleftrightarrow> d \<noteq> 0 \<and> \<not> (sint n = - 2147483648 \<and> sint d = -1)"

definition cell_sdiv :: "cell \<Rightarrow> cell \<Rightarrow> cell" where
  "cell_sdiv n d = of_int (c_div (sint n) (sint d))"

definition cell_srem :: "cell \<Rightarrow> cell \<Rightarrow> cell" where
  "cell_srem n d = of_int (c_mod (sint n) (sint d))"

definition floor_div :: "cell \<Rightarrow> cell \<Rightarrow> (cell \<times> cell) option" where
  "floor_div n d =
     (if \<not> c_divides n d then None
      else let s = cell_srem n d + d in
           if \<not> c_divides s d then None
           else let offs = cell_srem s d in
                if \<not> c_divides (n - offs) d then None
                else Some (cell_sdiv (n - offs) d, offs))"

definition op_sdiv :: instr where
  "op_sdiv e r p =
     (if alt r = 0 then ABORT e p EMBRYO_ERROR_DIVIDE
      else case floor_div (pri r) (alt r) of None \<Rightarrow> Fault
           | Some (q, m) \<Rightarrow> Next (r\<lparr>pri := q, alt := m\<rparr>) p)"

definition op_sdiv_alt :: instr where
  "op_sdiv_alt e r p =
     (if pri r = 0 then ABORT e p EMBRYO_ERROR_DIVIDE
      else case floor_div (alt r) (pri r) of None \<Rightarrow> Fault
           | Some (q, m) \<Rightarrow> Next (r\<lparr>pri := q, alt := m\<rparr>) p)"

definition op_umul :: instr where
  "op_umul e r p = Next (r\<lparr>pri := pri r * alt r\<rparr>) p"

definition op_udiv :: instr where
  "op_udiv e r p =
     (if alt r = 0 then ABORT e p EMBRYO_ERROR_DIVIDE
      else Next (r\<lparr>pri := pri r div alt r, alt := pri r mod alt r\<rparr>) p)"

definition op_udiv_alt :: instr where
  "op_udiv_alt e r p =
     (if pri r = 0 then ABORT e p EMBRYO_ERROR_DIVIDE
      else Next (r\<lparr>pri := alt r div pri r, alt := alt r mod pri r\<rparr>) p)"

section \<open>Addition, logic\<close>

definition op_add :: instr where
  "op_add e r p = Next (r\<lparr>pri := pri r + alt r\<rparr>) p"

definition op_sub :: instr where
  "op_sub e r p = Next (r\<lparr>pri := pri r - alt r\<rparr>) p"

definition op_sub_alt :: instr where
  "op_sub_alt e r p = Next (r\<lparr>pri := alt r - pri r\<rparr>) p"

definition op_and :: instr where
  "op_and e r p = Next (r\<lparr>pri := pri r AND alt r\<rparr>) p"

definition op_or :: instr where
  "op_or e r p = Next (r\<lparr>pri := pri r OR alt r\<rparr>) p"

definition op_xor :: instr where
  "op_xor e r p = Next (r\<lparr>pri := pri r XOR alt r\<rparr>) p"

definition op_not :: instr where
  "op_not e r p = Next (r\<lparr>pri := of_cond (pri r = 0)\<rparr>) p"

definition op_neg :: instr where
  "op_neg e r p = Next (r\<lparr>pri := - pri r\<rparr>) p"

definition op_invert :: instr where
  "op_invert e r p = Next (r\<lparr>pri := NOT (pri r)\<rparr>) p"

definition op_add_c :: instr where
  "op_add_c e r p = GETPARAM e r p (\<lambda>offs r. Next (r\<lparr>pri := pri r + offs\<rparr>) p)"

definition op_smul_c :: instr where
  "op_smul_c e r p = GETPARAM e r p (\<lambda>offs r. Next (r\<lparr>pri := pri r * offs\<rparr>) p)"

definition op_zero_pri :: instr where
  "op_zero_pri e r p = Next (r\<lparr>pri := 0\<rparr>) p"

definition op_zero_alt :: instr where
  "op_zero_alt e r p = Next (r\<lparr>alt := 0\<rparr>) p"

definition op_zero :: instr where
  "op_zero e r p = GETPARAM e r p (\<lambda>offs r. poke p (data_at e offs) 0 (\<lambda>p. Next r p))"

definition op_zero_s :: instr where
  "op_zero_s e r p = GETPARAM e r p (\<lambda>offs r. poke p (frame_at e r offs) 0 (\<lambda>p. Next r p))"

definition op_sign_pri :: instr where
  "op_sign_pri e r p =
     Next (if 0x80 \<le> pri r AND 0xff then r\<lparr>pri := pri r OR NOT 0xff\<rparr> else r) p"

definition op_sign_alt :: instr where
  "op_sign_alt e r p =
     Next (if 0x80 \<le> alt r AND 0xff then r\<lparr>alt := alt r OR NOT 0xff\<rparr> else r) p"

section \<open>Comparisons\<close>

definition op_eq :: instr where
  "op_eq e r p = Next (r\<lparr>pri := of_cond (pri r = alt r)\<rparr>) p"

definition op_neq :: instr where
  "op_neq e r p = Next (r\<lparr>pri := of_cond (pri r \<noteq> alt r)\<rparr>) p"

definition op_less :: instr where
  "op_less e r p = Next (r\<lparr>pri := of_cond (pri r < alt r)\<rparr>) p"

definition op_leq :: instr where
  "op_leq e r p = Next (r\<lparr>pri := of_cond (pri r \<le> alt r)\<rparr>) p"

definition op_grtr :: instr where
  "op_grtr e r p = Next (r\<lparr>pri := of_cond (alt r < pri r)\<rparr>) p"

definition op_geq :: instr where
  "op_geq e r p = Next (r\<lparr>pri := of_cond (alt r \<le> pri r)\<rparr>) p"

definition op_sless :: instr where
  "op_sless e r p = Next (r\<lparr>pri := of_cond (sint (pri r) < sint (alt r))\<rparr>) p"

definition op_sleq :: instr where
  "op_sleq e r p = Next (r\<lparr>pri := of_cond (sint (pri r) \<le> sint (alt r))\<rparr>) p"

definition op_sgrtr :: instr where
  "op_sgrtr e r p = Next (r\<lparr>pri := of_cond (sint (alt r) < sint (pri r))\<rparr>) p"

definition op_sgeq :: instr where
  "op_sgeq e r p = Next (r\<lparr>pri := of_cond (sint (alt r) \<le> sint (pri r))\<rparr>) p"

definition op_eq_c_pri :: instr where
  "op_eq_c_pri e r p = GETPARAM e r p (\<lambda>offs r. Next (r\<lparr>pri := of_cond (pri r = offs)\<rparr>) p)"

definition op_eq_c_alt :: instr where
  "op_eq_c_alt e r p = GETPARAM e r p (\<lambda>offs r. Next (r\<lparr>pri := of_cond (alt r = offs)\<rparr>) p)"

section \<open>Counting\<close>

definition op_inc_pri :: instr where
  "op_inc_pri e r p = Next (r\<lparr>pri := pri r + 1\<rparr>) p"

definition op_inc_alt :: instr where
  "op_inc_alt e r p = Next (r\<lparr>alt := alt r + 1\<rparr>) p"

definition op_inc :: instr where
  "op_inc e r p = GETPARAM e r p (\<lambda>offs r.
     peek p (data_at e offs) (\<lambda>v. poke p (data_at e offs) (v + 1) (\<lambda>p. Next r p)))"

definition op_inc_s :: instr where
  "op_inc_s e r p = GETPARAM e r p (\<lambda>offs r.
     peek p (frame_at e r offs) (\<lambda>v. poke p (frame_at e r offs) (v + 1) (\<lambda>p. Next r p)))"

definition op_inc_i :: instr where
  "op_inc_i e r p =
     peek p (data_at e (pri r)) (\<lambda>v. poke p (data_at e (pri r)) (v + 1) (\<lambda>p. Next r p))"

definition op_dec_pri :: instr where
  "op_dec_pri e r p = Next (r\<lparr>pri := pri r - 1\<rparr>) p"

definition op_dec_alt :: instr where
  "op_dec_alt e r p = Next (r\<lparr>alt := alt r - 1\<rparr>) p"

definition op_dec :: instr where
  "op_dec e r p = GETPARAM e r p (\<lambda>offs r.
     peek p (data_at e offs) (\<lambda>v. poke p (data_at e offs) (v - 1) (\<lambda>p. Next r p)))"

definition op_dec_s :: instr where
  "op_dec_s e r p = GETPARAM e r p (\<lambda>offs r.
     peek p (frame_at e r offs) (\<lambda>v. poke p (frame_at e r offs) (v - 1) (\<lambda>p. Next r p)))"

definition op_dec_i :: instr where
  "op_dec_i e r p =
     peek p (data_at e (pri r)) (\<lambda>v. poke p (data_at e (pri r)) (v - 1) (\<lambda>p. Next r p))"

text \<open>The definitions of this group, for proofs that go through all of them.\<close>

lemmas op_alu_defs =
  op_shl_def op_shr_def op_sshr_def op_shl_c_pri_def op_shl_c_alt_def
  op_shr_c_pri_def op_shr_c_alt_def op_smul_def op_sdiv_def op_sdiv_alt_def
  op_umul_def op_udiv_def op_udiv_alt_def op_add_def op_sub_def
  op_sub_alt_def op_and_def op_or_def op_xor_def op_not_def
  op_neg_def op_invert_def op_add_c_def op_smul_c_def op_zero_pri_def
  op_zero_alt_def op_zero_def op_zero_s_def op_sign_pri_def op_sign_alt_def
  op_eq_def op_neq_def op_less_def op_leq_def op_grtr_def
  op_geq_def op_sless_def op_sleq_def op_sgrtr_def op_sgeq_def
  op_eq_c_pri_def op_eq_c_alt_def op_inc_pri_def op_inc_alt_def op_inc_def
  op_inc_s_def op_inc_i_def op_dec_pri_def op_dec_alt_def op_dec_def
  op_dec_s_def op_dec_i_def

end
