(* ===== verification/Embryo_Ops_Block.thy ===== *)
theory Embryo_Ops_Block
  imports Embryo_Ops
begin

text \<open>
  The block, halt, bounds and native-call instructions of \<^verbatim>\<open>embryo_program_run\<close>
  (\<^verbatim>\<open>src/src/lib/embryo/embryo_amx.c\<close>).
\<close>

section \<open>Block moves, comparison and fill\<close>

text \<open>
  \<^verbatim>\<open>memcpy\<close> with the size \<^verbatim>\<open>(int)offs\<close>: a negative size is a huge \<^verbatim>\<open>size_t\<close>,
  overlapping ranges are undefined.
\<close>

definition memcpy_block :: "mem \<Rightarrow> int \<Rightarrow> int \<Rightarrow> int \<Rightarrow> mem option" where
  "memcpy_block m dst src n =
     (if n < 0 \<or> (0 < n \<and> \<bar>dst - src\<bar> < n) then None
      else do { bs \<leftarrow> load_bytes m src (nat n); store_bytes m dst bs })"

text \<open>
  \<^verbatim>\<open>memcmp\<close>: the bytes are compared as unsigned, the first difference decides. The C
  standard fixes only the sign of the result; the model returns -1, 0 or 1.
\<close>

fun memcmp_bytes :: "u8 list \<Rightarrow> u8 list \<Rightarrow> cell" where
  "memcmp_bytes (a # as) (b # bs) =
     (if a < b then -1 else if b < a then 1 else memcmp_bytes as bs)"
| "memcmp_bytes _ _ = 0"

definition memcmp_block :: "mem \<Rightarrow> int \<Rightarrow> int \<Rightarrow> int \<Rightarrow> cell option" where
  "memcmp_block m a b n =
     (if n < 0 then None
      else do { xs \<leftarrow> load_bytes m a (nat n); ys \<leftarrow> load_bytes m b (nat n);
                Some (memcmp_bytes xs ys) })"

definition op_movs :: instr where
  "op_movs e r p = GETPARAM e r p (\<lambda>offs r.
     CHKMEM e r p (pri r) (CHKMEM e r p (pri r + offs)
       (CHKMEM e r p (alt r) (CHKMEM e r p (alt r + offs)
         (case ep_base p of None \<Rightarrow> Fault
          | Some m \<Rightarrow>
             (case memcpy_block m (data_at e (alt r)) (data_at e (pri r)) (sint offs) of
                None \<Rightarrow> Fault
              | Some m' \<Rightarrow> Next r (p\<lparr>ep_base := Some m'\<rparr>)))))))"

definition op_cmps :: instr where
  "op_cmps e r p = GETPARAM e r p (\<lambda>offs r.
     CHKMEM e r p (pri r) (CHKMEM e r p (pri r + offs)
       (CHKMEM e r p (alt r) (CHKMEM e r p (alt r + offs)
         (case ep_base p of None \<Rightarrow> Fault
          | Some m \<Rightarrow>
             (case memcmp_block m (data_at e (alt r)) (data_at e (pri r)) (sint offs) of
                None \<Rightarrow> Fault
              | Some v \<Rightarrow> Next (r\<lparr>pri := v\<rparr>) p))))))"

text \<open>
  The fill loop from block offset \<open>a\<close>: it runs while \<^verbatim>\<open>(size_t)offs >= 4\<close>, which a
  negative \<^verbatim>\<open>offs\<close> satisfies for ever, so only the end of the block stops it.
\<close>

function fill_cells :: "mem \<Rightarrow> int \<Rightarrow> int \<Rightarrow> cell \<Rightarrow> mem option" where
  "fill_cells m a offs v =
     (if offs < 0 \<or> 4 \<le> offs
      then (case store32 m a v of None \<Rightarrow> None
            | Some m' \<Rightarrow> fill_cells m' (a + 4) (offs - 4) v)
      else Some m)"
  by pat_completeness auto
termination
  by (relation "measure (\<lambda>(m, a, offs, v). nat (int (length m) - a))")
    (auto simp: store_length, auto simp: store32_def in_block_def split: if_splits)

declare fill_cells.simps [simp del]

definition op_fill :: instr where
  "op_fill e r p = GETPARAM e r p (\<lambda>offs r.
     CHKMEM e r p (alt r) (CHKMEM e r p (alt r + offs)
       (case ep_base p of None \<Rightarrow> Fault
        | Some m \<Rightarrow>
           (case fill_cells m (data_at e (alt r)) (sint offs) (pri r) of None \<Rightarrow> Fault
            | Some m' \<Rightarrow> Next r (p\<lparr>ep_base := Some m'\<rparr>)))))"

section \<open>Halt and bounds check\<close>

definition op_halt :: instr where
  "op_halt e r p = GETPARAM e r p (\<lambda>offs r.
     let p = p\<lparr>ep_retval := pri r, ep_frm := frm r, ep_stk := stk r, ep_hea := hea r,
               ep_pri := pri r, ep_alt := alt r, ep_cip := of_int (cip r)\<rparr>
     in if sint offs = EMBRYO_ERROR_SLEEP
        then Stop EMBRYO_PROGRAM_SLEEP
               (p\<lparr>ep_reset_stk := re_reset_stk e, ep_reset_hea := re_reset_hea e,
                  ep_run_count := ep_run_count p - 1\<rparr>)
        else OK e p (sint offs))"

definition op_bounds :: instr where
  "op_bounds e r p = GETPARAM e r p (\<lambda>offs r.
     if offs < pri r then ABORT e p EMBRYO_ERROR_BOUNDS else Next r p)"

section \<open>Native calls\<close>

text \<open>
  \<^verbatim>\<open>_embryo_native_call\<close>: the error code, the value stored in \<^verbatim>\<open>*result\<close> if the
  function was called, and the program record. The index is not checked against the table.
\<close>

definition embryo_native_call ::
    "run_env \<Rightarrow> embryo_program \<Rightarrow> cell \<Rightarrow> int \<Rightarrow> (int \<times> cell option \<times> embryo_program) option" where
  "embryo_native_call e p idx params =
     do { m \<leftarrow> ep_base p;
          entry \<leftarrow> getentry (hdr_natives m) (hdr_defsize m) (sint idx);
          a \<leftarrow> load32 m entry;
          let n = sint a in
          if n \<le> 0 \<or> int (length (ep_native_calls p)) < n
          then Some (EMBRYO_ERROR_CALLBACK, None, p\<lparr>ep_error := EMBRYO_ERROR_CALLBACK\<rparr>)
          else (case ep_native_calls p ! nat (n - 1) of
                  None \<Rightarrow> Some (EMBRYO_ERROR_CALLBACK, None, p\<lparr>ep_error := EMBRYO_ERROR_CALLBACK\<rparr>)
                | Some f \<Rightarrow>
                    do { (v, p') \<leftarrow> re_natives e f (p\<lparr>ep_error := EMBRYO_ERROR_NONE\<rparr>) params;
                         Some (ep_error p', Some v, p') }) }"

text \<open>
  The body the three \<^verbatim>\<open>SYSREQ\<close> opcodes share: save the registers, call, and on an
  error either suspend or abort.
\<close>

definition sysreq :: "cell \<Rightarrow> instr" where
  "sysreq idx e r p =
     (let p = p\<lparr>ep_cip := of_int (cip r), ep_hea := hea r, ep_frm := frm r, ep_stk := stk r\<rparr>
      in case embryo_native_call e p idx (data_at e (stk r)) of None \<Rightarrow> Fault
         | Some (num, res, p) \<Rightarrow>
            (let r = (case res of None \<Rightarrow> r | Some v \<Rightarrow> r\<lparr>pri := v\<rparr>) in
             if num = EMBRYO_ERROR_NONE then Next r p
             else if num = EMBRYO_ERROR_SLEEP
             then Stop EMBRYO_PROGRAM_SLEEP
                    (p\<lparr>ep_pri := pri r, ep_alt := alt r, ep_reset_stk := re_reset_stk e,
                       ep_reset_hea := re_reset_hea e, ep_run_count := ep_run_count p - 1\<rparr>)
             else ABORT e p num))"

definition op_sysreq_pri :: instr where
  "op_sysreq_pri e r p = sysreq (pri r) e r p"

definition op_sysreq_c :: instr where
  "op_sysreq_c e r p = GETPARAM e r p (\<lambda>offs r. sysreq offs e r p)"

definition op_sysreq_d :: instr where
  "op_sysreq_d e r p = GETPARAM e r p (\<lambda>offs r. sysreq offs e r p)"

text \<open>The definitions of this group, for proofs that go through all of them.\<close>

lemmas op_block_defs =
  op_movs_def op_cmps_def op_fill_def op_halt_def op_bounds_def
  op_sysreq_pri_def op_sysreq_c_def op_sysreq_d_def

end
