(* ===== verification/Embryo_Run.thy ===== *)
theory Embryo_Run
  imports Embryo_Ops_Control Embryo_Ops_Alu Embryo_Ops_Block
begin

text \<open>
  The dispatch table and the main loop of \<^verbatim>\<open>embryo_program_run\<close>, and the operations on a
  program around it: loading, the two memory-block operations, symbol lookup, heap and string
  access, and the parameters of a call (\<^verbatim>\<open>src/src/lib/embryo/embryo_amx.c\<close>).
\<close>

section \<open>Dispatch\<close>

text \<open>
  \<^verbatim>\<open>switchtable\<close>, indexed by the opcode truncated to a byte. The opcodes
  \<^verbatim>\<open>NONE\<close>, \<^verbatim>\<open>FILE\<close>, \<^verbatim>\<open>LINE\<close>, \<^verbatim>\<open>SYMBOL\<close>, \<^verbatim>\<open>SRANGE\<close>, \<^verbatim>\<open>CASETBL\<close> and
  \<^verbatim>\<open>SYMTAG\<close> share one label, which also fills the table up to 256 entries.
\<close>

definition switchtable :: "instr list" where
  "switchtable =
    [op_none, op_load_pri, op_load_alt, op_load_s_pri, op_load_s_alt, op_lref_pri,
      op_lref_alt, op_lref_s_pri, op_lref_s_alt, op_load_i, op_lodb_i, op_const_pri,
      op_const_alt, op_addr_pri, op_addr_alt, op_stor_pri, op_stor_alt, op_stor_s_pri,
      op_stor_s_alt, op_sref_pri, op_sref_alt, op_sref_s_pri, op_sref_s_alt, op_stor_i,
      op_strb_i, op_lidx, op_lidx_b, op_idxaddr, op_idxaddr_b, op_align_pri,
      op_align_alt, op_lctrl, op_sctrl, op_move_pri, op_move_alt, op_xchg,
      op_push_pri, op_push_alt, op_push_r, op_push_c, op_push, op_push_s,
      op_pop_pri, op_pop_alt, op_stack, op_heap, op_proc, op_ret,
      op_retn, op_call, op_call_pri, op_jump, op_jrel, op_jzer,
      op_jnz, op_jeq, op_jneq, op_jless, op_jleq, op_jgrtr,
      op_jgeq, op_jsless, op_jsleq, op_jsgrtr, op_jsgeq, op_shl,
      op_shr, op_sshr, op_shl_c_pri, op_shl_c_alt, op_shr_c_pri, op_shr_c_alt,
      op_smul, op_sdiv, op_sdiv_alt, op_umul, op_udiv, op_udiv_alt,
      op_add, op_sub, op_sub_alt, op_and, op_or, op_xor,
      op_not, op_neg, op_invert, op_add_c, op_smul_c, op_zero_pri,
      op_zero_alt, op_zero, op_zero_s, op_sign_pri, op_sign_alt, op_eq,
      op_neq, op_less, op_leq, op_grtr, op_geq, op_sless,
      op_sleq, op_sgrtr, op_sgeq, op_eq_c_pri, op_eq_c_alt, op_inc_pri,
      op_inc_alt, op_inc, op_inc_s, op_inc_i, op_dec_pri, op_dec_alt,
      op_dec, op_dec_s, op_dec_i, op_movs, op_cmps, op_fill,
      op_halt, op_bounds, op_sysreq_pri, op_sysreq_c, op_none, op_none,
      op_none, op_none, op_jump_pri, op_switch, op_none, op_swap_pri,
      op_swap_alt, op_pushaddr, op_nop, op_sysreq_d, op_none]
     @ replicate 119 op_none"

text \<open>One turn of the loop: fetch, \<^verbatim>\<open>op = (unsigned char)*cip++\<close>, dispatch.\<close>

definition step :: instr where
  "step e r p = GETPARAM e r p (\<lambda>v r. (switchtable ! unat (ucast v :: u8)) e r p)"

section \<open>The loop\<close>

text \<open>
  \<open>run_loop n e c r p\<close> makes at most \<open>n\<close> turns, \<open>c\<close> being \<^verbatim>\<open>cycle_count\<close>;
  \<open>None\<close> means that the fuel \<open>n\<close> ran out first, which is the only way the loop itself
  may go on for ever.
\<close>

fun run_loop :: "nat \<Rightarrow> run_env \<Rightarrow> nat \<Rightarrow> regs \<Rightarrow> embryo_program \<Rightarrow> step_result option" where
  "run_loop 0 e c r p = None"
| "run_loop (Suc n) e c r p =
     (if 0 < re_max e \<and> re_max e \<le> int c then Some (TOOLONG e r p)
      else (case step e r p of
              Next r' p' \<Rightarrow> run_loop n e (if 0 < re_max e then Suc c else c) r' p'
            | res \<Rightarrow> Some res))"

end
