(* ===== verification/Efl_Order.thy ===== *)
theory Efl_Order
  imports Efl_Prelude
begin

text \<open>
  Keys under a three-way comparison, as the C code compares them: the contract
  \<open>key_order\<close> of a comparison function, what it gives for tables sorted by it, and
  \<^verbatim>\<open>strcmp\<close> as its first instance.
\<close>

section \<open>The contracts\<close>

text \<open>A comparison that orders keys up to ties, as sorting needs it.\<close>

locale cmp_preorder =
  fixes cmp :: "'k \<Rightarrow> 'k \<Rightarrow> int"
  assumes cmp_flip: "0 < cmp a b \<longleftrightarrow> cmp b a < 0"
    and cmp_le_trans: "cmp a b \<le> 0 \<Longrightarrow> cmp b c \<le> 0 \<Longrightarrow> cmp a c \<le> 0"
begin

lemma cmp_less_le_trans: "cmp a b < 0 \<Longrightarrow> cmp b c \<le> 0 \<Longrightarrow> cmp a c < 0"
  using cmp_le_trans [of a b c] cmp_le_trans [of b c a] cmp_flip [of b a] cmp_flip [of c a] cmp_flip [of a c]
  by linarith

lemma cmp_le_less_trans: "cmp a b \<le> 0 \<Longrightarrow> cmp b c < 0 \<Longrightarrow> cmp a c < 0"
  using cmp_le_trans [of a b c] cmp_le_trans [of c a b] cmp_flip [of c b] cmp_flip [of c a] cmp_flip [of a c]
  by linarith

lemma cmp_eq_trans: "cmp a b = 0 \<Longrightarrow> cmp b c = 0 \<Longrightarrow> cmp a c = 0"
  using cmp_le_trans [of a b c] cmp_le_trans [of c b a] cmp_flip [of a b] cmp_flip [of b c] cmp_flip [of a c]
    cmp_flip [of b a] cmp_flip [of c b] cmp_flip [of c a]
  by linarith

end

text \<open>A comparison that tells different keys apart.\<close>

locale key_order =
  fixes cmp :: "'k \<Rightarrow> 'k \<Rightarrow> int"
  assumes cmp_eq: "cmp a b = 0 \<longleftrightarrow> a = b"
    and cmp_flip: "0 < cmp a b \<longleftrightarrow> cmp b a < 0"
    and cmp_trans: "cmp a b < 0 \<Longrightarrow> cmp b c < 0 \<Longrightarrow> cmp a c < 0"
begin

lemma cmp_refl [simp]: "cmp a a = 0"
  by (simp add: cmp_eq)

lemma cmp_less_not_eq: "cmp a b < 0 \<Longrightarrow> a \<noteq> b"
  by (auto simp: cmp_eq)

lemma cmp_flip': "cmp a b < 0 \<longleftrightarrow> 0 < cmp b a"
  by (simp add: cmp_flip)

lemma cmp_asym: "cmp a b < 0 \<Longrightarrow> \<not> cmp b a < 0"
  using cmp_flip [of b a] by linarith

text \<open>In a sorted table one comparison decides on which side of an entry a key can be.\<close>

lemma sorted_split:
  assumes "sorted_wrt (\<lambda>a b. cmp (fst a) (fst b) < 0) (xs @ (k, v) # ys)"
  shows "map_of (xs @ (k, v) # ys) q =
    (if 0 < cmp k q then map_of xs q else if cmp k q < 0 then map_of ys q else Some v)"
proof -
  have l: "cmp (fst a) k < 0" if "a \<in> set xs" for a
    using assms that by (auto simp: sorted_wrt_append)
  have r: "cmp k (fst a) < 0" if "a \<in> set ys" for a
    using assms that by (auto simp: sorted_wrt_append)
  consider "0 < cmp k q" | "cmp k q < 0" | "cmp k q = 0" by linarith
  then show ?thesis
  proof cases
    case 1
    then have "cmp q k < 0" by (simp add: cmp_flip)
    then have "map_of ys q = None" "k \<noteq> q"
      using r cmp_trans [of q k] by (force simp: map_of_eq_None_iff cmp_eq)+
    with 1 show ?thesis by (simp add: map_add_def split: option.split)
  next
    case 2
    then have "map_of xs q = None" "k \<noteq> q"
      using l cmp_trans [of _ k q] by (force simp: map_of_eq_None_iff cmp_eq)+
    with 2 show ?thesis by (simp add: map_add_def split: option.split)
  next
    case 3
    then have "k = q" by (simp add: cmp_eq)
    then have "map_of xs q = None"
      using l by (force simp: map_of_eq_None_iff cmp_eq)
    with 3 \<open>k = q\<close> show ?thesis by (simp add: map_add_def)
  qed
qed

end

sublocale key_order \<subseteq> tied: cmp_preorder cmp
proof
  show "0 < cmp a b \<longleftrightarrow> cmp b a < 0" for a b by (rule cmp_flip)
  show "cmp a c \<le> 0" if "cmp a b \<le> 0" "cmp b c \<le> 0" for a b c
    using that cmp_trans [of a b c] cmp_eq [of a b] cmp_eq [of b c] by fastforce
qed

section \<open>C strings\<close>

text \<open>\<^verbatim>\<open>strcmp\<close> of two C strings, given without their terminators.\<close>

fun strcmp :: "u8 list \<Rightarrow> u8 list \<Rightarrow> int" where
  "strcmp [] [] = 0"
| "strcmp [] (b # bs) = -1"
| "strcmp (a # as) [] = 1"
| "strcmp (a # as) (b # bs) = (if a < b then -1 else if b < a then 1 else strcmp as bs)"

lemma strcmp_zero: "strcmp a b = 0 \<longleftrightarrow> a = b"
  by (induction a b rule: strcmp.induct) auto

lemma strcmp_flip: "0 < strcmp a b \<longleftrightarrow> strcmp b a < 0"
  by (induction a b rule: strcmp.induct) auto

lemma strcmp_less_trans: "strcmp a b < 0 \<Longrightarrow> strcmp b c < 0 \<Longrightarrow> strcmp a c < 0"
proof (induction a c arbitrary: b rule: strcmp.induct)
  case (4 x xs z zs)
  then show ?case by (cases b) (auto split: if_splits)
next
  case (1)
  then show ?case by (cases b) auto
next
  case (3 x xs)
  then show ?case by (cases b) auto
qed auto

interpretation strcmp: key_order strcmp
  by unfold_locales (auto simp: strcmp_zero strcmp_flip intro: strcmp_less_trans)

end
