(* ===== verification/Embryo_Api.thy ===== *)
theory Embryo_Api
  imports Embryo_Run Efl_Order
begin

text \<open>
  The operations on a program around the interpreter loop
  (\<^verbatim>\<open>src/src/lib/embryo/embryo_amx.c\<close>): loading, the memory block of the machine,
  symbol lookup, strings and the heap, parameters, and \<^verbatim>\<open>embryo_program_run\<close>. The
  \<open>option\<close> of a result is \<open>None\<close> where the C code runs into undefined behaviour; the
  flags \<open>ok\<close> say whether an allocation succeeds.
\<close>

section \<open>Strings and symbol tables\<close>

text \<open>\<^verbatim>\<open>strcmp\<close> with a string inside a block: it reads no further than the first difference.\<close>

fun strcmp_mem :: "u8 list \<Rightarrow> u8 list \<Rightarrow> int option" where
  "strcmp_mem [] ns = None"
| "strcmp_mem (c # cs) [] = Some (if c = 0 then 0 else 1)"
| "strcmp_mem (c # cs) (n # ns) =
     (if c = n then strcmp_mem cs ns else Some (if c < n then -1 else 1))"

definition sNAMEMAX :: nat where "sNAMEMAX = 31"

text \<open>
  \<^verbatim>\<open>strcpy\<close> into a name buffer of \<^verbatim>\<open>sNAMEMAX + 1\<close> bytes; a longer name overruns it.
\<close>

definition read_name :: "mem \<Rightarrow> int \<Rightarrow> u8 list option" where
  "read_name m entry =
     do { a \<leftarrow> getentryname m entry; s \<leftarrow> cstring_at m a;
          if sNAMEMAX < length s then None else Some s }"

text \<open>
  \<^verbatim>\<open>_embryo_func_get\<close> and \<^verbatim>\<open>_embryo_var_get\<close>: the inner option is \<open>None\<close> for
  \<^verbatim>\<open>EMBRYO_ERROR_INDEX\<close>.
\<close>

definition embryo_func_get :: "embryo_program \<Rightarrow> int \<Rightarrow> u8 list option option" where
  "embryo_func_get p idx =
     (let m = ep_code p in
      do { n \<leftarrow> numentries (hdr_natives m) (hdr_publics m) (hdr_defsize m);
           if n \<le> idx then Some None
           else do { entry \<leftarrow> getentry (hdr_publics m) (hdr_defsize m) idx;
                     s \<leftarrow> read_name m entry; Some (Some s) } })"

definition embryo_var_get :: "embryo_program \<Rightarrow> int \<Rightarrow> (u8 list \<times> cell) option option" where
  "embryo_var_get p idx =
     do { m \<leftarrow> ep_base p;
          n \<leftarrow> numentries (hdr_tags m) (hdr_pubvars m) (hdr_defsize m);
          if n \<le> idx then Some None
          else do { entry \<leftarrow> getentry (hdr_pubvars m) (hdr_defsize m) idx;
                    s \<leftarrow> read_name m entry; a \<leftarrow> load32 m entry; Some (Some (s, a)) } }"

text \<open>The binary search of both lookups, between \<open>first\<close> and \<open>lst\<close> (\<^verbatim>\<open>last\<close>).\<close>

function find_loop ::
    "(int \<Rightarrow> (u8 list \<times> cell) option option) \<Rightarrow> u8 list \<Rightarrow> int \<Rightarrow> int \<Rightarrow> cell option option" where
  "find_loop get name first lst =
     (if lst < first then Some None
      else let mid = (first + lst) div 2 in
           case get mid of None \<Rightarrow> None
           | Some None \<Rightarrow> Some None
           | Some (Some (pname, v)) \<Rightarrow>
               (let result = strcmp pname name in
                if 0 < result then find_loop get name first (mid - 1)
                else if result < 0 then find_loop get name (mid + 1) lst
                else Some (Some v)))"
  by pat_completeness auto
termination
  by (relation "measure (\<lambda>(get, name, first, lst). nat (lst - first + 1))") auto

declare find_loop.simps [simp del]

definition embryo_program_function_find :: "embryo_program \<Rightarrow> u8 list \<Rightarrow> cell option" where
  "embryo_program_function_find p name =
     (let m = ep_code p in
      do { n \<leftarrow> numentries (hdr_natives m) (hdr_publics m) (hdr_defsize m);
           r \<leftarrow> find_loop (\<lambda>i. map_option (map_option (\<lambda>s. (s, of_int i))) (embryo_func_get p i))
                 name 0 (n - 1);
           Some (case r of None \<Rightarrow> EMBRYO_FUNCTION_NONE | Some i \<Rightarrow> i) })"

definition embryo_program_variable_find :: "embryo_program \<Rightarrow> u8 list \<Rightarrow> cell option" where
  "embryo_program_variable_find p name =
     (case ep_base p of None \<Rightarrow> Some EMBRYO_CELL_NONE
      | Some m \<Rightarrow>
          do { n \<leftarrow> numentries (hdr_tags m) (hdr_pubvars m) (hdr_defsize m);
               r \<leftarrow> find_loop (embryo_var_get p) name 0 (n - 1);
               Some (case r of None \<Rightarrow> EMBRYO_CELL_NONE | Some a \<Rightarrow> a) })"

definition embryo_program_variable_count_get :: "embryo_program \<Rightarrow> int option" where
  "embryo_program_variable_count_get p =
     (case ep_base p of None \<Rightarrow> Some 0
      | Some m \<Rightarrow> numentries (hdr_tags m) (hdr_pubvars m) (hdr_defsize m))"

definition embryo_program_variable_get :: "embryo_program \<Rightarrow> int \<Rightarrow> cell option" where
  "embryo_program_variable_get p num =
     (case ep_base p of None \<Rightarrow> Some EMBRYO_CELL_NONE
      | Some m \<Rightarrow>
          do { r \<leftarrow> embryo_var_get p num;
               Some (case r of None \<Rightarrow> EMBRYO_CELL_NONE | Some (s, a) \<Rightarrow> a) })"

section \<open>Registering natives\<close>

text \<open>The loop over the natives table: \<open>n\<close> entries left, the next at block offset \<open>entry\<close>.\<close>

fun native_fill :: "nat \<Rightarrow> mem \<Rightarrow> int \<Rightarrow> int \<Rightarrow> u8 list \<Rightarrow> cell \<Rightarrow> mem option" where
  "native_fill 0 m entry defsize name v = Some m"
| "native_fill (Suc n) m entry defsize name v =
     do { a \<leftarrow> load32 m entry;
          m' \<leftarrow> (if a = 0
                then do { ea \<leftarrow> getentryname m entry;
                          c \<leftarrow> (if 0 \<le> ea then strcmp_mem (drop (nat ea) m) name else None);
                          if c = 0 then store32 m entry v else Some m }
                else Some m);
          native_fill n m' (entry + defsize) defsize name v }"

definition embryo_program_native_call_add ::
    "bool \<Rightarrow> embryo_program \<Rightarrow> u8 list \<Rightarrow> nat \<Rightarrow> embryo_program option" where
  "embryo_program_native_call_add ok p name f =
     (if sNAMEMAX < length name then Some p
      else let m = ep_code p in
        do { d \<leftarrow> hdr_defsize m;
             if sint d < 1 then Some p
             else do { num \<leftarrow> numentries (hdr_libraries m) (hdr_natives m) (Some d);
               if num \<le> 0 then Some p
               else if ep_native_calls_alloc p < length (ep_native_calls p) + 1 \<and> \<not> ok then Some p
               else let sz = length (ep_native_calls p) + 1;
                        p = p\<lparr>ep_native_calls := ep_native_calls p @ [Some f],
                              ep_native_calls_alloc :=
                                (if ep_native_calls_alloc p < sz then ep_native_calls_alloc p + 32
                                 else ep_native_calls_alloc p)\<rparr>
                    in do { entry \<leftarrow> getentry (hdr_natives m) (Some d) 0;
                            m' \<leftarrow> native_fill (nat num) m entry (sint d) name (of_nat sz);
                            Some (p\<lparr>ep_code := m'\<rparr>) } } })"

text \<open>
  The natives that \<^verbatim>\<open>_embryo_program_init\<close> registers for every program, in the order
  of its five calls; the numbers stand for the function pointers.
\<close>

definition embryo_args_natives :: "(string \<times> nat) list" where
  "embryo_args_natives =
     [(''numargs'', 0), (''getarg'', 1), (''setarg'', 2), (''getfarg'', 1), (''setfarg'', 2),
      (''getsarg'', 3)]"

definition embryo_fp_natives :: "(string \<times> nat) list" where
  "embryo_fp_natives =
     [(''float'', 4), (''atof'', 5), (''float_mul'', 6), (''float_div'', 7), (''float_add'', 8),
      (''float_sub'', 9), (''fract'', 10), (''round'', 11), (''float_cmp'', 12), (''sqrt'', 13),
      (''pow'', 14), (''log'', 15), (''sin'', 16), (''cos'', 17), (''tan'', 18),
      (''abs'', 19), (''asin'', 20), (''acos'', 21), (''atan'', 22), (''atan2'', 23),
      (''log1p'', 24), (''cbrt'', 25), (''exp'', 26), (''exp2'', 27), (''hypot'', 28)]"

definition embryo_rand_natives :: "(string \<times> nat) list" where
  "embryo_rand_natives =
     [(''rand'', 29), (''randf'', 30)]"

definition embryo_str_natives :: "(string \<times> nat) list" where
  "embryo_str_natives =
     [(''atoi'', 31), (''fnmatch'', 32), (''strcmp'', 33), (''strncmp'', 34), (''strcpy'', 35),
      (''strncpy'', 36), (''strlen'', 37), (''strcat'', 38), (''strncat'', 39), (''strprep'', 40),
      (''strnprep'', 41), (''strcut'', 42), (''snprintf'', 43), (''strstr'', 44), (''strchr'', 45),
      (''strrchr'', 46), (''printf'', 47)]"

definition embryo_time_natives :: "(string \<times> nat) list" where
  "embryo_time_natives =
     [(''seconds'', 48), (''date'', 49), (''tzdate'', 50)]"

fun natives_init :: "bool \<Rightarrow> (string \<times> nat) list \<Rightarrow> embryo_program \<Rightarrow> embryo_program option" where
  "natives_init ok [] p = Some p"
| "natives_init ok ((name, f) # nfs) p =
     do { p \<leftarrow> embryo_program_native_call_add ok p (bytes_of name) f; natives_init ok nfs p }"

section \<open>Loading a program\<close>

text \<open>
  The checks of \<^verbatim>\<open>_embryo_program_init\<close> on the header of a code block, on a
  little-endian machine.
\<close>

definition header_accepted :: "mem \<Rightarrow> bool option" where
  "header_accepted m =
     do { magic \<leftarrow> hdr_magic m; fv \<leftarrow> hdr_file_version m; ev \<leftarrow> hdr_ep_version m;
          d \<leftarrow> hdr_defsize m; stp \<leftarrow> hdr_stp m; fl \<leftarrow> hdr_flags m;
          if magic \<noteq> 0xf1e0 then Some False
          else if sint fv < 7 \<or> 7 < sint ev then Some False
          else if sint d \<noteq> 24 \<and> sint d \<noteq> 8 then Some False
          else do { name_ok \<leftarrow>
                      (if sint d = 8
                       then do { nt \<leftarrow> hdr_nametable m; len \<leftarrow> load16 m (sint nt);
                                 Some (uint len \<le> 31) }
                       else Some True);
                    Some (name_ok \<and> \<not> sint stp \<le> 0 \<and> fl AND 0x04 = 0) } }"

definition embryo_program_init :: "bool \<Rightarrow> embryo_program \<Rightarrow> mem \<Rightarrow> (bool \<times> embryo_program) option" where
  "embryo_program_init ok p code =
     (if ep_flags p AND EMBRYO_FLAG_RELOC \<noteq> 0 then Some (True, p)
      else let p = p\<lparr>ep_code := code\<rparr> in
           do { acc \<leftarrow> header_accepted code;
                if \<not> acc then Some (False, p)
                else do { p \<leftarrow> natives_init ok
                            (embryo_args_natives @ embryo_fp_natives @ embryo_rand_natives
                             @ embryo_str_natives @ embryo_time_natives)
                            (p\<lparr>ep_flags := EMBRYO_FLAG_RELOC\<rparr>);
                          Some (True, p) } })"

text \<open>The record that \<^verbatim>\<open>calloc\<close> returns.\<close>

definition calloc_program :: embryo_program where
  "calloc_program =
     \<lparr>ep_base = None, ep_pushes = 0, ep_cip = 0, ep_frm = 0, ep_hea = 0, ep_hlw = 0, ep_stk = 0,
      ep_stp = 0, ep_flags = 0, ep_error = 0, ep_pri = 0, ep_alt = 0, ep_reset_stk = 0,
      ep_reset_hea = 0, ep_native_calls = [], ep_native_calls_alloc = 0, ep_code = [],
      ep_retval = 0, ep_params = [], ep_params_size = 0, ep_params_alloc = 0, ep_run_count = 0,
      ep_max_run_cycles = 0, ep_data = 0\<rparr>"

definition embryo_program_new :: "bool \<Rightarrow> u8 list \<Rightarrow> int \<Rightarrow> embryo_program option option" where
  "embryo_program_new ok data sz =
     (if sz < int sizeof_Embryo_Header \<or> \<not> ok then Some None
      else do { code \<leftarrow> load_bytes data 0 (nat sz);
                (accepted, p) \<leftarrow> embryo_program_init ok calloc_program code;
                Some (if accepted then Some p else None) })"

section \<open>The memory block of the machine\<close>

text \<open>
  \<^verbatim>\<open>embryo_program_vm_reset\<close> copies \<^verbatim>\<open>hdr->size\<close> bytes of the code over the block,
  clears the top cell, and sets the registers relative to the data segment.
\<close>

definition embryo_program_vm_reset :: "embryo_program \<Rightarrow> embryo_program option" where
  "embryo_program_vm_reset p =
     (case ep_base p of None \<Rightarrow> Some p
      | Some base \<Rightarrow>
          let c = ep_code p in
          do { sz \<leftarrow> hdr_size c; hhea \<leftarrow> hdr_hea c; dat \<leftarrow> hdr_dat c; hstp \<leftarrow> hdr_stp c;
               img \<leftarrow> load_bytes c 0 (unat sz);
               base \<leftarrow> store_bytes base 0 img;
               base \<leftarrow> store32 base (sint hstp - 4) 0;
               Some (p\<lparr>ep_base := Some base, ep_hlw := hhea - dat, ep_stp := hstp - dat - 4,
                       ep_hea := hhea - dat, ep_stk := hstp - dat - 4\<rparr>) })"

definition embryo_program_vm_push :: "bool \<Rightarrow> embryo_program \<Rightarrow> embryo_program option" where
  "embryo_program_vm_push ok p =
     (let p = p\<lparr>ep_pushes := ep_pushes p + 1\<rparr> in
      if 1 < ep_pushes p then embryo_program_vm_reset p
      else do { stp \<leftarrow> hdr_stp (ep_code p);
                if \<not> ok then Some (p\<lparr>ep_base := None, ep_pushes := 0\<rparr>)
                else embryo_program_vm_reset (p\<lparr>ep_base := Some (replicate (nat (sint stp)) 0)\<rparr>) })"

definition embryo_program_vm_pop :: "embryo_program \<Rightarrow> embryo_program" where
  "embryo_program_vm_pop p =
     (if ep_base p = None then p
      else let p = p\<lparr>ep_pushes := ep_pushes p - 1\<rparr> in
           if 1 \<le> ep_pushes p then p else p\<lparr>ep_base := None\<rparr>)"

section \<open>Strings in cells\<close>

text \<open>A \<^verbatim>\<open>str_cell\<close> argument is the NULL pointer or an offset relative to the block.\<close>

fun string_cells :: "nat \<Rightarrow> mem \<Rightarrow> int \<Rightarrow> cell list option" where
  "string_cells 0 m a = None"
| "string_cells (Suc n) m a =
     do { v \<leftarrow> load32 m a; if v = 0 then Some [] else map_option ((#) v) (string_cells n m (a + 4)) }"

text \<open>
  The scan of \<^verbatim>\<open>embryo_data_string_length_get\<close> and \<^verbatim>\<open>embryo_data_string_get\<close>: a
  block of \<open>n\<close> bytes holds fewer than \<open>n + 1\<close> cells, so this fuel never runs out before
  the scan leaves the block.
\<close>

definition string_at :: "mem \<Rightarrow> int \<Rightarrow> cell list option" where
  "string_at m a = string_cells (length m + 1) m a"

definition str_cell_rejected :: "mem \<Rightarrow> cell \<Rightarrow> int option \<Rightarrow> bool" where
  "str_cell_rejected m stp a = (case a of None \<Rightarrow> True | Some a \<Rightarrow> sint stp \<le> a \<or> a < 0)"

definition embryo_data_string_length_get :: "embryo_program \<Rightarrow> int option \<Rightarrow> int option" where
  "embryo_data_string_length_get p str_cell =
     (case ep_base p of None \<Rightarrow> Some 0
      | Some m \<Rightarrow>
          do { stp \<leftarrow> hdr_stp m;
               if str_cell_rejected m stp str_cell then Some 0
               else map_option (\<lambda>cs. int (length cs)) (string_at m (the str_cell)) })"

text \<open>The characters stored in \<^verbatim>\<open>dst\<close>, without the terminator.\<close>

definition embryo_data_string_get :: "embryo_program \<Rightarrow> int option \<Rightarrow> u8 list option" where
  "embryo_data_string_get p str_cell =
     (case ep_base p of None \<Rightarrow> Some []
      | Some m \<Rightarrow>
          do { stp \<leftarrow> hdr_stp m;
               if str_cell_rejected m stp str_cell then Some []
               else map_option (map ucast) (string_at m (the str_cell)) })"

text \<open>
  The copy loop of \<^verbatim>\<open>embryo_data_string_set\<close> from cell address \<open>a\<close>. The code reads
  \<^verbatim>\<open>hdr->stp\<close> again for every character, from a block the loop itself writes to. A \<^verbatim>\<open>char\<close> is
  signed, so the cell is its sign extension.
\<close>

fun string_set_loop :: "mem \<Rightarrow> int \<Rightarrow> u8 list \<Rightarrow> mem option" where
  "string_set_loop m a [] = store32 m a 0"
| "string_set_loop m a (c # cs) =
     do { stp \<leftarrow> hdr_stp m;
          if sint stp \<le> a then Some m
          else if a = sint stp - 1 then store32 m a 0
          else do { m \<leftarrow> store32 m a (scast c); string_set_loop m (a + 4) cs } }"

definition embryo_data_string_set ::
    "embryo_program \<Rightarrow> u8 list option \<Rightarrow> int option \<Rightarrow> embryo_program option" where
  "embryo_data_string_set p src str_cell =
     (case ep_base p of None \<Rightarrow> Some p
      | Some m \<Rightarrow>
          do { stp \<leftarrow> hdr_stp m;
               if str_cell_rejected m stp str_cell then Some p
               else do { m \<leftarrow> (case src of None \<Rightarrow> store32 m (the str_cell) 0
                              | Some s \<Rightarrow> string_set_loop m (the str_cell) s);
                         Some (p\<lparr>ep_base := Some m\<rparr>) } })"

section \<open>The data segment and the heap\<close>

definition embryo_data_address_get :: "embryo_program \<Rightarrow> cell \<Rightarrow> int option option" where
  "embryo_data_address_get p addr =
     (case ep_base p of None \<Rightarrow> Some None
      | Some m \<Rightarrow>
          do { dat \<leftarrow> hdr_dat m; stp \<leftarrow> hdr_stp m;
               Some (if sint addr < 0 \<or> sint stp \<le> sint addr then None
                     else Some (sint dat + sint addr)) })"

text \<open>
  The margin test mixes \<^verbatim>\<open>int\<close> and \<^verbatim>\<open>size_t\<close>, so it is made on unsigned 64-bit values.
\<close>

definition embryo_data_heap_push :: "embryo_program \<Rightarrow> 32 word \<Rightarrow> cell \<times> embryo_program" where
  "embryo_data_heap_push p cells =
     (if ep_base p = None then (EMBRYO_CELL_NONE, p)
      else let bytes = (scast cells :: 64 word) * 4 in
           if (scast (ep_stk p - ep_hea p) :: 64 word) - bytes < scast STKMARGIN
           then (EMBRYO_CELL_NONE, p)
           else (ep_hea p, p\<lparr>ep_hea := ucast (scast (ep_hea p) + bytes)\<rparr>))"

definition embryo_data_heap_pop :: "embryo_program \<Rightarrow> cell \<Rightarrow> embryo_program" where
  "embryo_data_heap_pop p down_to =
     (let down_to = (if sint down_to < 0 then 0 else down_to) in
      if sint down_to < sint (ep_hea p) then p\<lparr>ep_hea := down_to\<rparr> else p)"

section \<open>Parameters of a call\<close>

text \<open>
  The three \<^verbatim>\<open>embryo_parameter_\<dots>_push\<close> functions: \<open>ok\<close> is the success of the
  array's \<^verbatim>\<open>realloc\<close>, \<open>dup_ok\<close> of the copy of the string or of the cells. The count
  and the capacity go up before the array is enlarged, so after a failed enlargement they no
  longer describe it, and the next push writes past its end.
\<close>

definition param_append ::
    "bool \<Rightarrow> embryo_program \<Rightarrow> embryo_param \<Rightarrow> (int \<times> embryo_program) option" where
  "param_append ok p x =
     (let p = p\<lparr>ep_params_size := ep_params_size p + 1\<rparr>;
          full = ep_params_alloc p < ep_params_size p;
          p = (if full then p\<lparr>ep_params_alloc := ep_params_alloc p + 8\<rparr> else p)
      in if full \<and> \<not> ok then Some (0, p)
         else if length (ep_params p) + 1 \<noteq> ep_params_size p then None
         else Some (1, p\<lparr>ep_params := ep_params p @ [x]\<rparr>))"

definition embryo_parameter_cell_push ::
    "bool \<Rightarrow> embryo_program \<Rightarrow> cell \<Rightarrow> (int \<times> embryo_program) option" where
  "embryo_parameter_cell_push ok p c = param_append ok p (Param_cell c)"

definition embryo_parameter_string_push ::
    "bool \<Rightarrow> bool \<Rightarrow> embryo_program \<Rightarrow> u8 list option \<Rightarrow> (int \<times> embryo_program) option" where
  "embryo_parameter_string_push dup_ok ok p str =
     (let s = (case str of None \<Rightarrow> [] | Some s \<Rightarrow> s) in
      if \<not> dup_ok then Some (0, p) else param_append ok p (Param_string s))"

text \<open>The cells are copied without testing the \<^verbatim>\<open>malloc\<close>: a NULL copy is undefined.\<close>

definition embryo_parameter_cell_array_push ::
    "bool \<Rightarrow> bool \<Rightarrow> embryo_program \<Rightarrow> cell list option \<Rightarrow> int \<Rightarrow> (int \<times> embryo_program) option" where
  "embryo_parameter_cell_array_push dup_ok ok p cells num =
     (case cells of None \<Rightarrow> embryo_parameter_cell_push ok p 0
      | Some cs \<Rightarrow>
          if num \<le> 0 then embryo_parameter_cell_push ok p 0
          else do { (r, p') \<leftarrow> param_append ok p (Param_array (take (nat num) cs));
                    if r = 0 then Some (r, p')
                    else if \<not> dup_ok \<or> int (length cs) < num then None
                    else Some (r, p') })"

section \<open>Running a program\<close>

text \<open>
  The parameters are pushed from the last to the first (\<open>j\<close> of them left): a string or an
  array is copied to the heap of the machine and its address is pushed.
\<close>

definition cells_bytes :: "cell list \<Rightarrow> u8 list" where
  "cells_bytes cs = concat (map (\<lambda>c. map (\<lambda>k. byte_of_cell k c) [0, 1, 2, 3]) cs)"

definition heap_param ::
    "embryo_program \<Rightarrow> nat \<Rightarrow> (int \<Rightarrow> embryo_program \<Rightarrow> embryo_program option)
      \<Rightarrow> (cell \<Rightarrow> embryo_program \<Rightarrow> step_result) \<Rightarrow> step_result" where
  "heap_param p len copy k =
     (let (ep_addr, p) = embryo_data_heap_push p (of_nat (len + 1)) in
      if ep_addr = EMBRYO_CELL_NONE
      then Stop EMBRYO_PROGRAM_FAIL (p\<lparr>ep_error := EMBRYO_ERROR_HEAPLOW\<rparr>)
      else (case embryo_data_address_get p ep_addr of
              None \<Rightarrow> Fault
            | Some None \<Rightarrow> Stop EMBRYO_PROGRAM_FAIL (p\<lparr>ep_error := EMBRYO_ERROR_HEAPLOW\<rparr>)
            | Some (Some a) \<Rightarrow> (case copy a p of None \<Rightarrow> Fault | Some p \<Rightarrow> k ep_addr p)))"

definition copy_string :: "u8 list \<Rightarrow> int \<Rightarrow> embryo_program \<Rightarrow> embryo_program option" where
  "copy_string s a p = embryo_data_string_set p (Some s) (Some a)"

definition copy_cells :: "cell list \<Rightarrow> int \<Rightarrow> embryo_program \<Rightarrow> embryo_program option" where
  "copy_cells cs a p =
     do { m \<leftarrow> ep_base p; m \<leftarrow> store_bytes m a (cells_bytes cs); Some (p\<lparr>ep_base := Some m\<rparr>) }"

fun push_params ::
    "nat \<Rightarrow> run_env \<Rightarrow> regs \<Rightarrow> embryo_program \<Rightarrow> (regs \<Rightarrow> embryo_program \<Rightarrow> step_result)
      \<Rightarrow> step_result" where
  "push_params 0 e r p k = k r p"
| "push_params (Suc j) e r p k =
     (case nth_opt (ep_params p) j of None \<Rightarrow> Fault
      | Some (Param_string s) \<Rightarrow>
          heap_param p (length s) (copy_string s) (\<lambda>a p.
            PUSH e r p a (\<lambda>r p. push_params j e r p k))
      | Some (Param_array cs) \<Rightarrow>
          heap_param p (length cs) (copy_cells cs) (\<lambda>a p.
            PUSH e r p a (\<lambda>r p. push_params j e r p k))
      | Some (Param_cell c) \<Rightarrow> PUSH e r p c (\<lambda>r p. push_params j e r p k))"

text \<open>
  The block under \<^verbatim>\<open>if (fn != EMBRYO_FUNCTION_CONT)\<close>: the parameters, their size in
  bytes, a zero return address; the parameter array is then dropped.
\<close>

definition push_call ::
    "run_env \<Rightarrow> regs \<Rightarrow> embryo_program \<Rightarrow> (regs \<Rightarrow> embryo_program \<Rightarrow> step_result) \<Rightarrow> step_result" where
  "push_call e r p k =
     push_params (ep_params_size p) e r p (\<lambda>r p.
       PUSH e r p (of_nat (ep_params_size p) * 4) (\<lambda>r p.
         PUSH e r p 0 (\<lambda>r p.
           k r (p\<lparr>ep_params := [], ep_params_size := 0, ep_params_alloc := 0\<rparr>))))"

text \<open>The registers and the start address for the function \<open>fn\<close>; \<open>None\<close> is an early FAIL.\<close>

definition run_entry ::
    "(nat \<Rightarrow> embryo_program \<Rightarrow> int \<Rightarrow> (cell \<times> embryo_program) option)
      \<Rightarrow> mem \<Rightarrow> embryo_program \<Rightarrow> cell \<Rightarrow> (run_env \<times> regs) option option" where
  "run_entry natives m p fn =
     do { cod \<leftarrow> hdr_cod m; dat \<leftarrow> hdr_dat m;
          let e = \<lparr>re_code = sint cod, re_data = sint dat, re_codesize = dat - cod,
                   re_reset_stk = ep_stk p, re_reset_hea = ep_hea p,
                   re_max = ep_max_run_cycles p, re_natives = natives\<rparr>;
              r = \<lparr>pri = 0, alt = 0, stk = ep_stk p, frm = 0, hea = ep_hea p, cip = 0\<rparr>
          in if fn = EMBRYO_FUNCTION_MAIN
             then do { c \<leftarrow> hdr_cip m;
                       Some (if sint c < 0 then None else Some (e, r\<lparr>cip := sint c\<rparr>)) }
             else if fn = EMBRYO_FUNCTION_CONT
             then Some (Some (e\<lparr>re_reset_stk := ep_reset_stk p, re_reset_hea := ep_reset_hea p\<rparr>,
                              r\<lparr>frm := ep_frm p, pri := ep_pri p, alt := ep_alt p,
                                cip := sint (ep_cip p)\<rparr>))
             else if sint fn < 0 then Some None
             else do { n \<leftarrow> numentries (hdr_natives m) (hdr_publics m) (hdr_defsize m);
                       if n \<le> sint fn then Some None
                       else do { func \<leftarrow> getentry (hdr_publics m) (hdr_defsize m) (sint fn);
                                 a \<leftarrow> load32 m func;
                                 Some (Some (e, r\<lparr>cip := sint a\<rparr>)) } } }"

text \<open>
  The state with which the loop starts, as a step result: \<open>Next\<close> to enter the loop,
  \<open>Stop\<close> for an early return.
\<close>

definition run_start :: "run_env \<Rightarrow> regs \<Rightarrow> embryo_program \<Rightarrow> cell \<Rightarrow> step_result" where
  "run_start e r p fn =
     CHKSTACK r p (CHKHEAP r p
       (let enter = (\<lambda>r p. CHKMARGIN r p (Next r (p\<lparr>ep_run_count := ep_run_count p + 1\<rparr>)))
        in if fn = EMBRYO_FUNCTION_CONT then enter r p else push_call e r p enter))"

text \<open>
  \<open>n\<close> is the fuel of the loop. The result is \<open>None\<close> when the fuel runs out, otherwise a
  \<open>Stop\<close> or a \<open>Fault\<close>.
\<close>

definition embryo_program_run ::
    "(nat \<Rightarrow> embryo_program \<Rightarrow> int \<Rightarrow> (cell \<times> embryo_program) option)
      \<Rightarrow> nat \<Rightarrow> embryo_program \<Rightarrow> cell \<Rightarrow> step_result option" where
  "embryo_program_run natives n p fn =
     (if ep_flags p AND EMBRYO_FLAG_RELOC = 0
      then Some (Stop EMBRYO_PROGRAM_FAIL (p\<lparr>ep_error := EMBRYO_ERROR_INIT\<rparr>))
      else case ep_base p of
        None \<Rightarrow> Some (Stop EMBRYO_PROGRAM_FAIL (p\<lparr>ep_error := EMBRYO_ERROR_INIT\<rparr>))
      | Some m \<Rightarrow>
          (case run_entry natives m p fn of None \<Rightarrow> Some Fault
           | Some None \<Rightarrow> Some (Stop EMBRYO_PROGRAM_FAIL (p\<lparr>ep_error := EMBRYO_ERROR_INDEX\<rparr>))
           | Some (Some (e, r)) \<Rightarrow>
               (case run_start e r p fn of
                  Next r' p' \<Rightarrow> run_loop n e 0 r' p'
                | res \<Rightarrow> Some res)))"

definition embryo_program_max_cycle_run_set :: "embryo_program \<Rightarrow> int \<Rightarrow> embryo_program" where
  "embryo_program_max_cycle_run_set p mx =
     (let mx = (if mx < 0 then 0 else mx) in p\<lparr>ep_max_run_cycles := mx\<rparr>)"

end
