(* ===== verification/Embryo_Arith.thy ===== *)
theory Embryo_Arith
  imports Embryo_Api
begin

text \<open>
  Correctness of the arithmetic of the machine: the signed division rounds down, and the case
  table of the switch instruction is a first-match lookup.
\<close>

section \<open>Truncating and flooring division\<close>

lemma c_div_exact: "b \<noteq> 0 \<Longrightarrow> c_div (b * q) b = q"
  using mult_sgn_abs [of q] by (auto simp: c_div_def abs_mult sgn_mult mult_ac)

lemma c_mod_nonneg:
  assumes "0 \<le> a" "0 < b"
  shows "c_mod a b = a mod b"
proof -
  have "c_div a b = a div b" using assms by (cases "a = 0") (simp_all add: c_div_def)
  then show ?thesis by (simp add: c_mod_def minus_mult_div_eq_mod)
qed

lemma c_mod_neg_dividend:
  assumes "a \<le> 0" "0 < b"
  shows "c_mod a b = - (- a mod b)"
proof -
  have "c_div a b = - (- a div b)" using assms by (cases "a = 0") (simp_all add: c_div_def)
  then show ?thesis using minus_mult_div_eq_mod [of "- a" b] by (simp add: c_mod_def)
qed

lemma c_mod_neg_divisor: "c_mod a (- b) = c_mod a b"
  by (simp add: c_mod_def c_div_def sgn_minus)

lemma c_mod_range:
  assumes "b \<noteq> 0"
  shows "\<bar>c_mod a b\<bar> < \<bar>b\<bar>"
proof -
  have pos: "\<bar>c_mod a c\<bar> < c" if "0 < c" for c
    using that by (cases "0 \<le> a") (simp_all add: c_mod_nonneg c_mod_neg_dividend)
  show ?thesis
    using pos [of "\<bar>b\<bar>"] c_mod_neg_divisor [of a b] assms by (cases "0 < b") (simp_all add: abs_if)
qed

lemma c_mod_cong: "c_mod a b mod b = a mod b"
  by (simp add: c_mod_def mod_diff_eq [symmetric])

text \<open>Adding the divisor and reducing again gives the remainder with the divisor's sign.\<close>

lemma c_mod_twice:
  assumes "d \<noteq> 0"
  shows "c_mod (c_mod n d + d) d = n mod d"
proof (cases "0 < d")
  case True
  then have "c_mod (c_mod n d + d) d = (c_mod n d + d) mod d"
    using c_mod_range [OF assms, of n] by (intro c_mod_nonneg) auto
  then show ?thesis by (simp add: c_mod_cong)
next
  case False
  then have d: "d < 0" using assms by simp
  have "c_mod (c_mod n d + d) d = c_mod (c_mod n d + d) (- d)"
    by (simp add: c_mod_neg_divisor)
  also have "\<dots> = - (- (c_mod n d + d) mod - d)"
    using c_mod_range [OF assms, of n] d by (intro c_mod_neg_dividend) auto
  also have "\<dots> = (c_mod n d + d) mod d" by (simp only: mod_minus_minus minus_minus)
  finally show ?thesis by (simp add: c_mod_cong)
qed

section \<open>The signed division of the machine\<close>

lemma sint_cell_bounds: "- 2147483648 \<le> sint (c :: cell)" "sint (c :: cell) \<le> 2147483647"
  using sint_greater_eq [of c] sint_less [of c] by simp_all

lemma sint_eq_0 [simp]: "sint (c :: cell) = 0 \<longleftrightarrow> c = 0"
proof
  assume "sint c = 0"
  then have "of_int (sint c) = (0 :: cell)" by simp
  then show "c = 0" by simp
qed simp

lemma sint_of_int_cell:
  "- 2147483648 \<le> k \<Longrightarrow> k \<le> 2147483647 \<Longrightarrow> sint (of_int k :: cell) = k"
  by (simp add: signed_of_int signed_take_bit_int_eq_self)

lemma sint_add_cell:
  "- 2147483648 \<le> sint (a :: cell) + sint b \<Longrightarrow> sint a + sint b \<le> 2147483647 \<Longrightarrow>
   sint (a + b) = sint a + sint b"
  using sint_of_int_cell [of "sint a + sint b"] by simp

lemma sint_sub_cell:
  "- 2147483648 \<le> sint (a :: cell) - sint b \<Longrightarrow> sint a - sint b \<le> 2147483647 \<Longrightarrow>
   sint (a - b) = sint a - sint b"
  using sint_of_int_cell [of "sint a - sint b"] by simp

lemma sint_cell_srem:
  assumes "d \<noteq> 0"
  shows "sint (cell_srem n d) = c_mod (sint n) (sint d)"
proof -
  have "sint d \<noteq> 0" using assms by simp
  then have "\<bar>c_mod (sint n) (sint d)\<bar> < \<bar>sint d\<bar>" by (rule c_mod_range)
  then show ?thesis
    unfolding cell_srem_def using sint_cell_bounds [of d] by (intro sint_of_int_cell) auto
qed

lemma floor_div_correct:
  assumes d: "d \<noteq> 0" "\<bar>sint d\<bar> \<le> 2 ^ 30"
    and n: "\<not> (sint n = - (2 ^ 31) \<and> sint d = -1)"
    and fits: "- (2 ^ 31) \<le> sint d * (sint n div sint d)" "sint d * (sint n div sint d) < 2 ^ 31"
  shows "\<exists>q m. floor_div n d = Some (q, m) \<and> sint q = sint n div sint d \<and> sint m = sint n mod sint d"
proof -
  let ?n = "sint n" and ?d = "sint d"
  have d0: "?d \<noteq> 0" using d(1) by simp
  let ?s = "cell_srem n d + d"
  let ?m = "cell_srem ?s d"
  have rem: "sint (cell_srem n d) = c_mod ?n ?d" by (rule sint_cell_srem [OF d(1)])
  have r: "\<bar>c_mod ?n ?d\<bar> < \<bar>?d\<bar>" by (rule c_mod_range [OF d0])
  have s: "sint ?s = c_mod ?n ?d + ?d"
    using r d(2) by (subst sint_add_cell) (auto simp: rem)
  have m: "sint ?m = ?n mod ?d"
    by (simp only: sint_cell_srem [OF d(1)] s c_mod_twice [OF d0])
  have eq: "?n - ?n mod ?d = ?d * (?n div ?d)" by (simp add: minus_mod_eq_mult_div)
  have nm: "sint (n - ?m) = ?d * (?n div ?d)"
    using fits by (subst sint_sub_cell) (simp_all add: m eq)
  have q: "sint (cell_sdiv (n - ?m) d) = ?n div ?d"
  proof -
    have "\<bar>?n div ?d\<bar> \<le> \<bar>?d\<bar> * \<bar>?n div ?d\<bar>"
    proof -
      have "1 \<le> \<bar>?d\<bar>" using d0 by linarith
      from mult_right_mono [OF this, of "\<bar>?n div ?d\<bar>"] show ?thesis by simp
    qed
    then have le: "\<bar>?n div ?d\<bar> \<le> 2147483648"
      using fits by (simp flip: abs_mult)
    have "?n div ?d \<noteq> 2147483648"
    proof
      assume k: "?n div ?d = 2147483648"
      with fits have "-1 \<le> ?d" "?d < 1" by simp_all
      with d0 have "?d = -1" by linarith
      with k n show False by simp
    qed
    with le show ?thesis
      by (simp only: cell_sdiv_def nm c_div_exact [OF d0]) (subst sint_of_int_cell, auto)
  qed
  have c: "c_divides n d" "c_divides ?s d" "c_divides (n - ?m) d"
  proof -
    show "c_divides n d" using d(1) n by (simp add: c_divides_def)
    show "c_divides ?s d" using d(1) r by (auto simp: c_divides_def s)
    show "c_divides (n - ?m) d" using d(1) n by (auto simp: c_divides_def nm)
  qed
  then show ?thesis using m q by (simp add: floor_div_def Let_def)
qed

section \<open>The case table\<close>

text \<open>The records of a case table in a block: \<open>n\<close> pairs of a value and a jump address.\<close>

fun case_records :: "mem \<Rightarrow> int \<Rightarrow> nat \<Rightarrow> (cell \<times> cell) list option" where
  "case_records m a 0 = Some []"
| "case_records m a (Suc n) =
     do { v \<leftarrow> load32 m a; t \<leftarrow> load32 m (a + 4); rs \<leftarrow> case_records m (a + 8) n;
          Some ((v, t) # rs) }"

lemma peek_eq: "ep_base p = Some m \<Longrightarrow> load32 m a = Some v \<Longrightarrow> peek p a k = k v"
  by (simp add: peek_def)

lemma switch_scan_map_of:
  assumes "ep_base p = Some m" "case_records m (re_code e + a) n = Some rs"
  shows "switch_scan n a d e r p =
    Next (r\<lparr>cip := (case map_of rs (pri r) of None \<Rightarrow> d | Some t \<Rightarrow> sint t)\<rparr>) p"
  using assms(2)
proof (induction n arbitrary: a rs)
  case (Suc n)
  then obtain v t rs' where l: "load32 m (re_code e + a) = Some v"
    "load32 m (re_code e + a + 4) = Some t"
    and rs': "case_records m (re_code e + (a + 8)) n = Some rs'" and rs: "rs = (v, t) # rs'"
    by (auto simp: bind_eq_Some_conv add.assoc)
  show ?case
    using Suc.IH [OF rs'] peek_eq [OF assms(1) l(1)] peek_eq [OF assms(1) l(2)]
    by (simp add: rs)
qed simp

text \<open>
  \<^verbatim>\<open>SWITCH\<close> is a table lookup: it jumps to the address of the first record of the case
  table whose value is that of \<^verbatim>\<open>pri\<close>, and to the none-matched address if there is none.
\<close>

theorem op_switch_map_of:
  assumes "ep_base p = Some m"
    and "load32 m (re_code e + cip r) = Some tbl"
    and "load32 m (re_code e + (sint tbl + 4)) = Some num"
    and "load32 m (re_code e + (sint tbl + 4) + 4) = Some dflt"
    and "case_records m (re_code e + (sint tbl + 12)) (nat (sint num)) = Some rs"
  shows "op_switch e r p =
    Next (r\<lparr>cip := sint (case map_of rs (pri r) of None \<Rightarrow> dflt | Some t \<Rightarrow> t)\<rparr>) p"
  using switch_scan_map_of [OF assms(1,5), of "sint dflt" r]
    assms(1-4)
  by (simp add: op_switch_def Let_def peek_def algebra_simps split: option.split)

text \<open>A block with a case table of one record, from 5 to 40, and default 20.\<close>

definition switch_block :: mem where
  "switch_block = [4, 0, 0, 0, 0, 0, 0, 0, 1, 0, 0, 0, 20, 0, 0, 0, 5, 0, 0, 0, 40, 0, 0, 0]"

definition switch_env :: run_env where
  "switch_env = \<lparr>re_code = 0, re_data = 0, re_codesize = 0, re_reset_stk = 0, re_reset_hea = 0,
     re_max = 0, re_natives = (\<lambda>f p a. None)\<rparr>"

definition switch_regs :: regs where
  "switch_regs = \<lparr>pri = 5, alt = 0, stk = 0, frm = 0, hea = 0, cip = 0\<rparr>"

theorem op_switch_map_of_witness:
  "op_switch switch_env switch_regs (calloc_program\<lparr>ep_base := Some switch_block\<rparr>)
    = Next (switch_regs\<lparr>cip := 40\<rparr>) (calloc_program\<lparr>ep_base := Some switch_block\<rparr>)"
proof -
  have "load32 switch_block 0 = Some 4" "load32 switch_block 8 = Some 1"
    "load32 switch_block 12 = Some 20" "case_records switch_block 16 1 = Some [(5, 40)]"
    by code_simp+
  then show ?thesis
    using op_switch_map_of [of "calloc_program\<lparr>ep_base := Some switch_block\<rparr>" switch_block switch_env
        switch_regs 4 1 20 "[(5, 40)]"]
    by (simp add: switch_env_def switch_regs_def)
qed

section \<open>Signed division\<close>

text \<open>
  C14: \<^verbatim>\<open>SDIV\<close> rounds down as its comment says: \<^verbatim>\<open>pri\<close> becomes the floor of the quotient
  and \<^verbatim>\<open>alt\<close> the modulus with the sign of the divisor, for every divisor up to \<open>2 ^ 30\<close> in
  size and every dividend whose floor multiple of the divisor is itself a cell.
\<close>

theorem sdiv_rounds_down:
  assumes "alt r \<noteq> 0" "\<bar>sint (alt r)\<bar> \<le> 2 ^ 30"
    and "\<not> (sint (pri r) = - (2 ^ 31) \<and> sint (alt r) = -1)"
    and "- (2 ^ 31) \<le> sint (alt r) * (sint (pri r) div sint (alt r))"
    and "sint (alt r) * (sint (pri r) div sint (alt r)) < 2 ^ 31"
  shows "\<exists>q m. op_sdiv e r p = Next (r\<lparr>pri := q, alt := m\<rparr>) p
    \<and> sint q = sint (pri r) div sint (alt r) \<and> sint m = sint (pri r) mod sint (alt r)"
proof -
  obtain q m where "floor_div (pri r) (alt r) = Some (q, m)"
    "sint q = sint (pri r) div sint (alt r)" "sint m = sint (pri r) mod sint (alt r)"
    using floor_div_correct [OF assms] by blast
  then show ?thesis using assms(1) by (intro exI [of _ q] exI [of _ m]) (simp add: op_sdiv_def)
qed

theorem sdiv_rounds_down_witness:
  "\<exists>q m. op_sdiv switch_env (switch_regs\<lparr>pri := -7, alt := 2\<rparr>) calloc_program
     = Next (switch_regs\<lparr>pri := q, alt := m\<rparr>) calloc_program \<and> sint q = -4 \<and> sint m = 1"
  using sdiv_rounds_down [of "switch_regs\<lparr>pri := -7, alt := 2\<rparr>" switch_env calloc_program] by simp

text \<open>
  outside these bounds the division is wrong or traps: the smallest cell divided by 3
  gives a positive quotient, because the subtraction of the modulus wraps around, and divided
  by -1 it is undefined.
\<close>

theorem sdiv_overflows:
  "op_sdiv e \<lparr>pri = 0x80000000, alt = 3, stk = s, frm = f, hea = h, cip = c\<rparr> p
    = Next \<lparr>pri = 715827882, alt = 1, stk = s, frm = f, hea = h, cip = c\<rparr> p
  \<and> op_sdiv e \<lparr>pri = 0x80000000, alt = -1, stk = s, frm = f, hea = h, cip = c\<rparr> p = Fault"
proof -
  have "floor_div 0x80000000 3 = Some (715827882, 1)" "floor_div 0x80000000 (-1) = None"
    by code_simp+
  then show ?thesis by (simp add: op_sdiv_def)
qed

end
