(* ===== verification/Embryo_Frame.thy ===== *)
theory Embryo_Frame
  imports Embryo_Api
begin

text \<open>
  What every instruction leaves alone and how a run may end. An instruction changes the
  contents of the memory block but not its size, and none of the fields of the program that
  belong to the embedding program; a run that stops restores the stack, the heap and the
  recursion count as its status says. The facts are proved macro by macro
  (\<open>vm_post\<close>), so that each instruction is one line.
\<close>

section \<open>Results of a step that are not faults\<close>

fun post :: "(embryo_program \<Rightarrow> bool) \<Rightarrow> (embryo_status \<Rightarrow> embryo_program \<Rightarrow> bool) \<Rightarrow> step_result \<Rightarrow> bool" where
  "post N S (Next r p) = N p"
| "post N S (Stop s p) = S s p"
| "post N S Fault = True"

text \<open>The part of the program record that no instruction changes.\<close>

definition same_frame :: "embryo_program \<Rightarrow> embryo_program \<Rightarrow> bool" where
  "same_frame p q \<longleftrightarrow>
     map_option length (ep_base q) = map_option length (ep_base p)
     \<and> ep_run_count q = ep_run_count p \<and> ep_stp q = ep_stp p \<and> ep_hlw q = ep_hlw p
     \<and> ep_flags q = ep_flags p \<and> ep_code q = ep_code p \<and> ep_pushes q = ep_pushes p
     \<and> ep_native_calls q = ep_native_calls p"

definition natives_framed ::
    "(nat \<Rightarrow> embryo_program \<Rightarrow> int \<Rightarrow> (cell \<times> embryo_program) option) \<Rightarrow> bool" where
  "natives_framed nf \<longleftrightarrow> (\<forall>f p a v p'. nf f p a = Some (v, p') \<longrightarrow> same_frame p p')"

text \<open>The ways a run may return, relative to the record with which the loop was entered.\<close>

definition stop_ok :: "run_env \<Rightarrow> embryo_program \<Rightarrow> embryo_status \<Rightarrow> embryo_program \<Rightarrow> bool" where
  "stop_ok e p s q \<longleftrightarrow>
     (case s of
        EMBRYO_PROGRAM_OK \<Rightarrow>
          ep_stk q = re_reset_stk e \<and> ep_hea q = re_reset_hea e
          \<and> ep_run_count q = ep_run_count p - 1 \<and> ep_max_run_cycles q = re_max e
      | EMBRYO_PROGRAM_FAIL \<Rightarrow>
          ep_stk q = re_reset_stk e \<and> ep_hea q = re_reset_hea e
            \<and> ep_run_count q = ep_run_count p - 1 \<and> ep_max_run_cycles q = re_max e
          \<or> (ep_error q = EMBRYO_ERROR_STACKLOW \<or> ep_error q = EMBRYO_ERROR_HEAPLOW)
            \<and> ep_run_count q = ep_run_count p - 1
          \<or> ep_error q = EMBRYO_ERROR_STACKERR \<and> ep_run_count q = ep_run_count p
      | EMBRYO_PROGRAM_SLEEP \<Rightarrow>
          ep_reset_stk q = re_reset_stk e \<and> ep_reset_hea q = re_reset_hea e
          \<and> ep_run_count q = ep_run_count p - 1
      | EMBRYO_PROGRAM_TOOLONG \<Rightarrow>
          ep_reset_stk q = re_reset_stk e \<and> ep_reset_hea q = re_reset_hea e
          \<and> ep_run_count q = ep_run_count p - 1 \<and> ep_max_run_cycles q = re_max e
      | EMBRYO_PROGRAM_BUSY \<Rightarrow> False)
     \<and> map_option length (ep_base q) = map_option length (ep_base p)
     \<and> ep_code q = ep_code p"

lemma same_frame_refl [simp]: "same_frame p p"
  by (simp add: same_frame_def)

lemma same_frame_trans: "same_frame p q \<Longrightarrow> same_frame q t \<Longrightarrow> same_frame p t"
  by (simp add: same_frame_def)

lemma stop_ok_frame: "same_frame p q \<Longrightarrow> stop_ok e q s t \<Longrightarrow> stop_ok e p s t"
  by (auto simp: stop_ok_def same_frame_def split: embryo_status.splits)

text \<open>Record updates that stay inside the frame.\<close>

lemma same_frame_upd [simp]:
  "same_frame p (q\<lparr>ep_stk := a\<rparr>) = same_frame p q"
  "same_frame p (q\<lparr>ep_hea := a\<rparr>) = same_frame p q"
  "same_frame p (q\<lparr>ep_frm := a\<rparr>) = same_frame p q"
  "same_frame p (q\<lparr>ep_cip := a\<rparr>) = same_frame p q"
  "same_frame p (q\<lparr>ep_pri := a\<rparr>) = same_frame p q"
  "same_frame p (q\<lparr>ep_alt := a\<rparr>) = same_frame p q"
  "same_frame p (q\<lparr>ep_retval := a\<rparr>) = same_frame p q"
  "same_frame p (q\<lparr>ep_error := n\<rparr>) = same_frame p q"
  by (simp_all add: same_frame_def)

lemma same_frame_base:
  "same_frame p q \<Longrightarrow> ep_base q = Some m \<Longrightarrow> length m' = length m \<Longrightarrow>
   same_frame p (q\<lparr>ep_base := Some m'\<rparr>)"
  by (auto simp: same_frame_def)

section \<open>The macros\<close>

named_theorems vm_post

lemma post_Next [vm_post]: "same_frame p q \<Longrightarrow> post (same_frame p) (stop_ok e p) (Next r q)"
  by simp

lemma post_Fault [vm_post]: "post N S Fault"
  by simp

lemma post_peek [vm_post]: "(\<And>v. post N S (k v)) \<Longrightarrow> post N S (peek q a k)"
  by (simp add: peek_def split: option.split)

lemma post_poke [vm_post]:
  "same_frame p q \<Longrightarrow> (\<And>q'. same_frame p q' \<Longrightarrow> post (same_frame p) S (k q')) \<Longrightarrow>
   post (same_frame p) S (poke q a v k)"
  by (auto simp: poke_def dest!: store_length(3) intro: same_frame_base split: option.split)

lemma post_GETPARAM [vm_post]: "(\<And>v r'. post N S (k v r')) \<Longrightarrow> post N S (GETPARAM e r q k)"
  unfolding GETPARAM_def by (intro vm_post)

lemma post_PUSH [vm_post]:
  "same_frame p q \<Longrightarrow> (\<And>r' q'. same_frame p q' \<Longrightarrow> post (same_frame p) S (k r' q')) \<Longrightarrow>
   post (same_frame p) S (PUSH e r q v k)"
  unfolding PUSH_def Let_def by (intro vm_post)

lemma post_POP [vm_post]: "(\<And>v r'. post N S (k v r')) \<Longrightarrow> post N S (POP e r q k)"
  unfolding POP_def by (intro vm_post)

lemma post_ABORT [vm_post]: "same_frame p q \<Longrightarrow> post N (stop_ok e p) (ABORT e q v)"
  by (auto simp: ABORT_def stop_ok_def same_frame_def)

lemma post_OK [vm_post]: "same_frame p q \<Longrightarrow> post N (stop_ok e p) (OK e q v)"
  by (auto simp: OK_def stop_ok_def same_frame_def)

lemma post_TOOLONG [vm_post]: "same_frame p q \<Longrightarrow> post N (stop_ok e p) (TOOLONG e r q)"
  by (auto simp: TOOLONG_def stop_ok_def same_frame_def)

lemma post_CHKMARGIN [vm_post]:
  "same_frame p q \<Longrightarrow> post N (stop_ok e p) k \<Longrightarrow> post N (stop_ok e p) (CHKMARGIN r q k)"
  by (auto simp: CHKMARGIN_def stop_ok_def same_frame_def)

lemma post_CHKSTACK [vm_post]:
  "same_frame p q \<Longrightarrow> post N (stop_ok e p) k \<Longrightarrow> post N (stop_ok e p) (CHKSTACK r q k)"
  by (auto simp: CHKSTACK_def stop_ok_def same_frame_def)

lemma post_CHKHEAP [vm_post]:
  "same_frame p q \<Longrightarrow> post N (stop_ok e p) k \<Longrightarrow> post N (stop_ok e p) (CHKHEAP r q k)"
  by (auto simp: CHKHEAP_def stop_ok_def same_frame_def)

lemma post_CHKMEM [vm_post]:
  "same_frame p q \<Longrightarrow> post N (stop_ok e p) k \<Longrightarrow> post N (stop_ok e p) (CHKMEM e r q x k)"
  by (simp add: CHKMEM_def post_ABORT)

lemma post_if [vm_post]:
  "(b \<Longrightarrow> post N S x) \<Longrightarrow> (\<not> b \<Longrightarrow> post N S y) \<Longrightarrow> post N S (if b then x else y)"
  by simp

lemma post_case_option [vm_post]:
  "(z = None \<Longrightarrow> post N S x) \<Longrightarrow> (\<And>v. z = Some v \<Longrightarrow> post N S (f v)) \<Longrightarrow>
   post N S (case z of None \<Rightarrow> x | Some v \<Rightarrow> f v)"
  by (cases z) simp_all

lemma post_case_prod [vm_post]:
  "(\<And>a b. v = (a, b) \<Longrightarrow> post N S (f a b)) \<Longrightarrow> post N S (case v of (a, b) \<Rightarrow> f a b)"
  by (cases v) simp

lemma post_Let [vm_post]: "post N S (f x) \<Longrightarrow> post N S (Let x f)"
  by simp

lemma post_jumpabs [vm_post]: "same_frame p q \<Longrightarrow> post (same_frame p) (stop_ok e p) (jumpabs e r q)"
  unfolding jumpabs_def by (intro vm_post)

lemma post_jump_if [vm_post]:
  "same_frame p q \<Longrightarrow> post (same_frame p) (stop_ok e p) (jump_if b e r q)"
  unfolding jump_if_def by (intro vm_post)

section \<open>The instructions\<close>

definition framed :: "instr \<Rightarrow> bool" where
  "framed op \<longleftrightarrow>
     (\<forall>e r p. natives_framed (re_natives e) \<longrightarrow> post (same_frame p) (stop_ok e p) (op e r p))"

lemma framedI:
  "(\<And>e r p. natives_framed (re_natives e) \<Longrightarrow> post (same_frame p) (stop_ok e p) (op e r p)) \<Longrightarrow>
   framed op"
  by (simp add: framed_def)

lemma framed_memory:
    "framed op_load_pri" "framed op_load_alt" "framed op_load_s_pri"
    "framed op_load_s_alt" "framed op_lref_pri" "framed op_lref_alt"
    "framed op_lref_s_pri" "framed op_lref_s_alt" "framed op_load_i"
    "framed op_lodb_i" "framed op_const_pri" "framed op_const_alt"
    "framed op_addr_pri" "framed op_addr_alt" "framed op_stor_pri"
    "framed op_stor_alt" "framed op_stor_s_pri" "framed op_stor_s_alt"
    "framed op_sref_pri" "framed op_sref_alt" "framed op_sref_s_pri"
    "framed op_sref_s_alt" "framed op_stor_i" "framed op_strb_i"
    "framed op_lidx" "framed op_lidx_b" "framed op_idxaddr"
    "framed op_idxaddr_b" "framed op_align_pri" "framed op_align_alt"
  by ((rule framedI, unfold op_memory_defs,
        (rule vm_post | assumption | rule same_frame_refl
         | (rule same_frame_base, rule same_frame_refl, assumption, erule store_length)
         | simp)+)[1])+

lemma post_push_times [vm_post]:
  "same_frame p q \<Longrightarrow> post (same_frame p) (stop_ok e p) (push_times n e r q)"
proof (induction n arbitrary: r q)
  case (Suc n)
  show ?case unfolding push_times.simps by (rule post_PUSH [OF Suc.prems]) (rule Suc.IH)
qed simp

lemma post_switch_scan [vm_post]:
  "same_frame p q \<Longrightarrow> post (same_frame p) (stop_ok e p) (switch_scan n a d e r q)"
proof (induction n arbitrary: a)
  case (Suc n)
  show ?case
    unfolding switch_scan.simps by (intro vm_post Suc.IH Suc.prems)
qed simp

lemma framed_control:
    "framed op_lctrl" "framed op_sctrl" "framed op_move_pri"
    "framed op_move_alt" "framed op_xchg" "framed op_push_pri"
    "framed op_push_alt" "framed op_push_c" "framed op_push_r"
    "framed op_push" "framed op_push_s" "framed op_pop_pri"
    "framed op_pop_alt" "framed op_stack" "framed op_heap"
    "framed op_proc" "framed op_ret" "framed op_retn"
    "framed op_call" "framed op_call_pri" "framed op_jump"
    "framed op_jrel" "framed op_jzer" "framed op_jnz"
    "framed op_jeq" "framed op_jneq" "framed op_jless"
    "framed op_jleq" "framed op_jgrtr" "framed op_jgeq"
    "framed op_jsless" "framed op_jsleq" "framed op_jsgrtr"
    "framed op_jsgeq" "framed op_jump_pri" "framed op_switch"
    "framed op_swap_pri" "framed op_swap_alt" "framed op_pushaddr"
    "framed op_none" "framed op_nop"
  by ((rule framedI, unfold op_control_defs,
        (rule vm_post | assumption | rule same_frame_refl | simp)+)[1])+

lemma framed_alu:
    "framed op_shl" "framed op_shr" "framed op_sshr"
    "framed op_shl_c_pri" "framed op_shl_c_alt" "framed op_shr_c_pri"
    "framed op_shr_c_alt" "framed op_smul" "framed op_sdiv"
    "framed op_sdiv_alt" "framed op_umul" "framed op_udiv"
    "framed op_udiv_alt" "framed op_add" "framed op_sub"
    "framed op_sub_alt" "framed op_and" "framed op_or"
    "framed op_xor" "framed op_not" "framed op_neg"
    "framed op_invert" "framed op_add_c" "framed op_smul_c"
    "framed op_zero_pri" "framed op_zero_alt" "framed op_zero"
    "framed op_zero_s" "framed op_sign_pri" "framed op_sign_alt"
    "framed op_eq" "framed op_neq" "framed op_less"
    "framed op_leq" "framed op_grtr" "framed op_geq"
    "framed op_sless" "framed op_sleq" "framed op_sgrtr"
    "framed op_sgeq" "framed op_eq_c_pri" "framed op_eq_c_alt"
    "framed op_inc_pri" "framed op_inc_alt" "framed op_inc"
    "framed op_inc_s" "framed op_inc_i" "framed op_dec_pri"
    "framed op_dec_alt" "framed op_dec" "framed op_dec_s"
    "framed op_dec_i"
  by ((rule framedI, unfold op_alu_defs,
        (rule vm_post | assumption | rule same_frame_refl | simp)+)[1])+

lemma length_store_bytes: "store_bytes m a bs = Some m' \<Longrightarrow> length m' = length m"
  by (auto simp: store_bytes_def in_block_def split: if_splits)

lemma length_memcpy_block: "memcpy_block m d s n = Some m' \<Longrightarrow> length m' = length m"
  by (auto simp: memcpy_block_def bind_eq_Some_conv length_store_bytes split: if_splits)

lemma length_fill_cells: "fill_cells m a n v = Some m' \<Longrightarrow> length m' = length m"
proof (induction m a n v rule: fill_cells.induct)
  case (1 m a n v)
  then show ?case
    by (subst (asm) fill_cells.simps) (auto simp: store_length split: if_splits option.splits)
qed

lemma embryo_native_call_frame:
  assumes "natives_framed (re_natives e)" "embryo_native_call e q idx a = Some (num, res, q')"
    and "same_frame p q"
  shows "same_frame p q'"
proof -
  have "same_frame p q'" if "re_natives e f (q\<lparr>ep_error := x\<rparr>) y = Some (v, q')" for f x y v
  proof -
    have "same_frame (q\<lparr>ep_error := x\<rparr>) q'"
      using assms(1) that unfolding natives_framed_def by blast
    then show ?thesis
      using assms(3) by (intro same_frame_trans [of p "q\<lparr>ep_error := x\<rparr>" q']) simp_all
  qed
  then show ?thesis
    using assms(2,3)
    by (auto simp: embryo_native_call_def bind_eq_Some_conv Let_def split: if_splits option.splits)
qed

lemma post_sysreq [vm_post]:
  assumes "natives_framed (re_natives e)" "same_frame p q"
  shows "post (same_frame p) (stop_ok e p) (sysreq idx e r q)"
proof -
  let ?q = "q\<lparr>ep_cip := of_int (cip r), ep_hea := hea r, ep_frm := frm r, ep_stk := stk r\<rparr>"
  have "same_frame p ?q" using assms(2) by simp
  show ?thesis
  proof (cases "embryo_native_call e ?q idx (data_at e (stk r))")
    case None
    then show ?thesis by (simp add: sysreq_def)
  next
    case (Some x)
    obtain num res q' where x: "x = (num, res, q')" by (cases x)
    have "same_frame p q'"
      using embryo_native_call_frame [OF assms(1) Some [unfolded x] \<open>same_frame p ?q\<close>] .
    then show ?thesis
      using Some x
      by (auto simp: sysreq_def ABORT_def stop_ok_def same_frame_def Let_def)
  qed
qed

lemma framed_block:
    "framed op_movs" "framed op_cmps" "framed op_fill"
    "framed op_halt" "framed op_bounds" "framed op_sysreq_pri"
    "framed op_sysreq_c" "framed op_sysreq_d"
  by ((rule framedI, unfold op_block_defs,
        (rule vm_post | assumption | rule same_frame_refl
         | (rule same_frame_base, rule same_frame_refl, assumption,
            erule length_memcpy_block length_fill_cells)
         | (simp add: stop_ok_def same_frame_def))+)[1])+

text \<open>Every entry of the dispatch table, and so every turn of the loop.\<close>

lemma framed_switchtable: "op \<in> set switchtable \<Longrightarrow> framed op"
  by (auto simp: switchtable_def framed_memory framed_control framed_alu framed_block)

lemma length_switchtable: "length switchtable = 256"
  by (simp add: switchtable_def)

lemma post_step [vm_post]:
  assumes "natives_framed (re_natives e)" "same_frame p q"
  shows "post (same_frame p) (stop_ok e p) (step e r q)"
proof -
  have op: "post (same_frame q) (stop_ok e q) ((switchtable ! unat (b :: u8)) e r' q)" for b r'
    using framed_switchtable [of "switchtable ! unat b"] unat_less_256 [of b] assms(1)
    by (auto simp: framed_def length_switchtable)
  have "post (same_frame p) (stop_ok e p) x" if "post (same_frame q) (stop_ok e q) x" for x
    using that assms(2) by (cases x) (auto intro: same_frame_trans stop_ok_frame)
  with op show ?thesis unfolding step_def by (intro post_GETPARAM) blast
qed

section \<open>The loop\<close>

lemma run_loop_not_Next: "run_loop n e c r p = Some res \<Longrightarrow> \<nexists>r' p'. res = Next r' p'"
  by (induction n arbitrary: c r p) (auto simp: TOOLONG_def split: if_splits step_result.splits)

lemma post_run_loop:
  assumes "natives_framed (re_natives e)" "same_frame p q" "run_loop n e c r q = Some res"
  shows "post (same_frame p) (stop_ok e p) res"
  using assms(2,3)
proof (induction n arbitrary: c r q)
  case (Suc n)
  show ?case
  proof (cases "0 < re_max e \<and> re_max e \<le> int c")
    case True
    then show ?thesis using Suc.prems post_TOOLONG [of p q] by auto
  next
    case False
    then show ?thesis
      using Suc.prems Suc.IH post_step [OF assms(1) Suc.prems(1), of r]
      by (cases "step e r q") auto
  qed
qed simp

text \<open>With a cycle limit the loop stops after at most that many turns.\<close>

lemma run_loop_limit:
  assumes "0 < re_max e" "int c \<le> re_max e" "re_max e < int c + int n"
  shows "run_loop n e c r p \<noteq> None"
  using assms(2,3)
proof (induction n arbitrary: c r p)
  case 0
  then show ?case by simp
next
  case (Suc n)
  then show ?case using assms(1) by (auto split: step_result.split)
qed

section \<open>Entering a run\<close>

lemma length_string_set_loop: "string_set_loop m a s = Some m' \<Longrightarrow> length m' = length m"
proof (induction s arbitrary: m a)
  case (Cons c s)
  then show ?case
    by (auto simp: bind_eq_Some_conv store_length split: if_splits)
qed (simp add: store_length)

lemma same_frame_copy_string: "copy_string s a p = Some q \<Longrightarrow> same_frame p q"
  by (auto simp: copy_string_def embryo_data_string_set_def same_frame_def bind_eq_Some_conv
      dest: length_string_set_loop split: option.splits if_splits)

lemma same_frame_copy_cells: "copy_cells cs a p = Some q \<Longrightarrow> same_frame p q"
  by (auto simp: copy_cells_def same_frame_def bind_eq_Some_conv length_store_bytes)

lemma same_frame_heap_push: "embryo_data_heap_push p n = (a, q) \<Longrightarrow> same_frame p q"
  by (auto simp: embryo_data_heap_push_def Let_def split: if_splits)

text \<open>Before the loop a run can only stop with \<open>FAIL\<close>.\<close>

abbreviation early :: "embryo_status \<Rightarrow> embryo_program \<Rightarrow> bool" where
  "early s q \<equiv> s = EMBRYO_PROGRAM_FAIL"

lemma early_PUSH:
  assumes "same_frame p q" "\<And>r' q'. same_frame p q' \<Longrightarrow> post N early (k r' q')"
  shows "post N early (PUSH e r q v k)"
  using assms
  by (auto simp: PUSH_def poke_def Let_def dest!: store_length(3) intro: same_frame_base
      split: option.split)

lemma early_heap_param:
  assumes "same_frame p q"
    and copy: "\<And>a x y. copy a x = Some y \<Longrightarrow> same_frame x y"
    and k: "\<And>a q'. same_frame p q' \<Longrightarrow> post N early (k a q')"
  shows "post N early (heap_param q n copy k)"
proof -
  obtain a q' where h: "embryo_data_heap_push q (of_nat (n + 1)) = (a, q')"
    by (cases "embryo_data_heap_push q (of_nat (n + 1))")
  have f: "same_frame p q'"
    using same_frame_trans [OF assms(1) same_frame_heap_push [OF h]] .
  have "post N early (case copy x q' of None \<Rightarrow> Fault | Some z \<Rightarrow> k a z)" for x
    using k same_frame_trans [OF f copy] by (cases "copy x q'") auto
  then show ?thesis
    using h by (auto simp: heap_param_def Let_def split: option.split)
qed

lemma early_push_params:
  assumes "same_frame p q"
    and "\<And>r' q'. same_frame p q' \<Longrightarrow> post N early (k r' q')"
  shows "post N early (push_params j e r q k)"
  using assms(1)
proof (induction j arbitrary: r q)
  case (Suc j)
  have push: "post N early (PUSH e r q' a (\<lambda>r q. push_params j e r q k))"
    if "same_frame p q'" for a q'
    using that by (rule early_PUSH) (rule Suc.IH)
  have str: "post N early (heap_param q l (copy_string s) (\<lambda>a q.
      PUSH e r q a (\<lambda>r q. push_params j e r q k)))" for l s
    by (rule early_heap_param [OF Suc.prems same_frame_copy_string]) (auto intro: push)
  have arr: "post N early (heap_param q l (copy_cells cs) (\<lambda>a q.
      PUSH e r q a (\<lambda>r q. push_params j e r q k)))" for l cs
    by (rule early_heap_param [OF Suc.prems same_frame_copy_cells]) (auto intro: push)
  show ?case
    using push [OF Suc.prems] str arr by (auto split: option.split embryo_param.split)
qed (simp add: assms(2))

lemma post_run_start:
  "post (same_frame (p\<lparr>ep_run_count := ep_run_count p + 1\<rparr>)) early (run_start e r p fn)"
proof -
  let ?N = "same_frame (p\<lparr>ep_run_count := ep_run_count p + 1\<rparr>)"
  have enter: "post ?N early (CHKMARGIN r q (Next r (q\<lparr>ep_run_count := ep_run_count q + 1\<rparr>)))"
    if "same_frame p q" for r q
    using that by (auto simp: CHKMARGIN_def same_frame_def)
  have drop: "same_frame p (q\<lparr>ep_params := [], ep_params_size := 0, ep_params_alloc := 0\<rparr>)"
    if "same_frame p q" for q
    using that by (simp add: same_frame_def)
  have call: "post ?N early (push_call e r p
      (\<lambda>r q. CHKMARGIN r q (Next r (q\<lparr>ep_run_count := ep_run_count q + 1\<rparr>))))"
    unfolding push_call_def
    by (rule early_push_params [OF same_frame_refl], rule early_PUSH, assumption,
        rule early_PUSH, assumption, rule enter, erule drop)
  show ?thesis
    using call enter [OF same_frame_refl]
    by (simp add: run_start_def CHKSTACK_def CHKHEAP_def Let_def)
qed

lemma run_entry_env:
  assumes "run_entry nf m p fn = Some (Some (e, r))"
  shows "re_natives e = nf" "re_max e = ep_max_run_cycles p"
    "fn \<noteq> EMBRYO_FUNCTION_CONT \<Longrightarrow> re_reset_stk e = ep_stk p \<and> re_reset_hea e = ep_hea p"
  using assms
  by (auto simp: run_entry_def Let_def bind_eq_Some_conv EMBRYO_FUNCTION_MAIN_def
      EMBRYO_FUNCTION_CONT_def split: if_splits)

text \<open>
  The result of a whole run: an early \<open>FAIL\<close>, or a stop of the loop relative to the
  record with the recursion count raised.
\<close>

lemma embryo_program_run_result:
  assumes "natives_framed nf" "embryo_program_run nf n p fn = Some res"
  shows "(\<exists>q. res = Stop EMBRYO_PROGRAM_FAIL q) \<or> res = Fault \<or>
    (\<exists>e s q. re_max e = ep_max_run_cycles p \<and> res = Stop s q
      \<and> stop_ok e (p\<lparr>ep_run_count := ep_run_count p + 1\<rparr>) s q
      \<and> (fn \<noteq> EMBRYO_FUNCTION_CONT \<longrightarrow> re_reset_stk e = ep_stk p \<and> re_reset_hea e = ep_hea p))"
proof (cases "\<exists>q. res = Stop EMBRYO_PROGRAM_FAIL q \<or> res = Fault")
  case False
  then obtain m e r where er: "run_entry nf m p fn = Some (Some (e, r))"
    and st: "Some res = (case run_start e r p fn of Next r' p' \<Rightarrow> run_loop n e 0 r' p' | x \<Rightarrow> Some x)"
    using assms(2) by (auto simp: embryo_program_run_def split: if_splits option.splits prod.splits)
  have start: "post (same_frame (p\<lparr>ep_run_count := ep_run_count p + 1\<rparr>)) early (run_start e r p fn)"
    by (rule post_run_start)
  then obtain r' p' where "run_start e r p fn = Next r' p'"
    using st False by (cases "run_start e r p fn") auto
  with start st have f: "same_frame (p\<lparr>ep_run_count := ep_run_count p + 1\<rparr>) p'"
    and l: "run_loop n e 0 r' p' = Some res"
    by auto
  have "post (same_frame (p\<lparr>ep_run_count := ep_run_count p + 1\<rparr>))
      (stop_ok e (p\<lparr>ep_run_count := ep_run_count p + 1\<rparr>)) res"
    using run_entry_env(1) [OF er] assms(1) by (intro post_run_loop [OF _ f l]) simp
  then show ?thesis
    using run_entry_env [OF er] run_loop_not_Next [OF l] by (cases res) auto
qed auto

end
