(* ===== verification/Embryo_Resume.thy ===== *)
theory Embryo_Resume
  imports Embryo_Frame Embryo_Arith
begin

text \<open>
  Suspension is transparent: a run that is cut off by the cycle limit (\<^verbatim>\<open>TOOLONG\<close>) and
  then continued (\<^verbatim>\<open>EMBRYO_FUNCTION_CONT\<close>) does what the uninterrupted run does. The
  argument is a simulation between records that differ only in the fields where a suspended
  run saves its registers, proved macro by macro (\<open>vm_sim\<close>) like the frame facts.
\<close>

section \<open>Records up to the saved registers\<close>

definition forget_saved :: "embryo_program \<Rightarrow> embryo_program" where
  "forget_saved p =
     p\<lparr>ep_cip := 0, ep_frm := 0, ep_hea := 0, ep_stk := 0, ep_pri := 0, ep_alt := 0,
       ep_reset_stk := 0, ep_reset_hea := 0, ep_max_run_cycles := 0\<rparr>"

definition sim :: "embryo_program \<Rightarrow> embryo_program \<Rightarrow> bool" where
  "sim p q \<longleftrightarrow> forget_saved p = forget_saved q"

fun same_result :: "step_result \<Rightarrow> step_result \<Rightarrow> bool" where
  "same_result (Next r p) (Next r' q) = (r = r' \<and> sim p q)"
| "same_result (Stop s p) (Stop s' q) = (s = s' \<and> sim p q)"
| "same_result Fault Fault = True"
| "same_result _ _ = False"

text \<open>
  The call of a native saves four registers in the record first. A native may look at those,
  but not at the other fields that save registers.
\<close>

definition sim_call :: "embryo_program \<Rightarrow> embryo_program \<Rightarrow> bool" where
  "sim_call p q \<longleftrightarrow> sim p q \<and> ep_cip q = ep_cip p \<and> ep_hea q = ep_hea p \<and> ep_frm q = ep_frm p \<and> ep_stk q = ep_stk p"

definition natives_blind ::
    "(nat \<Rightarrow> embryo_program \<Rightarrow> int \<Rightarrow> (cell \<times> embryo_program) option) \<Rightarrow> bool" where
  "natives_blind nf \<longleftrightarrow>
     (\<forall>f p q a. sim_call p q \<longrightarrow> rel_option (rel_prod (=) sim) (nf f p a) (nf f q a))"

lemma sim_fields:
  assumes "sim p q"
  shows "ep_base q = ep_base p" "ep_stp q = ep_stp p" "ep_hlw q = ep_hlw p"
    "ep_error q = ep_error p" "ep_retval q = ep_retval p" "ep_run_count q = ep_run_count p"
    "ep_native_calls q = ep_native_calls p"
  using assms by (cases p; cases q; simp add: sim_def forget_saved_def)+

lemma sim_upd:
  assumes "sim p q"
  shows "sim (p\<lparr>ep_base := b\<rparr>) (q\<lparr>ep_base := b\<rparr>)"
    "sim (p\<lparr>ep_stk := a\<rparr>) (q\<lparr>ep_stk := a'\<rparr>)"
    "sim (p\<lparr>ep_hea := a\<rparr>) (q\<lparr>ep_hea := a'\<rparr>)"
    "sim (p\<lparr>ep_frm := a\<rparr>) (q\<lparr>ep_frm := a'\<rparr>)"
    "sim (p\<lparr>ep_cip := a\<rparr>) (q\<lparr>ep_cip := a'\<rparr>)"
    "sim (p\<lparr>ep_pri := a\<rparr>) (q\<lparr>ep_pri := a'\<rparr>)"
    "sim (p\<lparr>ep_alt := a\<rparr>) (q\<lparr>ep_alt := a'\<rparr>)"
    "sim (p\<lparr>ep_reset_stk := a\<rparr>) (q\<lparr>ep_reset_stk := a'\<rparr>)"
    "sim (p\<lparr>ep_reset_hea := a\<rparr>) (q\<lparr>ep_reset_hea := a'\<rparr>)"
    "sim (p\<lparr>ep_max_run_cycles := k\<rparr>) (q\<lparr>ep_max_run_cycles := k'\<rparr>)"
    "sim (p\<lparr>ep_retval := v\<rparr>) (q\<lparr>ep_retval := v\<rparr>)"
    "sim (p\<lparr>ep_run_count := n\<rparr>) (q\<lparr>ep_run_count := n\<rparr>)"
    "sim (p\<lparr>ep_error := n\<rparr>) (q\<lparr>ep_error := n\<rparr>)"
  using assms by (cases p; cases q; simp add: sim_def forget_saved_def)+

section \<open>The macros\<close>

named_theorems vm_sim

lemma sim_Next [vm_sim]: "r = r' \<Longrightarrow> sim p q \<Longrightarrow> same_result (Next r p) (Next r' q)"
  by simp

lemma sim_Fault [vm_sim]: "same_result Fault Fault"
  by simp

lemma sim_peek [vm_sim]:
  "sim p q \<Longrightarrow> (\<And>v. same_result (k v) (k' v)) \<Longrightarrow> same_result (peek p a k) (peek q a k')"
  by (auto simp: peek_def sim_fields split: option.split)

lemma sim_poke [vm_sim]:
  "sim p q \<Longrightarrow> (\<And>p' q'. sim p' q' \<Longrightarrow> same_result (k p') (k' q')) \<Longrightarrow>
   same_result (poke p a v k) (poke q a v k')"
  by (auto simp: poke_def sim_fields sim_upd split: option.split)

lemma sim_GETPARAM [vm_sim]:
  "sim p q \<Longrightarrow> (\<And>v r'. same_result (k v r') (k' v r')) \<Longrightarrow>
   same_result (GETPARAM e r p k) (GETPARAM (e\<lparr>re_max := x\<rparr>) r q k')"
  by (simp add: GETPARAM_def sim_peek)

lemma sim_PUSH [vm_sim]:
  "sim p q \<Longrightarrow> (\<And>r' p' q'. sim p' q' \<Longrightarrow> same_result (k r' p') (k' r' q')) \<Longrightarrow>
   same_result (PUSH e r p v k) (PUSH (e\<lparr>re_max := x\<rparr>) r q v k')"
  by (simp add: PUSH_def Let_def data_at_def sim_poke)

lemma sim_POP [vm_sim]:
  "sim p q \<Longrightarrow> (\<And>v r'. same_result (k v r') (k' v r')) \<Longrightarrow>
   same_result (POP e r p k) (POP (e\<lparr>re_max := x\<rparr>) r q k')"
  by (simp add: POP_def data_at_def sim_peek)

lemma sim_ABORT [vm_sim]:
  "sim p q \<Longrightarrow> same_result (ABORT e p v) (ABORT (e\<lparr>re_max := x\<rparr>) q v)"
  by (simp add: ABORT_def sim_upd sim_fields)

lemma sim_OK [vm_sim]: "sim p q \<Longrightarrow> same_result (OK e p v) (OK (e\<lparr>re_max := x\<rparr>) q v)"
  by (simp add: OK_def sim_upd sim_fields)

lemma sim_CHKMARGIN [vm_sim]:
  "sim p q \<Longrightarrow> same_result k k' \<Longrightarrow> same_result (CHKMARGIN r p k) (CHKMARGIN r q k')"
  by (simp add: CHKMARGIN_def sim_upd)

lemma sim_CHKSTACK [vm_sim]:
  "sim p q \<Longrightarrow> same_result k k' \<Longrightarrow> same_result (CHKSTACK r p k) (CHKSTACK r q k')"
  by (simp add: CHKSTACK_def sim_upd sim_fields)

lemma sim_CHKHEAP [vm_sim]:
  "sim p q \<Longrightarrow> same_result k k' \<Longrightarrow> same_result (CHKHEAP r p k) (CHKHEAP r q k')"
  by (simp add: CHKHEAP_def sim_upd sim_fields)

lemma sim_CHKMEM [vm_sim]:
  "sim p q \<Longrightarrow> same_result k k' \<Longrightarrow>
   same_result (CHKMEM e r p a k) (CHKMEM (e\<lparr>re_max := x\<rparr>) r q a k')"
  by (simp add: CHKMEM_def mem_protected_def sim_fields sim_ABORT)

lemma sim_if [vm_sim]:
  "b = b' \<Longrightarrow> same_result x x' \<Longrightarrow> same_result y y' \<Longrightarrow>
   same_result (if b then x else y) (if b' then x' else y')"
  by simp

lemma sim_case_option [vm_sim]:
  "z = z' \<Longrightarrow> same_result x x' \<Longrightarrow> (\<And>v. same_result (f v) (f' v)) \<Longrightarrow>
   same_result (case z of None \<Rightarrow> x | Some v \<Rightarrow> f v) (case z' of None \<Rightarrow> x' | Some v \<Rightarrow> f' v)"
  by (cases z) auto

lemma sim_case_prod [vm_sim]:
  "v = v' \<Longrightarrow> (\<And>a b. same_result (f a b) (f' a b)) \<Longrightarrow>
   same_result (case v of (a, b) \<Rightarrow> f a b) (case v' of (a, b) \<Rightarrow> f' a b)"
  by (cases v) auto

lemma sim_Let [vm_sim]:
  "same_result (f x) (f' x') \<Longrightarrow> same_result (Let x f) (Let x' f')"
  by simp

lemma sim_jumpabs [vm_sim]:
  "sim p q \<Longrightarrow> same_result (jumpabs e r p) (jumpabs (e\<lparr>re_max := x\<rparr>) r q)"
  unfolding jumpabs_def by simp (intro vm_sim, assumption, simp_all)

lemma sim_jump_if [vm_sim]:
  "sim p q \<Longrightarrow> same_result (jump_if b e r p) (jump_if b (e\<lparr>re_max := x\<rparr>) r q)"
  unfolding jump_if_def by (simp add: sim_jumpabs)

section \<open>The instructions\<close>

definition resumable_op :: "instr \<Rightarrow> bool" where
  "resumable_op op \<longleftrightarrow>
     (\<forall>e x r p q. natives_blind (re_natives e) \<longrightarrow> sim p q \<longrightarrow>
        same_result (op e r p) (op (e\<lparr>re_max := x\<rparr>) r q))"

lemma resumable_opI:
  "(\<And>e x r p q. natives_blind (re_natives e) \<Longrightarrow> sim p q \<Longrightarrow>
     same_result (op e r p) (op (e\<lparr>re_max := x\<rparr>) r q)) \<Longrightarrow> resumable_op op"
  by (simp add: resumable_op_def)

lemma env_upd [simp]:
  "data_at (e\<lparr>re_max := x\<rparr>) a = data_at e a" "frame_at (e\<lparr>re_max := x\<rparr>) r a = frame_at e r a"
  by (simp_all add: data_at_def frame_at_def)

lemma resumable_memory:
    "resumable_op op_load_pri" "resumable_op op_load_alt" "resumable_op op_load_s_pri"
    "resumable_op op_load_s_alt" "resumable_op op_lref_pri" "resumable_op op_lref_alt"
    "resumable_op op_lref_s_pri" "resumable_op op_lref_s_alt" "resumable_op op_load_i"
    "resumable_op op_lodb_i" "resumable_op op_const_pri" "resumable_op op_const_alt"
    "resumable_op op_addr_pri" "resumable_op op_addr_alt" "resumable_op op_stor_pri"
    "resumable_op op_stor_alt" "resumable_op op_stor_s_pri" "resumable_op op_stor_s_alt"
    "resumable_op op_sref_pri" "resumable_op op_sref_alt" "resumable_op op_sref_s_pri"
    "resumable_op op_sref_s_alt" "resumable_op op_stor_i" "resumable_op op_strb_i"
    "resumable_op op_lidx" "resumable_op op_lidx_b" "resumable_op op_idxaddr"
    "resumable_op op_idxaddr_b" "resumable_op op_align_pri" "resumable_op op_align_alt"
  by ((rule resumable_opI, unfold op_memory_defs env_upd,
        (rule vm_sim refl | assumption | (erule sim_upd) | simp add: sim_fields)+)[1])+

lemma sim_push_times [vm_sim]:
  "sim p q \<Longrightarrow> same_result (push_times n e r p) (push_times n (e\<lparr>re_max := x\<rparr>) r q)"
proof (induction n arbitrary: r p q)
  case (Suc n)
  show ?case unfolding push_times.simps by (rule sim_PUSH [OF Suc.prems]) (rule Suc.IH)
qed simp

lemma sim_switch_scan [vm_sim]:
  "sim p q \<Longrightarrow> same_result (switch_scan n a d e r p) (switch_scan n a d (e\<lparr>re_max := x\<rparr>) r q)"
proof (induction n arbitrary: a)
  case (Suc n)
  show ?case
    using Suc by (simp add: sim_peek sim_if)
qed simp

lemma resumable_control:
    "resumable_op op_lctrl" "resumable_op op_sctrl" "resumable_op op_move_pri"
    "resumable_op op_move_alt" "resumable_op op_xchg" "resumable_op op_push_pri"
    "resumable_op op_push_alt" "resumable_op op_push_c" "resumable_op op_push_r"
    "resumable_op op_push" "resumable_op op_push_s" "resumable_op op_pop_pri"
    "resumable_op op_pop_alt" "resumable_op op_stack" "resumable_op op_heap"
    "resumable_op op_proc" "resumable_op op_ret" "resumable_op op_retn"
    "resumable_op op_call" "resumable_op op_call_pri" "resumable_op op_jump"
    "resumable_op op_jrel" "resumable_op op_jzer" "resumable_op op_jnz"
    "resumable_op op_jeq" "resumable_op op_jneq" "resumable_op op_jless"
    "resumable_op op_jleq" "resumable_op op_jgrtr" "resumable_op op_jgeq"
    "resumable_op op_jsless" "resumable_op op_jsleq" "resumable_op op_jsgrtr"
    "resumable_op op_jsgeq" "resumable_op op_jump_pri" "resumable_op op_switch"
    "resumable_op op_swap_pri" "resumable_op op_swap_alt" "resumable_op op_pushaddr"
    "resumable_op op_none" "resumable_op op_nop"
  by ((rule resumable_opI, unfold op_control_defs env_upd,
        (rule vm_sim refl | assumption | (erule sim_upd) | simp add: sim_fields sim_upd)+)[1])+

lemma resumable_alu:
    "resumable_op op_shl" "resumable_op op_shr" "resumable_op op_sshr"
    "resumable_op op_shl_c_pri" "resumable_op op_shl_c_alt" "resumable_op op_shr_c_pri"
    "resumable_op op_shr_c_alt" "resumable_op op_smul" "resumable_op op_sdiv"
    "resumable_op op_sdiv_alt" "resumable_op op_umul" "resumable_op op_udiv"
    "resumable_op op_udiv_alt" "resumable_op op_add" "resumable_op op_sub"
    "resumable_op op_sub_alt" "resumable_op op_and" "resumable_op op_or"
    "resumable_op op_xor" "resumable_op op_not" "resumable_op op_neg"
    "resumable_op op_invert" "resumable_op op_add_c" "resumable_op op_smul_c"
    "resumable_op op_zero_pri" "resumable_op op_zero_alt" "resumable_op op_zero"
    "resumable_op op_zero_s" "resumable_op op_sign_pri" "resumable_op op_sign_alt"
    "resumable_op op_eq" "resumable_op op_neq" "resumable_op op_less"
    "resumable_op op_leq" "resumable_op op_grtr" "resumable_op op_geq"
    "resumable_op op_sless" "resumable_op op_sleq" "resumable_op op_sgrtr"
    "resumable_op op_sgeq" "resumable_op op_eq_c_pri" "resumable_op op_eq_c_alt"
    "resumable_op op_inc_pri" "resumable_op op_inc_alt" "resumable_op op_inc"
    "resumable_op op_inc_s" "resumable_op op_inc_i" "resumable_op op_dec_pri"
    "resumable_op op_dec_alt" "resumable_op op_dec" "resumable_op op_dec_s"
    "resumable_op op_dec_i"
  by ((rule resumable_opI, unfold op_alu_defs env_upd,
        (rule vm_sim refl | assumption | (erule sim_upd) | simp add: sim_fields)+)[1])+

lemma rel_option_bindI:
  "rel_option R x y \<Longrightarrow> (\<And>a b. R a b \<Longrightarrow> rel_option S (f a) (g b)) \<Longrightarrow>
   rel_option S (Option.bind x f) (Option.bind y g)"
  by (cases x; cases y) auto

lemma rel_option_refl: "(\<And>x. R x x) \<Longrightarrow> rel_option R z z"
  by (cases z) auto

lemma sim_call_error: "sim_call p q \<Longrightarrow> sim_call (p\<lparr>ep_error := n\<rparr>) (q\<lparr>ep_error := n\<rparr>)"
  by (simp add: sim_call_def sim_upd)

lemma sim_native_call:
  assumes "natives_blind (re_natives e)" "sim_call p q"
  shows "rel_option (rel_prod (=) (rel_prod (=) sim)) (embryo_native_call e p idx a)
    (embryo_native_call (e\<lparr>re_max := x\<rparr>) q idx a)"
proof -
  have sim: "sim p q" using assms(2) by (simp add: sim_call_def)
  have nat: "rel_option (rel_prod (=) (rel_prod (=) sim))
      (do { (v, p') \<leftarrow> re_natives e f (p\<lparr>ep_error := k\<rparr>) a; Some (ep_error p', Some v, p') })
      (do { (v, p') \<leftarrow> re_natives e f (q\<lparr>ep_error := k\<rparr>) a; Some (ep_error p', Some v, p') })"
    for f k
    using assms(1) sim_call_error [OF assms(2)] unfolding natives_blind_def
    by (intro rel_option_bindI [where R = "rel_prod (=) sim"]) (auto simp: sim_fields)
  show ?thesis
    unfolding embryo_native_call_def sim_fields(1) [OF sim] sim_fields(7) [OF sim] Let_def
    by (intro rel_option_bindI [where R = "(=)"] rel_option_refl)
      (auto simp: option.rel_eq intro!: sim_upd(13) sim nat split: option.split)
qed

lemma sim_sysreq [vm_sim]:
  assumes "natives_blind (re_natives e)" "sim p q"
  shows "same_result (sysreq idx e r p) (sysreq idx (e\<lparr>re_max := x\<rparr>) r q)"
proof -
  let ?s = "\<lambda>p. p\<lparr>ep_cip := of_int (cip r), ep_hea := hea r, ep_frm := frm r, ep_stk := stk r\<rparr>"
  have "rel_option (rel_prod (=) (rel_prod (=) sim))
      (embryo_native_call e (?s p) idx (data_at e (stk r)))
      (embryo_native_call (e\<lparr>re_max := x\<rparr>) (?s q) idx (data_at e (stk r)))"
    by (rule sim_native_call [OF assms(1)]) (simp add: sim_call_def sim_upd assms(2))
  then show ?thesis
    by (cases "embryo_native_call e (?s p) idx (data_at e (stk r))";
        cases "embryo_native_call (e\<lparr>re_max := x\<rparr>) (?s q) idx (data_at e (stk r))")
      (auto simp: sysreq_def Let_def sim_upd sim_ABORT sim_fields)
qed

lemma sim_halt: "resumable_op op_halt"
  by (rule resumable_opI, unfold op_halt_def)
    (rule sim_GETPARAM, assumption, auto simp: Let_def sim_fields intro!: sim_OK sim_upd)

lemma resumable_block:
    "resumable_op op_movs" "resumable_op op_cmps" "resumable_op op_fill"
    "resumable_op op_bounds" "resumable_op op_sysreq_pri"
    "resumable_op op_sysreq_c" "resumable_op op_sysreq_d"
  by ((rule resumable_opI, unfold op_block_defs env_upd,
        (rule vm_sim refl | assumption | (erule sim_upd) | simp add: sim_fields)+)[1])+

text \<open>Every entry of the dispatch table, one turn, and the loop without a limit.\<close>

lemma resumable_switchtable: "op \<in> set switchtable \<Longrightarrow> resumable_op op"
  by (auto simp: switchtable_def resumable_memory resumable_control resumable_alu resumable_block
      sim_halt)

lemma sim_step:
  assumes "natives_blind (re_natives e)" "sim p q"
  shows "same_result (step e r p) (step (e\<lparr>re_max := x\<rparr>) r q)"
proof -
  have "same_result ((switchtable ! unat (b :: u8)) e r' p)
      ((switchtable ! unat b) (e\<lparr>re_max := x\<rparr>) r' q)" for b r'
    using resumable_switchtable [of "switchtable ! unat b"] unat_less_256 [of b] assms
    by (simp add: resumable_op_def length_switchtable)
  then show ?thesis
    unfolding step_def by (intro sim_GETPARAM assms(2)) blast
qed

lemma sim_run_loop:
  assumes "natives_blind (re_natives e)" "sim p q" "re_max e \<le> 0" "x \<le> 0"
  shows "rel_option same_result (run_loop n e c r p) (run_loop n (e\<lparr>re_max := x\<rparr>) c r q)"
  using assms(2)
proof (induction n arbitrary: r p q)
  case (Suc n)
  show ?case
    using sim_step [OF assms(1) Suc.prems, of r x] Suc.IH assms(3,4)
    by (cases "step e r p"; cases "step (e\<lparr>re_max := x\<rparr>) r q") auto
qed simp

section \<open>Turns\<close>

text \<open>The state after \<open>k\<close> turns.\<close>

fun turns :: "nat \<Rightarrow> instr" where
  "turns 0 e r p = Next r p"
| "turns (Suc k) e r p = (case step e r p of Next r p \<Rightarrow> turns k e r p | res \<Rightarrow> res)"

lemma run_loop_turns:
  assumes "re_max e \<le> 0"
  shows "run_loop (k + n) e c r p =
    (case turns k e r p of Next r' p' \<Rightarrow> run_loop n e c r' p' | res \<Rightarrow> Some res)"
  using assms by (induction k arbitrary: r p) (auto split: step_result.split)

lemma run_loop_cut:
  assumes "0 < re_max e" "turns k e r p = Next r' p'" "re_max e = int (c + k)"
  shows "run_loop (k + Suc n) e c r p = Some (TOOLONG e r' p')"
  using assms(2,3)
proof (induction k arbitrary: c r p)
  case (Suc k)
  from Suc.prems(1) obtain r1 p1 where st: "step e r p = Next r1 p1" "turns k e r1 p1 = Next r' p'"
    by (cases "step e r p") auto
  have "run_loop (Suc (k + Suc n)) e c r p = run_loop (k + Suc n) e (Suc c) r1 p1"
    using assms(1) Suc.prems(2) st(1) by (subst run_loop.simps) simp
  then show ?case using Suc.IH [OF st(2), of "Suc c"] Suc.prems(2) by simp
qed (use assms(1) in simp)

lemma sim_turns:
  assumes "natives_blind (re_natives e)" "sim p q"
  shows "same_result (turns k e r p) (turns k (e\<lparr>re_max := x\<rparr>) r q)"
  using assms(2)
proof (induction k arbitrary: r p q)
  case (Suc k)
  show ?case
    using sim_step [OF assms(1) Suc.prems, of r x] Suc.IH
    by (cases "step e r p"; cases "step (e\<lparr>re_max := x\<rparr>) r q") auto
qed simp

section \<open>Resumption\<close>

text \<open>
  What the entry of a continued run needs: the header still locates the segments, the
  instruction pointer fits the field that saves it, and the three checks of the entry pass.
\<close>

definition can_resume :: "run_env \<Rightarrow> regs \<Rightarrow> embryo_program \<Rightarrow> bool" where
  "can_resume e r p \<longleftrightarrow>
     ep_flags p AND EMBRYO_FLAG_RELOC \<noteq> 0
     \<and> (case ep_base p of None \<Rightarrow> False
        | Some m \<Rightarrow> map_option sint (hdr_cod m) = Some (re_code e)
            \<and> map_option sint (hdr_dat m) = Some (re_data e)
            \<and> hdr_dat m = map_option (\<lambda>c. c + re_codesize e) (hdr_cod m))
     \<and> - 2147483648 \<le> cip r \<and> cip r \<le> 2147483647
     \<and> sint (stk r) \<le> sint (ep_stp p) \<and> sint (ep_hlw p) \<le> sint (hea r)
     \<and> sint (hea r + STKMARGIN) \<le> sint (stk r)"

lemma run_cont:
  assumes "can_resume e r p" "TOOLONG e r p = Stop s q"
  shows "\<exists>q'. sim q' p \<and> embryo_program_run (re_natives e) n (embryo_program_max_cycle_run_set q 0)
      EMBRYO_FUNCTION_CONT = run_loop n (e\<lparr>re_max := 0\<rparr>) 0 r q'"
proof -
  from assms(1) obtain m cod dat where m: "ep_base p = Some m" "hdr_cod m = Some cod"
      "hdr_dat m = Some dat" and ofs: "sint cod = re_code e" "sint dat = re_data e"
      "dat = cod + re_codesize e"
    by (auto simp: can_resume_def split: option.splits)
  have c: "sint (of_int (cip r) :: cell) = cip r"
    using assms(1) by (intro sint_of_int_cell) (simp_all add: can_resume_def)
  have e: "\<lparr>re_code = sint cod, re_data = sint dat, re_codesize = dat - cod,
      re_reset_stk = re_reset_stk e, re_reset_hea = re_reset_hea e, re_max = 0,
      re_natives = re_natives e\<rparr> = e\<lparr>re_max := 0\<rparr>"
    using ofs by (cases e) simp
  from assms(2) have q: "q = p\<lparr>ep_pri := pri r, ep_cip := of_int (cip r), ep_alt := alt r,
      ep_frm := frm r, ep_stk := stk r, ep_hea := hea r, ep_reset_stk := re_reset_stk e,
      ep_reset_hea := re_reset_hea e, ep_run_count := ep_run_count p - 1,
      ep_max_run_cycles := re_max e\<rparr>"
    by (simp add: TOOLONG_def)
  let ?q = "embryo_program_max_cycle_run_set q 0"
  let ?q' = "?q\<lparr>ep_run_count := ep_run_count ?q + 1\<rparr>"
  have "run_entry (re_natives e) m ?q EMBRYO_FUNCTION_CONT = Some (Some (e\<lparr>re_max := 0\<rparr>, r))"
    using m(2,3) e c
    by (simp add: run_entry_def Let_def EMBRYO_FUNCTION_CONT_def EMBRYO_FUNCTION_MAIN_def q
        embryo_program_max_cycle_run_set_def)
  moreover have "run_start (e\<lparr>re_max := 0\<rparr>) r ?q EMBRYO_FUNCTION_CONT = Next r ?q'"
    using assms(1)
    by (simp add: run_start_def CHKSTACK_def CHKHEAP_def CHKMARGIN_def Let_def can_resume_def q
        embryo_program_max_cycle_run_set_def)
  ultimately have "embryo_program_run (re_natives e) n ?q EMBRYO_FUNCTION_CONT
      = run_loop n (e\<lparr>re_max := 0\<rparr>) 0 r ?q'"
    using assms(1) m(1)
    by (simp add: embryo_program_run_def can_resume_def q embryo_program_max_cycle_run_set_def)
  moreover have "sim ?q' p"
    by (cases p) (simp add: q embryo_program_max_cycle_run_set_def sim_def forget_saved_def)
  ultimately show ?thesis by blast
qed

lemma suspension:
  assumes "natives_blind (re_natives e)" "re_max e = int k" "0 < k"
    and "turns k e r p = Next r' p'" "can_resume e r' p'"
  shows "\<exists>q. run_loop (Suc k) e 0 r p = Some (Stop EMBRYO_PROGRAM_TOOLONG q)
    \<and> rel_option same_result (run_loop (k + n) (e\<lparr>re_max := 0\<rparr>) 0 r p)
        (embryo_program_run (re_natives e) n (embryo_program_max_cycle_run_set q 0)
          EMBRYO_FUNCTION_CONT)"
proof -
  obtain q where q: "TOOLONG e r' p' = Stop EMBRYO_PROGRAM_TOOLONG q"
    by (simp add: TOOLONG_def)
  have cut: "run_loop (Suc k) e 0 r p = Some (Stop EMBRYO_PROGRAM_TOOLONG q)"
    using run_loop_cut [of e k r p r' p' 0 0] assms(2,3,4) q by simp
  obtain q' where q': "sim q' p'" and run: "embryo_program_run (re_natives e) n
      (embryo_program_max_cycle_run_set q 0) EMBRYO_FUNCTION_CONT
      = run_loop n (e\<lparr>re_max := 0\<rparr>) 0 r' q'"
    using run_cont [OF assms(5) q] by blast
  obtain p'' where t: "turns k (e\<lparr>re_max := 0\<rparr>) r p = Next r' p''" and s: "sim p' p''"
    using sim_turns [OF assms(1), of p p k r 0] assms(4)
    by (cases "turns k (e\<lparr>re_max := 0\<rparr>) r p") (auto simp: sim_def)
  have "run_loop (k + n) (e\<lparr>re_max := 0\<rparr>) 0 r p = run_loop n (e\<lparr>re_max := 0\<rparr>) 0 r' p''"
    using run_loop_turns [of "e\<lparr>re_max := 0\<rparr>" k n 0 r p] t by simp
  moreover have "rel_option same_result (run_loop n (e\<lparr>re_max := 0\<rparr>) 0 r' p'')
      (run_loop n (e\<lparr>re_max := 0\<rparr>) 0 r' q')"
    using sim_run_loop [of "e\<lparr>re_max := 0\<rparr>" p'' q' 0 n 0 r'] assms(1) s q'
    by (simp add: sim_def)
  ultimately show ?thesis using cut run by auto
qed

end
