(* ===== verification/Embryo_Safety.thy ===== *)
theory Embryo_Safety
  imports Embryo_Arith Embryo_Api
begin

text \<open>
  Memory safety of the checked instructions, the call protocol, the heap and the strings of
  the machine.
\<close>

section \<open>Checked accesses\<close>

text \<open>
  The layout that \<^verbatim>\<open>embryo_program_vm_reset\<close> sets up: the block ends one cell above
  \<^verbatim>\<open>ep->stp\<close>, counted from the data segment.
\<close>

definition data_ok :: "run_env \<Rightarrow> embryo_program \<Rightarrow> bool" where
  "data_ok e p \<longleftrightarrow>
     (case ep_base p of None \<Rightarrow> False
      | Some m \<Rightarrow> 0 \<le> re_data e \<and> 0 \<le> sint (ep_stp p)
          \<and> int (length m) = re_data e + sint (ep_stp p) + 4)"

lemma uint_eq_sint: "0 \<le> sint (c :: cell) \<Longrightarrow> uint c = sint c"
  using sint_cell_bounds [of c] by (simp add: uint_sint take_bit_int_eq_self_iff)

lemma sint_eq_uint_small: "uint (c :: cell) < 2147483648 \<Longrightarrow> sint c = uint c"
proof -
  assume "uint c < 2147483648"
  moreover have "- 2147483648 \<le> uint c" using uint_nonnegative [of c] by linarith
  ultimately show ?thesis
    using signed_take_bit_int_eq_self [of 31 "uint c"] by (simp add: sint_uint)
qed

lemma word_less_nonneg:
  assumes "(x :: cell) < y" "0 \<le> sint y"
  shows "0 \<le> sint x \<and> sint x < sint y"
proof -
  have "uint x < uint y" using assms(1) by (simp add: word_less_def)
  moreover have "uint y = sint y" using assms(2) by (rule uint_eq_sint)
  ultimately show ?thesis
    using sint_cell_bounds [of y] sint_eq_uint_small [of x] uint_nonnegative [of x] by simp
qed

lemma unprotected_range:
  assumes "data_ok e p" "\<not> mem_protected r p x"
  shows "0 \<le> sint x" "sint x < sint (ep_stp p)"
    "sint x < sint (hea r) \<or> sint (stk r) \<le> sint x"
proof -
  have "x < ep_stp p" "0 \<le> sint (ep_stp p)"
    using assms by (auto simp: mem_protected_def data_ok_def not_le split: option.splits)
  from word_less_nonneg [OF this] show "0 \<le> sint x" "sint x < sint (ep_stp p)" by simp_all
  show "sint x < sint (hea r) \<or> sint (stk r) \<le> sint x"
    using assms(2) by (auto simp: mem_protected_def)
qed

lemma unprotected_in_block:
  assumes "data_ok e p" "\<not> mem_protected r p x" "ep_base p = Some m" "n \<le> 4"
  shows "in_block m (data_at e x) n"
  using unprotected_range [OF assms(1,2)] assms(1,3,4)
  by (auto simp: data_ok_def in_block_def data_at_def)

lemma checked_peek:
  assumes "data_ok e p" "\<And>v. k v \<noteq> Fault"
  shows "CHKMEM e r p x (peek p (data_at e x) k) \<noteq> Fault"
  using unprotected_in_block [OF assms(1), of r x _ 4] assms
  by (auto simp: CHKMEM_def ABORT_def peek_def data_ok_def load32_def split: option.split)

lemma checked_poke:
  assumes "data_ok e p" "\<And>q. k q \<noteq> Fault"
  shows "CHKMEM e r p x (poke p (data_at e x) v k) \<noteq> Fault"
  using unprotected_in_block [OF assms(1), of r x _ 4] assms
  by (auto simp: CHKMEM_def ABORT_def poke_def data_ok_def store32_def split: option.split)

lemma fetch_no_fault:
  assumes "ep_base p = Some m" "in_block m (re_code e + cip r) 4"
    and "\<And>v. k v (r\<lparr>cip := cip r + 4\<rparr>) \<noteq> Fault"
  shows "GETPARAM e r p k \<noteq> Fault"
  using assms by (simp add: GETPARAM_def peek_def load32_def)

lemma checked_load_no_fault:
  assumes "data_ok e p"
  shows "op_load_i e r p \<noteq> Fault" "op_lidx e r p \<noteq> Fault" "op_stor_i e r p \<noteq> Fault"
  unfolding op_load_i_def op_lidx_def op_stor_i_def Let_def
  by (intro checked_peek checked_poke assms, simp)+

lemma checked_sized_no_fault:
  assumes "data_ok e p" "ep_base p = Some m" "in_block m (re_code e + cip r) 4"
  shows "op_lodb_i e r p \<noteq> Fault" "op_strb_i e r p \<noteq> Fault"
proof -
  let ?r = "r\<lparr>cip := cip r + 4\<rparr>"
  have b: "\<not> mem_protected ?r p x \<Longrightarrow> n \<le> 4 \<Longrightarrow> in_block m (data_at e x) n" for x n
    by (rule unprotected_in_block [OF assms(1) _ assms(2)])
  show "op_lodb_i e r p \<noteq> Fault"
    unfolding op_lodb_i_def using b
    by (intro fetch_no_fault [OF assms(2,3)])
      (auto simp: CHKMEM_def ABORT_def assms(2) load8_def load16_def load32_def)
  show "op_strb_i e r p \<noteq> Fault"
    unfolding op_strb_i_def using b
    by (intro fetch_no_fault [OF assms(2,3)])
      (auto simp: CHKMEM_def ABORT_def assms(2) store8_def store16_def store32_def)
qed

text \<open>
  A checked store changes only the four bytes from \<^verbatim>\<open>data + alt\<close> on, and \<^verbatim>\<open>alt\<close> is below the heap
  pointer or not below the stack pointer: never the code, and of the free gap at most the
  first three bytes, which a cell that starts just below the heap pointer reaches into.
\<close>

definition store_confined :: "run_env \<Rightarrow> regs \<Rightarrow> mem \<Rightarrow> mem \<Rightarrow> bool" where
  "store_confined e r m m' \<longleftrightarrow> length m' = length m \<and>
     (\<forall>i. int i < re_data e
          \<or> re_data e + sint (hea r) + 3 \<le> int i \<and> int i < re_data e + sint (stk r)
          \<or> 4 dvd sint (hea r) \<and> 4 dvd sint (alt r)
            \<and> re_data e + sint (hea r) \<le> int i \<and> int i < re_data e + sint (stk r)
        \<longrightarrow> m' ! i = m ! i)"

lemma aligned_cell_below: "4 dvd (x :: int) \<Longrightarrow> 4 dvd y \<Longrightarrow> x < y \<Longrightarrow> x + 4 \<le> y"
  by presburger

lemma store_confinedI:
  assumes "data_ok e p" "\<not> mem_protected r p (alt r)" "length m' = length m"
    and "\<And>i. int i < data_at e (alt r) \<or> data_at e (alt r) + 4 \<le> int i \<Longrightarrow> m' ! i = m ! i"
  shows "store_confined e r m m'"
  using unprotected_range [OF assms(1,2)] assms(3) aligned_cell_below [of "sint (alt r)" "sint (hea r)"]
  by (auto simp: store_confined_def data_at_def intro!: assms(4))

lemma store_nth:
  "store8 m a v = Some m' \<Longrightarrow> int i < a \<or> a + 4 \<le> int i \<Longrightarrow> m' ! i = m ! i"
  "store16 m a v = Some m' \<Longrightarrow> int i < a \<or> a + 4 \<le> int i \<Longrightarrow> m' ! i = m ! i"
  by (auto simp: store8_def store16_def in_block_def nth_list_update split: if_splits)

lemma op_stor_i_confined:
  assumes "data_ok e p" "ep_base p = Some m" "op_stor_i e r p = Next r' p'"
  shows "\<exists>m'. ep_base p' = Some m' \<and> store_confined e r m m'"
proof -
  from assms(2,3) obtain m' where st: "store32 m (data_at e (alt r)) (pri r) = Some m'"
    and np: "\<not> mem_protected r p (alt r)" and p': "p' = p\<lparr>ep_base := Some m'\<rparr>"
    by (auto simp: op_stor_i_def CHKMEM_def ABORT_def poke_def split: if_splits option.splits)
  have "store_confined e r m m'"
    using store_confinedI [OF assms(1) np store_length(3) [OF st]] store32_nth [OF st] by blast
  with p' show ?thesis by simp
qed

lemma op_strb_i_confined:
  assumes "data_ok e p" "ep_base p = Some m" "op_strb_i e r p = Next r' p'"
  shows "\<exists>m'. ep_base p' = Some m' \<and> store_confined e r m m'"
proof -
  let ?r = "r\<lparr>cip := cip r + 4\<rparr>"
  from assms(2,3) obtain m' where st: "store8 m (data_at e (alt r)) (pri r) = Some m'
      \<or> store16 m (data_at e (alt r)) (pri r) = Some m'
      \<or> store32 m (data_at e (alt r)) (pri r) = Some m'"
    and np: "\<not> mem_protected ?r p (alt r)" and p': "p' = p\<lparr>ep_base := Some m'\<rparr>"
    by (auto simp: op_strb_i_def GETPARAM_def peek_def CHKMEM_def ABORT_def
        split: if_splits option.splits)
  have "length m' = length m" using st by (auto simp: store_length)
  moreover have "m' ! i = m ! i" if "int i < data_at e (alt r) \<or> data_at e (alt r) + 4 \<le> int i" for i
    using st store_nth(1) [OF _ that] store_nth(2) [OF _ that] store32_nth [OF _ that] by blast
  ultimately have "store_confined e ?r m m'"
    using np by (intro store_confinedI [OF assms(1)]) simp_all
  with p' show ?thesis by (simp add: store_confined_def)
qed

end
