(* ===== verification/Embryo_Calls.thy ===== *)
theory Embryo_Calls
  imports Embryo_Safety
begin

text \<open>
  The stack protocol of the machine: consecutive cells, the sequence
  \<^verbatim>\<open>CALL\<close>, \<^verbatim>\<open>PROC\<close>, \<^verbatim>\<open>RETN\<close>, and the stack that a run builds for its
  parameters before the loop.
\<close>

section \<open>Cells in a row\<close>

fun load_cells :: "mem \<Rightarrow> int \<Rightarrow> nat \<Rightarrow> cell list option" where
  "load_cells m a 0 = Some []"
| "load_cells m a (Suc n) =
     do { v \<leftarrow> load32 m a; vs \<leftarrow> load_cells m (a + 4) n; Some (v # vs) }"

lemma load_cells_store32:
  "store32 m b v = Some m' \<Longrightarrow> b + 4 \<le> a \<Longrightarrow> load_cells m' a n = load_cells m a n"
  by (induction n arbitrary: a) (simp_all add: store32_load32_other)

lemma sint_sub4: "- 2147483644 \<le> sint (s :: cell) \<Longrightarrow> sint (s - 4) = sint s - 4"
  using sint_sub_cell [of s 4] sint_cell_bounds [of s] by simp

text \<open>A push in front of a row of cells.\<close>

lemma PUSH_cells:
  assumes "ep_base p = Some m" "load_cells m (data_at e (stk r)) n = Some cs"
    and "- 2147483644 \<le> sint (stk r)" "in_block m (data_at e (stk r - 4)) 4"
  obtains m' where "PUSH e r p v k = k (r\<lparr>stk := stk r - 4\<rparr>) (p\<lparr>ep_base := Some m'\<rparr>)"
    and "load_cells m' (data_at e (stk r - 4)) (Suc n) = Some (v # cs)"
    and "length m' = length m" "store32 m (data_at e (stk r - 4)) v = Some m'"
proof -
  obtain m' where m': "store32 m (data_at e (stk r - 4)) v = Some m'"
    using assms(4) store32_defined [of m "data_at e (stk r - 4)" v] by auto
  have up: "data_at e (stk r) = data_at e (stk r - 4) + 4"
    using sint_sub4 [OF assms(3)] by (simp add: data_at_def)
  have "load_cells m' (data_at e (stk r - 4) + 4) n = Some cs"
    using load_cells_store32 [OF m'] assms(2) up by simp
  then show ?thesis
    using that [of m'] m' assms(1) store_length(3) [OF m'] store32_load32 [OF m']
    by (simp add: PUSH_def poke_def)
qed

section \<open>Call and return\<close>

lemma call_proc:
  assumes base: "ep_base p = Some m" and code: "load32 m (re_code e + cip r) = Some t"
    and low: "re_code e + cip r + 4 \<le> data_at e (stk r - 8)"
    and room: "- 2147483640 \<le> sint (stk r)" "in_block m (data_at e (stk r - 8)) 8"
    and margin: "sint (hea r + STKMARGIN) \<le> sint (stk r - 8)"
  obtains r1 p1 m2 where "op_call e r p = Next r1 p1" "cip r1 = sint t"
    and "op_proc e r1 p1 =
      Next (r\<lparr>cip := sint t, stk := stk r - 8, frm := stk r - 8\<rparr>) (p\<lparr>ep_base := Some m2\<rparr>)"
    and "load_cells m2 (data_at e (stk r - 8)) 2 = Some [frm r, of_int (cip r) + 4]"
    and "\<And>i. int i < data_at e (stk r - 8) \<or> data_at e (stk r) \<le> int i \<Longrightarrow> m2 ! i = m ! i"
    and "length m2 = length m"
proof -
  have s4: "sint (stk r - 4) = sint (stk r) - 4" "sint (stk r - 8) = sint (stk r) - 8"
    using sint_sub4 [of "stk r"] sint_sub_cell [of "stk r" 8] sint_cell_bounds [of "stk r"] room(1)
    by simp_all
  let ?r1 = "r\<lparr>stk := stk r - 4\<rparr>"
  have b: "in_block m (data_at e (stk r - 4)) 4" "in_block m (data_at e (stk r - 4 - 4)) 4"
    using room(2) s4 by (simp_all add: in_block_def data_at_def)
  obtain m1 where c1: "op_call e r p = jumpabs e ?r1 (p\<lparr>ep_base := Some m1\<rparr>)"
    and l1: "load_cells m1 (data_at e (stk r - 4)) 1 = Some [of_int (cip r) + 4]"
    and len1: "length m1 = length m"
    and st1: "store32 m (data_at e (stk r - 4)) (of_int (cip r) + 4) = Some m1"
    using PUSH_cells [OF base _ _ b(1), where n = 0 and v = "of_int (cip r) + 4" and k = "jumpabs e"] room(1)
    by (auto simp: op_call_def)
  have code1: "load32 m1 (re_code e + cip r) = Some t"
    using store32_load32_other [OF st1, of "re_code e + cip r"] code low s4
    by (simp add: data_at_def)
  let ?q = "p\<lparr>ep_base := Some m1\<rparr>" and ?r2 = "?r1\<lparr>cip := sint t\<rparr>"
  have call: "op_call e r p = Next ?r2 ?q"
    using c1 code1 by (simp add: jumpabs_def peek_def)
  have pre: "ep_base ?q = Some m1" "load_cells m1 (data_at e (stk ?r2)) 1 = Some [of_int (cip r) + 4]"
    "- 2147483644 \<le> sint (stk ?r2)" "in_block m1 (data_at e (stk ?r2 - 4)) 4"
    using l1 s4 room(1) b(2) len1 by (simp_all add: in_block_def)
  obtain m2 where c2: "PUSH e ?r2 ?q (frm ?r2) (\<lambda>r p. let r = r\<lparr>frm := stk r\<rparr> in CHKMARGIN r p (Next r p))
      = (let r = (?r2\<lparr>stk := stk ?r2 - 4\<rparr>)\<lparr>frm := stk ?r2 - 4\<rparr>
         in CHKMARGIN r (?q\<lparr>ep_base := Some m2\<rparr>) (Next r (?q\<lparr>ep_base := Some m2\<rparr>)))"
    and l2: "load_cells m2 (data_at e (stk ?r2 - 4)) (Suc 1) = Some [frm ?r2, of_int (cip r) + 4]"
    and len2: "length m2 = length m1"
    and st2: "store32 m1 (data_at e (stk ?r2 - 4)) (frm ?r2) = Some m2"
    by (rule PUSH_cells [OF pre, where v = "frm ?r2" and k = "\<lambda>r p. let r = r\<lparr>frm := stk r\<rparr> in CHKMARGIN r p (Next r p)"])
      (simp add: Let_def)
  have proc: "op_proc e ?r2 ?q =
      Next (r\<lparr>cip := sint t, stk := stk r - 8, frm := stk r - 8\<rparr>) (p\<lparr>ep_base := Some m2\<rparr>)"
    using c2 margin by (simp add: op_proc_def CHKMARGIN_def Let_def)
  have "m2 ! i = m ! i" if "int i < data_at e (stk r - 8) \<or> data_at e (stk r) \<le> int i" for i
    using store32_nth [OF st2, of i] store32_nth [OF st1, of i] that s4
    by (auto simp: data_at_def)
  then show ?thesis
    using that [OF call _ proc] l2 len1 len2 by (simp add: numeral_2_eq_2)
qed

text \<open>The return at the end of a body that gives back the stack pointer it got.\<close>

lemma retn_pops:
  assumes "ep_base p = Some m" "load_cells m (data_at e (stk r)) 3 = Some [f, ret, n]"
    and "sint (stk r) \<le> 2147483639" "ret < re_codesize e"
  shows "op_retn e r p =
    Next (r\<lparr>frm := f, cip := sint ret, stk := stk r + 12 + n\<rparr>) (p\<lparr>ep_stk := stk r + 12 + n\<rparr>)"
proof -
  have s: "sint (stk r + 4) = sint (stk r) + 4" "sint (stk r + 8) = sint (stk r) + 8"
    using sint_add_cell [of "stk r" 4] sint_add_cell [of "stk r" 8] sint_cell_bounds [of "stk r"] assms(3)
    by simp_all
  then have "load32 m (data_at e (stk r)) = Some f" "load32 m (data_at e (stk r + 4)) = Some ret"
    "load32 m (data_at e (stk r + 8)) = Some n"
    using assms(2) by (auto simp: numeral_3_eq_3 bind_eq_Some_conv data_at_def algebra_simps)
  moreover have "\<not> re_codesize e \<le> ret" using assms(4) by simp
  ultimately show ?thesis
    using assms(1) by (simp add: op_retn_def POP_def peek_def Let_def algebra_simps)
qed

section \<open>The parameters of a run\<close>

lemma push_params_cells:
  assumes "j \<le> length cs" "ep_params p = map Param_cell cs" "ep_base p = Some m"
    and "load_cells m (data_at e (stk r)) n = Some ds"
    and "- 2147483648 + 4 * int j \<le> sint (stk r)"
    and "0 \<le> data_at e (stk r) - 4 * int j" "data_at e (stk r) \<le> int (length m)"
  shows "\<exists>m'. push_params j e r p k = k (r\<lparr>stk := stk r - 4 * of_nat j\<rparr>) (p\<lparr>ep_base := Some m'\<rparr>)
    \<and> load_cells m' (data_at e (stk r - 4 * of_nat j)) (j + n) = Some (take j cs @ ds)
    \<and> length m' = length m \<and> sint (stk r - 4 * of_nat j) = sint (stk r) - 4 * int j
    \<and> (\<forall>i. int i < data_at e (stk r) - 4 * int j \<longrightarrow> m' ! i = m ! i)"
  using assms
proof (induction j arbitrary: r p m n ds)
  case 0
  have "k r p = k r (p\<lparr>ep_base := Some m\<rparr>)" using 0 by (cases p) simp
  then show ?case using 0 by (auto intro!: exI [of _ m])
next
  case (Suc j)
  let ?r = "r\<lparr>stk := stk r - 4\<rparr>"
  have s: "sint (stk r - 4) = sint (stk r) - 4" using Suc.prems(5) by (intro sint_sub4) simp
  have b: "in_block m (data_at e (stk r - 4)) 4"
    using Suc.prems(6,7) s by (simp add: in_block_def data_at_def)
  have nth: "nth_opt (ep_params p) j = Some (Param_cell (cs ! j))"
    using Suc.prems(1,2) by (simp add: nth_opt_def)
  obtain m1 where c1: "PUSH e r p (cs ! j) (\<lambda>r p. push_params j e r p k)
      = push_params j e ?r (p\<lparr>ep_base := Some m1\<rparr>) k"
    and l1: "load_cells m1 (data_at e (stk r - 4)) (Suc n) = Some (cs ! j # ds)"
    and len1: "length m1 = length m" and st: "store32 m (data_at e (stk r - 4)) (cs ! j) = Some m1"
    using PUSH_cells [OF Suc.prems(3,4) _ b, of "cs ! j" "\<lambda>r p. push_params j e r p k"] Suc.prems(5)
    by auto
  have keep: "m1 ! i = m ! i" if "int i < data_at e (stk r) - 4 - 4 * int j" for i
    using store32_nth [OF st, of i] that s by (simp add: data_at_def)
  have eq: "stk r - 4 - 4 * of_nat j = stk r - 4 * of_nat (Suc j)" by (simp add: algebra_simps)
  have isuc: "int (Suc j) = int j + 1" by simp
  have "\<exists>m'. push_params j e ?r (p\<lparr>ep_base := Some m1\<rparr>) k
        = k (?r\<lparr>stk := stk ?r - 4 * of_nat j\<rparr>) ((p\<lparr>ep_base := Some m1\<rparr>)\<lparr>ep_base := Some m'\<rparr>)
    \<and> load_cells m' (data_at e (stk ?r - 4 * of_nat j)) (j + Suc n) = Some (take j cs @ (cs ! j # ds))
    \<and> length m' = length m1 \<and> sint (stk ?r - 4 * of_nat j) = sint (stk ?r) - 4 * int j
    \<and> (\<forall>i. int i < data_at e (stk ?r) - 4 * int j \<longrightarrow> m' ! i = m1 ! i)"
    using Suc.prems s l1 len1 by (intro Suc.IH) (simp_all add: data_at_def)
  then show ?case
    using c1 nth len1 keep s Suc.prems(1) eq
    by (auto simp: take_Suc_conv_app_nth data_at_def isuc simp del: of_nat_Suc)
qed

text \<open>
  what a function finds when it is run with cell parameters: the loop starts at its address
  with, from the stack pointer up, a zero return address, the size of the parameters in bytes
  and the parameters in order; nothing below the stack pointer has changed, the parameters
  are consumed and the recursion count is raised by one.
\<close>

theorem run_start_cells:
  assumes "ep_params p = map Param_cell cs" "ep_params_size p = length cs" "ep_base p = Some m"
    and "fn \<noteq> EMBRYO_FUNCTION_CONT" "sint (stk r) \<le> sint (ep_stp p)" "sint (ep_hlw p) \<le> sint (hea r)"
    and "0 \<le> data_at e (stk r) - 4 * int (length cs) - 8" "data_at e (stk r) \<le> int (length m)"
    and "- 2147483640 + 4 * int (length cs) \<le> sint (stk r)"
    and "sint (hea r + STKMARGIN) \<le> sint (stk r) - 4 * int (length cs) - 8"
  shows "\<exists>m' r' p'. run_start e r p fn = Next r' p' \<and> ep_base p' = Some m' \<and> cip r' = cip r
    \<and> length m' = length m \<and> sint (stk r') = sint (stk r) - 4 * int (length cs) - 8
    \<and> load_cells m' (data_at e (stk r')) (length cs + 2) = Some (0 # of_nat (length cs) * 4 # cs)
    \<and> (\<forall>i. int i < data_at e (stk r') \<longrightarrow> m' ! i = m ! i)
    \<and> ep_params p' = [] \<and> ep_run_count p' = ep_run_count p + 1"
proof -
  let ?n = "length cs"
  define K where "K = (\<lambda>r p. CHKMARGIN r p (Next r (p\<lparr>ep_run_count := ep_run_count p + 1\<rparr>)))"
  define D where "D = (\<lambda>r p. K r (p\<lparr>ep_params := [], ep_params_size := 0, ep_params_alloc := 0\<rparr>))"
  define C where "C = (\<lambda>r p. PUSH e r p (of_nat (ep_params_size p) * 4) (\<lambda>r p. PUSH e r p 0 D))"
  have start: "run_start e r p fn = push_params ?n e r p C"
    using assms(2,4,5,6) by (simp add: run_start_def CHKSTACK_def CHKHEAP_def push_call_def C_def D_def K_def)
  obtain m1 where c1: "push_params ?n e r p C = C (r\<lparr>stk := stk r - 4 * of_nat ?n\<rparr>) (p\<lparr>ep_base := Some m1\<rparr>)"
    and l1: "load_cells m1 (data_at e (stk r - 4 * of_nat ?n)) ?n = Some cs"
    and len1: "length m1 = length m"
    and s1: "sint (stk r - 4 * of_nat ?n) = sint (stk r) - 4 * int ?n"
    and k1: "\<forall>i. int i < data_at e (stk r) - 4 * int ?n \<longrightarrow> m1 ! i = m ! i"
    using push_params_cells [of ?n cs p m e r 0 "[]" C] assms by auto
  let ?r1 = "r\<lparr>stk := stk r - 4 * of_nat ?n\<rparr>" and ?p1 = "p\<lparr>ep_base := Some m1\<rparr>"
  have s2: "sint (stk ?r1 - 4) = sint (stk ?r1) - 4"
    using s1 assms(9) by (intro sint_sub4) simp
  have b2: "in_block m1 (data_at e (stk ?r1 - 4)) 4"
    using s1 s2 assms(7,8) len1 by (simp add: in_block_def data_at_def)
  obtain m2 where c2: "C ?r1 ?p1 = PUSH e (?r1\<lparr>stk := stk ?r1 - 4\<rparr>) (?p1\<lparr>ep_base := Some m2\<rparr>) 0 D"
    and l2: "load_cells m2 (data_at e (stk ?r1 - 4)) (Suc ?n) = Some (of_nat ?n * 4 # cs)"
    and len2: "length m2 = length m1"
    and st2: "store32 m1 (data_at e (stk ?r1 - 4)) (of_nat ?n * 4) = Some m2"
    using PUSH_cells [of ?p1 m1 e ?r1 ?n cs "of_nat ?n * 4" "\<lambda>r p. PUSH e r p 0 D"] l1 s1 assms(2,9) b2
    by (auto simp: C_def)
  let ?r2 = "?r1\<lparr>stk := stk ?r1 - 4\<rparr>" and ?p2 = "?p1\<lparr>ep_base := Some m2\<rparr>"
  have s3: "sint (stk ?r2 - 4) = sint (stk ?r2) - 4"
    using s1 s2 assms(9) by (intro sint_sub4) simp
  have b3: "in_block m2 (data_at e (stk ?r2 - 4)) 4"
    using s1 s2 s3 assms(7,8) len1 len2 by (simp add: in_block_def data_at_def)
  obtain m3 where c3: "PUSH e ?r2 ?p2 0 D = D (?r2\<lparr>stk := stk ?r2 - 4\<rparr>) (?p2\<lparr>ep_base := Some m3\<rparr>)"
    and l3: "load_cells m3 (data_at e (stk ?r2 - 4)) (Suc (Suc ?n)) = Some (0 # of_nat ?n * 4 # cs)"
    and len3: "length m3 = length m2"
    and st3: "store32 m2 (data_at e (stk ?r2 - 4)) 0 = Some m3"
    using PUSH_cells [of ?p2 m2 e ?r2 "Suc ?n" "of_nat ?n * 4 # cs" 0 D] l2 s1 s2 assms(9) b3 by auto
  let ?r3 = "?r2\<lparr>stk := stk ?r2 - 4\<rparr>" and ?p3 = "?p2\<lparr>ep_base := Some m3\<rparr>"
  have s: "sint (stk ?r3) = sint (stk r) - 4 * int ?n - 8" using s1 s2 s3 by simp
  obtain p' where d: "D ?r3 ?p3 = Next ?r3 p'" "ep_base p' = Some m3" "ep_params p' = []"
      "ep_run_count p' = ep_run_count p + 1"
    using assms(10) s by (simp add: D_def K_def CHKMARGIN_def)
  have "m3 ! i = m ! i" if "int i < data_at e (stk ?r3)" for i
    using store32_nth [OF st3, of i] store32_nth [OF st2, of i] k1 that s1 s2 s3
    by (simp add: data_at_def)
  then show ?thesis
    using start c1 c2 c3 d l3 len1 len2 len3 s by (intro exI [of _ m3] exI [of _ ?r3] exI [of _ p']) simp
qed

text \<open>A machine with an empty stack at the top of a block of zeros.\<close>

definition tiny_env :: run_env where
  "tiny_env = \<lparr>re_code = 0, re_data = 8, re_codesize = 8, re_reset_stk = 0, re_reset_hea = 0,
     re_max = 0, re_natives = (\<lambda>f p a. None)\<rparr>"

definition tiny :: embryo_program where
  "tiny = calloc_program\<lparr>ep_base := Some (replicate 120 0), ep_stp := 108,
     ep_params := [Param_cell 7, Param_cell 9], ep_params_size := 2, ep_params_alloc := 8\<rparr>"

definition tiny_regs :: regs where
  "tiny_regs = \<lparr>pri = 0, alt = 0, stk = 108, frm = 44, hea = 0, cip = 0\<rparr>"

lemmas tiny_defs = tiny_def tiny_env_def tiny_regs_def calloc_program_def

theorem run_start_cells_witness:
  "\<exists>m' r' p'. run_start tiny_env tiny_regs tiny EMBRYO_FUNCTION_MAIN = Next r' p'
    \<and> ep_base p' = Some m' \<and> sint (stk r') = 92
    \<and> load_cells m' (data_at tiny_env (stk r')) 4 = Some [0, 8, 7, 9]"
proof -
  have "\<exists>m' r' p'. run_start tiny_env tiny_regs tiny EMBRYO_FUNCTION_MAIN = Next r' p'
    \<and> ep_base p' = Some m' \<and> cip r' = cip tiny_regs \<and> length m' = length (replicate 120 (0 :: u8))
    \<and> sint (stk r') = sint (stk tiny_regs) - 4 * int (length [7, 9 :: cell]) - 8
    \<and> load_cells m' (data_at tiny_env (stk r')) (length [7, 9 :: cell] + 2)
        = Some (0 # of_nat (length [7, 9 :: cell]) * 4 # [7, 9])
    \<and> (\<forall>i. int i < data_at tiny_env (stk r') \<longrightarrow> m' ! i = replicate 120 0 ! i)
    \<and> ep_params p' = [] \<and> ep_run_count p' = ep_run_count tiny + 1"
    by (rule run_start_cells)
      (simp_all add: tiny_defs data_at_def EMBRYO_FUNCTION_MAIN_def EMBRYO_FUNCTION_CONT_def
        STKMARGIN_def)
  then show ?thesis by (auto simp: tiny_regs_def numeral_eq_Suc simp del: load_cells.simps)
qed

text \<open>
  C8: a call returns. \<^verbatim>\<open>CALL\<close> followed by the \<^verbatim>\<open>PROC\<close> of the callee jumps to the
  target and opens a frame of two cells; if the body leaves the stack pointer where it found
  it and does not overwrite these two cells, \<^verbatim>\<open>RETN\<close> goes back to the instruction after
  the call with the caller's frame, and drops the frame, the argument count and the \<open>n\<close> bytes
  of arguments it announces.
\<close>

theorem call_returns:
  assumes "ep_base p = Some m" "load32 m (re_code e + cip r) = Some t"
    and "re_code e + cip r + 4 \<le> data_at e (stk r - 8)"
    and "- 2147483640 \<le> sint (stk r)" "in_block m (data_at e (stk r - 8)) 8"
    and "sint (hea r + STKMARGIN) \<le> sint (stk r - 8)"
    and "0 \<le> cip r" "cip r < 2147483644" "of_int (cip r + 4) < re_codesize e"
  shows "\<exists>r1 p1 r2 p2. op_call e r p = Next r1 p1 \<and> cip r1 = sint t \<and> op_proc e r1 p1 = Next r2 p2
    \<and> cip r2 = sint t \<and> stk r2 = stk r - 8 \<and> frm r2 = stk r - 8
    \<and> (\<forall>m2 r3 p3 m3 n. ep_base p2 = Some m2 \<and> ep_base p3 = Some m3 \<and> stk r3 = stk r2
          \<and> load_cells m3 (data_at e (stk r2)) 2 = load_cells m2 (data_at e (stk r2)) 2
          \<and> load32 m3 (data_at e (stk r)) = Some n
        \<longrightarrow> op_retn e r3 p3 = Next (r3\<lparr>frm := frm r, cip := cip r + 4, stk := stk r + 4 + n\<rparr>)
              (p3\<lparr>ep_stk := stk r + 4 + n\<rparr>))"
proof -
  obtain r1 p1 m2 where c: "op_call e r p = Next r1 p1" "cip r1 = sint t" "op_proc e r1 p1 =
      Next (r\<lparr>cip := sint t, stk := stk r - 8, frm := stk r - 8\<rparr>) (p\<lparr>ep_base := Some m2\<rparr>)"
      "load_cells m2 (data_at e (stk r - 8)) 2 = Some [frm r, of_int (cip r) + 4]"
    using call_proc [OF assms(1-6)] by metis
  have s: "sint (stk r - 8) = sint (stk r) - 8"
    using sint_sub_cell [of "stk r" 8] sint_cell_bounds [of "stk r"] assms(4) by simp
  have ret: "sint (of_int (cip r) + 4 :: cell) = cip r + 4"
    using sint_of_int_cell [of "cip r + 4"] assms(7,8) by simp
  have "op_retn e r3 p3 = Next (r3\<lparr>frm := frm r, cip := cip r + 4, stk := stk r + 4 + n\<rparr>)
      (p3\<lparr>ep_stk := stk r + 4 + n\<rparr>)"
    if p3: "ep_base p3 = Some m3" "stk r3 = stk r - 8"
      "load_cells m3 (data_at e (stk r - 8)) 2 = Some [frm r, of_int (cip r) + 4]"
      "load32 m3 (data_at e (stk r)) = Some n" for r3 p3 m3 n
  proof -
    have "data_at e (stk r) = data_at e (stk r - 8) + 8" by (simp add: data_at_def s)
    then have "load_cells m3 (data_at e (stk r3)) 3 = Some [frm r, of_int (cip r) + 4, n]"
      using p3 by (simp add: numeral_3_eq_3 numeral_2_eq_2 bind_eq_Some_conv add.commute)
    then show ?thesis
      using retn_pops [OF p3(1), of e r3 "frm r" "of_int (cip r) + 4" n] assms(9) ret s
        sint_cell_bounds [of "stk r"] p3(2)
      by (simp add: algebra_simps)
  qed
  with c show ?thesis
    by (intro exI [of _ r1] exI [of _ p1] exI [of _ "r\<lparr>cip := sint t, stk := stk r - 8, frm := stk r - 8\<rparr>"]
        exI [of _ "p\<lparr>ep_base := Some m2\<rparr>"]) simp
qed

theorem call_returns_witness:
  "\<exists>r1 p1 r2 p2. op_call tiny_env tiny_regs tiny = Next r1 p1
    \<and> op_proc tiny_env r1 p1 = Next r2 p2 \<and> stk r2 = 100"
proof -
  have "load32 (replicate 120 0) 0 = Some 0" by code_simp
  then show ?thesis
    using call_returns [of tiny "replicate 120 0" tiny_env tiny_regs 0]
    by (auto simp: tiny_defs data_at_def in_block_def STKMARGIN_def)
qed

end
