(* ===== verification/Embryo_Reach.thy ===== *)
theory Embryo_Reach
  imports Embryo_Resume Embryo_Calls
begin

text \<open>
  The loop as a step relation, its reachable states and their invariants, and a small program
  image on which the results about whole runs are exercised.
\<close>

section \<open>Turns as a relation\<close>

inductive vm_step :: "run_env \<Rightarrow> regs \<times> embryo_program \<Rightarrow> regs \<times> embryo_program \<Rightarrow> bool" for e where
  turn: "step e r p = Next r' p' \<Longrightarrow> vm_step e (r, p) (r', p')"

inductive_simps vm_step_iff: "vm_step e (r, p) (r', p')"
inductive_cases vm_stepE: "vm_step e s t"

abbreviation reaches :: "run_env \<Rightarrow> regs \<times> embryo_program \<Rightarrow> regs \<times> embryo_program \<Rightarrow> bool" where
  "reaches e \<equiv> (vm_step e)\<^sup>*\<^sup>*"

lemma reaches_turns: "turns k e r p = Next r' p' \<Longrightarrow> reaches e (r, p) (r', p')"
proof (induction k arbitrary: r p)
  case (Suc k)
  then obtain r1 p1 where "step e r p = Next r1 p1" "turns k e r1 p1 = Next r' p'"
    by (cases "step e r p") auto
  then show ?case
    using Suc.IH by (meson converse_rtranclp_into_rtranclp vm_step_iff)
qed simp

text \<open>A stop of the loop is a stop of one instruction, or of the cycle limit, at a reachable state.\<close>

lemma run_loop_reaches:
  "run_loop n e c r p = Some (Stop s q) \<Longrightarrow>
   \<exists>r' p'. reaches e (r, p) (r', p') \<and> (step e r' p' = Stop s q \<or> TOOLONG e r' p' = Stop s q)"
proof (induction n arbitrary: c r p)
  case (Suc n)
  show ?case
  proof (cases "0 < re_max e \<and> re_max e \<le> int c")
    case False
    show ?thesis
    proof (cases "step e r p")
      case (Next r1 p1)
      with Suc.prems False
      have "run_loop n e (if 0 < re_max e then Suc c else c) r1 p1 = Some (Stop s q)" by auto
      from Suc.IH [OF this] show ?thesis
        using Next by (meson converse_rtranclp_into_rtranclp turn)
    qed (use Suc.prems False in auto)
  qed (use Suc.prems in auto)
qed simp

section \<open>Invariants of the reachable states\<close>

lemma step_same_frame:
  assumes "natives_framed (re_natives e)" "step e r p = Next r' p'"
  shows "same_frame p p'"
  using post_step [OF assms(1) same_frame_refl, of p r] assms(2) by simp

lemma reaches_same_frame:
  assumes "natives_framed (re_natives e)" "reaches e (r, p) (r', p')"
  shows "same_frame p p'"
  using assms(2)
proof (induction rule: rtranclp_induct2)
  case (step r1 p1 r2 p2)
  then show ?case
    using same_frame_trans step_same_frame [OF assms(1)] by (auto elim: vm_stepE)
qed simp

lemma data_ok_same_frame: "data_ok e p \<Longrightarrow> same_frame p q \<Longrightarrow> data_ok e q"
  by (cases "ep_base q") (auto simp: data_ok_def same_frame_def split: option.splits)

section \<open>A program image\<close>

text \<open>
  A main function that pushes the cell 7 and the size of its parameters, calls a function and
  halts; the function adds one to its parameter. The header is followed by the code at 56, an
  empty data segment at 116 and 128 bytes for heap and stack.
\<close>

definition demo_header :: "cell list" where
  "demo_header = [248, 0x0707f1e0, 0x80000, 56, 116, 116, 248, 0, 56, 56, 56, 56, 56, 56]"

definition demo_code :: "cell list" where
  "demo_code = [11, 7, 36, 39, 4, 49, 36, 120, 0, 46, 3, 12, 87, 1, 48]"

definition demo_mem :: mem where
  "demo_mem = cells_bytes (demo_header @ demo_code) @ replicate 132 0"

definition demo :: embryo_program where
  "demo = calloc_program\<lparr>ep_base := Some demo_mem, ep_code := demo_mem, ep_stk := 128,
     ep_stp := 128, ep_flags := EMBRYO_FLAG_RELOC\<rparr>"

definition no_natives :: "nat \<Rightarrow> embryo_program \<Rightarrow> int \<Rightarrow> (cell \<times> embryo_program) option" where
  "no_natives f p a = None"

lemma no_natives_ok: "natives_framed no_natives" "natives_blind no_natives"
  by (simp_all add: natives_framed_def natives_blind_def no_natives_def)

lemma demo_run: "\<exists>q. embryo_program_run no_natives 10 demo EMBRYO_FUNCTION_MAIN
    = Some (Stop EMBRYO_PROGRAM_OK q) \<and> ep_retval q = 8"
proof -
  have "case embryo_program_run no_natives 10 demo EMBRYO_FUNCTION_MAIN of
      Some (Stop s q) \<Rightarrow> s = EMBRYO_PROGRAM_OK \<and> ep_retval q = 8 | _ \<Rightarrow> False" by code_simp
  then show ?thesis by (auto split: option.splits step_result.splits)
qed

text \<open>The environment and the registers with which the loop starts on the image.\<close>

definition demo_env :: run_env where
  "demo_env = \<lparr>re_code = 56, re_data = 116, re_codesize = 60, re_reset_stk = 128,
     re_reset_hea = 0, re_max = 3, re_natives = no_natives\<rparr>"

definition demo_regs :: regs where
  "demo_regs = \<lparr>pri = 0, alt = 0, stk = 120, frm = 0, hea = 0, cip = 0\<rparr>"

lemma demo_data_ok: "data_ok demo_env demo"
  by (simp add: data_ok_def demo_def demo_env_def demo_mem_def cells_bytes_def demo_header_def
      demo_code_def)

section \<open>Whole runs\<close>

text \<open>
  C4: a run of a function, not the continuation of a suspended one, that ends with the status
  \<^verbatim>\<open>OK\<close> gives the program back as it found it: the stack and heap pointers, the recursion count and the cycle limit are restored, the code
  image and the size of the memory block are unchanged, whatever instructions ran, as long as
  the native functions keep to that contract.
\<close>

theorem run_restores:
  assumes "natives_framed nf" "embryo_program_run nf n p fn = Some (Stop EMBRYO_PROGRAM_OK q)"
    and "fn \<noteq> EMBRYO_FUNCTION_CONT"
  shows "ep_stk q = ep_stk p \<and> ep_hea q = ep_hea p \<and> ep_run_count q = ep_run_count p
    \<and> ep_max_run_cycles q = ep_max_run_cycles p \<and> ep_code q = ep_code p
    \<and> map_option length (ep_base q) = map_option length (ep_base p)"
  using embryo_program_run_result [OF assms(1,2)] assms(3) by (auto simp: stop_ok_def)

theorem run_restores_witness:
  "\<exists>q. embryo_program_run no_natives 10 demo EMBRYO_FUNCTION_MAIN = Some (Stop EMBRYO_PROGRAM_OK q)
    \<and> ep_stk q = ep_stk demo \<and> ep_retval q = 8"
proof -
  obtain q where q: "embryo_program_run no_natives 10 demo EMBRYO_FUNCTION_MAIN
      = Some (Stop EMBRYO_PROGRAM_OK q)" "ep_retval q = 8"
    using demo_run by blast
  then show ?thesis
    using run_restores [OF no_natives_ok(1) q(1)]
    by (simp add: EMBRYO_FUNCTION_MAIN_def EMBRYO_FUNCTION_CONT_def)
qed

text \<open>
  C9: with a cycle limit set, a run always comes back: the loop ends within that many
  instructions (the fuel), whatever the code does, jumps in a circle included.
\<close>

theorem limited_run_ends:
  assumes "0 < ep_max_run_cycles p" "ep_max_run_cycles p < int n"
  shows "embryo_program_run nf n p fn \<noteq> None"
proof -
  have "run_loop n e 0 r q \<noteq> None" if "run_entry nf m p fn = Some (Some (e, x))" for m e x r q
    using run_entry_env(2) [OF that] assms by (intro run_loop_limit) simp_all
  then show ?thesis
    by (auto simp: embryo_program_run_def split: option.split step_result.split)
qed

theorem limited_run_ends_witness:
  "embryo_program_run no_natives 6 (embryo_program_max_cycle_run_set demo 5) EMBRYO_FUNCTION_MAIN \<noteq> None"
  by (rule limited_run_ends) (simp_all add: embryo_program_max_cycle_run_set_def)

text \<open>
  C5: suspension by the cycle limit is transparent. If the uninterrupted loop is still running
  after \<open>k\<close> instructions and the state there passes the checks of the entry, then the run
  limited to \<open>k\<close> instructions stops with \<^verbatim>\<open>TOOLONG\<close>, and the run continued from the
  record it leaves does what the uninterrupted loop does: the same result, and the same record
  up to the fields that save the registers. The natives must not look at those
  fields, except the four that every call of a native sets.
\<close>

theorem suspended_run_continues:
  assumes "natives_blind (re_natives e)" "re_max e = int k" "0 < k"
    and "turns k e r p = Next r' p'" "can_resume e r' p'"
  shows "\<exists>q. run_loop (Suc k) e 0 r p = Some (Stop EMBRYO_PROGRAM_TOOLONG q)
    \<and> rel_option same_result (run_loop (k + n) (e\<lparr>re_max := 0\<rparr>) 0 r p)
        (embryo_program_run (re_natives e) n (embryo_program_max_cycle_run_set q 0)
          EMBRYO_FUNCTION_CONT)"
  using assms by (rule suspension)

theorem suspended_run_continues_witness:
  "\<exists>q. run_loop 4 demo_env 0 demo_regs demo = Some (Stop EMBRYO_PROGRAM_TOOLONG q)
    \<and> rel_option same_result (run_loop 10 (demo_env\<lparr>re_max := 0\<rparr>) 0 demo_regs demo)
        (embryo_program_run no_natives 7 (embryo_program_max_cycle_run_set q 0)
          EMBRYO_FUNCTION_CONT)"
proof -
  have "case turns 3 demo_env demo_regs demo of Next r' p' \<Rightarrow> can_resume demo_env r' p' | _ \<Rightarrow> False"
    by code_simp
  then obtain r' p' where "turns 3 demo_env demo_regs demo = Next r' p'" "can_resume demo_env r' p'"
    by (auto split: step_result.splits)
  from suspended_run_continues [OF _ _ _ this, of 7] no_natives_ok(2) show ?thesis
    by (simp add: demo_env_def)
qed

text \<open>
  C6: every state the loop can reach keeps the block, the code and the layout of its segments,
  so that at every reachable state the checked instructions \<^verbatim>\<open>LOAD.I\<close>, \<^verbatim>\<open>LIDX\<close>,
  \<^verbatim>\<open>STOR.I\<close>, \<^verbatim>\<open>LODB.I\<close> and \<^verbatim>\<open>STRB.I\<close> stay inside the block, whatever address
  the program computed: they access it or abort.
\<close>

theorem reachable_accesses_safe:
  assumes "natives_framed (re_natives e)" "data_ok e p" "reaches e (r, p) (r', p')"
  shows "same_frame p p' \<and> op_load_i e r' p' \<noteq> Fault \<and> op_lidx e r' p' \<noteq> Fault
    \<and> op_stor_i e r' p' \<noteq> Fault
    \<and> (\<forall>m. ep_base p' = Some m \<and> in_block m (re_code e + cip r') 4 \<longrightarrow>
          op_lodb_i e r' p' \<noteq> Fault \<and> op_strb_i e r' p' \<noteq> Fault)"
proof -
  have f: "same_frame p p'" by (rule reaches_same_frame [OF assms(1,3)])
  have d: "data_ok e p'" by (rule data_ok_same_frame [OF assms(2) f])
  show ?thesis
    using f checked_load_no_fault [OF d] checked_sized_no_fault [OF d] by blast
qed

theorem reachable_accesses_safe_witness:
  "\<exists>r' p'. reaches demo_env (demo_regs, demo) (r', p') \<and> cip r' = 12
    \<and> op_load_i demo_env r' p' \<noteq> Fault \<and> op_stor_i demo_env r' p' \<noteq> Fault"
proof -
  have "case turns 2 demo_env demo_regs demo of Next r' p' \<Rightarrow> cip r' = 12 | _ \<Rightarrow> False"
    by code_simp
  then obtain r' p' where t: "turns 2 demo_env demo_regs demo = Next r' p'" "cip r' = 12"
    by (auto split: step_result.splits)
  from reachable_accesses_safe [OF _ demo_data_ok reaches_turns [OF t(1)]] no_natives_ok(1) t
  show ?thesis using reaches_turns [OF t(1)] by (simp add: demo_env_def) blast
qed

text \<open>
  C7: a checked store that goes through changes nothing below the data segment, so not the code
  and the header, and nothing in the free gap between the heap and the stack but the first
  three bytes of the gap; when the address and the heap pointer are multiples of four it
  changes nothing of the gap at all. (A cell stored just below the heap pointer, at an address
  that is no multiple of four, does reach into those three bytes: \<open>unaligned_store_in_gap\<close>.)
\<close>

theorem checked_stores_confined:
  assumes "data_ok e p" "ep_base p = Some m" "op \<in> {op_stor_i, op_strb_i}" "op e r p = Next r' p'"
  shows "\<exists>m'. ep_base p' = Some m' \<and> length m' = length m
    \<and> (\<forall>i. int i < re_data e
          \<or> re_data e + sint (hea r) + 3 \<le> int i \<and> int i < re_data e + sint (stk r)
          \<or> 4 dvd sint (hea r) \<and> 4 dvd sint (alt r)
            \<and> re_data e + sint (hea r) \<le> int i \<and> int i < re_data e + sint (stk r)
        \<longrightarrow> m' ! i = m ! i)"
  using op_stor_i_confined [OF assms(1,2)] op_strb_i_confined [OF assms(1,2)] assms(3,4)
  by (auto simp: store_confined_def)

theorem checked_stores_confined_witness:
  "\<exists>r' p' m'. op_stor_i demo_env (demo_regs\<lparr>alt := 124\<rparr>) demo = Next r' p' \<and> ep_base p' = Some m'
    \<and> length m' = length demo_mem"
proof -
  have "case op_stor_i demo_env (demo_regs\<lparr>alt := 124\<rparr>) demo of Next r' p' \<Rightarrow> True | _ \<Rightarrow> False"
    by code_simp
  then obtain r' p' where "op_stor_i demo_env (demo_regs\<lparr>alt := 124\<rparr>) demo = Next r' p'"
    by (auto split: step_result.splits)
  with checked_stores_confined [of demo_env demo demo_mem op_stor_i "demo_regs\<lparr>alt := 124\<rparr>" r' p']
  show ?thesis using demo_data_ok by (auto simp: demo_def)
qed

text \<open>
  The exception: \<^verbatim>\<open>STOR.I\<close> one byte below the heap pointer passes the check, which looks at the
  first byte only, and writes the upper three bytes of the cell into the gap.
\<close>

lemma unaligned_store_in_gap:
  assumes "data_ok e p" "ep_base p = Some m" "alt r = hea r - 1"
    and "0 < sint (hea r)" "sint (hea r) < sint (ep_stp p)" "sint (hea r) \<le> sint (stk r)"
  shows "\<exists>m'. op_stor_i e r p = Next r (p\<lparr>ep_base := Some m'\<rparr>)
    \<and> load32 m' (re_data e + sint (hea r) - 1) = Some (pri r)"
proof -
  have a: "sint (alt r) = sint (hea r) - 1"
    using assms(3,4) sint_cell_bounds [of "hea r"] sint_of_int_cell [of "sint (hea r) - 1"] by simp
  then have "uint (alt r) < uint (ep_stp p)"
    using assms(4,5) uint_eq_sint [of "alt r"] uint_eq_sint [of "ep_stp p"] by simp
  then have np: "\<not> mem_protected r p (alt r)"
    using a by (auto simp: mem_protected_def word_le_def)
  then have "in_block m (data_at e (alt r)) 4"
    by (rule unprotected_in_block [OF assms(1) _ assms(2)]) simp
  then obtain m' where m': "store32 m (data_at e (alt r)) (pri r) = Some m'"
    using store32_defined by blast
  have "data_at e (alt r) = re_data e + sint (hea r) - 1" using a by (simp add: data_at_def)
  then show ?thesis
    using np m' store32_load32 [OF m'] assms(2)
    by (intro exI [of _ m']) (simp add: op_stor_i_def CHKMEM_def poke_def)
qed

text \<open>
  dispatch is total: an opcode outside the instruction set executes as a no-operation, so
  the machine never refuses an instruction here; only the next cell is fetched.
\<close>

theorem unknown_opcode_skips:
  assumes "ep_base p = Some m" "load32 m (re_code e + cip r) = Some v" "137 \<le> unat (ucast v :: u8)"
  shows "step e r p = Next (r\<lparr>cip := cip r + 4\<rparr>) p"
proof -
  have "switchtable ! unat (ucast v :: u8) = op_none"
    using assms(3) unat_less_256 [of "ucast v :: u8"] by (simp add: switchtable_def nth_append)
  then show ?thesis using assms(1,2) by (simp add: step_def GETPARAM_def peek_def op_none_def)
qed

theorem unknown_opcode_skips_witness:
  "step demo_env (demo_regs\<lparr>cip := 60\<rparr>) (demo\<lparr>ep_base := Some (demo_mem[116 := 200])\<rparr>)
    = Next (demo_regs\<lparr>cip := 64\<rparr>) (demo\<lparr>ep_base := Some (demo_mem[116 := 200])\<rparr>)"
proof -
  have l: "load32 (demo_mem[116 := 200]) 116 = Some 200" by code_simp
  show ?thesis
    using unknown_opcode_skips [of "demo\<lparr>ep_base := Some (demo_mem[116 := 200])\<rparr>"
        "demo_mem[116 := 200]" demo_env "demo_regs\<lparr>cip := 60\<rparr>" 200] l
    by (simp add: demo_env_def)
qed

end
