(* ===== verification/Embryo_Lookup.thy ===== *)
theory Embryo_Lookup
  imports Embryo_Api
begin

text \<open>
  The symbol lookups of a program: the binary search against the table that is searched, and
  the registration of native functions.
\<close>

section \<open>Binary search\<close>

lemma find_loop_sound:
  "find_loop get name f l = Some (Some v) \<Longrightarrow> \<exists>i. f \<le> i \<and> i \<le> l \<and> get i = Some (Some (name, v))"
proof (induction get name f l rule: find_loop.induct)
  case (1 get name f l)
  let ?mid = "(f + l) div 2"
  from "1.prems" have le: "f \<le> l" by (subst (asm) find_loop.simps) (simp split: if_splits)
  then have mid: "f \<le> ?mid" "?mid \<le> l" by linarith+
  from "1.prems" le obtain pname w where g: "get ?mid = Some (Some (pname, w))"
    by (subst (asm) find_loop.simps) (auto simp: Let_def split: option.splits)
  consider "0 < strcmp pname name" | "strcmp pname name < 0" | "strcmp pname name = 0"
    by linarith
  then show ?case
  proof cases
    case 1
    then have "find_loop get name f (?mid - 1) = Some (Some v)"
      using "1.prems" g le by (subst (asm) find_loop.simps) (simp add: Let_def)
    from "1.IH"(1) [OF _ refl g refl refl refl 1 this] le mid show ?thesis by force
  next
    case 2
    then have "find_loop get name (?mid + 1) l = Some (Some v)"
      using "1.prems" g le by (subst (asm) find_loop.simps) (simp add: Let_def)
    from "1.IH"(2) [OF _ refl g refl refl refl _ 2 this] 2 le
    obtain i where "?mid + 1 \<le> i" "i \<le> l" "get i = Some (Some (name, v))" by auto
    with mid show ?thesis by (intro exI [of _ i]) linarith
  next
    case 3
    then have "pname = name" by (simp add: strcmp_zero)
    moreover have "w = v"
      using "1.prems" g le 3 by (subst (asm) find_loop.simps) (simp add: Let_def)
    ultimately have "w = v" "pname = name" by simp_all
    then show ?thesis using g mid by blast
  qed
qed

lemma take_drop_split:
  assumes "h < n" "f + n \<le> length xs"
  shows "take n (drop f xs) = take h (drop f xs) @ xs ! (f + h) # take (n - Suc h) (drop (f + Suc h) xs)"
proof -
  have "take n (drop f xs) = take h (take n (drop f xs)) @ take n (drop f xs) ! h # drop (Suc h) (take n (drop f xs))"
    using assms by (intro id_take_nth_drop) simp
  then show ?thesis using assms by (simp add: min_def drop_take add.commute)
qed

lemma find_loop_table:
  assumes get: "\<And>i. i < length tbl \<Longrightarrow> get (int i) = Some (Some (tbl ! i))"
    and sorted: "sorted_wrt (\<lambda>a b. strcmp (fst a) (fst b) < 0) tbl"
  shows "f + n \<le> length tbl \<Longrightarrow>
    find_loop get name (int f) (int f + int n - 1) = Some (map_of (take n (drop f tbl)) name)"
proof (induction n arbitrary: f rule: less_induct)
  case (less n)
  show ?case
  proof (cases "n = 0")
    case True
    then show ?thesis by (subst find_loop.simps) simp
  next
    case False
    let ?h = "(n - 1) div 2"
    obtain k v where kv: "tbl ! (f + ?h) = (k, v)" by fastforce
    have h: "?h < n" using False by simp
    have mid: "(int f + (int f + int n - 1)) div 2 = int (f + ?h)"
      using False by (simp add: zdiv_int of_nat_diff)
    have g: "get (int (f + ?h)) = Some (Some (k, v))"
      using get [of "f + ?h"] kv h less.prems by simp
    have seg: "take n (drop f tbl)
        = take ?h (drop f tbl) @ (k, v) # take (n - Suc ?h) (drop (f + Suc ?h) tbl)"
      using take_drop_split [OF h less.prems] kv by simp
    have "sorted_wrt (\<lambda>a b. strcmp (fst a) (fst b) < 0) (take n (drop f tbl))"
      using sorted by (simp add: sorted_wrt_take sorted_wrt_drop)
    then have split: "map_of (take n (drop f tbl)) name =
        (if 0 < strcmp k name then map_of (take ?h (drop f tbl)) name
         else if strcmp k name < 0 then map_of (take (n - Suc ?h) (drop (f + Suc ?h) tbl)) name
         else Some v)"
      unfolding seg by (rule strcmp.sorted_split)
    have left: "find_loop get name (int f) (int (f + ?h) - 1) = Some (map_of (take ?h (drop f tbl)) name)"
      using less.IH [OF h, of f] h less.prems by simp
    have right: "find_loop get name (int (f + ?h) + 1) (int f + int n - 1)
        = Some (map_of (take (n - Suc ?h) (drop (f + Suc ?h) tbl)) name)"
      using less.IH [of "n - Suc ?h" "f + Suc ?h"] h less.prems
      by (simp add: of_nat_diff algebra_simps)
    show ?thesis
      using False mid g left right split
      by (subst find_loop.simps) (simp add: Let_def)
  qed
qed

section \<open>The tables as lists\<close>

text \<open>The first \<open>n\<close> entries of a table, if all can be read.\<close>

definition read_table :: "(int \<Rightarrow> 'a option option) \<Rightarrow> int \<Rightarrow> 'a list option" where
  "read_table get n = those (map (\<lambda>i. Option.bind (get (int i)) id) [0..<nat n])"

lemma those_nth: "those xs = Some ys \<Longrightarrow> length ys = length xs \<and> (\<forall>i < length xs. xs ! i = Some (ys ! i))"
proof (induction xs arbitrary: ys)
  case (Cons x xs)
  then show ?case by (auto simp: nth_Cons split: option.splits nat.split)
qed simp

lemma read_tableD:
  assumes "read_table get n = Some tbl"
  shows "length tbl = nat n" "i < length tbl \<Longrightarrow> get (int i) = Some (Some (tbl ! i))"
  using those_nth [OF assms [unfolded read_table_def]]
  by (auto simp: bind_eq_Some_conv)

lemma find_loop_read_table:
  assumes "read_table get n = Some tbl" "sorted_wrt (\<lambda>a b. strcmp (fst a) (fst b) < 0) tbl"
  shows "find_loop get name 0 (n - 1) = Some (map_of tbl name)"
proof (cases "0 < n")
  case True
  then show ?thesis
    using find_loop_table [OF read_tableD(2) [OF assms(1)] assms(2), of 0 "length tbl" name]
      read_tableD(1) [OF assms(1)] by simp
next
  case False
  then show ?thesis using read_tableD(1) [OF assms(1)] by (subst find_loop.simps) simp
qed

section \<open>Registering natives\<close>

text \<open>
  The name of the entry at \<open>a\<close>; the entries of a table are at \<open>entry\<close>, \<open>entry + d\<close> and so
  on, an address and a name (or the offset of one) each.
\<close>

definition native_name :: "mem \<Rightarrow> int \<Rightarrow> u8 list option" where
  "native_name m a = do { ea \<leftarrow> getentryname m a; cstring_at m ea }"

definition in_cells :: "nat \<Rightarrow> int \<Rightarrow> int \<Rightarrow> int \<Rightarrow> bool" where
  "in_cells n entry d k \<longleftrightarrow> (\<exists>j < n. entry + int j * d \<le> k \<and> k < entry + int j * d + 4)"

text \<open>A table whose address cells overlap neither the header nor a name.\<close>

definition table_ok :: "nat \<Rightarrow> mem \<Rightarrow> int \<Rightarrow> int \<Rightarrow> bool" where
  "table_ok n m entry d \<longleftrightarrow> 8 \<le> d \<and> 56 \<le> entry \<and> 56 \<le> length m \<and>
     (\<forall>i < n. in_block m (entry + int i * d) 8
       \<and> (case getentryname m (entry + int i * d) of None \<Rightarrow> False
          | Some ea \<Rightarrow> (case cstring_at m ea of None \<Rightarrow> False
              | Some s \<Rightarrow> \<forall>k \<le> length s. \<not> in_cells n entry d (ea + int k))))"

definition agree_off :: "(int \<Rightarrow> bool) \<Rightarrow> mem \<Rightarrow> mem \<Rightarrow> bool" where
  "agree_off C m m' \<longleftrightarrow> length m' = length m \<and> (\<forall>k. \<not> C (int k) \<longrightarrow> m' ! k = m ! k)"

lemma agree_load32:
  assumes "agree_off C m m'" "\<not> C a" "\<not> C (a + 1)" "\<not> C (a + 2)" "\<not> C (a + 3)"
  shows "load32 m' a = load32 m a"
proof (cases "in_block m a 4")
  case True
  then have a: "0 \<le> a" by (simp add: in_block_def)
  have "m' ! (nat a + k) = m ! (nat a + k)" if "\<not> C (a + int k)" for k
    using assms(1) that a by (auto simp: agree_off_def)
  from this [of 0] this [of 1] this [of 2] this [of 3] assms True show ?thesis
    by (simp add: load32_def in_block_def agree_off_def)
next
  case False
  then have "\<not> in_block m' a 4" using assms(1) by (simp add: in_block_def agree_off_def)
  with False show ?thesis by (simp add: load32_def)
qed

lemma take_cstring_agree:
  assumes "take_cstring cs = Some s" "length cs' = length cs" "\<forall>k \<le> length s. cs' ! k = cs ! k"
  shows "take_cstring cs' = Some s"
  using assms
proof (induction cs arbitrary: s cs')
  case (Cons c cs)
  from Cons.prems(2) obtain c' cs2 where cs': "cs' = c' # cs2" "length cs2 = length cs"
    by (cases cs') auto
  have c: "c' = c" using Cons.prems(3) cs' by force
  show ?case
  proof (cases "c = 0")
    case False
    with Cons.prems(1) obtain t where t: "s = c # t" "take_cstring cs = Some t" by auto
    have "\<forall>k \<le> length t. cs2 ! k = cs ! k"
      using Cons.prems(3) by (auto simp: cs' t(1) dest: spec [of _ "Suc _"])
    from Cons.IH [OF t(2) cs'(2) this] False show ?thesis by (simp add: cs' c t)
  qed (use Cons.prems cs' c in simp)
qed simp

lemma cells_apart:
  assumes "8 \<le> d" "4 \<le> x" "x < (8 :: int)"
  shows "\<not> in_cells n entry d (entry + int i * d + x)"
proof
  assume "in_cells n entry d (entry + int i * d + x)"
  then obtain j where j: "int j * d \<le> int i * d + x" "int i * d + x < int j * d + 4"
    by (auto simp: in_cells_def)
  consider "j \<le> i" | "int i + 1 \<le> int j" by linarith
  then show False
  proof cases
    case 1
    then have "int j * d \<le> int i * d" using assms(1) by (intro mult_right_mono) auto
    with j(2) assms(2) show False by linarith
  next
    case 2
    then have "(int i + 1) * d \<le> int j * d" using assms(1) by (intro mult_right_mono) auto
    with j(1) assms show False by (simp add: algebra_simps)
  qed
qed

lemma table_okE:
  assumes "table_ok n m entry d" "i < n"
  obtains ea s where "getentryname m (entry + int i * d) = Some ea" "cstring_at m ea = Some s"
    "\<forall>k \<le> length s. \<not> in_cells n entry d (ea + int k)" "in_block m (entry + int i * d) 8"
proof -
  have "in_block m (entry + int i * d) 8 \<and> (case getentryname m (entry + int i * d) of None \<Rightarrow> False
          | Some ea \<Rightarrow> (case cstring_at m ea of None \<Rightarrow> False
              | Some s \<Rightarrow> \<forall>k \<le> length s. \<not> in_cells n entry d (ea + int k)))"
    using assms unfolding table_ok_def by blast
  then show ?thesis by (auto intro!: that split: option.splits)
qed

lemma table_ok_agree:
  assumes "table_ok n m entry d" "agree_off (in_cells n entry d) m m'" "i < n"
  shows "getentryname m' (entry + int i * d) = getentryname m (entry + int i * d)"
    "native_name m' (entry + int i * d) = native_name m (entry + int i * d)"
    "table_ok n m' entry d"
proof -
  have d: "8 \<le> d" and e: "56 \<le> entry" and len: "length m' = length m"
    using assms by (simp_all add: table_ok_def agree_off_def)
  have "\<not> in_cells n entry d k" if "k < 56" for k
  proof -
    have "k < entry + int j * d" for j
      using that e d mult_nonneg_nonneg [of "int j" d] by linarith
    then show ?thesis by (auto simp: in_cells_def not_le)
  qed
  then have "m' ! k = m ! k" if "k < 56" for k
    using that assms(2) by (simp add: agree_off_def)
  then have hd: "hdr_defsize m' = hdr_defsize m"
    using len by (simp add: hdr_defsize_def load16_def in_block_def)
  have nm: "getentryname m' (entry + int j * d) = getentryname m (entry + int j * d)" for j
  proof -
    have c: "\<not> in_cells n entry d (entry + int j * d + x)" if "4 \<le> x" "x < 8" for x
      using cells_apart [OF d that] .
    have "load32 m' (entry + int j * d + 4) = load32 m (entry + int j * d + 4)"
      using c [of 4] c [of 5] c [of 6] c [of 7] by (intro agree_load32 [OF assms(2)]) (simp_all add: add.assoc)
    then show ?thesis by (simp add: getentryname_def hd cong: if_cong)
  qed
  then show "getentryname m' (entry + int i * d) = getentryname m (entry + int i * d)" .
  have cs: "cstring_at m' ea = Some s"
    if "cstring_at m ea = Some s" "\<forall>k \<le> length s. \<not> in_cells n entry d (ea + int k)" for ea s
  proof -
    have ea: "0 \<le> ea" "take_cstring (drop (nat ea) m) = Some s"
      using that(1) by (simp_all add: cstring_at_def split: if_splits)
    then have "nat ea \<le> length m" by (cases "nat ea \<le> length m") auto
    moreover have "m' ! (nat ea + k) = m ! (nat ea + k)" if "k \<le> length s" for k
    proof -
      have "\<not> in_cells n entry d (int (nat ea + k))"
        using \<open>\<forall>k \<le> length s. \<not> in_cells n entry d (ea + int k)\<close> that ea(1) by simp
      then show ?thesis using assms(2) unfolding agree_off_def by blast
    qed
    ultimately have "take_cstring (drop (nat ea) m') = Some s"
      using len by (intro take_cstring_agree [OF ea(2)]) simp_all
    with ea(1) show ?thesis by (simp add: cstring_at_def)
  qed
  show "native_name m' (entry + int i * d) = native_name m (entry + int i * d)"
    by (rule table_okE [OF assms(1,3)]) (simp add: native_name_def nm cs)
  show "table_ok n m' entry d"
    unfolding table_ok_def
  proof (intro conjI allI impI d e)
    show "56 \<le> length m'" using assms(1) len by (simp add: table_ok_def)
    fix j assume "j < n"
    from table_okE [OF assms(1) this] obtain ea s where
      "getentryname m (entry + int j * d) = Some ea" "cstring_at m ea = Some s"
      "\<forall>k \<le> length s. \<not> in_cells n entry d (ea + int k)" "in_block m (entry + int j * d) 8"
      by blast
    then show "in_block m' (entry + int j * d) 8"
      "case getentryname m' (entry + int j * d) of None \<Rightarrow> False
          | Some ea \<Rightarrow> (case cstring_at m' ea of None \<Rightarrow> False
              | Some s \<Rightarrow> \<forall>k \<le> length s. \<not> in_cells n entry d (ea + int k))"
      using nm cs len by (simp_all add: in_block_def)
  qed
qed

lemma strcmp_mem_zero:
  assumes "take_cstring cs = Some s" "0 \<notin> set name"
  shows "strcmp_mem cs name = Some 0 \<longleftrightarrow> s = name" "strcmp_mem cs name \<noteq> None"
  using assms
proof (induction cs name arbitrary: s rule: strcmp_mem.induct)
  case (3 c cs n ns)
  {
    case 1
    then show ?case using 3(1) by (auto split: if_splits)
  next
    case 2
    then show ?case using 3(2) by (auto split: if_splits)
  }
qed (auto split: if_splits)

lemma in_cells_Suc:
  "in_cells (Suc n) entry d k \<longleftrightarrow> (entry \<le> k \<and> k < entry + 4) \<or> in_cells n (entry + d) d k"
proof -
  have "entry + int (Suc j) * d = entry + d + int j * d" for j by (simp add: algebra_simps)
  then show ?thesis by (simp only: in_cells_def Ex_less_Suc2) simp
qed

lemma table_ok_Suc:
  assumes "table_ok (Suc n) m entry d"
  shows "table_ok n m (entry + d) d"
  unfolding table_ok_def
proof (intro conjI allI impI)
  show "8 \<le> d" "56 \<le> length m" using assms by (simp_all add: table_ok_def)
  then show "56 \<le> entry + d" using assms by (simp add: table_ok_def)
  fix i assume "i < n"
  then have i: "Suc i < Suc n" by simp
  have eq: "entry + int (Suc i) * d = entry + d + int i * d" by (simp add: algebra_simps)
  from table_okE [OF assms i, unfolded eq] obtain ea s where
    "getentryname m (entry + d + int i * d) = Some ea" "cstring_at m ea = Some s"
    "\<forall>k \<le> length s. \<not> in_cells (Suc n) entry d (ea + int k)"
    "in_block m (entry + d + int i * d) 8" by blast
  then show "in_block m (entry + d + int i * d) 8"
    "case getentryname m (entry + d + int i * d) of None \<Rightarrow> False
      | Some ea \<Rightarrow> (case cstring_at m ea of None \<Rightarrow> False
          | Some s \<Rightarrow> \<forall>k \<le> length s. \<not> in_cells n (entry + d) d (ea + int k))"
    by (simp_all add: in_cells_Suc)
qed

lemma agree_off_trans:
  assumes "agree_off C m m1" "agree_off D m1 m2" "\<And>k. C k \<Longrightarrow> E k" "\<And>k. D k \<Longrightarrow> E k"
  shows "agree_off E m m2"
  using assms by (simp add: agree_off_def) metis

lemma native_entry:
  assumes "table_ok (Suc n) m entry d"
  obtains a ea s where "load32 m entry = Some a" "getentryname m entry = Some ea"
    "cstring_at m ea = Some s" "native_name m entry = Some s" "0 \<le> ea"
    "take_cstring (drop (nat ea) m) = Some s"
proof -
  show ?thesis
    by (rule table_okE [OF assms, of 0])
      (auto intro!: that simp: native_name_def load32_def in_block_def cstring_at_def split: if_splits)
qed

lemma native_fill_correct:
  assumes "0 \<notin> set name" "table_ok n m entry d"
  shows "\<exists>m'. native_fill n m entry d name v = Some m'
    \<and> agree_off (in_cells n entry d) m m'
    \<and> (\<forall>i < n. load32 m' (entry + int i * d) =
          map_option (\<lambda>a. if a = 0 \<and> native_name m (entry + int i * d) = Some name then v else a)
            (load32 m (entry + int i * d)))"
  using assms(2)
proof (induction n arbitrary: m entry)
  case 0
  then show ?case by (simp add: agree_off_def)
next
  case (Suc n)
  have d: "8 \<le> d" using Suc.prems by (simp add: table_ok_def)
  obtain a ea s where a: "load32 m entry = Some a" "getentryname m entry = Some ea"
    and s: "native_name m entry = Some s" "0 \<le> ea" "take_cstring (drop (nat ea) m) = Some s"
    by (rule native_entry [OF Suc.prems]) blast
  let ?v = "if a = 0 \<and> s = name then v else a"
  obtain m1 where m1: "native_fill (Suc n) m entry d name v = native_fill n m1 (entry + d) d name v"
    and ld: "load32 m1 entry = Some ?v" and ag: "agree_off (\<lambda>k. entry \<le> k \<and> k < entry + 4) m m1"
  proof (cases "a = 0 \<and> s = name")
    case True
    from a(1) have "in_block m entry 4" by (auto simp: load32_def split: if_splits)
    then obtain m1 where m1: "store32 m entry v = Some m1" using store32_defined [of m entry v] by blast
    have "native_fill (Suc n) m entry d name v = native_fill n m1 (entry + d) d name v"
      using True a s strcmp_mem_zero(1) [OF s(3) assms(1)] m1 by simp
    moreover have "agree_off (\<lambda>k. entry \<le> k \<and> k < entry + 4) m m1"
      using store32_nth [OF m1] store_length(3) [OF m1] by (force simp: agree_off_def)
    ultimately show ?thesis using that store32_load32 [OF m1] True by simp
  next
    case False
    obtain c where c: "strcmp_mem (drop (nat ea) m) name = Some c"
      using strcmp_mem_zero(2) [OF s(3) assms(1)] by auto
    have "c \<noteq> 0" if "a = 0"
      using strcmp_mem_zero(1) [OF s(3) assms(1)] c False that by auto
    then have "native_fill (Suc n) m entry d name v = native_fill n m (entry + d) d name v"
      using a s c by simp
    then show ?thesis using that [of m] a(1) False by (auto simp: agree_off_def)
  qed
  have ag': "agree_off (in_cells (Suc n) entry d) m m1"
    using ag by (auto simp: agree_off_def in_cells_Suc)
  have tok: "table_ok n m1 (entry + d) d"
    using table_ok_agree(3) [OF Suc.prems ag', of 0] table_ok_Suc by simp
  from Suc.IH [OF tok] obtain m' where m': "native_fill n m1 (entry + d) d name v = Some m'"
    and ag2: "agree_off (in_cells n (entry + d) d) m1 m'"
    and rest: "\<forall>i < n. load32 m' (entry + d + int i * d) =
        map_option (\<lambda>a. if a = 0 \<and> native_name m1 (entry + d + int i * d) = Some name then v else a)
          (load32 m1 (entry + d + int i * d))" by blast
  have all: "agree_off (in_cells (Suc n) entry d) m m'"
    by (rule agree_off_trans [OF ag ag2]) (simp_all add: in_cells_Suc)
  have "load32 m' (entry + int i * d) =
      map_option (\<lambda>a. if a = 0 \<and> native_name m (entry + int i * d) = Some name then v else a)
        (load32 m (entry + int i * d))" if "i < Suc n" for i
  proof (cases i)
    case 0
    have "\<not> in_cells n (entry + d) d (entry + x)" if "0 \<le> x" "x < 4" for x
    proof -
      have "entry + x < entry + d + int j * d" for j
        using that d mult_nonneg_nonneg [of "int j" d] by linarith
      then show ?thesis by (auto simp: in_cells_def not_le)
    qed
    from this [of 0] this [of 1] this [of 2] this [of 3]
    have "load32 m' entry = load32 m1 entry" by (intro agree_load32 [OF ag2]) simp_all
    then show ?thesis using 0 ld a(1) s(1) by simp
  next
    case (Suc j)
    then have j: "j < n" using that by simp
    have eq: "entry + int i * d = entry + d + int j * d" using Suc by (simp add: algebra_simps)
    have "\<not> (entry \<le> entry + d + int j * d + x \<and> entry + d + int j * d + x < entry + 4)"
      if "0 \<le> x" for x
      using that d mult_nonneg_nonneg [of "int j" d] by linarith
    from this [of 0] this [of 1] this [of 2] this [of 3]
    have "load32 m1 (entry + d + int j * d) = load32 m (entry + d + int j * d)"
      by (intro agree_load32 [OF ag]) simp_all
    moreover have "native_name m1 (entry + d + int j * d) = native_name m (entry + d + int j * d)"
      using table_ok_agree(2) [OF Suc.prems ag' \<open>i < Suc n\<close>] unfolding eq .
    ultimately show ?thesis using rest j unfolding eq by simp
  qed
  then show ?case using m1 m' all by auto
qed

section \<open>The lookups of a program\<close>

text \<open>
  C10: \<^verbatim>\<open>embryo_program_variable_find\<close> agrees with the table of public variables: if the
  entries can be read and their names are strictly sorted, the binary search returns the
  address of the variable of that name, and \<^verbatim>\<open>EMBRYO_CELL_NONE\<close> if there is none.
\<close>

theorem variable_find_table:
  assumes "ep_base p = Some m" "numentries (hdr_tags m) (hdr_pubvars m) (hdr_defsize m) = Some n"
    and "read_table (embryo_var_get p) n = Some tbl"
    and "sorted_wrt (\<lambda>a b. strcmp (fst a) (fst b) < 0) tbl"
  shows "embryo_program_variable_find p name =
    Some (case map_of tbl name of None \<Rightarrow> EMBRYO_CELL_NONE | Some a \<Rightarrow> a)"
  using assms(1,2) find_loop_read_table [OF assms(3,4)]
  by (simp add: embryo_program_variable_find_def)

text \<open>
  C11: \<^verbatim>\<open>embryo_program_function_find\<close> returns the index of the public function of that
  name in a sorted table, and \<^verbatim>\<open>EMBRYO_FUNCTION_NONE\<close> otherwise.
\<close>

theorem function_find_table:
  assumes "numentries (hdr_natives (ep_code p)) (hdr_publics (ep_code p)) (hdr_defsize (ep_code p)) = Some n"
    and "read_table (\<lambda>i. map_option (map_option (\<lambda>s. (s, of_int i))) (embryo_func_get p i)) n = Some tbl"
    and "sorted_wrt (\<lambda>a b. strcmp (fst a) (fst b) < 0) tbl"
  shows "embryo_program_function_find p name =
    Some (case map_of tbl name of None \<Rightarrow> EMBRYO_FUNCTION_NONE | Some i \<Rightarrow> i)"
  using assms(1) find_loop_read_table [OF assms(2,3)]
  by (simp add: embryo_program_function_find_def)

text \<open>
  whatever the order of the table, a lookup that returns an address returns that of an
  entry with exactly the name asked for.
\<close>

theorem variable_find_sound:
  assumes "ep_base p = Some m" "embryo_program_variable_find p name = Some a" "a \<noteq> EMBRYO_CELL_NONE"
  shows "\<exists>i. 0 \<le> i \<and> embryo_var_get p i = Some (Some (name, a))"
proof -
  from assms obtain n where "find_loop (embryo_var_get p) name 0 (n - 1) = Some (Some a)"
    by (auto simp: embryo_program_variable_find_def bind_eq_Some_conv split: option.splits)
  from find_loop_sound [OF this] show ?thesis by auto
qed

text \<open>
  A block with two variables, \<open>a\<close> at 7 and \<open>b\<close> at 9, in entries of eight bytes with a name
  table, and the same entries read as two public functions.
\<close>

definition two_names :: mem where
  "two_names = replicate 10 0 @ [8, 0] @ replicate 20 0 @ [56, 0, 0, 0, 72, 0, 0, 0]
     @ replicate 4 0 @ [56, 0, 0, 0, 72, 0, 0, 0, 0, 0, 0, 0]
     @ [7, 0, 0, 0, 72, 0, 0, 0, 9, 0, 0, 0, 74, 0, 0, 0, 97, 0, 98, 0]"

definition named :: embryo_program where
  "named = calloc_program\<lparr>ep_base := Some two_names, ep_code := two_names\<rparr>"

lemma two_names_entries:
  "numentries (hdr_tags two_names) (hdr_pubvars two_names) (hdr_defsize two_names) = Some 2"
  "numentries (hdr_natives two_names) (hdr_publics two_names) (hdr_defsize two_names) = Some 2"
  "read_table (embryo_var_get named) 2 = Some [([97], 7), ([98], 9)]"
  "read_table (\<lambda>i. map_option (map_option (\<lambda>s. (s, of_int i))) (embryo_func_get named i)) 2
    = Some [([97], 0), ([98], 1 :: cell)]"
  by code_simp+

theorem variable_find_table_witness: "embryo_program_variable_find named [98] = Some 9"
  using variable_find_table [OF _ two_names_entries(1,3), of "[98]"] by (simp add: named_def)

theorem function_find_table_witness: "embryo_program_function_find named [98] = Some 1"
proof -
  have "ep_code named = two_names" by (simp add: named_def)
  with function_find_table [OF _ two_names_entries(4), of "[98]"] two_names_entries(2) show ?thesis
    by simp
qed

theorem variable_find_sound_witness:
  "\<exists>i. 0 \<le> i \<and> embryo_var_get named i = Some (Some ([98], 9))"
proof -
  have "embryo_program_variable_find named [98] = Some 9" by code_simp
  from variable_find_sound [OF _ this] show ?thesis by (simp add: named_def EMBRYO_CELL_NONE_def)
qed

text \<open>
  registering a native binds exactly its entries. For a table whose address cells overlap
  neither the names nor the header, the loop of \<^verbatim>\<open>embryo_program_native_call_add\<close> ends
  normally; every still unassigned entry of that name gets the number of the function, every
  other address, every name and every byte outside the address cells stays.
\<close>

theorem native_binding:
  assumes "0 \<notin> set name" "table_ok n m entry d"
  shows "\<exists>m'. native_fill n m entry d name v = Some m' \<and> length m' = length m
    \<and> (\<forall>i < n. load32 m' (entry + int i * d) =
          map_option (\<lambda>a. if a = 0 \<and> native_name m (entry + int i * d) = Some name then v else a)
            (load32 m (entry + int i * d))
        \<and> native_name m' (entry + int i * d) = native_name m (entry + int i * d))
    \<and> (\<forall>k. \<not> in_cells n entry d (int k) \<longrightarrow> m' ! k = m ! k)"
proof -
  obtain m' where m': "native_fill n m entry d name v = Some m'"
    and ag: "agree_off (in_cells n entry d) m m'"
    and cells: "\<forall>i < n. load32 m' (entry + int i * d) =
        map_option (\<lambda>a. if a = 0 \<and> native_name m (entry + int i * d) = Some name then v else a)
          (load32 m (entry + int i * d))"
    using native_fill_correct [OF assms, of v] by blast
  have "\<forall>i < n. native_name m' (entry + int i * d) = native_name m (entry + int i * d)"
    using table_ok_agree(2) [OF assms(2) ag] by blast
  with m' cells ag show ?thesis unfolding agree_off_def by blast
qed

definition native_block :: mem where
  "native_block = replicate 10 0 @ [8, 0] @ replicate 44 0
     @ [0, 0, 0, 0, 72, 0, 0, 0, 3, 0, 0, 0, 74, 0, 0, 0, 97, 0, 98, 0]"

theorem native_binding_witness:
  "\<exists>m'. native_fill 2 native_block 56 8 [97] 5 = Some m' \<and> load32 m' 56 = Some 5 \<and> load32 m' 64 = Some 3"
proof -
  have n: "getentryname native_block 56 = Some 72" "getentryname native_block 64 = Some 74"
    "cstring_at native_block 72 = Some [97]" "cstring_at native_block 74 = Some [98]"
    "load32 native_block 56 = Some 0" "load32 native_block 64 = Some 3"
    "length native_block = 76"
    by code_simp+
  have "\<not> in_cells 2 56 8 k" if "72 \<le> k" for k
    using that by (auto simp: in_cells_def less_2_cases_iff)
  then have t: "table_ok 2 native_block 56 8"
    using n by (auto simp: table_ok_def less_2_cases_iff in_block_def)
  have "native_name native_block 56 = Some [97]" "native_name native_block 64 = Some [98]"
    by (simp_all add: native_name_def n)
  with native_binding [OF _ t, of "[97]" 5] n(5,6) show ?thesis
    by (auto simp: less_2_cases_iff)
qed

end
