(* ===== verification/Embryo_Data.thy ===== *)
theory Embryo_Data
  imports Embryo_Safety
begin

text \<open>
  The memory of the machine as the embedding program sees it: the reset of the block, the heap
  between the data and the stack, strings stored one character per cell.
\<close>

section \<open>The heap\<close>

lemma uint64_of_int: "uint (word_of_int i :: 64 word) = i mod 18446744073709551616"
  by (simp add: uint_word_of_int)

lemma less_64:
  assumes "- 1099511627776 < i" "i < 1099511627776"
  shows "(word_of_int i :: 64 word) < 64 \<longleftrightarrow> 0 \<le> i \<and> i < 64"
proof (cases "0 \<le> i")
  case True
  then have "i mod 18446744073709551616 = i" using assms(2) by (intro mod_pos_pos_trivial) linarith+
  with True show ?thesis by (simp add: word_less_def uint64_of_int)
next
  case False
  have "(i + 18446744073709551616) mod 18446744073709551616 = i + 18446744073709551616"
    using False assms(1) by (intro mod_pos_pos_trivial) linarith+
  with False assms(1) show ?thesis by (simp add: word_less_def uint64_of_int)
qed

text \<open>
  The three outcomes of a push: the test of the margin is made on unsigned values, so a request
  larger than the whole gap wraps around and passes.
\<close>

lemma heap_push_cases:
  assumes "ep_base p \<noteq> None" "0 \<le> sint (ep_hea p)" "sint (ep_hea p) \<le> sint (ep_stk p)" "0 \<le> sint c"
  shows "embryo_data_heap_push p c =
    (if sint (ep_stk p) - sint (ep_hea p) - 64 < 4 * sint c
        \<and> 4 * sint c \<le> sint (ep_stk p) - sint (ep_hea p)
     then (EMBRYO_CELL_NONE, p) else (ep_hea p, p\<lparr>ep_hea := ep_hea p + 4 * c\<rparr>))"
proof -
  let ?S = "sint (ep_stk p) - sint (ep_hea p)"
  have S: "sint (ep_stk p - ep_hea p) = ?S"
    using assms sint_cell_bounds [of "ep_stk p"] by (intro sint_sub_cell) linarith+
  have w: "(scast (ep_stk p - ep_hea p) :: 64 word) - scast c * 4 = word_of_int (?S - 4 * sint c)"
    unfolding scast_eq [of "ep_stk p - ep_hea p"] scast_eq [of c] S by (simp add: mult.commute)
  have m: "(scast STKMARGIN :: 64 word) = 64"
    by (simp add: STKMARGIN_def)
  have t: "word_of_int (?S - 4 * sint c) < (64 :: 64 word) \<longleftrightarrow>
      ?S - 64 < 4 * sint c \<and> 4 * sint c \<le> ?S"
    using assms sint_cell_bounds [of "ep_stk p"] sint_cell_bounds [of c]
    by (subst less_64) (linarith | auto)+
  have u: "ucast (scast (ep_hea p) + scast c * 4 :: 64 word) = ep_hea p + 4 * c"
  proof -
    have s: "(scast (ep_hea p) + scast c * 4 :: 64 word) = word_of_int (sint (ep_hea p) + sint c * 4)"
      unfolding scast_eq [of "ep_hea p"] scast_eq [of c] by simp
    have i: "ucast (word_of_int i :: 64 word) = (word_of_int i :: cell)" for i
      by (rule bit_word_eqI) (simp add: bit_simps)
    show ?thesis unfolding s i by (simp add: mult.commute)
  qed
  show ?thesis
    using assms(1) unfolding embryo_data_heap_push_def Let_def w m t u by auto
qed

text \<open>
  a heap push takes the cells from the gap below the stack exactly if the margin of sixteen
  cells remains, and then returns the old end of the heap; but a request for more than the
  whole gap is also granted, and moves the end of the heap past the stack pointer, since the
  unsigned comparison of the margin wraps around.
\<close>

theorem heap_push_margin:
  assumes "ep_base p \<noteq> None" "0 \<le> sint (ep_hea p)" "sint (ep_hea p) \<le> sint (ep_stk p)" "0 \<le> sint c"
    and gap: "gap = sint (ep_stk p) - sint (ep_hea p)"
  shows "embryo_data_heap_push p c =
    (if 4 * sint c + 64 \<le> gap \<or> gap < 4 * sint c
     then (ep_hea p, p\<lparr>ep_hea := ep_hea p + 4 * c\<rparr>) else (EMBRYO_CELL_NONE, p))"
  unfolding heap_push_cases [OF assms(1-4)] using gap by auto

definition gap100 :: embryo_program where
  "gap100 = calloc_program\<lparr>ep_base := Some [], ep_stk := 100\<rparr>"

lemma gap100: "ep_base gap100 = Some []" "ep_hea gap100 = 0" "ep_stk gap100 = 100"
  by (simp_all add: gap100_def calloc_program_def)

theorem heap_push_margin_witness:
  "embryo_data_heap_push gap100 9 = (0, gap100\<lparr>ep_hea := 36\<rparr>)
   \<and> embryo_data_heap_push gap100 10 = (EMBRYO_CELL_NONE, gap100)
   \<and> embryo_data_heap_push gap100 26 = (0, gap100\<lparr>ep_hea := 104\<rparr>)"
proof (intro conjI)
  show "embryo_data_heap_push gap100 9 = (0, gap100\<lparr>ep_hea := 36\<rparr>)"
    by (subst heap_push_margin [where gap = 100]) (simp_all add: gap100)
  show "embryo_data_heap_push gap100 10 = (EMBRYO_CELL_NONE, gap100)"
    by (subst heap_push_margin [where gap = 100]) (simp_all add: gap100)
  show "embryo_data_heap_push gap100 26 = (0, gap100\<lparr>ep_hea := 104\<rparr>)"
    by (subst heap_push_margin [where gap = 100]) (simp_all add: gap100)
qed

text \<open>
  popping the heap down to the address a push returned undoes the push.
\<close>

theorem heap_pop_push:
  assumes "ep_base p \<noteq> None" "0 \<le> sint (ep_hea p)" "sint (ep_hea p) \<le> sint (ep_stk p)" "0 \<le> sint c"
    and "embryo_data_heap_push p c = (a, q)" "a \<noteq> EMBRYO_CELL_NONE" "sint (ep_hea p) + 4 * sint c < 2147483648"
  shows "embryo_data_heap_pop q a = p"
proof -
  have q: "a = ep_hea p" "q = p\<lparr>ep_hea := ep_hea p + 4 * c\<rparr>"
    using assms(5,6) unfolding heap_push_cases [OF assms(1-4)] by (auto split: if_splits)
  have "sint (ep_hea p + 4 * c) = sint (ep_hea p) + 4 * sint c"
    using assms(2,4,7) sint_of_int_cell [of "sint (ep_hea p) + 4 * sint c"] by simp
  then show ?thesis
    using assms(2,4) by (cases p) (auto simp: embryo_data_heap_pop_def q)
qed

theorem heap_pop_push_witness: "embryo_data_heap_pop (gap100\<lparr>ep_hea := 36\<rparr>) 0 = gap100"
  using heap_pop_push [of gap100 9 0 "gap100\<lparr>ep_hea := 36\<rparr>"] heap_push_cases [of gap100 9]
  by (simp add: gap100 EMBRYO_CELL_NONE_def)

section \<open>Strings\<close>

lemma sint_scast_char: "sint (scast (c :: u8) :: cell) = sint c"
  using sint_greater_eq [of c] sint_lt [of c] sint_of_int_cell [of "sint c"]
  unfolding scast_eq [of c] by simp

lemma scast_char_eq_0 [simp]: "(scast (c :: u8) :: cell) = 0 \<longleftrightarrow> c = 0"
  using sint_eq_0 [of "scast c"] signed_eq_0_iff [of c, where 'a = int] by (simp add: sint_scast_char)

lemma ucast_scast_char [simp]: "ucast (scast (c :: u8) :: cell) = c"
proof -
  have i: "ucast (word_of_int i :: cell) = (word_of_int i :: u8)" for i
    by (rule bit_word_eqI) (simp add: bit_simps)
  show ?thesis unfolding scast_eq [of c] i by simp
qed

lemma hdr_stp_keep:
  assumes "length m' = length m" "\<forall>i. int i < a \<longrightarrow> m' ! i = m ! i" "28 \<le> a"
  shows "hdr_stp m' = hdr_stp m"
proof -
  have "m' ! 24 = m ! 24" "m' ! 25 = m ! 25" "m' ! 26 = m ! 26" "m' ! 27 = m ! 27"
    using assms(2,3) by simp_all
  then show ?thesis using assms(1) by (simp add: hdr_stp_def load32_def in_block_def)
qed

lemma hdr_stp_store:
  assumes "store32 m a v = Some m'" "28 \<le> a"
  shows "hdr_stp m' = hdr_stp m"
  using hdr_stp_keep [OF store_length(3) [OF assms(1)] _ assms(2)] store32_nth [OF assms(1)] by simp

text \<open>The cells of a string with its terminator, as \<^verbatim>\<open>embryo_data_string_set\<close> writes them.\<close>

lemma string_set_loop_stores:
  assumes "hdr_stp m = Some stp" "28 \<le> a" "a + 4 * (int (length s) + 1) \<le> sint stp"
    "sint stp \<le> int (length m)" "0 \<notin> set s"
  shows "\<exists>m'. string_set_loop m a s = Some m' \<and> length m' = length m
    \<and> (\<forall>n > length s. string_cells n m' a = Some (map scast s))
    \<and> (\<forall>i. int i < a \<or> a + 4 * (int (length s) + 1) \<le> int i \<longrightarrow> m' ! i = m ! i)"
  using assms
proof (induction s arbitrary: m a)
  case Nil
  then have "in_block m a 4" by (simp add: in_block_def)
  then obtain m' where m': "store32 m a 0 = Some m'" using store32_defined [of m a 0] by blast
  have "string_cells n m' a = Some []" if "0 < n" for n
    using that store32_load32 [OF m'] by (cases n) simp_all
  then show ?case using m' store_length(3) [OF m'] store32_nth [OF m'] by simp
next
  case (Cons c s)
  have "in_block m a 4" using Cons.prems by (simp add: in_block_def)
  then obtain m1 where m1: "store32 m a (scast c) = Some m1"
    using store32_defined [of m a "scast c"] by blast
  obtain m' where m': "string_set_loop m1 (a + 4) s = Some m'" "length m' = length m1"
    and cells: "\<forall>n > length s. string_cells n m' (a + 4) = Some (map scast s)"
    and keep: "\<forall>i. int i < a + 4 \<or> a + 4 + 4 * (int (length s) + 1) \<le> int i \<longrightarrow> m' ! i = m1 ! i"
    using Cons.IH [of m1 "a + 4"] Cons.prems store_length(3) [OF m1] hdr_stp_store [OF m1] by auto
  have "m' ! (nat a + k) = m1 ! (nat a + k)" if "k < 4" for k
    using keep that Cons.prems(2) by simp
  from this [of 0] this [of 1] this [of 2] this [of 3]
  have "load32 m' a = load32 m1 a" using m'(2) by (simp add: load32_def in_block_def)
  then have "load32 m' a = Some (scast c)" using store32_load32 [OF m1] by simp
  then have "string_cells n m' a = Some (map scast (c # s))" if "length (c # s) < n" for n
    using that cells Cons.prems(5) by (cases n) auto
  moreover have "m' ! i = m ! i" if "int i < a \<or> a + 4 * (int (length (c # s)) + 1) \<le> int i" for i
    using that keep store32_nth [OF m1, of i] by auto
  moreover have "string_set_loop m a (c # s) = Some m'"
    using m1 m'(1) Cons.prems(1,3) by simp
  ultimately show ?case using m'(2) store_length(3) [OF m1] by auto
qed

text \<open>
  C12: string round trip. A string that fits between the cell and the end of the block, with its
  terminator, is stored by \<^verbatim>\<open>embryo_data_string_set\<close> one character per cell, and
  \<^verbatim>\<open>embryo_data_string_get\<close> and \<^verbatim>\<open>embryo_data_string_length_get\<close> give it and its
  length back, for characters with the sign bit set as well.
\<close>

theorem string_set_get:
  assumes "ep_base p = Some m" "hdr_stp m = Some stp" "sint stp \<le> int (length m)" "28 \<le> a"
    and "a + 4 * (int (length s) + 1) \<le> sint stp" "0 \<notin> set s"
  shows "\<exists>q. embryo_data_string_set p (Some s) (Some a) = Some q
    \<and> embryo_data_string_get q (Some a) = Some s
    \<and> embryo_data_string_length_get q (Some a) = Some (int (length s))"
proof -
  obtain m' where m': "string_set_loop m a s = Some m'" "length m' = length m"
    and cells: "\<forall>n > length s. string_cells n m' a = Some (map scast s)"
    and keep: "\<forall>i. int i < a \<or> a + 4 * (int (length s) + 1) \<le> int i \<longrightarrow> m' ! i = m ! i"
    using string_set_loop_stores [of m stp a s] assms by auto
  have stp: "hdr_stp m' = Some stp"
    using hdr_stp_keep [OF m'(2) _ assms(4)] keep assms(2) by simp
  have "string_at m' a = Some (map scast s)"
    using cells m'(2) assms(3,4,5) by (simp add: string_at_def del: string_cells.simps)
  then show ?thesis
    using assms m' stp
    by (simp add: embryo_data_string_set_def embryo_data_string_get_def comp_def
        embryo_data_string_length_get_def str_cell_rejected_def map_idI)
qed

text \<open>
  A string that exactly fills the rest of the block: the terminator goes past the end, because
  the loop stops on the string before it looks at the space again.
\<close>

lemma string_set_loop_exact:
  assumes "hdr_stp m = Some stp" "sint stp = int (length m)" "28 \<le> a"
    "a + 4 * int (length s) = int (length m)"
  shows "string_set_loop m a s = None"
  using assms
proof (induction s arbitrary: m a)
  case Nil
  then show ?case by (simp add: store32_def in_block_def)
next
  case (Cons c s)
  have "string_set_loop m1 (a + 4) s = None" if "store32 m a (scast c) = Some m1" for m1
    using Cons.IH [of m1 "a + 4"] Cons.prems store_length(3) [OF that] hdr_stp_store [OF that] by simp
  with Cons.prems show ?case by (cases "store32 m a (scast c)") auto
qed

text \<open>A block of sixty bytes whose header says so.\<close>

definition block60 :: mem where
  "block60 = replicate 24 0 @ [60, 0, 0, 0] @ replicate 32 0"

lemma block60_stp: "hdr_stp block60 = Some 60"
  unfolding block60_def by code_simp

theorem string_set_get_witness:
  "\<exists>q. embryo_data_string_set (calloc_program\<lparr>ep_base := Some block60\<rparr>) (Some [72, 233]) (Some 40) = Some q
    \<and> embryo_data_string_get q (Some 40) = Some [72, 233]"
  using string_set_get [of "calloc_program\<lparr>ep_base := Some block60\<rparr>" block60 60 40 "[72, 233]"]
    block60_stp
  by (auto simp: block60_def)

text \<open>
  C15: the space that \<^verbatim>\<open>embryo_data_string_set\<close> accepts is one cell too much: a string that
  starts behind the header's \<^verbatim>\<open>stp\<close> and whose characters fill the block up to its very end is
  written in full and its terminator lands behind the block, an access the model does not
  define.
\<close>

theorem string_set_overruns:
  assumes "ep_base p = Some m" "hdr_stp m = Some stp" "sint stp = int (length m)" "28 \<le> a"
    "a < sint stp" "a + 4 * int (length s) = int (length m)"
  shows "embryo_data_string_set p (Some s) (Some a) = None"
  using assms string_set_loop_exact [of m stp a s]
  by (simp add: embryo_data_string_set_def str_cell_rejected_def)

theorem string_set_overruns_witness:
  "embryo_data_string_set (calloc_program\<lparr>ep_base := Some block60\<rparr>) (Some [72, 105]) (Some 52) = None"
  by (rule string_set_overruns [of _ block60 60]) (simp_all add: block60_stp, simp_all add: block60_def)

section \<open>Reset\<close>

lemma store_bytes_nth:
  assumes "store_bytes m 0 bs = Some m'"
  shows "length m' = length m" "m' ! i = (if i < length bs then bs ! i else m ! i)"
  using assms by (auto simp: store_bytes_def in_block_def nth_append split: if_splits)

text \<open>
  The header of the block after a reset is that of the code, and the registers describe the
  block: the stack is empty at its top, the heap is empty above the data.
\<close>

definition loaded_ok :: "mem \<Rightarrow> bool" where
  "loaded_ok c \<longleftrightarrow>
     (case (hdr_size c, hdr_dat c, hdr_hea c, hdr_stp c) of
        (Some sz, Some dat, Some hh, Some stp) \<Rightarrow>
          56 \<le> uint sz \<and> uint sz \<le> int (length c) \<and> uint sz \<le> sint stp \<and> 60 \<le> sint stp
          \<and> 0 \<le> sint dat \<and> sint dat \<le> sint hh \<and> sint hh + 4 \<le> sint stp
      | _ \<Rightarrow> False)"

lemma store32_zero_nth:
  "store32 m a 0 = Some m' \<Longrightarrow> a \<le> int i \<Longrightarrow> int i < a + 4 \<Longrightarrow> m' ! i = 0"
  by (auto simp: store32_def in_block_def nth_list_update byte_of_cell_def split: if_splits)

text \<open>
  C13: the reset of the memory block prepares a run, whatever an earlier run left in it. From an
  accepted image whose segments are in order, every byte of the block is determined: the top
  cell is zero, below it the first \<^verbatim>\<open>hdr->size\<close> bytes, the header, the code and the initial
  values of the globals, are those of the program's code, and only what lies behind them keeps
  its bytes. The stack is empty under the zero cell, the heap is empty above the data, and the
  program keeps its code.
\<close>

theorem vm_reset_ready:
  assumes "ep_base p = Some base" "loaded_ok (ep_code p)" "hdr_stp (ep_code p) = Some stp"
    "int (length base) = sint stp" "hdr_dat (ep_code p) = Some dat" "hdr_hea (ep_code p) = Some hh"
    "hdr_size (ep_code p) = Some sz"
  shows "\<exists>m q. embryo_program_vm_reset p = Some q \<and> ep_base q = Some m \<and> length m = length base
    \<and> (\<forall>i < length m. m ! i = (if sint stp - 4 \<le> int i then 0
                              else if i < unat sz then ep_code p ! i else base ! i))
    \<and> sint (ep_stp q) = sint stp - sint dat - 4 \<and> ep_stk q = ep_stp q
    \<and> sint (ep_hea q) = sint hh - sint dat \<and> ep_hlw q = ep_hea q
    \<and> load32 m (sint dat + sint (ep_stp q)) = Some 0 \<and> ep_code q = ep_code p"
proof -
  let ?c = "ep_code p"
  from assms(2,3,5-7) have h: "hdr_size ?c = Some sz" "56 \<le> uint sz"
      "uint sz \<le> int (length ?c)" "uint sz \<le> sint stp" "60 \<le> sint stp"
      "0 \<le> sint dat" "sint dat \<le> sint hh" "sint hh + 4 \<le> sint stp"
    by (auto simp: loaded_ok_def split: option.splits)
  have u: "int (unat sz) = uint sz" by simp
  have le: "length (take (unat sz) ?c) = unat sz"
  proof -
    have "unat sz \<le> length ?c" using h(3) u by linarith
    then show ?thesis by simp
  qed
  have img: "load_bytes ?c 0 (unat sz) = Some (take (unat sz) ?c)"
    using h u by (simp add: load_bytes_def in_block_def)
  have "in_block base 0 (length (take (unat sz) ?c))"
    unfolding le using h assms(4) u by (simp add: in_block_def)
  then obtain m1 where m1: "store_bytes base 0 (take (unat sz) ?c) = Some m1"
    by (simp add: store_bytes_def)
  have "in_block m1 (sint stp - 4) 4"
    using h assms(4) store_bytes_nth(1) [OF m1] by (simp add: in_block_def)
  then obtain m2 where m2: "store32 m1 (sint stp - 4) 0 = Some m2"
    using store32_defined [of m1 "sint stp - 4" 0] by blast
  let ?q = "p\<lparr>ep_base := Some m2, ep_hlw := hh - dat, ep_stp := stp - dat - 4,
      ep_hea := hh - dat, ep_stk := stp - dat - 4\<rparr>"
  have d: "sint (stp - dat) = sint stp - sint dat" "sint (hh - dat) = sint hh - sint dat"
    using h sint_cell_bounds [of stp] sint_cell_bounds [of hh] by (intro sint_sub_cell; linarith)+
  then have d4: "sint (stp - dat - 4) = sint stp - sint dat - 4"
    using sint_sub_cell [of "stp - dat" 4] h sint_cell_bounds [of stp] by simp
  have "m2 ! i = (if sint stp - 4 \<le> int i then 0 else if i < unat sz then ?c ! i else base ! i)"
    if i: "i < length m2" for i
  proof (cases "sint stp - 4 \<le> int i")
    case True
    then show ?thesis
      using store32_zero_nth [OF m2, of i] i store_length(3) [OF m2] store_bytes_nth(1) [OF m1] assms(4)
      by simp
  next
    case False
    then show ?thesis
      using store32_nth [OF m2, of i] store_bytes_nth(2) [OF m1, of i, unfolded le] by simp
  qed
  moreover have "embryo_program_vm_reset p = Some ?q"
    using assms h(1) img m1 m2 by (simp add: embryo_program_vm_reset_def)
  moreover have "load32 m2 (sint dat + (sint stp - sint dat - 4)) = Some 0"
    using store32_load32 [OF m2] by simp
  ultimately show ?thesis
    using d d4 store_bytes_nth(1) [OF m1] store_length(3) [OF m2]
    by (intro exI [of _ m2] exI [of _ ?q]) simp
qed

definition image60 :: mem where
  "image60 = cells_bytes [60, 0, 0, 56, 56, 56, 100, 0, 0, 0, 0, 0, 0, 0, 5]"

theorem vm_reset_ready_witness:
  "\<exists>m q. embryo_program_vm_reset (calloc_program\<lparr>ep_base := Some (replicate 100 1), ep_code := image60\<rparr>) = Some q
    \<and> ep_base q = Some m \<and> length m = 100 \<and> m ! 56 = 5 \<and> m ! 70 = 1 \<and> m ! 96 = 0 \<and> sint (ep_stp q) = 40"
proof -
  have h: "hdr_size image60 = Some 60" "hdr_dat image60 = Some 56" "hdr_hea image60 = Some 56"
    "hdr_stp image60 = Some 100"
    unfolding image60_def by code_simp+
  have "length image60 = 60" by (simp add: image60_def cells_bytes_def)
  then obtain m q where q: "embryo_program_vm_reset
        (calloc_program\<lparr>ep_base := Some (replicate 100 1), ep_code := image60\<rparr>) = Some q"
      "ep_base q = Some m" "length m = 100" "sint (ep_stp q) = 40"
    and bytes: "\<forall>i < 100. m ! i = (if 96 \<le> int i then 0 else if i < 60 then image60 ! i
        else replicate 100 1 ! i)"
    using vm_reset_ready [of "calloc_program\<lparr>ep_base := Some (replicate 100 1), ep_code := image60\<rparr>"
        "replicate 100 1" 100 56 56 60] h
    by (auto simp: loaded_ok_def)
  have "image60 ! 56 = 5" unfolding image60_def by code_simp
  with bytes have "m ! 56 = 5" "m ! 70 = 1" "m ! 96 = 0" by simp_all
  with q show ?thesis by blast
qed

end
