(* ===== verification/Embryo_Load.thy ===== *)
theory Embryo_Load
  imports Embryo_Data
begin

text \<open>
  The rest of the interface of \<^verbatim>\<open>src/src/lib/embryo/embryo_amx.c\<close>: loading a program from a
  constant block and from a file, releasing it, the fields a program may read and set, and the
  messages of the errors.
\<close>

section \<open>Loading\<close>

text \<open>\<open>ok\<close> is the success of the allocations. The code block is that of the caller.\<close>

definition embryo_program_const_new :: "bool \<Rightarrow> mem \<Rightarrow> int \<Rightarrow> embryo_program option option" where
  "embryo_program_const_new ok data sz =
     (if sz < int sizeof_Embryo_Header \<or> \<not> ok then Some None
      else do { (accepted, p) \<leftarrow> embryo_program_init ok calloc_program data;
                Some (if accepted then Some p else None) })"

text \<open>
  A file is its bytes, \<open>None\<close> when it cannot be opened. The header says how much of it is the
  program; \<^verbatim>\<open>malloc\<close> fails for a negative size and \<^verbatim>\<open>fread\<close> for an empty one.
\<close>

definition embryo_program_load :: "bool \<Rightarrow> u8 list option \<Rightarrow> embryo_program option option" where
  "embryo_program_load ok file =
     (case file of None \<Rightarrow> Some None
      | Some bytes \<Rightarrow>
          let program_size = sint (of_nat (length bytes) :: 32 word) in
          if program_size < int sizeof_Embryo_Header then Some None
          else do { hsize \<leftarrow> hdr_size bytes;
                    let sz = (if sint hsize < program_size then sint hsize else program_size) in
                    if sz \<le> 0 \<or> \<not> ok then Some None
                    else embryo_program_new ok (take (nat sz) bytes) sz })"

section \<open>Releasing\<close>

text \<open>The blocks \<^verbatim>\<open>embryo_program_free\<close> gives back, in its order; \<open>dont_free_code\<close> is the field.\<close>

datatype ep_block =
    Block_base | Block_code | Block_native_calls | Block_string nat | Block_cells nat | Block_params | Block_program

definition param_block :: "nat \<Rightarrow> embryo_param \<Rightarrow> ep_block list" where
  "param_block i pr =
     (case pr of Param_string s \<Rightarrow> [Block_string i] | Param_array cs \<Rightarrow> [Block_cells i] | Param_cell c \<Rightarrow> [])"

definition embryo_program_free :: "bool \<Rightarrow> embryo_program \<Rightarrow> ep_block list" where
  "embryo_program_free dont_free_code p =
     (if ep_base p \<noteq> None then [Block_base] else [])
     @ (if \<not> dont_free_code then [Block_code] else [])
     @ (if 0 < ep_native_calls_alloc p then [Block_native_calls] else [])
     @ concat (map (\<lambda>i. param_block i (ep_params p ! i)) [0..<ep_params_size p])
     @ (if 0 < ep_params_alloc p then [Block_params] else [])
     @ [Block_program]"

section \<open>Fields\<close>

definition embryo_program_error_set :: "embryo_program \<Rightarrow> int \<Rightarrow> embryo_program" where
  "embryo_program_error_set p error = p\<lparr>ep_error := error\<rparr>"

definition embryo_program_error_get :: "embryo_program \<Rightarrow> int" where
  "embryo_program_error_get p = ep_error p"

definition embryo_program_data_set :: "embryo_program \<Rightarrow> nat \<Rightarrow> embryo_program" where
  "embryo_program_data_set p data = p\<lparr>ep_data := data\<rparr>"

definition embryo_program_data_get :: "embryo_program \<Rightarrow> nat" where
  "embryo_program_data_get p = ep_data p"

definition embryo_program_recursion_get :: "embryo_program \<Rightarrow> int" where
  "embryo_program_recursion_get p = ep_run_count p"

definition embryo_program_return_value_get :: "embryo_program \<Rightarrow> cell" where
  "embryo_program_return_value_get p = ep_retval p"

definition embryo_program_max_cycle_run_get :: "embryo_program \<Rightarrow> int" where
  "embryo_program_max_cycle_run_get p = ep_max_run_cycles p"

text \<open>On a little-endian machine the two swaps do nothing.\<close>

definition embryo_swap_16 :: "u16 \<Rightarrow> u16" where "embryo_swap_16 v = v"
definition embryo_swap_32 :: "u32 \<Rightarrow> u32" where "embryo_swap_32 v = v"

section \<open>Messages\<close>

definition error_messages :: "string list" where
  "error_messages =
     [''(none)'', ''Forced exit'', ''Assertion failed'',
      ''Stack/heap collision (insufficient stack size)'', ''Array index out of bounds'',
      ''Invalid memory access'', ''Invalid instruction'', ''Stack underflow'', ''Heap underflow'',
      ''No (valid) native function callback'', ''Native function failed'', ''Divide by zero'',
      ''(sleep mode)'', ''(reserved)'', ''(reserved)'', ''(reserved)'', ''Out of memory'',
      ''Invalid/unsupported P-code file format'', ''File is for a newer version of the Embryo_Program'',
      ''Native/Public function is not found'', ''Invalid index parameter (bad entry point)'',
      ''Debugger cannot run'', ''Embryo_Program not initialized (or doubly initialized)'',
      ''Unable to set user data field (table full)'', ''Cannot initialize the JIT'', ''Parameter error'']"

definition embryo_error_string_get :: "int \<Rightarrow> string" where
  "embryo_error_string_get error =
     (if error < 0 \<or> int (length error_messages) \<le> error then ''(unknown)'' else error_messages ! nat error)"

text \<open>The errors of the machine have the messages of their names.\<close>

lemma error_messages_match:
  "embryo_error_string_get EMBRYO_ERROR_NONE = ''(none)''"
  "embryo_error_string_get EMBRYO_ERROR_STACKERR = ''Stack/heap collision (insufficient stack size)''"
  "embryo_error_string_get EMBRYO_ERROR_BOUNDS = ''Array index out of bounds''"
  "embryo_error_string_get EMBRYO_ERROR_MEMACCESS = ''Invalid memory access''"
  "embryo_error_string_get EMBRYO_ERROR_INVINSTR = ''Invalid instruction''"
  "embryo_error_string_get EMBRYO_ERROR_STACKLOW = ''Stack underflow''"
  "embryo_error_string_get EMBRYO_ERROR_HEAPLOW = ''Heap underflow''"
  "embryo_error_string_get EMBRYO_ERROR_CALLBACK = ''No (valid) native function callback''"
  "embryo_error_string_get EMBRYO_ERROR_DIVIDE = ''Divide by zero''"
  "embryo_error_string_get EMBRYO_ERROR_SLEEP = ''(sleep mode)''"
  "embryo_error_string_get EMBRYO_ERROR_INDEX = ''Invalid index parameter (bad entry point)''"
  "embryo_error_string_get EMBRYO_ERROR_INIT = ''Embryo_Program not initialized (or doubly initialized)''"
  by (simp_all add: embryo_errors embryo_error_string_get_def error_messages_def)

section \<open>Facts on loading and releasing\<close>

text \<open>Bytes behind the program in a file do not matter.\<close>

lemma load_ignores_trailing:
  assumes "hdr_size img = Some sz" "sint sz = int (length img)" "56 \<le> length img"
    "length img + length rest < 2147483648"
  shows "embryo_program_load True (Some (img @ rest)) = embryo_program_new True img (int (length img))"
proof -
  have "sint (of_nat (length img + length rest) :: 32 word) = int (length img + length rest)"
    using assms(4) sint_of_int_cell [of "int (length img + length rest)"] by simp
  moreover have "hdr_size (img @ rest) = Some sz"
  proof -
    have "(img @ rest) ! i = img ! i" if "i < 4" for i using assms(3) that by (simp add: nth_append)
    from this [of 0] this [of 1] this [of "Suc (Suc 0)"] this [of 3] show ?thesis
      using assms(1,3) by (simp add: hdr_size_def load32_def in_block_def)
  qed
  moreover have "img \<noteq> []" using assms(3) by auto
  ultimately show ?thesis
    using assms(2,3)
    by (cases "rest = []") (simp_all add: embryo_program_load_def sizeof_Embryo_Header_def Let_def)
qed

text \<open>No block is released twice.\<close>

lemma param_blocks_distinct: "distinct (concat (map (\<lambda>i. param_block i (f i)) [0..<n]))"
  by (induction n) (auto simp: param_block_def split: embryo_param.splits)

lemma free_distinct: "distinct (embryo_program_free d p)"
proof -
  have "set (concat (map (\<lambda>i. param_block i (ep_params p ! i)) [0..<ep_params_size p]))
      \<inter> {Block_base, Block_code, Block_native_calls, Block_params, Block_program} = {}"
    by (auto simp: param_block_def split: embryo_param.splits)
  then show ?thesis
    using param_blocks_distinct [of "\<lambda>i. ep_params p ! i" "ep_params_size p"]
    by (auto simp: embryo_program_free_def disjoint_iff)
qed

end
