(* ===== verification/Embryo_Natives.thy ===== *)
theory Embryo_Natives
  imports Embryo_Data Embryo_Resume
begin

text \<open>
  The native functions every program gets (\<^verbatim>\<open>src/src/lib/embryo/embryo_args.c\<close> and
  \<^verbatim>\<open>embryo_str.c\<close>). A native gets the record of the program and the address of its
  parameters in the memory block: first their size in bytes, then the cells. Strings are copied
  out of the block into buffers on the C stack, worked on there and copied back; \<open>stack\<close> is
  what fresh stack memory holds, and \<^verbatim>\<open>alloca\<close> is taken to succeed. \<open>None\<close> is an
  access outside the block or outside a buffer.
\<close>

type_synonym native = "embryo_program \<Rightarrow> int \<Rightarrow> (cell \<times> embryo_program) option"

section \<open>Parameters and strings\<close>

definition param :: "embryo_program \<Rightarrow> int \<Rightarrow> nat \<Rightarrow> cell option" where
  "param p params k = do { m \<leftarrow> ep_base p; load32 m (params + 4 * int k) }"

definition param_set :: "embryo_program \<Rightarrow> int \<Rightarrow> nat \<Rightarrow> cell \<Rightarrow> embryo_program option" where
  "param_set p params k v =
     do { m \<leftarrow> ep_base p; m \<leftarrow> store32 m (params + 4 * int k) v; Some (p\<lparr>ep_base := Some m\<rparr>) }"

text \<open>\<^verbatim>\<open>if (params[k] < 0) params[k] = 0;\<close>\<close>

definition param_clamp :: "embryo_program \<Rightarrow> int \<Rightarrow> nat \<Rightarrow> (cell \<times> embryo_program) option" where
  "param_clamp p params k =
     do { v \<leftarrow> param p params k;
          if sint v < 0 then do { p \<leftarrow> param_set p params k 0; Some (0, p) } else Some (v, p) }"

text \<open>
  \<^verbatim>\<open>STRGET\<close>: a null pointer, the inner \<open>None\<close>, when the address is rejected, else the C
  string in the copy, which a character that is zero as \<^verbatim>\<open>char\<close> ends.
\<close>

definition STRGET :: "embryo_program \<Rightarrow> cell \<Rightarrow> u8 list option option" where
  "STRGET p par =
     do { c \<leftarrow> embryo_data_address_get p par;
          (case c of None \<Rightarrow> Some None
           | Some a \<Rightarrow> map_option (\<lambda>s. Some (takeWhile (\<lambda>c. c \<noteq> 0) s)) (embryo_data_string_get p (Some a))) }"

definition STRSET :: "embryo_program \<Rightarrow> cell \<Rightarrow> u8 list \<Rightarrow> embryo_program option" where
  "STRSET p par str =
     do { c \<leftarrow> embryo_data_address_get p par;
          (case c of None \<Rightarrow> Some p | Some a \<Rightarrow> embryo_data_string_set p (Some str) (Some a)) }"

section \<open>The string functions of C on buffers\<close>

definition stack_alloc :: "(nat \<Rightarrow> u8) \<Rightarrow> nat \<Rightarrow> u8 list" where
  "stack_alloc stack n = map stack [0..<n]"

definition buf_write :: "u8 list \<Rightarrow> nat \<Rightarrow> u8 list \<Rightarrow> u8 list option" where
  "buf_write buf i bs =
     (if i + length bs \<le> length buf then Some (take i buf @ bs @ drop (i + length bs) buf) else None)"

definition c_strcpy :: "u8 list \<Rightarrow> nat \<Rightarrow> u8 list \<Rightarrow> u8 list option" where
  "c_strcpy buf i s = buf_write buf i (s @ [0])"

text \<open>\<^verbatim>\<open>strncpy\<close> writes exactly \<open>n\<close> bytes, zeros after a shorter string.\<close>

definition c_strncpy :: "u8 list \<Rightarrow> u8 list \<Rightarrow> nat \<Rightarrow> u8 list option" where
  "c_strncpy buf s n = buf_write buf 0 (take n s @ replicate (n - length s) 0)"

definition c_strcat :: "u8 list \<Rightarrow> u8 list \<Rightarrow> u8 list option" where
  "c_strcat buf s = do { d \<leftarrow> take_cstring buf; c_strcpy buf (length d) s }"

definition c_strncat :: "u8 list \<Rightarrow> u8 list \<Rightarrow> nat \<Rightarrow> u8 list option" where
  "c_strncat buf s n = do { d \<leftarrow> take_cstring buf; c_strcpy buf (length d) (take n s) }"

fun c_strncmp :: "u8 list \<Rightarrow> u8 list \<Rightarrow> nat \<Rightarrow> int" where
  "c_strncmp s t 0 = 0"
| "c_strncmp [] [] (Suc n) = 0"
| "c_strncmp [] (b # t) (Suc n) = -1"
| "c_strncmp (a # s) [] (Suc n) = 1"
| "c_strncmp (a # s) (b # t) (Suc n) = (if a < b then -1 else if b < a then 1 else c_strncmp s t n)"

fun c_prefix :: "u8 list \<Rightarrow> u8 list \<Rightarrow> bool" where
  "c_prefix [] s = True"
| "c_prefix (a # t) [] = False"
| "c_prefix (a # t) (b # s) = (a = b \<and> c_prefix t s)"

text \<open>The position \<^verbatim>\<open>strstr\<close> finds.\<close>

fun c_strstr :: "u8 list \<Rightarrow> u8 list \<Rightarrow> nat option" where
  "c_strstr [] ndl = (if ndl = [] then Some 0 else None)"
| "c_strstr (a # s) ndl = (if c_prefix ndl (a # s) then Some 0 else map_option Suc (c_strstr s ndl))"

text \<open>\<^verbatim>\<open>strchr\<close> and \<^verbatim>\<open>strrchr\<close>: the terminator counts as a character of the string.\<close>

fun c_strchr :: "u8 list \<Rightarrow> u8 \<Rightarrow> nat option" where
  "c_strchr [] c = (if c = 0 then Some 0 else None)"
| "c_strchr (a # s) c = (if a = c then Some 0 else map_option Suc (c_strchr s c))"

fun c_strrchr :: "u8 list \<Rightarrow> u8 \<Rightarrow> nat option" where
  "c_strrchr [] c = (if c = 0 then Some 0 else None)"
| "c_strrchr (a # s) c =
     (case c_strrchr s c of Some k \<Rightarrow> Some (Suc k) | None \<Rightarrow> if a = c then Some 0 else None)"

definition first_char :: "u8 list \<Rightarrow> u8" where
  "first_char s = (case s of [] \<Rightarrow> 0 | c # _ \<Rightarrow> c)"

text \<open>\<^verbatim>\<open>atoi\<close>: undefined when the value is not an \<^verbatim>\<open>int\<close>.\<close>

definition c_isspace :: "u8 \<Rightarrow> bool" where
  "c_isspace c \<longleftrightarrow> c = 32 \<or> 9 \<le> c \<and> c \<le> 13"

definition c_isdigit :: "u8 \<Rightarrow> bool" where
  "c_isdigit c \<longleftrightarrow> 48 \<le> c \<and> c \<le> 57"

definition digits_value :: "u8 list \<Rightarrow> int" where
  "digits_value ds = foldl (\<lambda>v d. 10 * v + (uint d - 48)) 0 (takeWhile c_isdigit ds)"

definition c_atoi :: "u8 list \<Rightarrow> cell option" where
  "c_atoi s =
     (let v = (case dropWhile c_isspace s of
                 [] \<Rightarrow> 0
               | c # t \<Rightarrow> if c = 45 then - digits_value t
                         else if c = 43 then digits_value t else digits_value (c # t))
      in if - 2147483648 \<le> v \<and> v < 2147483648 then Some (of_int v) else None)"

section \<open>Arguments of the calling function\<close>

definition embryo_args_numargs :: native where
  "embryo_args_numargs p params =
     do { m \<leftarrow> ep_base p; dat \<leftarrow> hdr_dat m;
          bytes \<leftarrow> load32 m (sint dat + sint (ep_frm p) + 8);
          Some (ucast ((scast bytes :: 64 word) div 4), p) }"

text \<open>The cell of the frame that holds argument number \<open>k\<close>.\<close>

definition frame_arg :: "embryo_program \<Rightarrow> cell \<Rightarrow> cell option" where
  "frame_arg p k =
     do { m \<leftarrow> ep_base p; dat \<leftarrow> hdr_dat m; load32 m (sint dat + sint (ep_frm p) + sint (k + 3) * 4) }"

definition embryo_args_getarg :: native where
  "embryo_args_getarg p params =
     do { n \<leftarrow> param p params 0;
          if n \<noteq> 8 then Some (0, p)
          else do { p1 \<leftarrow> param p params 1; val \<leftarrow> frame_arg p p1; p2 \<leftarrow> param p params 2;
                    let val = val + p2 * 4 in
                    do { m \<leftarrow> ep_base p; dat \<leftarrow> hdr_dat m; v \<leftarrow> load32 m (sint dat + sint val); Some (v, p) } } }"

definition embryo_args_setarg :: native where
  "embryo_args_setarg p params =
     do { n \<leftarrow> param p params 0;
          if n \<noteq> 12 then Some (0, p)
          else do { p1 \<leftarrow> param p params 1; val \<leftarrow> frame_arg p p1; p2 \<leftarrow> param p params 2;
                    let val = val + p2 * 4 in
                    if sint val < 0 \<or> (sint (ep_hea p) \<le> sint val \<and> sint val < sint (ep_stk p)) then Some (0, p)
                    else do { p3 \<leftarrow> param p params 3; m \<leftarrow> ep_base p; dat \<leftarrow> hdr_dat m;
                              m \<leftarrow> store32 m (sint dat + sint val) p3; Some (1, p\<lparr>ep_base := Some m\<rparr>) } } }"

text \<open>The loop of \<^verbatim>\<open>getsarg\<close>: at most \<open>n\<close> characters, up to a zero one.\<close>

fun getsarg_loop :: "mem \<Rightarrow> int \<Rightarrow> cell \<Rightarrow> nat \<Rightarrow> u8 list option" where
  "getsarg_loop m data off 0 = Some []"
| "getsarg_loop m data off (Suc n) =
     do { v \<leftarrow> load32 m (data + sint off);
          if (ucast v :: u8) = 0 then Some [0]
          else map_option ((#) (ucast v)) (getsarg_loop m data (off + 4) n) }"

definition embryo_args_getsarg :: native where
  "embryo_args_getsarg p params =
     do { n \<leftarrow> param p params 0;
          if n \<noteq> 12 then Some (0, p)
          else do { p3 \<leftarrow> param p params 3;
            if sint p3 \<le> 0 then Some (0, p)
            else do { p1 \<leftarrow> param p params 1; base_cell \<leftarrow> frame_arg p p1;
                      m \<leftarrow> ep_base p; dat \<leftarrow> hdr_dat m;
                      s \<leftarrow> getsarg_loop m (sint dat) base_cell (nat (sint p3));
                      p2 \<leftarrow> param p params 2; p \<leftarrow> STRSET p p2 (butlast s);
                      Some (of_nat (length s - 1), p) } } }"

section \<open>Strings\<close>

definition embryo_str_atoi :: native where
  "embryo_str_atoi p params =
     do { n \<leftarrow> param p params 0;
          if n \<noteq> 4 then Some (0, p)
          else do { p1 \<leftarrow> param p params 1; s1 \<leftarrow> STRGET p p1;
                    (case s1 of None \<Rightarrow> Some (0, p) | Some s1 \<Rightarrow> do { v \<leftarrow> c_atoi s1; Some (v, p) }) } }"

text \<open>The parameters number \<open>i\<close> and \<open>j\<close> as two strings, for the functions that take two.\<close>

definition two_strings :: "embryo_program \<Rightarrow> int \<Rightarrow> nat \<Rightarrow> nat \<Rightarrow> (u8 list \<times> u8 list) option option" where
  "two_strings p params i j =
     do { pi \<leftarrow> param p params i; s1 \<leftarrow> STRGET p pi; pj \<leftarrow> param p params j; s2 \<leftarrow> STRGET p pj;
          Some (case (s1, s2) of (Some s1, Some s2) \<Rightarrow> Some (s1, s2) | _ \<Rightarrow> None) }"

text \<open>\<^verbatim>\<open>fnmatch\<close> of the C library is the argument \<open>fnm\<close>.\<close>

definition embryo_str_fnmatch :: "(u8 list \<Rightarrow> u8 list \<Rightarrow> cell) \<Rightarrow> native" where
  "embryo_str_fnmatch fnm p params =
     do { n \<leftarrow> param p params 0;
          if n \<noteq> 8 then Some (0, p)
          else do { ss \<leftarrow> two_strings p params 1 2;
                    (case ss of None \<Rightarrow> Some (-1, p) | Some (s1, s2) \<Rightarrow> Some (fnm s1 s2, p)) } }"

definition embryo_str_strcmp :: native where
  "embryo_str_strcmp p params =
     do { n \<leftarrow> param p params 0;
          if n \<noteq> 8 then Some (-1, p)
          else do { ss \<leftarrow> two_strings p params 1 2;
                    (case ss of None \<Rightarrow> Some (-1, p) | Some (s1, s2) \<Rightarrow> Some (of_int (strcmp s1 s2), p)) } }"

definition embryo_str_strncmp :: native where
  "embryo_str_strncmp p params =
     do { n \<leftarrow> param p params 0;
          if n \<noteq> 12 then Some (0, p)
          else do { (p3, p) \<leftarrow> param_clamp p params 3;
                    ss \<leftarrow> two_strings p params 1 2;
                    (case ss of None \<Rightarrow> Some (-1, p)
                     | Some (s1, s2) \<Rightarrow> Some (of_int (c_strncmp s1 s2 (unat p3)), p)) } }"

definition embryo_str_strcpy :: native where
  "embryo_str_strcpy p params =
     do { n \<leftarrow> param p params 0;
          if n \<noteq> 8 then Some (0, p)
          else do { p2 \<leftarrow> param p params 2; s1 \<leftarrow> STRGET p p2;
                    (case s1 of None \<Rightarrow> Some (0, p)
                     | Some s1 \<Rightarrow> do { p1 \<leftarrow> param p params 1; p \<leftarrow> STRSET p p1 s1; Some (0, p) }) } }"

definition embryo_str_strncpy :: native where
  "embryo_str_strncpy p params =
     do { n \<leftarrow> param p params 0;
          if n \<noteq> 12 then Some (0, p)
          else do { (p3, p) \<leftarrow> param_clamp p params 3;
                    p2 \<leftarrow> param p params 2; s1 \<leftarrow> STRGET p p2;
                    (case s1 of None \<Rightarrow> Some (0, p)
                     | Some s1 \<Rightarrow>
                         let s1 = (if unat p3 < length s1 then take (unat p3) s1 else s1)
                         in do { p1 \<leftarrow> param p params 1; p \<leftarrow> STRSET p p1 s1; Some (0, p) }) } }"

definition embryo_str_strlen :: native where
  "embryo_str_strlen p params =
     do { n \<leftarrow> param p params 0;
          if n \<noteq> 4 then Some (0, p)
          else do { p1 \<leftarrow> param p params 1; s1 \<leftarrow> STRGET p p1;
                    (case s1 of None \<Rightarrow> Some (0, p) | Some s1 \<Rightarrow> Some (of_nat (length s1), p)) } }"

text \<open>The end of the functions that build a string in \<^verbatim>\<open>s3\<close>: it becomes the first parameter.\<close>

definition set_first :: "embryo_program \<Rightarrow> int \<Rightarrow> u8 list \<Rightarrow> (cell \<times> embryo_program) option" where
  "set_first p params s3 =
     do { str \<leftarrow> take_cstring s3; p1 \<leftarrow> param p params 1; p \<leftarrow> STRSET p p1 str; Some (0, p) }"

definition embryo_str_strcat :: "(nat \<Rightarrow> u8) \<Rightarrow> native" where
  "embryo_str_strcat stack p params =
     do { n \<leftarrow> param p params 0;
          if n \<noteq> 8 then Some (0, p)
          else do { ss \<leftarrow> two_strings p params 1 2;
                    (case ss of None \<Rightarrow> Some (0, p)
                     | Some (s1, s2) \<Rightarrow>
                         do { s3 \<leftarrow> c_strcpy (stack_alloc stack (length s1 + length s2 + 1)) 0 s1;
                              s3 \<leftarrow> c_strcat s3 s2; set_first p params s3 }) } }"

definition embryo_str_strncat :: "(nat \<Rightarrow> u8) \<Rightarrow> native" where
  "embryo_str_strncat stack p params =
     do { n \<leftarrow> param p params 0;
          if n \<noteq> 12 then Some (0, p)
          else do { (p3, p) \<leftarrow> param_clamp p params 3;
                    ss \<leftarrow> two_strings p params 1 2;
                    (case ss of None \<Rightarrow> Some (0, p)
                     | Some (s1, s2) \<Rightarrow>
                         do { s3 \<leftarrow> c_strcpy (stack_alloc stack (length s1 + length s2 + 1)) 0 s1;
                              s3 \<leftarrow> c_strncat s3 s2 (unat p3);
                              s3 \<leftarrow> (if unat p3 \<le> length s2 then buf_write s3 (length s1 + unat p3) [0] else Some s3);
                              set_first p params s3 }) } }"

definition embryo_str_strprep :: "(nat \<Rightarrow> u8) \<Rightarrow> native" where
  "embryo_str_strprep stack p params =
     do { n \<leftarrow> param p params 0;
          if n \<noteq> 8 then Some (0, p)
          else do { ss \<leftarrow> two_strings p params 1 2;
                    (case ss of None \<Rightarrow> Some (0, p)
                     | Some (s1, s2) \<Rightarrow>
                         do { s3 \<leftarrow> c_strcpy (stack_alloc stack (length s1 + length s2 + 1)) 0 s2;
                              s3 \<leftarrow> c_strcat s3 s1; set_first p params s3 }) } }"

definition embryo_str_strnprep :: "(nat \<Rightarrow> u8) \<Rightarrow> native" where
  "embryo_str_strnprep stack p params =
     do { n \<leftarrow> param p params 0;
          if n \<noteq> 12 then Some (0, p)
          else do { (p3, p) \<leftarrow> param_clamp p params 3;
                    ss \<leftarrow> two_strings p params 1 2;
                    (case ss of None \<Rightarrow> Some (0, p)
                     | Some (s1, s2) \<Rightarrow>
                         do { s3 \<leftarrow> c_strncpy (stack_alloc stack (length s1 + length s2 + 1)) s2 (unat p3);
                              s3 \<leftarrow> (if unat p3 \<le> length s2 then buf_write s3 (unat p3) [0] else Some s3);
                              s3 \<leftarrow> c_strcat s3 s1; set_first p params s3 }) } }"

text \<open>The two assignments \<^verbatim>\<open>if (params[k] >= l1) params[k] = l1;\<close>\<close>

definition param_min :: "embryo_program \<Rightarrow> int \<Rightarrow> nat \<Rightarrow> nat \<Rightarrow> (cell \<times> embryo_program) option" where
  "param_min p params k l1 =
     do { v \<leftarrow> param p params k;
          if int l1 \<le> sint v then do { p \<leftarrow> param_set p params k (of_nat l1); Some (of_nat l1, p) } else Some (v, p) }"

definition embryo_str_strcut :: "(nat \<Rightarrow> u8) \<Rightarrow> native" where
  "embryo_str_strcut stack p params =
     do { n \<leftarrow> param p params 0;
          if n \<noteq> 16 then Some (0, p)
          else do { (p3, p) \<leftarrow> param_clamp p params 3;
                    p4 \<leftarrow> param p params 4;
                    p \<leftarrow> (if sint p4 < sint p3 then param_set p params 4 p3 else Some p);
                    p2 \<leftarrow> param p params 2; s1 \<leftarrow> STRGET p p2;
                    (case s1 of None \<Rightarrow> Some (0, p)
                     | Some s1 \<Rightarrow>
                         do { (p3, p) \<leftarrow> param_min p params 3 (length s1);
                              (p4, p) \<leftarrow> param_min p params 4 (length s1);
                              if p4 = p3 then do { p1 \<leftarrow> param p params 1; p \<leftarrow> STRSET p p1 []; Some (0, p) }
                              else let l = unat p4 - unat p3 in
                                do { s2 \<leftarrow> c_strncpy (stack_alloc stack (l + 1)) (drop (unat p3) s1) l;
                                     s2 \<leftarrow> buf_write s2 l [0]; set_first p params s2 } }) } }"

definition embryo_str_strstr :: native where
  "embryo_str_strstr p params =
     do { n \<leftarrow> param p params 0;
          if n \<noteq> 8 then Some (0, p)
          else do { ss \<leftarrow> two_strings p params 1 2;
                    (case ss of None \<Rightarrow> Some (-1, p)
                     | Some (s1, s2) \<Rightarrow> Some (case c_strstr s1 s2 of None \<Rightarrow> -1 | Some k \<Rightarrow> of_nat k, p)) } }"

definition embryo_str_strchr :: native where
  "embryo_str_strchr p params =
     do { n \<leftarrow> param p params 0;
          if n \<noteq> 8 then Some (0, p)
          else do { ss \<leftarrow> two_strings p params 1 2;
                    (case ss of None \<Rightarrow> Some (-1, p)
                     | Some (s1, s2) \<Rightarrow>
                         Some (case c_strchr s1 (first_char s2) of None \<Rightarrow> -1 | Some k \<Rightarrow> of_nat k, p)) } }"

definition embryo_str_strrchr :: native where
  "embryo_str_strrchr p params =
     do { n \<leftarrow> param p params 0;
          if n \<noteq> 8 then Some (0, p)
          else do { ss \<leftarrow> two_strings p params 1 2;
                    (case ss of None \<Rightarrow> Some (-1, p)
                     | Some (s1, s2) \<Rightarrow>
                         Some (case c_strrchr s1 (first_char s2) of None \<Rightarrow> -1 | Some k \<Rightarrow> of_nat k, p)) } }"

section \<open>Formatted text\<close>

text \<open>The conversions of \<^verbatim>\<open>snprintf\<close> that are used: \<^verbatim>\<open>%d\<close>, \<^verbatim>\<open>%x\<close> and \<^verbatim>\<open>%08x\<close>.\<close>

fun dec_digits :: "nat \<Rightarrow> u8 list" where
  "dec_digits n = (if n < 10 then [of_nat (48 + n)] else dec_digits (n div 10) @ [of_nat (48 + n mod 10)])"

declare dec_digits.simps [simp del]

definition dec_text :: "int \<Rightarrow> u8 list" where
  "dec_text i = (if i < 0 then 45 # dec_digits (nat (- i)) else dec_digits (nat i))"

definition hex_digit :: "nat \<Rightarrow> u8" where
  "hex_digit d = of_nat (if d < 10 then 48 + d else 87 + d)"

fun hex_digits :: "nat \<Rightarrow> u8 list" where
  "hex_digits n = (if n < 16 then [hex_digit n] else hex_digits (n div 16) @ [hex_digit (n mod 16)])"

declare hex_digits.simps [simp del]

definition hex_text :: "cell \<Rightarrow> u8 list" where
  "hex_text c = hex_digits (unat c)"

definition hex8_text :: "cell \<Rightarrow> u8 list" where
  "hex8_text c = replicate (8 - length (hex_text c)) 48 @ hex_text c"

text \<open>
  The text of a conversion, cut to the room left (\<open>mx\<close> is \<^verbatim>\<open>max_len\<close>, and \<open>o'\<close> is below
  it), copied to \<^verbatim>\<open>s2 + o\<close>.
\<close>

definition put_text :: "nat \<Rightarrow> nat \<Rightarrow> u8 list \<Rightarrow> u8 list \<Rightarrow> (nat \<times> u8 list) option" where
  "put_text mx o' s2 text =
     (let l = (if mx < o' + length text then mx - o' else length text)
      in do { s2 \<leftarrow> c_strcpy s2 o' (take l text); Some (o' + l, s2) })"

text \<open>The cell a parameter points to: a null pointer is the inner \<open>None\<close>.\<close>

definition deref :: "embryo_program \<Rightarrow> cell \<Rightarrow> cell option option" where
  "deref p par =
     do { c \<leftarrow> embryo_data_address_get p par;
          (case c of None \<Rightarrow> Some None
           | Some a \<Rightarrow> do { m \<leftarrow> ep_base p; v \<leftarrow> load32 m a; Some (Some v) }) }"

text \<open>
  The conversion with the character \<open>c\<close>, with the parameter at \<open>params[k]\<close>: the new
  \<^verbatim>\<open>p\<close>, \<^verbatim>\<open>o\<close> and \<^verbatim>\<open>s2\<close>. \<open>ffmt\<close> is the text of \<^verbatim>\<open>%f\<close>, which the C library
  makes from the cell as a \<^verbatim>\<open>float\<close>.
\<close>

definition str_convert ::
    "(cell \<Rightarrow> u8 list) \<Rightarrow> embryo_program \<Rightarrow> int \<Rightarrow> nat \<Rightarrow> u8 \<Rightarrow> nat \<Rightarrow> nat \<Rightarrow> u8 list
      \<Rightarrow> (nat \<times> nat \<times> u8 list) option" where
  "str_convert ffmt p params mx c k o' s2 =
     (let number = (\<lambda>fmt. do { par \<leftarrow> param p params k; v \<leftarrow> deref p par;
                (o', s2) \<leftarrow> put_text mx o' s2 (case v of None \<Rightarrow> [] | Some v \<Rightarrow> take 255 (fmt v));
                Some (k + 1, o', s2) })
      in if c = 37 then do { s2 \<leftarrow> buf_write s2 o' [37]; Some (k, o' + 1, s2) }
         else if c = 99 then
           do { par \<leftarrow> param p params k; v \<leftarrow> deref p par;
                s2 \<leftarrow> (case v of None \<Rightarrow> Some s2 | Some v \<Rightarrow> buf_write s2 o' [ucast v]);
                Some (k + 1, o' + 1, s2) }
         else if c = 105 \<or> c = 100 then number (\<lambda>v. dec_text (sint v))
         else if c = 120 then number hex_text
         else if c = 88 then number hex8_text
         else if c = 102 then number ffmt
         else if c = 115 then
           do { par \<leftarrow> param p params k; tmp \<leftarrow> STRGET p par;
                (case tmp of None \<Rightarrow> Some (k + 1, o', s2)
                 | Some tmp \<Rightarrow> do { (o', s2) \<leftarrow> put_text mx o' s2 tmp; Some (k + 1, o', s2) }) }
         else Some (k, o', s2))"

text \<open>
  The loop over the format; \<open>inesc\<close> follows a backslash and \<open>insub\<close> a percent sign, \<open>k\<close>
  is \<^verbatim>\<open>p\<close>.
\<close>

fun str_snprintf_loop ::
    "(cell \<Rightarrow> u8 list) \<Rightarrow> embryo_program \<Rightarrow> int \<Rightarrow> nat \<Rightarrow> u8 list \<Rightarrow> bool \<Rightarrow> bool \<Rightarrow> nat \<Rightarrow> nat \<Rightarrow> nat
      \<Rightarrow> u8 list \<Rightarrow> (nat \<times> u8 list) option" where
  "str_snprintf_loop ffmt p params mx [] inesc insub pnum k o' s2 = Some (o', s2)"
| "str_snprintf_loop ffmt p params mx (c # cs) inesc insub pnum k o' s2 =
     (if \<not> (o' < mx \<and> k < pnum + 1) then Some (o', s2)
      else if \<not> inesc \<and> \<not> insub then
        if c = 92 then str_snprintf_loop ffmt p params mx cs True False pnum k o' s2
        else if c = 37 then str_snprintf_loop ffmt p params mx cs False True pnum k o' s2
        else do { s2 \<leftarrow> buf_write s2 o' [c];
                  str_snprintf_loop ffmt p params mx cs False False pnum k (o' + 1) s2 }
      else if inesc then
        do { s2 \<leftarrow> buf_write s2 o' [if c = 116 then 9 else if c = 110 then 10 else c];
             str_snprintf_loop ffmt p params mx cs False insub pnum k (o' + 1) s2 }
      else
        let pnum = (if c = 37 then pnum + 1 else pnum)
        in if k < pnum then
             do { (k, o', s2) \<leftarrow> str_convert ffmt p params mx c k o' s2;
                  str_snprintf_loop ffmt p params mx cs False False pnum k o' s2 }
           else str_snprintf_loop ffmt p params mx cs False False pnum k o' s2)"

definition str_snprintf ::
    "(cell \<Rightarrow> u8 list) \<Rightarrow> embryo_program \<Rightarrow> u8 list \<Rightarrow> u8 list \<Rightarrow> nat \<Rightarrow> nat \<Rightarrow> int \<Rightarrow> (nat \<times> u8 list) option" where
  "str_snprintf ffmt p s1 s2 mx pnum params =
     do { (o', s2) \<leftarrow> str_snprintf_loop ffmt p params mx s1 False False pnum 0 0 s2;
          s2 \<leftarrow> buf_write s2 o' [0]; Some (o', s2) }"

text \<open>The value returned is \<^verbatim>\<open>o\<close>, which stays 0: the count of the formatter is dropped.\<close>

definition embryo_str_snprintf :: "(nat \<Rightarrow> u8) \<Rightarrow> (cell \<Rightarrow> u8 list) \<Rightarrow> native" where
  "embryo_str_snprintf stack ffmt p params =
     do { n \<leftarrow> param p params 0;
          if sint n < 12 then Some (0, p)
          else do { p2 \<leftarrow> param p params 2;
            if sint p2 \<le> 0 then Some (0, p)
            else do { p3 \<leftarrow> param p params 3; s1 \<leftarrow> STRGET p p3;
              (case s1 of None \<Rightarrow> Some (-1, p)
               | Some s1 \<Rightarrow>
                   do { s2 \<leftarrow> buf_write (stack_alloc stack (unat p2 + 1)) 0 [0];
                        (o', s2) \<leftarrow> str_snprintf ffmt p s1 s2 (unat p2) (unat n div 4 - 3) (params + 16);
                        set_first p params s2 }) } } }"

text \<open>
  \<^verbatim>\<open>printf\<close> only logs the text. Its buffer has \<^verbatim>\<open>strlen(s1) + (params[0] - 1) * 256\<close> bytes and
  one more, \<open>None\<close> when that is negative.
\<close>

definition embryo_str_printf :: "(nat \<Rightarrow> u8) \<Rightarrow> (cell \<Rightarrow> u8 list) \<Rightarrow> native" where
  "embryo_str_printf stack ffmt p params =
     do { n \<leftarrow> param p params 0;
          if sint n < 4 then Some (0, p)
          else do { p1 \<leftarrow> param p params 1; s1 \<leftarrow> STRGET p p1;
              (case s1 of None \<Rightarrow> Some (-1, p)
               | Some s1 \<Rightarrow>
                   let mx = of_nat (length s1) + (n - 1) * 256 :: cell
                   in if sint mx < 0 then None
                      else do { s2 \<leftarrow> buf_write (stack_alloc stack (unat mx + 1)) 0 [0];
                                (o', s2) \<leftarrow> str_snprintf ffmt p s1 s2 (unat mx) (unat n div 4 - 1) (params + 8);
                                Some (0, p) }) } }"

section \<open>The natives of a program\<close>

text \<open>
  The functions the registration names by number; \<open>others\<close> are those not modelled (floating
  point, random numbers, time) and those of the embedding program.
\<close>

definition builtin_natives ::
    "(nat \<Rightarrow> u8) \<Rightarrow> (u8 list \<Rightarrow> u8 list \<Rightarrow> cell) \<Rightarrow> (cell \<Rightarrow> u8 list) \<Rightarrow> (nat \<Rightarrow> native) \<Rightarrow> nat \<Rightarrow> native" where
  "builtin_natives stack fnm ffmt others f =
     (if f = 0 then embryo_args_numargs
      else if f = 1 then embryo_args_getarg
      else if f = 2 then embryo_args_setarg
      else if f = 3 then embryo_args_getsarg
      else if f = 31 then embryo_str_atoi
      else if f = 32 then embryo_str_fnmatch fnm
      else if f = 33 then embryo_str_strcmp
      else if f = 34 then embryo_str_strncmp
      else if f = 35 then embryo_str_strcpy
      else if f = 36 then embryo_str_strncpy
      else if f = 37 then embryo_str_strlen
      else if f = 38 then embryo_str_strcat stack
      else if f = 39 then embryo_str_strncat stack
      else if f = 40 then embryo_str_strprep stack
      else if f = 41 then embryo_str_strnprep stack
      else if f = 42 then embryo_str_strcut stack
      else if f = 43 then embryo_str_snprintf stack ffmt
      else if f = 44 then embryo_str_strstr
      else if f = 45 then embryo_str_strchr
      else if f = 46 then embryo_str_strrchr
      else if f = 47 then embryo_str_printf stack ffmt
      else others f)"

end
