(* ===== verification/Embryo_Natives_Ok.thy ===== *)
theory Embryo_Natives_Ok
  imports Embryo_Natives Embryo_Reach
begin

text \<open>
  The built-in natives keep the contract that the theorems about runs ask of natives: they
  change nothing of the program but the contents of the memory block, and what they do depends
  on nothing but the block and the registers that a call saves. The proof goes through the
  definitions construct by construct (\<open>native_local\<close>).
\<close>

named_theorems native_local

definition agree :: "embryo_program \<Rightarrow> embryo_program \<Rightarrow> bool" where
  "agree p q \<longleftrightarrow> ep_base q = ep_base p \<and> ep_hea q = ep_hea p \<and> ep_frm q = ep_frm p \<and> ep_stk q = ep_stk p"

text \<open>A read gives the same on records that agree.\<close>

definition reads :: "(embryo_program \<Rightarrow> 'a) \<Rightarrow> bool" where
  "reads g \<longleftrightarrow> (\<forall>p q. agree p q \<longrightarrow> g p = g q)"

text \<open>A step changes the block of both records alike, and keeps its size.\<close>

inductive act_rel ::
    "embryo_program \<Rightarrow> embryo_program \<Rightarrow> ('a \<times> embryo_program) option \<Rightarrow> ('a \<times> embryo_program) option \<Rightarrow> bool"
  for p q where
  act_none: "act_rel p q None None"
| act_some: "map_option length b = map_option length (ep_base p) \<Longrightarrow>
    act_rel p q (Some (v, p\<lparr>ep_base := b\<rparr>)) (Some (v, q\<lparr>ep_base := b\<rparr>))"

definition acts :: "(embryo_program \<Rightarrow> ('a \<times> embryo_program) option) \<Rightarrow> bool" where
  "acts h \<longleftrightarrow> (\<forall>p q. agree p q \<longrightarrow> act_rel p q (h p) (h q))"

definition acts_alone :: "(embryo_program \<Rightarrow> embryo_program option) \<Rightarrow> bool" where
  "acts_alone h \<longleftrightarrow> acts (\<lambda>p. map_option (Pair ()) (h p))"

lemma agree_base: "agree p q \<Longrightarrow> agree (p\<lparr>ep_base := b\<rparr>) (q\<lparr>ep_base := b\<rparr>)"
  by (simp add: agree_def)

lemma act_same:
  assumes "agree p q"
  shows "act_rel p q (Some (v, p)) (Some (v, q))"
proof -
  have "q\<lparr>ep_base := ep_base p\<rparr> = q" using assms by (cases q) (simp add: agree_def)
  then show ?thesis using act_some [of "ep_base p" p q v] by simp
qed

lemma act_trans:
  assumes "map_option length b = map_option length (ep_base p)"
    and "act_rel (p\<lparr>ep_base := b\<rparr>) (q\<lparr>ep_base := b\<rparr>) x y"
  shows "act_rel p q x y"
  using assms(2)
proof cases
  case (act_some b' v)
  then show ?thesis using act_rel.act_some [of b' p q v] assms(1) by simp
qed (simp add: act_rel.act_none)

lemma reads_const [native_local]: "reads (\<lambda>p. c)"
  by (simp add: reads_def)

lemma reads_fields [native_local]:
  "reads ep_base" "reads ep_hea" "reads ep_frm" "reads ep_stk"
  by (simp_all add: reads_def agree_def)

lemma reads_bind [native_local]:
  assumes "reads g" "\<And>x. reads (k x)"
  shows "reads (\<lambda>p. Option.bind (g p) (\<lambda>x. k x p))"
  unfolding reads_def
proof (intro allI impI)
  fix p q assume "agree p q"
  then have "g p = g q" "k x p = k x q" for x using assms unfolding reads_def by blast+
  then show "Option.bind (g p) (\<lambda>x. k x p) = Option.bind (g q) (\<lambda>x. k x q)" by simp
qed

lemma acts_return [native_local]: "reads v \<Longrightarrow> acts (\<lambda>p. Some (v p, p))"
  unfolding acts_def reads_def using act_same by metis

lemma acts_none [native_local]: "acts (\<lambda>p. None)"
  by (simp add: acts_def act_none)

lemma acts_read [native_local]:
  assumes "reads g" "\<And>x. acts (k x)"
  shows "acts (\<lambda>p. Option.bind (g p) (\<lambda>x. k x p))"
  unfolding acts_def
proof (intro allI impI)
  fix p q assume pq: "agree p q"
  then have "g p = g q" using assms(1) unfolding reads_def by blast
  then show "act_rel p q (Option.bind (g p) (\<lambda>x. k x p)) (Option.bind (g q) (\<lambda>x. k x q))"
    using assms(2) pq unfolding acts_def by (cases "g q") (simp_all add: act_none)
qed

lemma acts_bind [native_local]:
  assumes h: "acts h" and k: "\<And>x. acts (k x)"
  shows "acts (\<lambda>p. Option.bind (h p) (\<lambda>(x, p). k x p))"
  unfolding acts_def
proof (intro allI impI)
  fix p q :: embryo_program
  assume pq: "agree p q"
  with h have "act_rel p q (h p) (h q)" unfolding acts_def by blast
  then show "act_rel p q (Option.bind (h p) (\<lambda>(x, p). k x p)) (Option.bind (h q) (\<lambda>(x, p). k x p))"
  proof cases
    case act_none
    then show ?thesis by (simp add: act_rel.act_none)
  next
    case (act_some b v)
    have "act_rel (p\<lparr>ep_base := b\<rparr>) (q\<lparr>ep_base := b\<rparr>) (k v (p\<lparr>ep_base := b\<rparr>)) (k v (q\<lparr>ep_base := b\<rparr>))"
      using k agree_base [OF pq] unfolding acts_def by blast
    then show ?thesis unfolding act_some(1,2) using act_trans [OF act_some(3)] by simp
  qed
qed

lemma acts_alone_bind [native_local]:
  assumes "acts_alone h" "acts k"
  shows "acts (\<lambda>p. Option.bind (h p) k)"
  unfolding acts_def
proof (intro allI impI)
  fix p q :: embryo_program
  assume pq: "agree p q"
  with assms(1) have "act_rel p q (map_option (Pair ()) (h p)) (map_option (Pair ()) (h q))"
    unfolding acts_alone_def acts_def by blast
  then show "act_rel p q (h p \<bind> k) (h q \<bind> k)"
  proof cases
    case act_none
    then show ?thesis by (simp add: act_rel.act_none)
  next
    case (act_some b v)
    have "act_rel (p\<lparr>ep_base := b\<rparr>) (q\<lparr>ep_base := b\<rparr>) (k (p\<lparr>ep_base := b\<rparr>)) (k (q\<lparr>ep_base := b\<rparr>))"
      using assms(2) agree_base [OF pq] unfolding acts_def by blast
    moreover have "h p = Some (p\<lparr>ep_base := b\<rparr>)" "h q = Some (q\<lparr>ep_base := b\<rparr>)"
      using act_some(1,2) by auto
    ultimately show ?thesis using act_trans [OF act_some(3)] by simp
  qed
qed

lemma acts_if [native_local]:
  assumes "reads c" "acts h" "acts k"
  shows "acts (\<lambda>p. if c p then h p else k p)"
  unfolding acts_def
proof (intro allI impI)
  fix p q assume pq: "agree p q"
  then have "c p = c q" using assms(1) unfolding reads_def by blast
  then show "act_rel p q (if c p then h p else k p) (if c q then h q else k q)"
    using assms(2,3) pq unfolding acts_def by simp
qed

lemma acts_option [native_local]:
  "acts h \<Longrightarrow> (\<And>y. acts (k y)) \<Longrightarrow> acts (\<lambda>p. case x of None \<Rightarrow> h p | Some y \<Rightarrow> k y p)"
  by (cases x) simp_all

lemma acts_pair [native_local]:
  "(\<And>y z. acts (k y z)) \<Longrightarrow> acts (\<lambda>p. case x of (y, z) \<Rightarrow> k y z p)"
  by (cases x) simp

lemma acts_let [native_local]: "(\<And>x. acts (k x)) \<Longrightarrow> acts (\<lambda>p. let x = e in k x p)"
  by simp

lemma acts_alone_same [native_local]: "acts_alone Some"
  using act_same by (auto simp: acts_alone_def acts_def)

lemma acts_alone_read [native_local]:
  "reads g \<Longrightarrow> (\<And>x. acts_alone (k x)) \<Longrightarrow> acts_alone (\<lambda>p. Option.bind (g p) (\<lambda>x. k x p))"
  unfolding acts_alone_def map_option_bind comp_def by (rule acts_read)

lemma acts_alone_if [native_local]:
  "reads c \<Longrightarrow> acts_alone h \<Longrightarrow> acts_alone k \<Longrightarrow> acts_alone (\<lambda>p. if c p then h p else k p)"
  unfolding acts_alone_def if_distrib [of "map_option (Pair ())"] by (rule acts_if)

lemma acts_alone_option [native_local]:
  "acts_alone h \<Longrightarrow> (\<And>y. acts_alone (k y)) \<Longrightarrow> acts_alone (\<lambda>p. case x of None \<Rightarrow> h p | Some y \<Rightarrow> k y p)"
  by (cases x) simp_all

lemma reads_option [native_local]:
  "reads h \<Longrightarrow> (\<And>y. reads (k y)) \<Longrightarrow> reads (\<lambda>p. case x of None \<Rightarrow> h p | Some y \<Rightarrow> k y p)"
  by (cases x) simp_all

lemma reads_if [native_local]:
  "reads c \<Longrightarrow> reads h \<Longrightarrow> reads k \<Longrightarrow> reads (\<lambda>p. if c p then h p else k p)"
  unfolding reads_def by metis

lemma reads_app: "reads g \<Longrightarrow> reads (\<lambda>p. f (g p))"
  unfolding reads_def by metis

text \<open>The stores: a block of the same size takes the place of the block that was read.\<close>

lemma acts_alone_store:
  assumes "\<And>m m'. f m = Some m' \<Longrightarrow> length m' = length m"
  shows "acts_alone (\<lambda>p. do { m \<leftarrow> ep_base p; m' \<leftarrow> f m; Some (p\<lparr>ep_base := Some m'\<rparr>) })"
  unfolding acts_alone_def acts_def
proof (intro allI impI)
  fix p q assume "agree p q"
  then have b: "ep_base q = ep_base p" by (simp add: agree_def)
  show "act_rel p q
      (map_option (Pair ()) (do { m \<leftarrow> ep_base p; m' \<leftarrow> f m; Some (p\<lparr>ep_base := Some m'\<rparr>) }))
      (map_option (Pair ()) (do { m \<leftarrow> ep_base q; m' \<leftarrow> f m; Some (q\<lparr>ep_base := Some m'\<rparr>) }))"
  proof (cases "ep_base p \<bind> f")
    case None
    then show ?thesis unfolding b by (cases "ep_base p") (simp_all add: act_none)
  next
    case (Some m')
    then obtain m where "ep_base p = Some m" "f m = Some m'" by (auto simp: bind_eq_Some_conv)
    then show ?thesis unfolding b using assms by (simp add: act_some)
  qed
qed


section \<open>The functions the natives use\<close>

lemma reads_param [native_local]: "reads (\<lambda>p. param p params k)"
  unfolding param_def by (intro native_local)

lemma acts_param_set [native_local]: "acts_alone (\<lambda>p. param_set p params k v)"
  unfolding param_set_def by (rule acts_alone_store) (rule store_length)

lemma acts_param_clamp [native_local]: "acts (\<lambda>p. param_clamp p params k)"
  unfolding param_clamp_def by (intro native_local)

lemma acts_param_min [native_local]: "acts (\<lambda>p. param_min p params k l)"
  unfolding param_min_def by (intro native_local)

lemma reads_address [native_local]: "reads (\<lambda>p. embryo_data_address_get p par)"
  unfolding embryo_data_address_get_def
  by (rule reads_app [where f = "\<lambda>b. case b of None \<Rightarrow> _ | Some m \<Rightarrow> _ m"]) (rule reads_fields)

lemma reads_string_get [native_local]: "reads (\<lambda>p. embryo_data_string_get p a)"
  unfolding embryo_data_string_get_def
  by (rule reads_app [where f = "\<lambda>b. case b of None \<Rightarrow> _ | Some m \<Rightarrow> _ m"]) (rule reads_fields)

lemma reads_map [native_local]: "reads g \<Longrightarrow> reads (\<lambda>p. map_option f (g p))"
  by (rule reads_app)

lemma reads_frame [native_local]: "reads (\<lambda>p. load32 m (a + sint (ep_frm p) + b))"
  by (rule reads_app [where g = ep_frm]) (rule reads_fields)

lemma reads_gap [native_local]:
  "reads (\<lambda>p. sint v < 0 \<or> sint (ep_hea p) \<le> sint v \<and> sint v < sint (ep_stk p))"
  by (simp add: reads_def agree_def)

lemma reads_STRGET [native_local]: "reads (\<lambda>p. STRGET p par)"
  unfolding STRGET_def by (intro native_local)

lemma reads_two_strings [native_local]: "reads (\<lambda>p. two_strings p params i j)"
  unfolding two_strings_def by (intro native_local)

lemma reads_frame_arg [native_local]: "reads (\<lambda>p. frame_arg p k)"
  unfolding frame_arg_def by (intro native_local)

lemma reads_deref [native_local]: "reads (\<lambda>p. deref p par)"
  unfolding deref_def by (intro native_local)

lemma acts_store:
  assumes "\<And>m x m'. f m x = Some m' \<Longrightarrow> length m' = length m"
  shows "acts (\<lambda>p. do { m \<leftarrow> ep_base p; x \<leftarrow> g m; m' \<leftarrow> f m x; Some (v, p\<lparr>ep_base := Some m'\<rparr>) })"
proof -
  have "acts_alone (\<lambda>p. do { m \<leftarrow> ep_base p; m' \<leftarrow> g m \<bind> f m; Some (p\<lparr>ep_base := Some m'\<rparr>) })"
    using assms by (intro acts_alone_store) (auto simp: bind_eq_Some_conv)
  then have "acts (\<lambda>p. do { m \<leftarrow> ep_base p; m' \<leftarrow> g m \<bind> f m; Some (p\<lparr>ep_base := Some m'\<rparr>) }
      \<bind> (\<lambda>p. Some (v, p)))"
    by (intro acts_alone_bind acts_return reads_const)
  then show ?thesis by simp
qed

lemma string_set_loop_length: "string_set_loop m a s = Some m' \<Longrightarrow> length m' = length m"
  by (induction m a s arbitrary: m' rule: string_set_loop.induct)
    (auto simp: bind_eq_Some_conv store_length split: if_splits)

lemma acts_string_set [native_local]: "acts_alone (\<lambda>p. embryo_data_string_set p (Some s) (Some a))"
  unfolding acts_alone_def acts_def
proof (intro allI impI)
  fix p q assume pq: "agree p q"
  then have b: "ep_base q = ep_base p" by (simp add: agree_def)
  show "act_rel p q (map_option (Pair ()) (embryo_data_string_set p (Some s) (Some a)))
      (map_option (Pair ()) (embryo_data_string_set q (Some s) (Some a)))"
  proof (cases "ep_base p")
    case None
    then show ?thesis using act_same [OF pq] by (simp add: embryo_data_string_set_def b)
  next
    case (Some m)
    then show ?thesis
      using act_same [OF pq] act_none [of p q] act_some [of _ p q "()"]
      by (cases "hdr_stp m"; cases "string_set_loop m a s")
        (auto simp: embryo_data_string_set_def b simp del: string_set_loop.simps
          dest: string_set_loop_length)
  qed
qed

lemma acts_STRSET [native_local]: "acts_alone (\<lambda>p. STRSET p par str)"
  unfolding STRSET_def by (intro native_local)

lemma acts_set_first [native_local]: "acts (\<lambda>p. set_first p params s3)"
  unfolding set_first_def by (intro native_local)

lemma reads_convert [native_local]: "reads (\<lambda>p. str_convert ffmt p params mx c k o' s2)"
  unfolding str_convert_def Let_def by (intro native_local)

lemma reads_snprintf_loop [native_local]:
  "reads (\<lambda>p. str_snprintf_loop ffmt p params mx cs inesc insub pnum k o' s2)"
proof (induction cs arbitrary: inesc insub pnum k o' s2)
  case (Cons c cs)
  show ?case unfolding str_snprintf_loop.simps Let_def split_def by (intro native_local Cons)
qed (simp add: reads_const)

lemma reads_snprintf [native_local]: "reads (\<lambda>p. str_snprintf ffmt p s1 s2 mx pnum params)"
  unfolding str_snprintf_def split_def by (intro native_local)


section \<open>The natives\<close>

lemma reads_gap_frame [native_local]: "reads (\<lambda>p. load32 m (a + sint (ep_frm p) + 8))"
  by (rule reads_frame)

lemma reads_return [native_local]: "reads (\<lambda>p. Some c)"
  by (rule reads_const)

lemma acts_store_dat [native_local]:
  "acts (\<lambda>p. do { m \<leftarrow> ep_base p; dat \<leftarrow> hdr_dat m; m' \<leftarrow> store32 m (a dat) v;
                  Some (w, p\<lparr>ep_base := Some m'\<rparr>) })"
  by (rule acts_store) (rule store_length)

lemmas native_defs =
  embryo_args_numargs_def embryo_args_getarg_def embryo_args_setarg_def embryo_args_getsarg_def
  embryo_str_atoi_def embryo_str_fnmatch_def embryo_str_strcmp_def embryo_str_strncmp_def
  embryo_str_strcpy_def embryo_str_strncpy_def embryo_str_strlen_def embryo_str_strcat_def
  embryo_str_strncat_def embryo_str_strprep_def embryo_str_strnprep_def embryo_str_strcut_def
  embryo_str_snprintf_def embryo_str_printf_def embryo_str_strstr_def embryo_str_strchr_def
  embryo_str_strrchr_def

lemma acts_natives:
  "acts (\<lambda>p. embryo_args_numargs p a)" "acts (\<lambda>p. embryo_args_getarg p a)"
  "acts (\<lambda>p. embryo_args_getsarg p a)"
  "acts (\<lambda>p. embryo_str_atoi p a)" "acts (\<lambda>p. embryo_str_fnmatch fnm p a)"
  "acts (\<lambda>p. embryo_str_strcmp p a)" "acts (\<lambda>p. embryo_str_strncmp p a)"
  "acts (\<lambda>p. embryo_str_strcpy p a)" "acts (\<lambda>p. embryo_str_strncpy p a)"
  "acts (\<lambda>p. embryo_str_strlen p a)" "acts (\<lambda>p. embryo_str_strcat stack p a)"
  "acts (\<lambda>p. embryo_str_strncat stack p a)" "acts (\<lambda>p. embryo_str_strprep stack p a)"
  "acts (\<lambda>p. embryo_str_strnprep stack p a)" "acts (\<lambda>p. embryo_str_strcut stack p a)"
  "acts (\<lambda>p. embryo_str_snprintf stack ffmt p a)" "acts (\<lambda>p. embryo_str_printf stack ffmt p a)"
  "acts (\<lambda>p. embryo_str_strstr p a)" "acts (\<lambda>p. embryo_str_strchr p a)"
  "acts (\<lambda>p. embryo_str_strrchr p a)"
  unfolding native_defs Let_def by (intro native_local; simp)+

lemma acts_setarg: "acts (\<lambda>p. embryo_args_setarg p a)"
  unfolding native_defs Let_def by (intro native_local)


section \<open>The contract\<close>

lemma agree_self: "agree p p"
  by (simp add: agree_def)

lemma acts_framed:
  assumes "acts h" "h p = Some (v, p')"
  shows "same_frame p p'"
proof -
  have "act_rel p p (Some (v, p')) (Some (v, p'))"
    using assms agree_self [of p] unfolding acts_def by metis
  then show ?thesis by cases (simp_all add: same_frame_def)
qed

lemma acts_blind:
  assumes "acts h" "sim_call p q"
  shows "rel_option (rel_prod (=) sim) (h p) (h q)"
proof -
  have sim: "sim p q" and pq: "agree p q" using assms(2) sim_fields(1) by (auto simp: sim_call_def agree_def)
  have "act_rel p q (h p) (h q)" using assms(1) pq unfolding acts_def by blast
  then show ?thesis
  proof cases
    case (act_some b v)
    then show ?thesis using sim_upd(1) [OF sim] by simp
  qed simp
qed

lemma acts_contract:
  assumes "\<And>f a. acts (\<lambda>p. nf f p a)"
  shows "natives_framed nf" "natives_blind nf"
  unfolding natives_framed_def natives_blind_def
  by (intro allI impI, rule acts_framed [OF assms], assumption)
    (intro allI impI, rule acts_blind [OF assms])

lemma acts_choice:
  "acts (\<lambda>p. h p a) \<Longrightarrow> acts (\<lambda>p. k p a) \<or> k = x \<Longrightarrow>
   acts (\<lambda>p. (if c then h else k) p a) \<or> (if c then h else k) = x"
  by auto

lemma builtin_acts:
  "acts (\<lambda>p. builtin_natives stack fnm ffmt others f p a) \<or> builtin_natives stack fnm ffmt others f = others f"
  unfolding builtin_natives_def by ((rule acts_choice, rule acts_natives acts_setarg)+, simp)

text \<open>What a client of the natives relies on.\<close>

locale native_functions =
  fixes nf :: "nat \<Rightarrow> native"
  assumes framed: "natives_framed nf" and blind: "natives_blind nf"
begin

lemma run_leaves_code:
  assumes "embryo_program_run nf n p fn = Some (Stop EMBRYO_PROGRAM_OK q)" "fn \<noteq> EMBRYO_FUNCTION_CONT"
  shows "ep_code q = ep_code p \<and> map_option length (ep_base q) = map_option length (ep_base p)"
  using embryo_program_run_result [OF framed assms(1)] assms(2) by (auto simp: stop_ok_def)

lemma steps_agree: "re_natives e = nf \<Longrightarrow> sim p q \<Longrightarrow> same_result (turns k e r p) (turns k (e\<lparr>re_max := x\<rparr>) r q)"
  using sim_turns blind by blast

end

text \<open>
  C17: the built-in natives on strings and arguments keep the contract under which the theorems
  about runs hold, if the other natives do: they change nothing of the program but the contents
  of the memory block, which keeps its size, and what they do does not depend on the registers
  a suspended run saves.
\<close>

theorem builtin_natives_contract:
  assumes "natives_framed others" "natives_blind others"
  shows "natives_framed (builtin_natives stack fnm ffmt others)
    \<and> natives_blind (builtin_natives stack fnm ffmt others)"
  using builtin_acts [of stack fnm ffmt others] acts_framed acts_blind assms
  unfolding natives_framed_def natives_blind_def by metis

theorem builtin_natives_contract_witness:
  "natives_framed (builtin_natives (\<lambda>_. 7) (\<lambda>_ _. 0) (\<lambda>_. []) no_natives)
    \<and> natives_blind (builtin_natives (\<lambda>_. 7) (\<lambda>_ _. 0) (\<lambda>_. []) no_natives)"
  by (rule builtin_natives_contract [OF no_natives_ok])

text \<open>Natives that only compute a value from their parameters, as those on floating point do.\<close>

definition value_natives :: "(nat \<Rightarrow> mem option \<Rightarrow> int \<Rightarrow> cell option) \<Rightarrow> nat \<Rightarrow> native" where
  "value_natives g f p params = map_option (\<lambda>v. (v, p)) (g f (ep_base p) params)"

lemma value_natives_acts: "acts (\<lambda>p. value_natives g f p a)"
  unfolding acts_def
proof (intro allI impI)
  fix p q assume pq: "agree p q"
  then have "ep_base q = ep_base p" by (simp add: agree_def)
  then show "act_rel p q (value_natives g f p a) (value_natives g f q a)"
    using act_same [OF pq] act_none by (cases "g f (ep_base p) a") (simp_all add: value_natives_def)
qed

interpretation builtin: native_functions "builtin_natives stack fnm ffmt (value_natives g)"
  for stack fnm ffmt g
proof -
  have "acts (\<lambda>p. builtin_natives stack fnm ffmt (value_natives g) f p a)" for f a
    using builtin_acts [of stack fnm ffmt "value_natives g" f a] value_natives_acts [of g f a] by metis
  from acts_contract [OF this] show "native_functions (builtin_natives stack fnm ffmt (value_natives g))"
    by unfold_locales
qed

end
