(* ===== verification/Embryo_Natives_Text.thy ===== *)
theory Embryo_Natives_Text
  imports Embryo_Natives_Ok
begin

text \<open>
  What the string natives compute: the texts they leave in the buffers of a script, in terms of
  the texts they find there, and the bounds of the formatter.
\<close>

section \<open>Buffers\<close>

lemma length_stack_alloc [simp]: "length (stack_alloc stack n) = n"
  by (simp add: stack_alloc_def)

lemma buf_write_Some:
  "i + length bs \<le> length buf \<Longrightarrow> buf_write buf i bs = Some (take i buf @ bs @ drop (i + length bs) buf)"
  by (simp add: buf_write_def)

lemma buf_write_length: "buf_write buf i bs = Some buf' \<Longrightarrow> length buf' = length buf"
  by (auto simp: buf_write_def split: if_splits)

lemma take_cstring_text: "0 \<notin> set s \<Longrightarrow> take_cstring (s @ 0 # r) = Some s"
  by (induction s) auto

lemma c_strcpy_Some:
  "i + length s < length buf \<Longrightarrow> c_strcpy buf i s = Some (take i buf @ s @ 0 # drop (i + length s + 1) buf)"
  by (simp add: c_strcpy_def buf_write_def)

lemma c_strcat_text:
  "0 \<notin> set d \<Longrightarrow> length s \<le> length r \<Longrightarrow>
   c_strcat (d @ 0 # r) s = Some (d @ s @ 0 # drop (length s) r)"
  by (simp add: c_strcat_def take_cstring_text c_strcpy_Some Suc_diff_le)

section \<open>Strings of a script\<close>

text \<open>The parameters of a call lie in the block as their size in bytes and the cells.\<close>

definition script_call :: "embryo_program \<Rightarrow> int \<Rightarrow> cell list \<Rightarrow> bool" where
  "script_call p params args \<longleftrightarrow>
     param p params 0 = Some (of_nat (4 * length args))
     \<and> (\<forall>i < length args. param p params (Suc i) = Some (args ! i))"

text \<open>A buffer with room for \<open>n\<close> characters and the terminator.\<close>

definition room :: "embryo_program \<Rightarrow> cell \<Rightarrow> nat \<Rightarrow> bool" where
  "room p par n \<longleftrightarrow>
     (case (ep_base p, embryo_data_address_get p par) of
        (Some m, Some (Some a)) \<Rightarrow>
          (case hdr_stp m of None \<Rightarrow> False
           | Some stp \<Rightarrow> sint stp \<le> int (length m) \<and> 28 \<le> a \<and> a + 4 * (int n + 1) \<le> sint stp)
      | _ \<Rightarrow> False)"

lemma hdr_dat_keep:
  assumes "length m' = length m" "\<forall>i. int i < a \<longrightarrow> m' ! i = m ! i" "28 \<le> a"
  shows "hdr_dat m' = hdr_dat m"
proof -
  have "m' ! 16 = m ! 16" "m' ! 17 = m ! 17" "m' ! 18 = m ! 18" "m' ! 19 = m ! 19"
    using assms(2,3) by simp_all
  then show ?thesis using assms(1) by (simp add: hdr_dat_def load32_def in_block_def)
qed

lemma STRSET_STRGET:
  assumes "room p par (length s)" "0 \<notin> set s"
  shows "\<exists>q. STRSET p par s = Some q \<and> STRGET q par = Some (Some s)"
proof -
  obtain m a stp where m: "ep_base p = Some m" "embryo_data_address_get p par = Some (Some a)"
    "hdr_stp m = Some stp" "sint stp \<le> int (length m)" "28 \<le> a" "a + 4 * (int (length s) + 1) \<le> sint stp"
    using assms(1) by (auto simp: room_def split: option.splits)
  obtain m' where m': "string_set_loop m a s = Some m'" "length m' = length m"
    and cells: "\<forall>n > length s. string_cells n m' a = Some (map scast s)"
    and keep: "\<forall>i. int i < a \<or> a + 4 * (int (length s) + 1) \<le> int i \<longrightarrow> m' ! i = m ! i"
    using string_set_loop_stores [of m stp a s] assms(2) m by auto
  have h: "hdr_stp m' = hdr_stp m" "hdr_dat m' = hdr_dat m"
    using hdr_stp_keep [OF m'(2) _ m(5)] hdr_dat_keep [OF m'(2) _ m(5)] keep by simp_all
  let ?q = "p\<lparr>ep_base := Some m'\<rparr>"
  have "STRSET p par s = Some ?q"
    using m m' by (simp add: STRSET_def embryo_data_string_set_def str_cell_rejected_def)
  moreover have "embryo_data_address_get ?q par = Some (Some a)"
    using m(1,2) by (simp add: embryo_data_address_get_def h)
  moreover have "string_at m' a = Some (map scast s)"
    using cells m'(2) m(4-6) by (simp add: string_at_def del: string_cells.simps)
  moreover have "takeWhile (\<lambda>c. c \<noteq> 0) s = s" using assms(2) by (auto simp: takeWhile_eq_all_conv)
  ultimately show ?thesis
    using m(3,5,6) h(1)
    by (auto simp: STRGET_def embryo_data_string_get_def str_cell_rejected_def comp_def)
qed

lemma STRGET_nonzero: "STRGET p par = Some (Some s) \<Longrightarrow> 0 \<notin> set s"
  by (auto simp: STRGET_def bind_eq_Some_conv split: option.splits dest: set_takeWhileD)

lemma set_first_text:
  assumes "param p params 1 = Some d" "room p d (length s)" "0 \<notin> set s"
  shows "\<exists>q. set_first p params (s @ 0 # r) = Some (0, q) \<and> STRGET q d = Some (Some s)"
  using STRSET_STRGET [OF assms(2,3)] assms(1) by (auto simp: set_first_def take_cstring_text [OF assms(3)])

section \<open>The edits\<close>

text \<open>
  The text the native with number \<open>f\<close> leaves in its first parameter, which held \<open>old\<close>, from
  the second, \<open>src\<close>, and the counts \<open>n\<close> and \<open>n2\<close>.
\<close>

definition edited :: "nat \<Rightarrow> u8 list \<Rightarrow> u8 list \<Rightarrow> nat \<Rightarrow> nat \<Rightarrow> u8 list" where
  "edited f old src n n2 =
     (if f = 35 then src
      else if f = 36 then take n src
      else if f = 38 then old @ src
      else if f = 39 then old @ take n src
      else if f = 40 then src @ old
      else if f = 41 then take n src @ old
      else take (n2 - n) (drop n src))"

text \<open>The counts that follow the two strings.\<close>

definition counts :: "nat \<Rightarrow> nat \<Rightarrow> nat \<Rightarrow> nat list" where
  "counts f n n2 = (if f \<in> {35, 38, 40} then [] else if f = 42 then [n, n2] else [n])"

lemma small_count: "n < 2147483648 \<Longrightarrow> sint (of_nat n :: cell) = int n \<and> unat (of_nat n :: cell) = n"
  using sint_of_int_cell [of "int n"] by (simp add: unat_of_nat)

lemma param_clamp_small:
  "param p params k = Some (of_nat n) \<Longrightarrow> n < 2147483648 \<Longrightarrow> param_clamp p params k = Some (of_nat n, p)"
  using small_count [of n] by (simp add: param_clamp_def)

lemma param_min_small:
  "param p params k = Some (of_nat n) \<Longrightarrow> n < 2147483648 \<Longrightarrow> n < l \<Longrightarrow> param_min p params k l = Some (of_nat n, p)"
  using small_count [of n] by (simp add: param_min_def)

lemma script_call_param:
  assumes "script_call p params args"
  shows "param p params 0 = Some (of_nat (4 * length args))" "i < length args \<Longrightarrow> param p params (Suc i) = Some (args ! i)"
  using assms by (simp_all add: script_call_def)

lemma two_strings_found:
  assumes "script_call p params (d # s # rest)" "STRGET p d = Some (Some old)" "STRGET p s = Some (Some src)"
  shows "two_strings p params (Suc 0) 2 = Some (Some (old, src))"
  using script_call_param(2) [OF assms(1), of 0] script_call_param(2) [OF assms(1), of 1] assms(2,3)
  by (simp add: two_strings_def numeral_2_eq_2)

lemma edit_finish:
  assumes "script_call p params (d # rest)" "room p d (length t)" "0 \<notin> set t"
  shows "\<exists>q. do { p1 \<leftarrow> param p params 1; p \<leftarrow> STRSET p p1 t; Some (0, p) } = Some ((0 :: cell), q)
      \<and> STRGET q d = Some (Some t)"
    "\<exists>q. set_first p params (t @ 0 # r) = Some (0, q) \<and> STRGET q d = Some (Some t)"
  using STRSET_STRGET [OF assms(2,3)] set_first_text [OF _ assms(2,3)] script_call_param(2) [OF assms(1), of 0]
  by auto

lemma str_copy:
  assumes "script_call p params [d, s]" "STRGET p s = Some (Some src)" "room p d (length src)"
  shows "\<exists>q. embryo_str_strcpy p params = Some (0, q) \<and> STRGET q d = Some (Some src)"
  using script_call_param [OF assms(1)] assms(2) edit_finish(1) [OF assms(1,3) STRGET_nonzero [OF assms(2)]]
  by (simp add: embryo_str_strcpy_def numeral_2_eq_2)

lemma nonzero_take: "0 \<notin> set s \<Longrightarrow> 0 \<notin> set (take n s)"
  using in_set_takeD by fast

lemma nonzero_drop: "0 \<notin> set s \<Longrightarrow> 0 \<notin> set (drop n s)"
  using in_set_dropD by fast

lemma script_call_3:
  assumes "script_call p params [d, s, of_nat n]" "n < 2147483648"
  shows "param p params 0 = Some 12" "param p params 2 = Some s" "param_clamp p params 3 = Some (of_nat n, p)"
  using script_call_param(1) [OF assms(1)] script_call_param(2) [OF assms(1), of 1]
    script_call_param(2) [OF assms(1), of 2] param_clamp_small [OF _ assms(2)]
  by (simp_all add: numeral_2_eq_2 numeral_3_eq_3)

lemma str_ncopy:
  assumes "script_call p params [d, s, of_nat n]" "STRGET p s = Some (Some src)" "n < 2147483648"
    "room p d (length (take n src))"
  shows "\<exists>q. embryo_str_strncpy p params = Some (0, q) \<and> STRGET q d = Some (Some (take n src))"
proof -
  have "embryo_str_strncpy p params = do { p1 \<leftarrow> param p params 1; p \<leftarrow> STRSET p p1 (take n src); Some (0, p) }"
    using script_call_3 [OF assms(1,3)] assms(2) small_count [OF assms(3)]
    by (simp add: embryo_str_strncpy_def Let_def)
  then show ?thesis
    using edit_finish(1) [OF assms(1,4) nonzero_take [OF STRGET_nonzero [OF assms(2)]]] by simp
qed

text \<open>A string copied into a fresh buffer and a second one appended.\<close>

lemma buffer_append:
  assumes "0 \<notin> set a" "length a + length b < n"
  obtains s3 r where "c_strcpy (stack_alloc stack n) 0 a = Some s3" "c_strcat s3 b = Some (a @ b @ 0 # r)"
proof -
  have "c_strcpy (stack_alloc stack n) 0 a = Some (a @ 0 # drop (length a + 1) (stack_alloc stack n))"
    using assms(2) by (simp add: c_strcpy_Some)
  with that c_strcat_text [OF assms(1), of b "drop (length a + 1) (stack_alloc stack n)"] assms(2)
  show thesis by simp
qed

lemma str_append:
  assumes "script_call p params [d, s]" "STRGET p d = Some (Some old)" "STRGET p s = Some (Some src)"
  shows "room p d (length (old @ src)) \<Longrightarrow>
      \<exists>q. embryo_str_strcat stack p params = Some (0, q) \<and> STRGET q d = Some (Some (old @ src))"
    "room p d (length (src @ old)) \<Longrightarrow>
      \<exists>q. embryo_str_strprep stack p params = Some (0, q) \<and> STRGET q d = Some (Some (src @ old))"
proof -
  note nz = STRGET_nonzero [OF assms(2)] STRGET_nonzero [OF assms(3)]
  note two = two_strings_found [OF assms]
  have c: "param p params 0 = Some 8" using script_call_param(1) [OF assms(1)] by simp
  show "\<exists>q. embryo_str_strcat stack p params = Some (0, q) \<and> STRGET q d = Some (Some (old @ src))"
    if room: "room p d (length (old @ src))"
  proof (rule buffer_append [OF nz(1), of src "length old + length src + 1" stack])
    fix s3 r assume "c_strcpy (stack_alloc stack (length old + length src + 1)) 0 old = Some s3"
      "c_strcat s3 src = Some (old @ src @ 0 # r)"
    then have "embryo_str_strcat stack p params = set_first p params ((old @ src) @ 0 # r)"
      by (simp add: embryo_str_strcat_def c two)
    then show ?thesis using edit_finish(2) [OF assms(1) room] nz by simp
  qed simp
  show "\<exists>q. embryo_str_strprep stack p params = Some (0, q) \<and> STRGET q d = Some (Some (src @ old))"
    if room: "room p d (length (src @ old))"
  proof (rule buffer_append [OF nz(2), of old "length old + length src + 1" stack])
    fix s3 r assume "c_strcpy (stack_alloc stack (length old + length src + 1)) 0 src = Some s3"
      "c_strcat s3 old = Some (src @ old @ 0 # r)"
    then have "embryo_str_strprep stack p params = set_first p params ((src @ old) @ 0 # r)"
      by (simp add: embryo_str_strprep_def c two)
    then show ?thesis using edit_finish(2) [OF assms(1) room] nz by simp
  qed simp
qed

lemma buf_write_at: "buf_write (a @ x # r) (length a) [y] = Some (a @ y # r)"
  by (simp add: buf_write_def)

lemma str_nappend:
  assumes "script_call p params [d, s, of_nat n]" "STRGET p d = Some (Some old)" "STRGET p s = Some (Some src)"
    "n < 2147483648" "room p d (length (old @ take n src))"
  shows "\<exists>q. embryo_str_strncat stack p params = Some (0, q) \<and> STRGET q d = Some (Some (old @ take n src))"
proof -
  note nz = STRGET_nonzero [OF assms(2)] nonzero_take [OF STRGET_nonzero [OF assms(3)]]
  show ?thesis
  proof (rule buffer_append [OF nz(1), of "take n src" "length old + length src + 1" stack])
    fix s3 r assume s3: "c_strcpy (stack_alloc stack (length old + length src + 1)) 0 old = Some s3"
      "c_strcat s3 (take n src) = Some (old @ take n src @ 0 # r)"
    then have "c_strncat s3 src n = Some ((old @ take n src) @ 0 # r)" by (simp add: c_strncat_def c_strcat_def)
    moreover have "buf_write ((old @ take n src) @ 0 # r) (length old + n) [0] = Some ((old @ take n src) @ 0 # r)"
      if "n \<le> length src"
      using buf_write_at [of "old @ take n src" 0 r 0] that by (simp add: min_absorb2)
    ultimately have "embryo_str_strncat stack p params = set_first p params ((old @ take n src) @ 0 # r)"
      using s3 script_call_3 [OF assms(1,4)] two_strings_found [OF assms(1-3)] small_count [OF assms(4)]
      by (simp add: embryo_str_strncat_def)
    then show ?thesis using edit_finish(2) [OF assms(1,5)] nz by simp
  qed (simp add: min_def)
qed

lemma str_nprepend:
  assumes "script_call p params [d, s, of_nat n]" "STRGET p d = Some (Some old)" "STRGET p s = Some (Some src)"
    "n < 2147483648"
  shows "n \<le> length old + length src + 1 \<Longrightarrow> room p d (length (take n src @ old)) \<Longrightarrow>
      \<exists>q. embryo_str_strnprep stack p params = Some (0, q) \<and> STRGET q d = Some (Some (take n src @ old))"
    "length old + length src + 1 < n \<Longrightarrow> embryo_str_strnprep stack p params = None"
proof -
  note nz = STRGET_nonzero [OF assms(2)] nonzero_take [OF STRGET_nonzero [OF assms(3)]]
  note pr = script_call_3 [OF assms(1,4)] two_strings_found [OF assms(1-3)] small_count [OF assms(4)]
  let ?buf = "stack_alloc stack (length old + length src + 1)"
  show "embryo_str_strnprep stack p params = None" if "length old + length src + 1 < n"
    using that pr by (simp add: embryo_str_strnprep_def c_strncpy_def buf_write_def)
  show "\<exists>q. embryo_str_strnprep stack p params = Some (0, q) \<and> STRGET q d = Some (Some (take n src @ old))"
    if fit: "n \<le> length old + length src + 1" and room: "room p d (length (take n src @ old))"
  proof -
    have "\<exists>s3 r. c_strncpy ?buf src n = Some s3 \<and> length old \<le> length r
      \<and> (if n \<le> length src then buf_write s3 n [0] else Some s3) = Some (take n src @ 0 # r)"
    proof (cases "n \<le> length src")
      case True
      obtain x r where r: "drop n ?buf = x # r" using True by (cases "drop n ?buf") auto
      then have "length old \<le> length r" using True arg_cong [OF r, of length, simplified] by simp
      moreover have "c_strncpy ?buf src n = Some (take n src @ x # r)"
        using True r by (simp add: c_strncpy_def buf_write_Some)
      ultimately show ?thesis
        using True buf_write_at [of "take n src" x r 0] by (auto simp: min_absorb2)
    next
      case False
      have "c_strncpy ?buf src n = Some (src @ replicate (n - length src) 0 @ drop n ?buf)"
        using False fit by (simp add: c_strncpy_def buf_write_Some)
      moreover have "replicate (n - length src) (0 :: u8) = 0 # replicate (n - length src - 1) 0"
        using False by (cases "n - length src") simp_all
      ultimately show ?thesis using False fit by simp
    qed
    then obtain s3 r where s3: "c_strncpy ?buf src n = Some s3" "length old \<le> length r"
      "(if n \<le> length src then buf_write s3 n [0] else Some s3) = Some (take n src @ 0 # r)" by blast
    have "c_strcat (take n src @ 0 # r) old = Some ((take n src @ old) @ 0 # drop (length old) r)"
      using c_strcat_text [OF nz(2) s3(2)] by simp
    then have "embryo_str_strnprep stack p params = set_first p params ((take n src @ old) @ 0 # drop (length old) r)"
      using pr s3 by (cases "n \<le> length src") (simp_all add: embryo_str_strnprep_def)
    then show ?thesis using edit_finish(2) [OF assms(1) room] nz by simp
  qed
qed

lemma str_cut:
  assumes "script_call p params [d, s, of_nat n, of_nat n2]" "STRGET p s = Some (Some src)"
    "n \<le> n2" "n2 < length src" "n2 < 2147483648" "room p d (length (take (n2 - n) (drop n src)))"
  shows "\<exists>q. embryo_str_strcut stack p params = Some (0, q) \<and> STRGET q d = Some (Some (take (n2 - n) (drop n src)))"
proof -
  let ?t = "take (n2 - n) (drop n src)"
  have nz: "0 \<notin> set ?t" by (intro nonzero_take nonzero_drop STRGET_nonzero [OF assms(2)])
  have k: "param p params 0 = Some 16" "param p params 2 = Some s" "param p params 3 = Some (of_nat n)"
    "param p params 4 = Some (of_nat n2)"
    using script_call_param(1) [OF assms(1)] script_call_param(2) [OF assms(1), of 1]
      script_call_param(2) [OF assms(1), of 2] script_call_param(2) [OF assms(1), of 3]
    by (simp_all add: numeral_eq_Suc)
  have n: "n < 2147483648" "n < length src" using assms(3-5) by simp_all
  note c = param_clamp_small [OF k(3) n(1)] param_min_small [OF k(3) n] param_min_small [OF k(4) assms(5,4)]
    small_count [OF n(1)] small_count [OF assms(5)]
  show ?thesis
  proof (cases "n = n2")
    case True
    then have "embryo_str_strcut stack p params = do { p1 \<leftarrow> param p params 1; p \<leftarrow> STRSET p p1 []; Some (0, p) }"
      using k assms(2) c by (simp add: embryo_str_strcut_def)
    then show ?thesis using edit_finish(1) [OF assms(1), of "[]"] assms(6) True by simp
  next
    case False
    have ne: "(of_nat n2 :: cell) \<noteq> of_nat n" using False c by metis
    have l: "length ?t = n2 - n" using assms(3,4) by simp
    have "buf_write (?t @ drop (n2 - n) (stack_alloc stack (n2 - n + 1))) (n2 - n) [0] = Some (?t @ [0])"
      using l by (simp add: buf_write_def)
    moreover have "c_strncpy (stack_alloc stack (n2 - n + 1)) (drop n src) (n2 - n)
        = Some (?t @ drop (n2 - n) (stack_alloc stack (n2 - n + 1)))"
      using assms(3,4) by (simp add: c_strncpy_def buf_write_Some)
    ultimately have "embryo_str_strcut stack p params = set_first p params (?t @ 0 # [])"
      using k assms(2,3) c ne by (simp add: embryo_str_strcut_def Let_def del: length_take length_drop)
    then show ?thesis using edit_finish(2) [OF assms(1,6) nz, of "[]"] by simp
  qed
qed

text \<open>
  C16: the string edits of scripts. Called with a buffer that has room for the result, the natives
  \<^verbatim>\<open>strcpy\<close>, \<^verbatim>\<open>strncpy\<close>, \<^verbatim>\<open>strcat\<close>, \<^verbatim>\<open>strncat\<close>, \<^verbatim>\<open>strprep\<close>, \<^verbatim>\<open>strnprep\<close> and
  \<^verbatim>\<open>strcut\<close> leave the text they are named for in it, and stay inside their buffers on the
  stack; for \<^verbatim>\<open>strnprep\<close> the count must not exceed the size of that buffer.
\<close>

theorem string_natives_edit:
  assumes "f \<in> {35, 36, 38, 39, 40, 41, 42}"
    and "script_call p params ([d, s] @ map of_nat (counts f n n2))"
    and "STRGET p d = Some (Some old)" "STRGET p s = Some (Some src)"
    and "room p d (length (edited f old src n n2))" "n < 2147483648" "n2 < 2147483648"
    and "f = 41 \<longrightarrow> n \<le> length old + length src + 1" "f = 42 \<longrightarrow> n \<le> n2 \<and> n2 < length src"
  shows "\<exists>q. builtin_natives stack fnm ffmt others f p params = Some (0, q)
    \<and> STRGET q d = Some (Some (edited f old src n n2))"
proof -
  consider "f = 35" | "f = 36" | "f = 38" | "f = 39" | "f = 40" | "f = 41" | "f = 42" using assms(1) by auto
  then show ?thesis
  proof cases
    case 1
    then show ?thesis using assms str_copy [of p params d s src] by (simp add: edited_def counts_def builtin_natives_def)
  next
    case 2
    then show ?thesis using assms str_ncopy [of p params d s n src] by (simp add: edited_def counts_def builtin_natives_def)
  next
    case 3
    then show ?thesis using assms str_append(1) [of p params d s old src stack]
      by (simp add: edited_def counts_def builtin_natives_def)
  next
    case 4
    then show ?thesis using assms str_nappend [of p params d s n old src stack]
      by (simp add: edited_def counts_def builtin_natives_def)
  next
    case 5
    then show ?thesis using assms str_append(2) [of p params d s old src stack]
      by (simp add: edited_def counts_def builtin_natives_def)
  next
    case 6
    then show ?thesis using assms str_nprepend(1) [of p params d s n old src stack]
      by (simp add: edited_def counts_def builtin_natives_def)
  next
    case 7
    then show ?thesis using assms str_cut [of p params d s n n2 src stack]
      by (simp add: edited_def counts_def builtin_natives_def)
  qed
qed

text \<open>
  A block with the strings ``ab'' at the data address 8 and ``c'' at 32, and at the block address
  100 the parameters of a call.
\<close>

definition text_block :: "cell list \<Rightarrow> embryo_program" where
  "text_block args = calloc_program\<lparr>ep_base := Some (cells_bytes (
     [0, 0, 0, 0, 56, 0, 200] @ replicate 7 0 @ [0, 0, 97, 98, 0, 0, 0, 0, 99, 0, 0]
     @ [of_nat (4 * length args)] @ args @ replicate (24 - length args) 0))\<rparr>"

theorem string_natives_edit_witness:
  "\<exists>q. builtin_natives (\<lambda>_. 7) (\<lambda>_ _. 0) (\<lambda>_. []) no_natives 38 (text_block [8, 32]) 100 = Some (0, q)
    \<and> STRGET q 8 = Some (Some [97, 98, 99])"
proof -
  have "script_call (text_block [8, 32]) 100 [8, 32]" by code_simp
  moreover have "STRGET (text_block [8, 32]) 8 = Some (Some [97, 98])" by code_simp
  moreover have "STRGET (text_block [8, 32]) 32 = Some (Some [99])" by code_simp
  moreover have "edited 38 [97, 98] [99] 0 0 = [97, 98, 99]" "counts 38 0 0 = []"
    by (simp_all add: edited_def counts_def)
  moreover have "room (text_block [8, 32]) 8 (length [97, 98, 99 :: u8])" by code_simp
  ultimately show ?thesis
    using string_natives_edit [of 38 "text_block [8, 32]" 100 8 32 0 0 "[97, 98]" "[99]" "\<lambda>_. 7" "\<lambda>_ _. 0" "\<lambda>_. []" no_natives]
    by (simp del: list.size)
qed

text \<open>
  C19: \<^verbatim>\<open>strnprep\<close> overruns its buffer. The buffer has room for both strings, but
  \<^verbatim>\<open>strncpy\<close> fills up to the count with zeros, so every larger count the script passes writes
  past the end of the buffer on the C stack.
\<close>

theorem strnprep_overruns:
  assumes "script_call p params [d, s, of_nat n]" "STRGET p d = Some (Some old)" "STRGET p s = Some (Some src)"
    and "n < 2147483648" "length old + length src + 1 < n"
  shows "embryo_str_strnprep stack p params = None"
  using str_nprepend(2) [OF assms] .

theorem strnprep_overruns_witness: "embryo_str_strnprep (\<lambda>_. 7) (text_block [8, 32, 5]) 100 = None"
proof -
  have "script_call (text_block [8, 32, 5]) 100 [8, 32, 5]" by code_simp
  moreover have "STRGET (text_block [8, 32, 5]) 8 = Some (Some [97, 98])" by code_simp
  moreover have "STRGET (text_block [8, 32, 5]) 32 = Some (Some [99])" by code_simp
  ultimately show ?thesis by (intro strnprep_overruns [of _ _ 8 32 5 "[97, 98]" "[99]"]) simp_all
qed

section \<open>The formatter\<close>

text \<open>The parameters a format may reach can be read, as cells, as pointers and as strings.\<close>

definition args_readable :: "embryo_program \<Rightarrow> int \<Rightarrow> nat \<Rightarrow> bool" where
  "args_readable p params n \<longleftrightarrow>
     (\<forall>k < n. case param p params k of None \<Rightarrow> False
        | Some par \<Rightarrow> \<not> Option.is_none (deref p par) \<and> \<not> Option.is_none (STRGET p par))"

lemma args_readableD:
  assumes "args_readable p params n" "k < n"
  obtains par v t where "param p params k = Some par" "deref p par = Some v" "STRGET p par = Some t"
  using assms unfolding args_readable_def Option.is_none_def by (fastforce split: option.splits)

lemma put_text_fits:
  assumes "length s2 = mx + 1" "o' < mx"
  shows "\<exists>o'' s2'. put_text mx o' s2 t = Some (o'', s2') \<and> o'' \<le> mx \<and> length s2' = mx + 1"
  using assms by (auto simp: put_text_def Let_def c_strcpy_Some)

definition fits :: "nat \<Rightarrow> nat \<Rightarrow> (nat \<times> nat \<times> u8 list) option \<Rightarrow> bool" where
  "fits k mx r \<longleftrightarrow> (case r of None \<Rightarrow> False | Some (k', o', s2) \<Rightarrow> k' \<le> k + 1 \<and> o' \<le> mx \<and> length s2 = mx + 1)"

lemma fits_if: "fits k mx x \<Longrightarrow> fits k mx y \<Longrightarrow> fits k mx (if c then x else y)"
  by simp

lemma str_convert_fits:
  assumes "args_readable p params n" "k < n" "length s2 = mx + 1" "o' < mx"
  shows "fits k mx (str_convert ffmt p params mx c k o' s2)"
proof -
  from args_readableD [OF assms(1,2)] obtain par v t where
    a: "param p params k = Some par" "deref p par = Some v" "STRGET p par = Some t" .
  have w: "\<exists>s2'. buf_write s2 o' [x] = Some s2' \<and> length s2' = mx + 1" for x
    using assms(3,4) by (simp add: buf_write_def)
  have number: "fits k mx (do { (o', s2) \<leftarrow> put_text mx o' s2 x; Some (k + 1, o', s2) })" for x
    using put_text_fits [OF assms(3,4), of x] by (auto simp: fits_def)
  have percent: "fits k mx (do { s2 \<leftarrow> buf_write s2 o' [37]; Some (k, o' + 1, s2) })"
    using w [of 37] assms(4) by (auto simp: fits_def)
  have char: "fits k mx (do { s2 \<leftarrow> (case v of None \<Rightarrow> Some s2 | Some v \<Rightarrow> buf_write s2 o' [ucast v]);
      Some (k + 1, o' + 1, s2) })"
    using w [of "ucast (the v)"] assms(3,4) by (cases v) (auto simp: fits_def)
  have str: "fits k mx (case t of None \<Rightarrow> Some (k + 1, o', s2)
      | Some tmp \<Rightarrow> do { (o', s2) \<leftarrow> put_text mx o' s2 tmp; Some (k + 1, o', s2) })"
    using number assms(3,4) by (cases t) (simp_all add: fits_def)
  have other: "fits k mx (Some (k, o', s2))" using assms(3,4) by (simp add: fits_def)
  show ?thesis
    unfolding str_convert_def Let_def a bind.bind_lunit by (intro fits_if number percent char str other)
qed

lemma snprintf_loop_fits:
  assumes "args_readable p params (pnum + length cs)" "length s2 = mx + 1" "o' \<le> mx"
  shows "\<exists>o'' s2'. str_snprintf_loop ffmt p params mx cs inesc insub pnum k o' s2 = Some (o'', s2')
    \<and> o'' \<le> mx \<and> length s2' = mx + 1"
  using assms
proof (induction cs arbitrary: inesc insub pnum k o' s2)
  case (Cons c cs)
  have mono: "args_readable p params (pnum + length cs)" "args_readable p params (Suc pnum + length cs)"
    using Cons.prems(1) by (simp_all add: args_readable_def)
  have w: "\<exists>s2'. buf_write s2 o' [x] = Some s2' \<and> length s2' = mx + 1" if "o' < mx" for x
    using Cons.prems(2) that by (simp add: buf_write_def)
  show ?case
  proof (cases "o' < mx \<and> k < pnum + 1")
    case True
    let ?n = "if c = 37 then pnum + 1 else pnum"
    have n: "args_readable p params (?n + length cs)" using mono by simp
    show ?thesis
    proof (cases "inesc \<or> \<not> insub")
      case True
      obtain s3 where "buf_write s2 o' [if inesc then if c = 116 then 9 else if c = 110 then 10 else c else c] = Some s3"
        "length s3 = mx + 1" using w \<open>o' < mx \<and> k < pnum + 1\<close> by blast
      then show ?thesis
        using True \<open>o' < mx \<and> k < pnum + 1\<close> Cons.IH [OF mono(1)] Cons.prems(2)
        by (auto split: if_splits)
    next
      case False
      then show ?thesis
      proof (cases "k < ?n")
        case True
        then have "k < pnum + length (c # cs)" by (simp split: if_splits)
        from str_convert_fits [OF Cons.prems(1) this Cons.prems(2), of o' ffmt c] \<open>o' < mx \<and> k < pnum + 1\<close>
        obtain k' o3 s3 where "str_convert ffmt p params mx c k o' s2 = Some (k', o3, s3)" "o3 \<le> mx"
          "length s3 = mx + 1" by (auto simp: fits_def split: option.splits)
        then show ?thesis
          using False True \<open>o' < mx \<and> k < pnum + 1\<close> Cons.IH [OF n] by (simp add: Let_def)
      next
        case k: False
        then show ?thesis
          using False \<open>o' < mx \<and> k < pnum + 1\<close> Cons.IH [OF n Cons.prems(2,3)] by (simp add: Let_def)
      qed
    qed
  qed (use Cons.prems in simp)
qed simp

text \<open>
  C18: the formatter stays inside its buffer. Whatever the format says, as long as the parameters it
  may reach can be read, the text and its terminator fit the \<open>mx + 1\<close> bytes of the buffer.
\<close>

theorem snprintf_fits:
  assumes "args_readable p params (pnum + length s1)" "length s2 = mx + 1"
  shows "\<exists>n s2'. str_snprintf ffmt p s1 s2 mx pnum params = Some (n, s2')
    \<and> n \<le> mx \<and> length s2' = mx + 1 \<and> s2' ! n = 0"
proof -
  obtain n s3 where "str_snprintf_loop ffmt p params mx s1 False False pnum 0 0 s2 = Some (n, s3)"
    "n \<le> mx" "length s3 = mx + 1"
    using snprintf_loop_fits [OF assms(1) assms(2)] by blast
  then show ?thesis by (auto simp: str_snprintf_def buf_write_def nth_append)
qed

theorem snprintf_fits_witness:
  "\<exists>n s2'. str_snprintf (\<lambda>_. []) (text_block [8]) [37, 115] (replicate 11 7) 10 1 104 = Some (n, s2')
    \<and> n \<le> 10 \<and> length s2' = 11 \<and> s2' ! n = 0"
proof -
  have "param (text_block [8]) 104 0 = Some 8" "param (text_block [8]) 104 1 = Some 0"
    "param (text_block [8]) 104 2 = Some 0" by code_simp+
  moreover have "\<not> Option.is_none (deref (text_block [8]) 8)" "\<not> Option.is_none (STRGET (text_block [8]) 8)"
    "\<not> Option.is_none (deref (text_block [8]) 0)" "\<not> Option.is_none (STRGET (text_block [8]) 0)"
    by code_simp+
  ultimately have "args_readable (text_block [8]) 104 (1 + length [37, 115 :: u8])"
    by (simp add: args_readable_def less_Suc_eq all_conj_distrib numeral_2_eq_2)
  from snprintf_fits [OF this, of "replicate 11 7" 10] show ?thesis by simp
qed

text \<open>Text without percent signs and backslashes is copied.\<close>

lemma snprintf_loop_plain:
  assumes "92 \<notin> set t" "37 \<notin> set t" "length s2 = mx + 1" "o' \<le> mx" "k \<le> pnum"
  shows "str_snprintf_loop ffmt p params mx t False False pnum k o' s2
    = Some (min mx (o' + length t), take o' s2 @ take (mx - o') t @ drop (min mx (o' + length t)) s2)"
  using assms
proof (induction t arbitrary: o' s2)
  case (Cons c t)
  show ?case
  proof (cases "o' < mx")
    case True
    define s3 where "s3 = take o' s2 @ c # drop (Suc o') s2"
    have s3: "buf_write s2 o' [c] = Some s3" "length s3 = mx + 1"
      using True Cons.prems(3) by (simp_all add: buf_write_def s3_def)
    have d: "drop (min mx (Suc o' + length t)) s3 = drop (min mx (Suc o' + length t)) s2"
    proof -
      have "drop j s3 = drop j s2" if "Suc o' \<le> j" for j
        using that True Cons.prems(3) by (simp add: s3_def drop_Cons' Suc_le_eq)
      then show ?thesis using True by simp
    qed
    have "take (Suc o') s3 = take o' s2 @ [c]" using True Cons.prems(3) by (simp add: s3_def)
    then show ?thesis
      using True Cons.prems s3 Cons.IH [of s3 "Suc o'"] d
      by (simp add: Suc_diff_Suc [OF True, symmetric] del: Suc_diff_Suc)
  qed (use Cons.prems in simp)
qed (simp add: min_def)

text \<open>
  C20: \<^verbatim>\<open>snprintf\<close> does not count the terminator. For a text without conversions that is at
  least as long as the size \<open>n\<close> the script gives for its buffer, it leaves \<open>n\<close> characters
  there, so with the terminator \<open>n + 1\<close> cells, and it returns 0.
\<close>

theorem snprintf_fills_buffer:
  assumes "script_call p params [d, of_nat n, fmt]" "STRGET p fmt = Some (Some t)" "92 \<notin> set t" "37 \<notin> set t"
    and "0 < n" "n < 2147483648" "n \<le> length t" "room p d n"
  shows "\<exists>q. embryo_str_snprintf stack ffmt p params = Some (0, q) \<and> STRGET q d = Some (Some (take n t))"
proof -
  let ?s2 = "0 # drop 1 (stack_alloc stack (n + 1))"
  have k: "param p params 0 = Some 12" "param p params 2 = Some (of_nat n)" "param p params 3 = Some fmt"
    using script_call_param(1) [OF assms(1)] script_call_param(2) [OF assms(1), of 1]
      script_call_param(2) [OF assms(1), of 2] by (simp_all add: numeral_eq_Suc)
  have b: "buf_write (stack_alloc stack (n + 1)) 0 [0] = Some ?s2" by (simp add: buf_write_def)
  have "str_snprintf_loop ffmt p (params + 16) n t False False 0 0 0 ?s2 = Some (n, take n t @ drop n ?s2)"
    using snprintf_loop_plain [OF assms(3,4), of ?s2 n 0 0 0] assms(7) by (simp add: min_absorb1)
  moreover obtain x where "drop n ?s2 = [x]"
  proof -
    have "length (drop n ?s2) = Suc 0" by simp
    then show thesis using that unfolding length_Suc_conv length_0_conv by blast
  qed
  moreover have "buf_write (take n t @ [x]) n [0] = Some (take n t @ 0 # [])"
    using buf_write_at [of "take n t" x "[]" 0] assms(7) by (simp add: min_absorb2)
  ultimately have "str_snprintf ffmt p t ?s2 n 0 (params + 16) = Some (n, take n t @ 0 # [])"
    by (simp add: str_snprintf_def)
  then have "embryo_str_snprintf stack ffmt p params = set_first p params (take n t @ 0 # [])"
    using k b assms(2,5) small_count [OF assms(6)] by (simp add: embryo_str_snprintf_def)
  moreover have "length (take n t) = n" using assms(7) by simp
  ultimately show ?thesis
    using edit_finish(2) [OF assms(1), of "take n t" "[]"] nonzero_take [OF STRGET_nonzero [OF assms(2)]] assms(8)
    by simp
qed

theorem snprintf_fills_buffer_witness:
  "\<exists>q. embryo_str_snprintf (\<lambda>_. 7) (\<lambda>_. []) (text_block [32, 2, 8]) 100 = Some (0, q)
    \<and> STRGET q 32 = Some (Some [97, 98])"
proof -
  have "script_call (text_block [32, 2, 8]) 100 [32, 2, 8]" by code_simp
  moreover have "STRGET (text_block [32, 2, 8]) 8 = Some (Some [97, 98])" by code_simp
  moreover have "room (text_block [32, 2, 8]) 32 2" by code_simp
  ultimately show ?thesis
    using snprintf_fills_buffer [of "text_block [32, 2, 8]" 100 32 2 8 "[97, 98]"] by simp
qed

end
