(* ===== verification/Eina_Unicode.thy ===== *)
theory Eina_Unicode
  imports Efl_Order
begin

text \<open>
  The Unicode strings of eina (\<^verbatim>\<open>src/src/lib/eina/eina_unicode.c\<close> and
  \<^verbatim>\<open>eina_inline_unicode.x\<close>): the string functions on zero-terminated arrays of code
  points, and the UTF-8 codec, which replaces every byte it cannot decode by a code point of
  the range 0xDC80 to 0xDCFF. \<^verbatim>\<open>Eina_Unicode\<close> is \<^verbatim>\<open>wchar_t\<close>, a signed 32-bit
  integer. A terminated string is given by the list of its elements before the terminator.
\<close>

section \<open>Strings\<close>

fun eina_unicode_strcmp :: "u32 list \<Rightarrow> u32 list \<Rightarrow> int" where
  "eina_unicode_strcmp [] [] = 0"
| "eina_unicode_strcmp [] (b # bs) = (if 0 < sint b then -1 else 1)"
| "eina_unicode_strcmp (a # as) [] = (if sint a < 0 then -1 else 1)"
| "eina_unicode_strcmp (a # as) (b # bs) =
     (if a = b then eina_unicode_strcmp as bs else if sint a < sint b then -1 else 1)"

definition eina_unicode_strlen :: "u32 list \<Rightarrow> nat" where
  "eina_unicode_strlen s = length s"

text \<open>\<^verbatim>\<open>strnlen\<close> compares addresses, so a negative \<open>n\<close> gives zero.\<close>

definition eina_unicode_strnlen :: "u32 list \<Rightarrow> int \<Rightarrow> nat" where
  "eina_unicode_strnlen s n = length (takeWhile (\<lambda>c. c \<noteq> 0) (take (nat n) s))"

text \<open>What \<^verbatim>\<open>strcpy\<close> and \<^verbatim>\<open>strncpy\<close> leave in the destination array.\<close>

fun strcpy_loop :: "u32 list \<Rightarrow> u32 list \<Rightarrow> u32 list option" where
  "strcpy_loop [] src = None"
| "strcpy_loop (d # dest) [] = Some (0 # dest)"
| "strcpy_loop (d # dest) (c # src) = map_option ((#) c) (strcpy_loop dest src)"

fun strncpy_loop :: "u32 list \<Rightarrow> u32 list \<Rightarrow> nat \<Rightarrow> u32 list option" where
  "strncpy_loop dest src 0 = Some dest"
| "strncpy_loop [] src (Suc n) = None"
| "strncpy_loop (d # dest) [] (Suc n) = map_option ((#) 0) (strncpy_loop dest [] n)"
| "strncpy_loop (d # dest) (c # src) (Suc n) = map_option ((#) c) (strncpy_loop dest src n)"

text \<open>
  \<^verbatim>\<open>strstr\<close>: positions in the haystack, \<open>None\<close> for a read past its terminator. The inner
  loop runs on the same position \<open>i\<close> as the outer one.
\<close>

definition at :: "u32 list \<Rightarrow> nat \<Rightarrow> u32 option" where
  "at s i = (if i < length s then Some (s ! i) else if i = length s then Some 0 else None)"

fun strstr_inner :: "u32 list \<Rightarrow> nat \<Rightarrow> u32 list \<Rightarrow> nat \<times> u32 list" where
  "strstr_inner hay i [] = (i, [])"
| "strstr_inner hay i (n # ns) =
     (if i < length hay \<and> hay ! i \<noteq> 0 \<and> n = hay ! i then strstr_inner hay (i + 1) ns
      else (i, n # ns))"

lemma strstr_inner_ge: "strstr_inner hay i needle = (i', rest) \<Longrightarrow> i \<le> i'"
  by (induction hay i needle rule: strstr_inner.induct) (auto split: if_splits)

function strstr_loop :: "u32 list \<Rightarrow> u32 list \<Rightarrow> nat \<Rightarrow> nat option option" where
  "strstr_loop hay needle i =
     (if length hay < i then None
      else if i = length hay then Some None
      else if hay ! i = 0 then Some None
      else let (i', rest) = strstr_inner hay i needle in
           if rest = [] then Some (Some i) else strstr_loop hay needle (i' + 1))"
  by pat_completeness auto
termination
  by (relation "measure (\<lambda>(hay, needle, i). length hay - i)")
    (auto dest!: strstr_inner_ge [OF sym] intro!: diff_less_mono2)

declare strstr_loop.simps [simp del]

definition eina_unicode_strstr :: "u32 list \<Rightarrow> u32 list \<Rightarrow> nat option option" where
  "eina_unicode_strstr hay needle = strstr_loop hay needle 0"

text \<open>\<open>ok\<close>: the success of the allocation.\<close>

fun escape_loop :: "u32 list \<Rightarrow> u32 list" where
  "escape_loop [] = []"
| "escape_loop (c # s) =
     (if c = 32 \<or> c = 92 \<or> c = 39 then 92 # c # escape_loop s else c # escape_loop s)"

definition eina_unicode_escape :: "bool \<Rightarrow> u32 list \<Rightarrow> u32 list option" where
  "eina_unicode_escape ok s = (if ok then Some (escape_loop s) else None)"

text \<open>\<^verbatim>\<open>strndup\<close> copies \<open>n\<close> elements of the array at \<open>text\<close>, whatever they are.\<close>

definition eina_unicode_strndup :: "bool \<Rightarrow> u32 list \<Rightarrow> nat \<Rightarrow> u32 list option option" where
  "eina_unicode_strndup ok text n =
     (if \<not> ok then Some None
      else if n \<le> length text then Some (Some (take n text @ [0])) else None)"

definition eina_unicode_strdup :: "bool \<Rightarrow> u32 list \<Rightarrow> u32 list option option" where
  "eina_unicode_strdup ok text = eina_unicode_strndup ok text (eina_unicode_strlen text)"

section \<open>Properties of the string functions\<close>

lemma eina_unicode_strcmp_eq_0: "eina_unicode_strcmp a b = 0 \<longleftrightarrow> a = b"
  by (induction a b rule: eina_unicode_strcmp.induct) auto

lemma eina_unicode_strcmp_flip:
  "0 \<notin> set a \<Longrightarrow> 0 \<notin> set b \<Longrightarrow> eina_unicode_strcmp b a = - eina_unicode_strcmp a b"
proof (induction a b rule: eina_unicode_strcmp.induct)
  case (2 b bs)
  then have "sint b \<noteq> 0" by (metis list.set_intros(1) signed_eq_0_iff)
  then show ?case by simp
next
  case (3 a as)
  then have "sint a \<noteq> 0" by (metis list.set_intros(1) signed_eq_0_iff)
  then show ?case by simp
next
  case (4 a as b bs)
  have "sint b = sint a \<longleftrightarrow> b = a" by (auto intro: signed_word_eqI)
  with 4 show ?case by auto
qed simp

lemma strcpy_loop_eq:
  "strcpy_loop dest src =
     (if length src < length dest then Some (src @ 0 # drop (Suc (length src)) dest) else None)"
  by (induction dest src rule: strcpy_loop.induct) auto

lemma strncpy_loop_eq:
  "strncpy_loop dest src n =
     (if n \<le> length dest then Some (take n (src @ replicate n 0) @ drop n dest) else None)"
proof (induction dest src n rule: strncpy_loop.induct)
  case (3 d dest n)
  then show ?case by (cases n) auto
next
  case (4 d dest c src n)
  then show ?case by (simp add: replicate_append_same [symmetric] del: replicate.simps)
qed auto

lemma strdup_copies: "eina_unicode_strdup True text = Some (Some (text @ [0]))"
  by (simp add: eina_unicode_strdup_def eina_unicode_strndup_def eina_unicode_strlen_def)

lemma escape_loop_length: "length (escape_loop s) \<le> 2 * length s"
  by (induction s) auto

text \<open>
  What \<^verbatim>\<open>strstr\<close> finds is an occurrence; it does not find every one, because the inner
  loop moves the outer one past the characters it has compared.
\<close>

lemma strstr_inner_match:
  "strstr_inner hay i needle = (i', []) \<Longrightarrow> take (length needle) (drop i hay) = needle"
proof (induction hay i needle rule: strstr_inner.induct)
  case (2 hay i n ns)
  then show ?case by (auto simp: take_Suc hd_drop_conv_nth tl_drop drop_Suc [symmetric] split: if_splits)
qed simp

lemma strstr_loop_match:
  "strstr_loop hay needle i = Some (Some p) \<Longrightarrow> take (length needle) (drop p hay) = needle"
proof (induction hay needle i rule: strstr_loop.induct)
  case (1 hay needle i)
  then show ?case
    by (subst (asm) (2) strstr_loop.simps)
      (auto split: if_splits prod.splits dest: strstr_inner_match)
qed

text \<open>A position \<^verbatim>\<open>eina_unicode_strstr\<close> returns is an occurrence of the needle.\<close>

theorem strstr_sound:
  assumes "eina_unicode_strstr hay needle = Some (Some p)"
  shows "take (length needle) (drop p hay) = needle"
  using assms unfolding eina_unicode_strstr_def by (rule strstr_loop_match)

theorem strstr_sound_witness: "take (length [98 :: u32, 97]) (drop 1 [97 :: u32, 98, 97, 99]) = [98, 97]"
  by (rule strstr_sound) code_simp

text \<open>An occurrence it misses, and a string on which it reads past the terminator.\<close>

lemma strstr_misses:
  "eina_unicode_strstr [97, 97, 97, 98] [97, 97, 98] = Some None"
  "take (length [97 :: u32, 97, 98]) (drop 1 [97, 97, 97, 98]) = [97, 97, 98 :: u32]"
  "eina_unicode_strstr [97, 97] [97, 97, 98] = None"
  by code_simp+

section \<open>Decoding\<close>

text \<open>A byte of the buffer: the string, its terminator, or out of bounds.\<close>

definition rd :: "u8 list \<Rightarrow> nat \<Rightarrow> u8 option" where
  "rd buf i = (if i < length buf then Some (buf ! i) else if i = length buf then Some 0 else None)"

definition is_invalid_byte :: "u8 \<Rightarrow> bool" where
  "is_invalid_byte x \<longleftrightarrow> x = 192 \<or> x = 193 \<or> 245 \<le> x"

definition is_continuation_byte :: "u8 \<Rightarrow> bool" where
  "is_continuation_byte x \<longleftrightarrow> x AND 0xC0 = 0x80"

text \<open>The error exit: the byte at \<^verbatim>\<open>*iindex\<close> becomes a replacement code point.\<close>

definition utf8_error :: "u8 list \<Rightarrow> nat \<Rightarrow> (u32 \<times> nat) option" where
  "utf8_error buf i = map_option (\<lambda>d. (0xDC80 OR ucast d, i + 1)) (rd buf i)"

text \<open>
  The next byte of a sequence, \<open>k\<close> the code after the test; \<open>i\<close> is \<^verbatim>\<open>*iindex\<close>.
\<close>

definition cont_byte ::
    "u8 list \<Rightarrow> nat \<Rightarrow> nat \<Rightarrow> (u8 \<Rightarrow> (u32 \<times> nat) option) \<Rightarrow> (u32 \<times> nat) option" where
  "cont_byte buf i ind k =
     (case rd buf ind of None \<Rightarrow> None
      | Some d \<Rightarrow>
          if d = 0 \<or> is_invalid_byte d \<or> \<not> is_continuation_byte d then utf8_error buf i else k d)"

definition bits6 :: "u8 \<Rightarrow> u32" where
  "bits6 d = ucast (d AND 0x3f)"

definition utf8_next_get_long :: "nat \<Rightarrow> u8 \<Rightarrow> u8 list \<Rightarrow> nat \<Rightarrow> (u32 \<times> nat) option" where
  "utf8_next_get_long ind d buf i =
     (if d AND 0xf0 = 0xe0 then
        cont_byte buf i ind (\<lambda>d1. cont_byte buf i (ind + 1) (\<lambda>d2.
          let r = push_bit 12 (ucast (d AND 0x0f)) OR push_bit 6 (bits6 d1) OR bits6 d2
          in if r \<le> 0x7FF then utf8_error buf i else Some (r, ind + 2)))
      else if d AND 0xf8 = 0xf0 then
        cont_byte buf i ind (\<lambda>d1. cont_byte buf i (ind + 1) (\<lambda>d2. cont_byte buf i (ind + 2) (\<lambda>d3.
          let r = push_bit 18 (ucast (d AND 0x07)) OR push_bit 12 (bits6 d1)
                  OR push_bit 6 (bits6 d2) OR bits6 d3
          in if r \<le> 0xFFFF then utf8_error buf i else Some (r, ind + 3))))
      else if d AND 0xfc = 0xf8 then
        cont_byte buf i ind (\<lambda>d1. cont_byte buf i (ind + 1) (\<lambda>d2. cont_byte buf i (ind + 2) (\<lambda>d3.
          cont_byte buf i (ind + 3) (\<lambda>d4.
          let r = push_bit 24 (ucast (d AND 0x03)) OR push_bit 18 (bits6 d1)
                  OR push_bit 12 (bits6 d2) OR push_bit 6 (bits6 d3) OR bits6 d4
          in if r \<le> 0x1FFFFF then utf8_error buf i else Some (r, ind + 4)))))
      else if d AND 0xfe = 0xfc then
        cont_byte buf i ind (\<lambda>d1. cont_byte buf i (ind + 1) (\<lambda>d2. cont_byte buf i (ind + 2) (\<lambda>d3.
          cont_byte buf i (ind + 3) (\<lambda>d4. cont_byte buf i (ind + 4) (\<lambda>d5.
          let r = push_bit 30 (ucast (d AND 0x01)) OR push_bit 24 (bits6 d1)
                  OR push_bit 18 (bits6 d2) OR push_bit 12 (bits6 d3)
                  OR push_bit 6 (bits6 d4) OR bits6 d5
          in if r \<le> 0x3FFFFFF then utf8_error buf i else Some (r, ind + 5))))))
      else utf8_error buf i)"

definition eina_unicode_utf8_next_get :: "u8 list \<Rightarrow> nat \<Rightarrow> (u32 \<times> nat) option" where
  "eina_unicode_utf8_next_get buf i =
     (case rd buf i of None \<Rightarrow> None
      | Some d \<Rightarrow>
          if d = 0 then Some (0, i)
          else if d AND 0x80 = 0 then Some (ucast d, i + 1)
          else if d AND 0xe0 = 0xc0 then
            cont_byte buf i (i + 1) (\<lambda>d1.
              let r = push_bit 6 (ucast (d AND 0x1f)) OR bits6 d1
              in if r \<le> 0x7F then utf8_error buf i else Some (r, i + 2))
          else utf8_next_get_long (i + 1) d buf i)"

section \<open>Progress of the decoder\<close>

text \<open>
  One step from inside the string stays inside it, moves on, and does not return zero.
\<close>

definition step_ok :: "u8 list \<Rightarrow> nat \<Rightarrow> (u32 \<times> nat) option \<Rightarrow> bool" where
  "step_ok buf i res \<longleftrightarrow>
     (case res of None \<Rightarrow> False | Some (r, i') \<Rightarrow> r \<noteq> 0 \<and> i < i' \<and> i' \<le> length buf)"

lemma step_ok_error: "i < length buf \<Longrightarrow> step_ok buf i (utf8_error buf i)"
proof -
  have "bit (0xDC80 OR ucast (d :: u8) :: u32) 7" for d by (simp add: bit_or_iff)
  then have "(0xDC80 OR ucast (d :: u8) :: u32) \<noteq> 0" for d by (metis bit_0_eq bot_apply bot_bool_def)
  then show "i < length buf \<Longrightarrow> step_ok buf i (utf8_error buf i)"
    by (simp add: step_ok_def utf8_error_def rd_def)
qed

lemma step_ok_cont:
  assumes "i < length buf" "ind \<le> length buf"
    and "\<And>d. ind < length buf \<Longrightarrow> step_ok buf i (k d)"
  shows "step_ok buf i (cont_byte buf i ind k)"
  using assms step_ok_error [OF assms(1)]
  by (auto simp: cont_byte_def rd_def split: option.split)

lemma step_ok_if:
  "(b \<Longrightarrow> step_ok buf i x) \<Longrightarrow> (\<not> b \<Longrightarrow> step_ok buf i y) \<Longrightarrow> step_ok buf i (if b then x else y)"
  by simp

lemma step_ok_value:
  "\<not> r \<le> c \<Longrightarrow> i < i' \<Longrightarrow> i' \<le> length buf \<Longrightarrow> step_ok buf i (Some (r, i'))"
  by (auto simp: step_ok_def)

lemma step_ok_long:
  assumes "i < length buf"
  shows "step_ok buf i (utf8_next_get_long (i + 1) d buf i)"
  unfolding utf8_next_get_long_def Let_def
  by (intro step_ok_if step_ok_cont step_ok_error assms; (erule step_ok_value)?; use assms in simp)

lemma ucast_u8_eq_0 [simp]: "(ucast (d :: u8) :: u32) = 0 \<longleftrightarrow> d = 0"
proof -
  have "unat (ucast d :: u32) = unat d" by (simp add: unsigned_ucast_eq take_bit_nat_eq_self_iff
      order_less_trans [OF unat_less_256])
  then show ?thesis by (metis unat_0 unat_eq_zero)
qed

lemma step_ok_next:
  assumes "i < length buf" "buf ! i \<noteq> 0"
  shows "step_ok buf i (eina_unicode_utf8_next_get buf i)"
proof -
  have "step_ok buf i (if d AND 0x80 = 0 then Some (ucast d, i + 1)
      else if d AND 0xe0 = 0xc0 then
        cont_byte buf i (i + 1) (\<lambda>d1.
          let r = push_bit 6 (ucast (d AND 0x1f)) OR bits6 d1
          in if r \<le> 0x7F then utf8_error buf i else Some (r, i + 2))
      else utf8_next_get_long (i + 1) d buf i)" if "d \<noteq> 0" for d
    unfolding Let_def
    by (intro step_ok_if step_ok_cont step_ok_error assms step_ok_long; (erule step_ok_value)?;
        use assms that in \<open>simp add: step_ok_def unsigned_eq_0_iff\<close>)
  from this [OF assms(2)] show ?thesis
    using assms by (simp add: eina_unicode_utf8_next_get_def rd_def)
qed

section \<open>Whole strings\<close>

lemma next_get_end: "eina_unicode_utf8_next_get buf (length buf) = Some (0, length buf)"
  by (simp add: eina_unicode_utf8_next_get_def rd_def)

lemma next_get_progress:
  assumes "eina_unicode_utf8_next_get buf i = Some (r, i')" "r \<noteq> 0"
  shows "i < i'" "i' \<le> length buf"
proof -
  have "i < length buf" "buf ! i \<noteq> 0"
    using assms by (auto simp: eina_unicode_utf8_next_get_def rd_def split: if_splits)
  from step_ok_next [OF this] assms show "i < i'" "i' \<le> length buf"
    by (simp_all add: step_ok_def)
qed

lemma next_get_less:
  "eina_unicode_utf8_next_get buf i = Some (r, i') \<Longrightarrow> r \<noteq> 0 \<Longrightarrow> length buf - i' < length buf - i"
  using next_get_progress [of buf i r i'] by (intro diff_less_mono2) auto

function get_len_from :: "u8 list \<Rightarrow> nat \<Rightarrow> nat option" where
  "get_len_from buf i =
     (case eina_unicode_utf8_next_get buf i of None \<Rightarrow> None
      | Some (r, i') \<Rightarrow> if r = 0 then Some 0 else map_option Suc (get_len_from buf i'))"
  by pat_completeness auto
termination
  by (relation "measure (\<lambda>(buf, i). length buf - i)")
    (auto dest: next_get_less)

declare get_len_from.simps [simp del]

definition eina_unicode_utf8_get_len :: "u8 list \<Rightarrow> nat option" where
  "eina_unicode_utf8_get_len buf = get_len_from buf 0"

fun to_unicode_loop :: "nat \<Rightarrow> u8 list \<Rightarrow> nat \<Rightarrow> u32 list option" where
  "to_unicode_loop 0 buf ind = Some []"
| "to_unicode_loop (Suc n) buf ind =
     do { (r, ind) \<leftarrow> eina_unicode_utf8_next_get buf ind;
          map_option ((#) r) (to_unicode_loop n buf ind) }"

text \<open>\<open>ok\<close>: the success of the allocation; the inner option is NULL.\<close>

definition eina_unicode_utf8_to_unicode :: "bool \<Rightarrow> u8 list \<Rightarrow> u32 list option option" where
  "eina_unicode_utf8_to_unicode ok utf =
     do { len \<leftarrow> eina_unicode_utf8_get_len utf;
          if \<not> ok then Some None else map_option Some (to_unicode_loop len utf 0) }"

text \<open>Stepping back to the start of the previous sequence.\<close>

fun prev_start :: "u8 list \<Rightarrow> nat \<Rightarrow> nat option" where
  "prev_start buf 0 = Some 0"
| "prev_start buf (Suc ind) =
     do { d \<leftarrow> rd buf (Suc ind); if d AND 0xc0 = 0x80 then prev_start buf ind else Some (Suc ind) }"

definition eina_unicode_utf8_get_prev :: "u8 list \<Rightarrow> nat \<Rightarrow> (u32 \<times> nat) option" where
  "eina_unicode_utf8_get_prev buf i =
     do { (r, ind) \<leftarrow> eina_unicode_utf8_next_get buf i;
          if i = 0 then Some (r, i) else do { ind \<leftarrow> prev_start buf (i - 1); Some (r, ind) } }"

section \<open>Encoding\<close>

definition utf8_cont :: "u32 \<Rightarrow> u8" where
  "utf8_cont c = 0x80 OR ucast (c AND 0x3F)"

definition utf8_bytes :: "u32 \<Rightarrow> u8 list" where
  "utf8_bytes c =
     (if sint c \<le> 0x7F then [ucast c]
      else if sint c \<le> 0x7FF then [0xC0 OR ucast (drop_bit 6 c), utf8_cont c]
      else if sint c \<le> 0xFFFF then
        (if 0xDC80 \<le> sint c \<and> sint c \<le> 0xDCFF then [ucast (c AND 0xFF)]
         else [0xE0 OR ucast (drop_bit 12 c), utf8_cont (drop_bit 6 c), utf8_cont c])
      else if sint c \<le> 0x1FFFFF then
        [0xF0 OR ucast (drop_bit 18 c AND 0x07), utf8_cont (drop_bit 12 c),
         utf8_cont (drop_bit 6 c), utf8_cont c]
      else if sint c \<le> 0x3FFFFFF then
        [0xF8 OR ucast (drop_bit 24 c AND 0x03), utf8_cont (drop_bit 18 c),
         utf8_cont (drop_bit 12 c), utf8_cont (drop_bit 6 c), utf8_cont c]
      else
        [0xFC OR ucast (drop_bit 30 c AND 0x01), utf8_cont (drop_bit 24 c),
         utf8_cont (drop_bit 18 c), utf8_cont (drop_bit 12 c), utf8_cont (drop_bit 6 c),
         utf8_cont c])"

fun to_utf8_loop :: "u32 list \<Rightarrow> nat \<Rightarrow> u8 list" where
  "to_utf8_loop [] n = []"
| "to_utf8_loop (c # cs) n =
     (if c = 0 \<or> n = 0 then [] else utf8_bytes c @ to_utf8_loop cs (n - 1))"

definition EINA_UNICODE_UTF8_BYTES_PER_CHAR :: int where
  "EINA_UNICODE_UTF8_BYTES_PER_CHAR = 6"

text \<open>
  The bytes are written one after the other into a block of
  \<^verbatim>\<open>(ulen + 1) * EINA_UNICODE_UTF8_BYTES_PER_CHAR\<close> bytes, a product of type \<^verbatim>\<open>int\<close>, and counted in an
  \<^verbatim>\<open>int\<close>, \<^verbatim>\<open>len\<close>: a write past the block and an overflow of \<^verbatim>\<open>len + 1\<close> have no value. \<open>Some None\<close> is the
  NULL that a failed allocation gives.
\<close>

definition to_utf8_size :: "int \<Rightarrow> nat" where
  "to_utf8_size ulen = size_of_int (word_of_int ((ulen + 1) * EINA_UNICODE_UTF8_BYTES_PER_CHAR))"

definition eina_unicode_unicode_to_utf8_range ::
    "bool \<Rightarrow> u32 list \<Rightarrow> int \<Rightarrow> u8 list option option" where
  "eina_unicode_unicode_to_utf8_range ok uni ulen =
     (if ok
      then let b = to_utf8_loop uni (nat ulen) in
           if length b \<le> to_utf8_size ulen \<and> length b + 1 < 2 ^ 31 then Some (Some b) else None
      else Some None)"

definition eina_unicode_unicode_to_utf8 :: "bool \<Rightarrow> u32 list \<Rightarrow> u8 list option option" where
  "eina_unicode_unicode_to_utf8 ok uni =
     eina_unicode_unicode_to_utf8_range ok uni (sint (of_nat (eina_unicode_strlen uni) :: u32))"

section \<open>Groups of six bits\<close>

definition J :: "u32 \<Rightarrow> u32 \<Rightarrow> u32" where
  "J x y = push_bit 6 x OR y"

lemma J_2: "push_bit 12 a OR push_bit 6 b OR c = J (J a b) c"
  by (simp add: J_def push_bit_or or.assoc)

lemma J_3: "push_bit 18 a OR push_bit 12 b OR push_bit 6 c OR d = J (J (J a b) c) d"
  by (simp add: J_def push_bit_or or.assoc)

lemma J_4: "push_bit 24 a OR push_bit 18 b OR push_bit 12 c OR push_bit 6 d OR e
    = J (J (J (J a b) c) d) e"
  by (simp add: J_def push_bit_or or.assoc)

lemma J_5: "push_bit 30 a OR push_bit 24 b OR push_bit 18 c OR push_bit 12 d OR push_bit 6 e OR f
    = J (J (J (J (J a b) c) d) e) f"
  by (simp add: J_def push_bit_or or.assoc)

lemmas J_folds = J_2 J_3 J_4 J_5 J_def [symmetric]

lemma and_3f: "(x :: u32) AND 0x3F = take_bit 6 x"
proof -
  have "(0x3F :: u32) = mask 6" by (simp add: mask_eq_exp_minus_1)
  then show ?thesis by (simp add: take_bit_eq_mask)
qed

lemma drop_J:
  assumes "take_bit 26 x = x" "take_bit 6 y = y"
  shows "drop_bit 6 (J x y) = x"
proof (rule bit_word_eqI)
  fix n assume n: "n < LENGTH(32)"
  have "bit x n \<longleftrightarrow> n < 26 \<and> bit x n" "\<not> bit y (6 + n)"
    using assms by (metis bit_take_bit_iff, metis bit_take_bit_iff not_add_less1)
  with n show "bit (drop_bit 6 (J x y)) n = bit x n" by (auto simp: J_def bit_simps)
qed

lemma take_J: "take_bit 6 y = y \<Longrightarrow> take_bit 6 (J x y) = y"
proof (rule bit_word_eqI)
  fix n assume n: "n < LENGTH(32)" and y: "take_bit 6 y = y"
  have "bit y n \<longleftrightarrow> n < 6 \<and> bit y n" using y by (metis bit_take_bit_iff)
  with n show "bit (take_bit 6 (J x y)) n = bit y n" by (auto simp: J_def bit_simps)
qed

lemma J_split: "J (drop_bit 6 c) (take_bit 6 c) = c"
  by (rule bit_word_eqI) (auto simp: J_def bit_simps)

lemma unat_J:
  assumes "take_bit 26 x = x" "take_bit 6 y = y"
  shows "unat (J x y) = 64 * unat x + unat y"
proof -
  have "unat (J x y) = 64 * (unat (J x y) div 64) + unat (J x y) mod 64" by simp
  also have "unat (J x y) div 64 = unat x"
    using unat_drop_bit_div [of 6 "J x y"] drop_J [OF assms] by simp
  also have "unat (J x y) mod 64 = unat y"
    using unat_take_bit_mod [of 6 "J x y"] take_J [OF assms(2)] by simp
  finally show ?thesis .
qed

text \<open>A number below \<open>2 ^ k\<close> is its own last \<open>k\<close> bits.\<close>

lemma take_bit_less: "unat (x :: u32) < 2 ^ k \<Longrightarrow> take_bit k x = x"
  using unat_take_bit_mod [of k x] by (metis mod_less unsigned_word_eqI)

lemma unat_take_bit_6: "unat (take_bit 6 (x :: u32)) < 64"
  using unat_take_bit_mod [of 6 x] by simp

section \<open>Bytes of a sequence\<close>

lemma unat_and_3f: "unat ((x :: u8) AND 0x3F) < 64"
proof -
  have "x AND 0x3F = take_bit 6 x" by (simp add: take_bit_eq_mask mask_eq_exp_minus_1)
  then show ?thesis by (simp add: unat_take_bit_mod)
qed

lemma mask_parts: "(m :: u8) OR n = -1 \<Longrightarrow> x AND m = k \<Longrightarrow> k OR (x AND n) = x"
  by (metis bit.conj_disj_distrib bit.conj_one_right)

lemma continuation_byte:
  assumes "is_continuation_byte x"
  shows "\<not> is_invalid_byte x" "x \<noteq> 0" "0x80 OR (x AND 0x3F) = x"
proof -
  have x: "x AND 0xC0 = 0x80" using assms by (simp add: is_continuation_byte_def)
  then show e: "0x80 OR (x AND 0x3F) = x" by (rule mask_parts [rotated]) simp
  have "0x80 AND (x AND 0x3F) = 0" by (simp add: and.left_commute)
  then have "x = 0x80 + (x AND 0x3F)" using e by (metis word_plus_and_or add_0)
  then have "unat x = unat (0x80 + (x AND 0x3F))" by simp
  also have "\<dots> = 0x80 + unat (x AND 0x3F)"
    using unat_and_3f [of x] by (simp add: unat_word_ariths)
  finally have u: "128 \<le> unat x" "unat x < 192" using unat_and_3f [of x] by linarith+
  then show "x \<noteq> 0" by auto
  show "\<not> is_invalid_byte x" using u by (auto simp: is_invalid_byte_def word_le_nat_alt)
qed

lemma continuation_payload:
  "is_continuation_byte (0x80 OR (x AND 0x3F))" "(0x80 OR (x AND 0x3F)) AND 0x3F = x AND 0x3F"
  by (simp_all add: is_continuation_byte_def bit.conj_disj_distrib2 and.assoc)

lemma ascii_byte: "(x :: u8) AND 0x80 = 0 \<Longrightarrow> unat x < 128"
  by (simp add: u8_and_80 u8_bit7)

lemma low_not_continuation: "take_bit 7 (x :: u8) AND 0xC0 \<noteq> 0x80"
proof
  assume "take_bit 7 x AND 0xC0 = 0x80"
  then have "bit (take_bit 7 x AND 0xC0) 7 = bit (0x80 :: u8) 7" by simp
  then show False by (simp add: bit_and_iff bit_take_bit_iff)
qed

lemma and_masks:
  "(x :: u8) AND 0x1f = take_bit 5 x" "x AND 0x0f = take_bit 4 x" "x AND 0x07 = take_bit 3 x"
  "x AND 0x03 = take_bit 2 x" "x AND 0x01 = take_bit 1 x"
  by (simp_all add: take_bit_eq_mask mask_eq_exp_minus_1)

lemma lead_bytes:
  "(x :: u8) AND 0xe0 = 0xc0 \<Longrightarrow> 0xC0 OR (x AND 0x1f) = x"
  "x AND 0xf0 = 0xe0 \<Longrightarrow> 0xE0 OR (x AND 0x0f) = x"
  "x AND 0xf8 = 0xf0 \<Longrightarrow> 0xF0 OR (x AND 0x07) = x"
  "x AND 0xfc = 0xf8 \<Longrightarrow> 0xF8 OR (x AND 0x03) = x"
  "x AND 0xfe = 0xfc \<Longrightarrow> 0xFC OR (x AND 0x01) = x"
  by (rule mask_parts; simp)+

lemma unat_masks:
  "unat ((x :: u8) AND 0x1f) < 32" "unat (x AND 0x0f) < 16" "unat (x AND 0x07) < 8"
  "unat (x AND 0x03) < 4" "unat (x AND 0x01) < 2"
  by (simp_all only: and_masks unat_take_bit_mod) simp_all

lemmas and_or_u8 = bit.conj_disj_distrib2 [where 'a = "8 word"]

lemma lead_2: "(0xC0 OR ((x :: u8) AND 0x1f)) AND 0x80 = 0x80" "(0xC0 OR (x AND 0x1f)) AND 0xe0 = 0xc0"
    "(0xC0 OR (x AND 0x1f)) AND 0x1f = x AND 0x1f"
  by (simp_all add: bit.conj_disj_distrib2 and.assoc)

lemma lead_3: "(0xE0 OR ((x :: u8) AND 0x0f)) AND 0x80 = 0x80" "(0xE0 OR (x AND 0x0f)) AND 0xe0 = 0xe0"
    "(0xE0 OR (x AND 0x0f)) AND 0xf0 = 0xe0" "(0xE0 OR (x AND 0x0f)) AND 0x0f = x AND 0x0f"
  by (simp_all add: bit.conj_disj_distrib2 and.assoc)

lemma lead_4: "(0xF0 OR ((x :: u8) AND 0x07)) AND 0x80 = 0x80" "(0xF0 OR (x AND 0x07)) AND 0xe0 = 0xe0"
    "(0xF0 OR (x AND 0x07)) AND 0xf0 = 0xf0" "(0xF0 OR (x AND 0x07)) AND 0xf8 = 0xf0"
    "(0xF0 OR (x AND 0x07)) AND 0x07 = x AND 0x07"
  by (simp_all add: bit.conj_disj_distrib2 and.assoc)

lemma lead_5: "(0xF8 OR ((x :: u8) AND 0x03)) AND 0x80 = 0x80" "(0xF8 OR (x AND 0x03)) AND 0xe0 = 0xe0"
    "(0xF8 OR (x AND 0x03)) AND 0xf0 = 0xf0" "(0xF8 OR (x AND 0x03)) AND 0xf8 = 0xf8"
    "(0xF8 OR (x AND 0x03)) AND 0xfc = 0xf8" "(0xF8 OR (x AND 0x03)) AND 0x03 = x AND 0x03"
  by (simp_all add: bit.conj_disj_distrib2 and.assoc)

lemma lead_6: "(0xFC OR ((x :: u8) AND 0x01)) AND 0x80 = 0x80" "(0xFC OR (x AND 0x01)) AND 0xe0 = 0xe0"
    "(0xFC OR (x AND 0x01)) AND 0xf0 = 0xf0" "(0xFC OR (x AND 0x01)) AND 0xf8 = 0xf8"
    "(0xFC OR (x AND 0x01)) AND 0xfc = 0xfc" "(0xFC OR (x AND 0x01)) AND 0xfe = 0xfc"
    "(0xFC OR (x AND 0x01)) AND 0x01 = x AND 0x01"
  by (simp_all add: bit.conj_disj_distrib2 and.assoc)

lemmas lead_masks = lead_2 lead_3 lead_4 lead_5 lead_6

lemma ucast_and_u8: "(ucast ((c :: u32) AND m) :: u8) = ucast c AND ucast m"
  by (rule unsigned_and_eq)

lemma utf8_cont_u8: "utf8_cont c = 0x80 OR (ucast c AND 0x3F)"
  by (simp add: utf8_cont_def ucast_and_u8)

lemma utf8_cont_ok [simp]: "is_continuation_byte (utf8_cont c)"
  using continuation_payload by (simp add: utf8_cont_u8)

lemma bits6_utf8_cont [simp]: "bits6 (utf8_cont c) = take_bit 6 c"
proof -
  have "bits6 (utf8_cont c) = ucast (ucast c AND 0x3F :: u8)"
    using continuation_payload by (simp add: bits6_def utf8_cont_u8)
  also have "\<dots> = c AND 0x3F"
  proof (rule bit_word_eqI)
    fix n assume "n < LENGTH(32)"
    have m: "(0x3F :: u8) = mask 6" "(0x3F :: u32) = mask 6" by (simp_all add: mask_eq_exp_minus_1)
    show "bit (ucast (ucast c AND 0x3F :: u8) :: u32) n = bit (c AND 0x3F) n"
      unfolding m by (auto simp: bit_simps simp del: mask_numeral)
  qed
  finally show ?thesis by (simp add: and_3f)
qed

lemma unat_bits6: "unat (bits6 d) < 64"
  using unat_and_3f [of d] by (simp add: bits6_def unsigned_ucast_eq take_bit_nat_eq_self)

lemma take_bits6 [simp]: "take_bit 6 (bits6 d) = bits6 d"
  using unat_bits6 by (intro take_bit_less) simp

section \<open>One sequence\<close>

lemma nat_offsets:
  "i + 2 = Suc (Suc i)" "i + 3 = Suc (Suc (Suc i))" "i + 4 = Suc (Suc (Suc (Suc i)))"
  "i + 5 = Suc (Suc (Suc (Suc (Suc i))))" "i + 6 = Suc (Suc (Suc (Suc (Suc (Suc i)))))"
  by simp_all

lemma cont_byte_eq:
  "rd buf ind = Some d \<Longrightarrow> is_continuation_byte d \<Longrightarrow> cont_byte buf i ind k = k d"
  using continuation_byte [of d] by (auto simp: cont_byte_def)

lemma and_80_nonzero: "(d :: u8) AND 0x80 = 0x80 \<Longrightarrow> d \<noteq> 0"
  by auto

lemma next_get_2:
  assumes "rd buf i = Some (0xC0 OR (x AND 0x1f))" "rd buf (i + 1) = Some d1" "is_continuation_byte d1"
  shows "eina_unicode_utf8_next_get buf i =
    (let r = J (ucast (x AND 0x1f)) (bits6 d1) in if r \<le> 0x7F then utf8_error buf i else Some (r, i + 2))"
  using assms and_80_nonzero [OF lead_2(1)]
  by (simp add: eina_unicode_utf8_next_get_def lead_masks cont_byte_eq J_def [symmetric] nat_offsets Let_def
      cong: if_cong)

lemma next_get_3:
  assumes "rd buf i = Some (0xE0 OR (x AND 0x0f))" "rd buf (i + 1) = Some d1" "rd buf (i + 2) = Some d2"
    and "is_continuation_byte d1" "is_continuation_byte d2"
  shows "eina_unicode_utf8_next_get buf i =
    (let r = J (J (ucast (x AND 0x0f)) (bits6 d1)) (bits6 d2)
     in if r \<le> 0x7FF then utf8_error buf i else Some (r, i + 3))"
  using assms and_80_nonzero [OF lead_3(1)]
  by (simp add: eina_unicode_utf8_next_get_def utf8_next_get_long_def lead_masks cont_byte_eq J_2 nat_offsets Let_def
      cong: if_cong)

lemma next_get_4:
  assumes "rd buf i = Some (0xF0 OR (x AND 0x07))" "rd buf (i + 1) = Some d1" "rd buf (i + 2) = Some d2"
    "rd buf (i + 3) = Some d3"
    and "is_continuation_byte d1" "is_continuation_byte d2" "is_continuation_byte d3"
  shows "eina_unicode_utf8_next_get buf i =
    (let r = J (J (J (ucast (x AND 0x07)) (bits6 d1)) (bits6 d2)) (bits6 d3)
     in if r \<le> 0xFFFF then utf8_error buf i else Some (r, i + 4))"
  using assms and_80_nonzero [OF lead_4(1)]
  by (simp add: eina_unicode_utf8_next_get_def utf8_next_get_long_def lead_masks cont_byte_eq J_3 nat_offsets Let_def
      cong: if_cong)

lemma next_get_5:
  assumes "rd buf i = Some (0xF8 OR (x AND 0x03))" "rd buf (i + 1) = Some d1" "rd buf (i + 2) = Some d2"
    "rd buf (i + 3) = Some d3" "rd buf (i + 4) = Some d4"
    and "is_continuation_byte d1" "is_continuation_byte d2" "is_continuation_byte d3"
    "is_continuation_byte d4"
  shows "eina_unicode_utf8_next_get buf i =
    (let r = J (J (J (J (ucast (x AND 0x03)) (bits6 d1)) (bits6 d2)) (bits6 d3)) (bits6 d4)
     in if r \<le> 0x1FFFFF then utf8_error buf i else Some (r, i + 5))"
  using assms and_80_nonzero [OF lead_5(1)]
  by (simp add: eina_unicode_utf8_next_get_def utf8_next_get_long_def lead_masks cont_byte_eq J_4 nat_offsets Let_def
      cong: if_cong)

lemma next_get_6:
  assumes "rd buf i = Some (0xFC OR (x AND 0x01))" "rd buf (i + 1) = Some d1" "rd buf (i + 2) = Some d2"
    "rd buf (i + 3) = Some d3" "rd buf (i + 4) = Some d4" "rd buf (i + 5) = Some d5"
    and "is_continuation_byte d1" "is_continuation_byte d2" "is_continuation_byte d3"
    "is_continuation_byte d4" "is_continuation_byte d5"
  shows "eina_unicode_utf8_next_get buf i =
    (let r = J (J (J (J (J (ucast (x AND 0x01)) (bits6 d1)) (bits6 d2)) (bits6 d3)) (bits6 d4)) (bits6 d5)
     in if r \<le> 0x3FFFFFF then utf8_error buf i else Some (r, i + 6))"
  using assms and_80_nonzero [OF lead_6(1)]
  by (simp add: eina_unicode_utf8_next_get_def utf8_next_get_long_def lead_masks cont_byte_eq J_5 nat_offsets Let_def
      cong: if_cong)

text \<open>The bytes an encoder may emit for a code point decode to it.\<close>

definition encodable :: "u32 \<Rightarrow> bool" where
  "encodable c \<longleftrightarrow> 0 < sint c \<and> \<not> (0xDC80 \<le> sint c \<and> sint c \<le> 0xDCFF)"

lemma ucast_take: "k \<le> 8 \<Longrightarrow> (ucast (take_bit k (ucast (y :: u32) :: u8)) :: u32) = take_bit k y"
  by (rule bit_word_eqI) (auto simp: bit_simps)

lemma take_ucast: "k \<le> 8 \<Longrightarrow> (ucast (take_bit k (y :: u32)) :: u8) = take_bit k (ucast y)"
  by (rule bit_word_eqI) (auto simp: bit_simps)

lemma ucast_low:
  assumes "unat (y :: u32) < 2 ^ k" "k \<le> 8"
  shows "(ucast y :: u8) = take_bit k (ucast y)"
  using take_ucast [OF assms(2), of y] take_bit_less [OF assms(1)] by simp

lemma ucast_and_masks:
  "(ucast (ucast (y :: u32) AND 0x1f :: u8) :: u32) = take_bit 5 y"
  "(ucast (ucast y AND 0x0f :: u8) :: u32) = take_bit 4 y"
  "(ucast (ucast y AND 0x07 :: u8) :: u32) = take_bit 3 y"
  "(ucast (ucast y AND 0x03 :: u8) :: u32) = take_bit 2 y"
  "(ucast (ucast y AND 0x01 :: u8) :: u32) = take_bit 1 y"
  by (simp_all only: and_masks) (simp_all only: ucast_take)

lemma uint_unat_numeral:
  "uint (c :: u32) \<le> numeral n \<longleftrightarrow> unat c \<le> numeral n" "numeral n \<le> uint c \<longleftrightarrow> numeral n \<le> unat c"
proof -
  have "uint c \<le> numeral n \<longleftrightarrow> int (unat c) \<le> int (numeral n)"
    "numeral n \<le> uint c \<longleftrightarrow> int (numeral n) \<le> int (unat c)" by simp_all
  then show "uint c \<le> numeral n \<longleftrightarrow> unat c \<le> numeral n" "numeral n \<le> uint c \<longleftrightarrow> numeral n \<le> unat c"
    by (simp_all only: of_nat_le_iff)
qed

lemma unat_drop: "unat (drop_bit k (c :: u32)) = unat c div 2 ^ k"
  by (rule unat_drop_bit_div)

lemma take_drop_small: "unat (c :: u32) < 2 ^ (k + j) \<Longrightarrow> take_bit j (drop_bit k c) = drop_bit k c"
  by (rule take_bit_less) (simp add: unat_drop power_add less_mult_imp_div_less mult.commute)

lemma J_steps:
  "J (drop_bit 12 c) (take_bit 6 (drop_bit 6 c)) = drop_bit 6 c"
  "J (drop_bit 18 c) (take_bit 6 (drop_bit 12 c)) = drop_bit 12 c"
  "J (drop_bit 24 c) (take_bit 6 (drop_bit 18 c)) = drop_bit 18 c"
  "J (drop_bit 30 c) (take_bit 6 (drop_bit 24 c)) = drop_bit 24 c"
  using J_split [of "drop_bit 6 c"] J_split [of "drop_bit 12 c"] J_split [of "drop_bit 18 c"]
    J_split [of "drop_bit 24 c"]
  by simp_all

lemma sint_pos_unat: "0 < sint (c :: u32) \<Longrightarrow> sint c = uint c \<and> unat c < 2147483648"
proof -
  assume p: "0 < sint c"
  have s: "sint c < 2147483648" using sint_lt [of c] by simp
  moreover have "uint c = sint c"
    using p s by (simp add: uint_sint take_bit_int_eq_self_iff)
  ultimately have "int (unat c) < 2147483648" by simp
  then show ?thesis using \<open>uint c = sint c\<close> by linarith
qed

lemma rd_at:
  assumes "drop i buf = bs @ rest" "k < length bs"
  shows "rd buf (i + k) = Some (bs ! k)"
proof -
  have "length buf - i = length bs + length rest" using arg_cong [OF assms(1), of length] by simp
  then have l: "i + k < length buf" using assms(2) by linarith
  then have "buf ! (i + k) = drop i buf ! k" by simp
  then show ?thesis using assms l by (simp add: rd_def nth_append)
qed

lemma next_get_utf8_bytes:
  assumes "encodable c" and at: "drop i buf = utf8_bytes c @ rest"
  shows "eina_unicode_utf8_next_get buf i = Some (c, i + length (utf8_bytes c))"
proof -
  have p: "0 < sint c" "\<not> (0xDC80 \<le> sint c \<and> sint c \<le> 0xDCFF)"
    using assms(1) by (auto simp: encodable_def)
  have u: "sint c = uint c" "unat c < 2147483648" using sint_pos_unat [OF p(1)] by simp_all
  note u = u uint_unat_numeral
  note rd = rd_at [OF at]
  have le: "c \<le> k \<longleftrightarrow> unat c \<le> unat k" for k by (simp add: word_le_nat_alt)
  consider "unat c < 2 ^ 7" | "2 ^ 7 \<le> unat c" "unat c < 2 ^ 11" | "2 ^ 11 \<le> unat c" "unat c < 2 ^ 16"
    | "2 ^ 16 \<le> unat c" "unat c < 2 ^ 21" | "2 ^ 21 \<le> unat c" "unat c < 2 ^ 26"
    | "2 ^ 26 \<le> unat c" by linarith
  then show ?thesis
  proof cases
    case 1
    then have b: "utf8_bytes c = [ucast c]" by (simp add: utf8_bytes_def u)
    have r: "rd buf i = Some (ucast c)" using rd [of 0] by (simp add: b)
    have l: "(ucast c :: u8) = take_bit 7 (ucast c)" using 1 by (intro ucast_low) simp_all
    have "(ucast c :: u8) AND 0x80 = 0"
      by (subst l) (simp add: take_bit_eq_mask mask_eq_exp_minus_1 and.assoc)
    moreover have "ucast (ucast c :: u8) = c"
      using ucast_take [of 7 c] l take_bit_less [of c 7] 1 by simp
    moreover have "(ucast c :: u8) \<noteq> 0" using calculation(2) p(1) by (metis ucast_u8_eq_0 less_irrefl sint_0)
    ultimately show ?thesis by (simp add: eina_unicode_utf8_next_get_def r b)
  next
    case 2
    then have b: "utf8_bytes c = [0xC0 OR (ucast (drop_bit 6 c) AND 0x1f), utf8_cont c]"
      using ucast_low [of "drop_bit 6 c" 5] by (simp add: utf8_bytes_def u unat_drop and_masks)
    have "J (ucast (ucast (drop_bit 6 c) AND 0x1f :: u8)) (take_bit 6 c) = c"
      using 2 take_drop_small [of c 6 5] by (simp add: ucast_and_masks J_split)
    then show ?thesis
      using 2 rd [of 0] rd [of 1] next_get_2 [of buf i "ucast (drop_bit 6 c)" "utf8_cont c"]
      by (simp add: b le Let_def)
  next
    case 3
    then have b: "utf8_bytes c = [0xE0 OR (ucast (drop_bit 12 c) AND 0x0f), utf8_cont (drop_bit 6 c), utf8_cont c]"
      using ucast_low [of "drop_bit 12 c" 4] p(2) by (simp add: utf8_bytes_def u unat_drop and_masks)
    have "J (J (ucast (ucast (drop_bit 12 c) AND 0x0f :: u8)) (take_bit 6 (drop_bit 6 c))) (take_bit 6 c) = c"
      using 3 take_drop_small [of c 12 4] by (simp add: ucast_and_masks J_split J_steps)
    then show ?thesis
      using 3 rd [of 0] rd [of 1] rd [of 2]
        next_get_3 [of buf i "ucast (drop_bit 12 c)" "utf8_cont (drop_bit 6 c)" "utf8_cont c"]
      by (simp add: b le Let_def)
  next
    case 4
    then have b: "utf8_bytes c = [0xF0 OR (ucast (drop_bit 18 c) AND 0x07), utf8_cont (drop_bit 12 c),
        utf8_cont (drop_bit 6 c), utf8_cont c]"
      by (simp add: utf8_bytes_def u ucast_and_u8)
    have "J (J (J (ucast (ucast (drop_bit 18 c) AND 0x07 :: u8)) (take_bit 6 (drop_bit 12 c)))
        (take_bit 6 (drop_bit 6 c))) (take_bit 6 c) = c"
      using 4 take_drop_small [of c 18 3] by (simp add: ucast_and_masks J_split J_steps)
    then show ?thesis
      using 4 rd [of 0] rd [of 1] rd [of 2] rd [of 3]
        next_get_4 [of buf i "ucast (drop_bit 18 c)" "utf8_cont (drop_bit 12 c)" "utf8_cont (drop_bit 6 c)"
          "utf8_cont c"]
      by (simp add: b le Let_def)
  next
    case 5
    then have b: "utf8_bytes c = [0xF8 OR (ucast (drop_bit 24 c) AND 0x03), utf8_cont (drop_bit 18 c),
        utf8_cont (drop_bit 12 c), utf8_cont (drop_bit 6 c), utf8_cont c]"
      by (simp add: utf8_bytes_def u ucast_and_u8)
    have "J (J (J (J (ucast (ucast (drop_bit 24 c) AND 0x03 :: u8)) (take_bit 6 (drop_bit 18 c)))
        (take_bit 6 (drop_bit 12 c))) (take_bit 6 (drop_bit 6 c))) (take_bit 6 c) = c"
      using 5 take_drop_small [of c 24 2] by (simp add: ucast_and_masks J_split J_steps)
    then show ?thesis
      using 5 rd [of 0] rd [of 1] rd [of 2] rd [of 3] rd [of 4]
        next_get_5 [of buf i "ucast (drop_bit 24 c)" "utf8_cont (drop_bit 18 c)" "utf8_cont (drop_bit 12 c)"
          "utf8_cont (drop_bit 6 c)" "utf8_cont c"]
      by (simp add: b le Let_def)
  next
    case 6
    then have b: "utf8_bytes c = [0xFC OR (ucast (drop_bit 30 c) AND 0x01), utf8_cont (drop_bit 24 c),
        utf8_cont (drop_bit 18 c), utf8_cont (drop_bit 12 c), utf8_cont (drop_bit 6 c), utf8_cont c]"
      by (simp add: utf8_bytes_def u ucast_and_u8)
    have "J (J (J (J (J (ucast (ucast (drop_bit 30 c) AND 0x01 :: u8)) (take_bit 6 (drop_bit 24 c)))
        (take_bit 6 (drop_bit 18 c))) (take_bit 6 (drop_bit 12 c))) (take_bit 6 (drop_bit 6 c)))
        (take_bit 6 c) = c"
      using u(2) take_drop_small [of c 30 1] by (simp add: ucast_and_masks J_split J_steps)
    then show ?thesis
      using 6 rd [of 0] rd [of 1] rd [of 2] rd [of 3] rd [of 4] rd [of 5]
        next_get_6 [of buf i "ucast (drop_bit 30 c)" "utf8_cont (drop_bit 24 c)" "utf8_cont (drop_bit 18 c)"
          "utf8_cont (drop_bit 12 c)" "utf8_cont (drop_bit 6 c)" "utf8_cont c"]
      by (simp add: b le Let_def)
  qed
qed

section \<open>Re-encoding what was decoded\<close>

lemma ucast_up_down [simp]: "(ucast (ucast (x :: u8) :: u32) :: u8) = x"
  by (rule bit_word_eqI) (auto simp: bit_simps)

lemma utf8_cont_J: "is_continuation_byte d \<Longrightarrow> utf8_cont (J x (bits6 d)) = d"
proof -
  assume d: "is_continuation_byte d"
  have "utf8_cont (J x (bits6 d)) = 0x80 OR ucast (take_bit 6 (J x (bits6 d)))"
    by (simp add: utf8_cont_def and_3f)
  also have "\<dots> = 0x80 OR (d AND 0x3F)" by (simp add: take_J) (simp add: bits6_def)
  finally show ?thesis using continuation_byte [of d] d by simp
qed


end
