(* ===== verification/Eina_Utf8.thy ===== *)
theory Eina_Utf8
  imports Eina_Unicode
begin

text \<open>
  The UTF-8 codec of \<^verbatim>\<open>src/src/lib/eina/eina_unicode.c\<close> on whole strings: what each
  sequence re-encodes to, and the properties of the conversions.
\<close>

section \<open>Replacement code points\<close>

lemma unat_ucast_u8 [simp]: "unat (ucast (x :: u8) :: u32) = unat x"
  by (simp add: unsigned_ucast_eq take_bit_nat_eq_self_iff order_less_trans [OF unat_less_256])

lemma escape_or: "bit (d :: u8) 7 \<Longrightarrow> (0xDC80 OR ucast d :: u32) = 0xDC00 OR ucast d"
proof -
  assume b: "bit d 7"
  have *: "push_bit 7 1 OR ucast d = (ucast d :: u32)"
    using b by (intro bit_word_eqI) (auto simp: bit_simps bit_1_iff simp del: push_bit_of_1 push_bit_numeral)
  have "(0xDC80 :: u32) = 0xDC00 OR push_bit 7 1" by simp
  with * show ?thesis by (simp only: or.assoc)
qed
lemma escape_val: "bit (d :: u8) 7 \<Longrightarrow> unat (0xDC80 OR ucast d :: u32) = 0xDC00 + unat d"
proof -
  assume b: "bit d 7"
  have z: "(0xDC00 :: u32) AND ucast d = 0"
  proof (rule bit_word_eqI)
    fix n
    show "bit ((0xDC00 :: u32) AND ucast d) n = bit 0 n"
    proof (cases "n < 8")
      case True
      then have "n \<in> {0,1,2,3,4,5,6,7}" by auto
      then show ?thesis by (auto simp: bit_simps)
    next
      case False
      then show ?thesis by (simp add: bit_simps)
    qed
  qed
  have "(0xDC00 OR ucast d :: u32) = 0xDC00 + ucast d"
    using z word_plus_and_or [of "0xDC00 :: u32" "ucast d"] by simp
  then have "unat (0xDC00 OR ucast d :: u32) = 0xDC00 + unat d"
    by (simp add: unat_word_ariths order_less_trans [OF unat_less_256])
  then show ?thesis using b by (simp add: escape_or)
qed
lemma escape_low: "bit d 7 \<Longrightarrow> (ucast ((0xDC80 OR ucast d) AND 0xFF :: u32) :: u8) = d"
proof -
  assume b: "bit d 7"
  have *: "push_bit 7 1 OR d = d"
  proof (rule bit_word_eqI)
    fix n
    have "n = 7" if "(7 :: nat) \<le> n" "n < 8" using that by linarith
    then show "n < LENGTH(8) \<Longrightarrow> bit (push_bit 7 1 OR d) n = bit d n"
      using b by (cases "n = 7") (auto simp: bit_simps bit_1_iff simp del: push_bit_of_1 push_bit_numeral)
  qed
  have "ucast ((0xDC80 OR ucast d) AND 0xFF :: u32) = (ucast (0xDC80 OR ucast d :: u32) :: u8) AND ucast (0xFF::u32)"
    by (rule ucast_and_u8)
  also have "(ucast (0xFF :: u32) :: u8) = -1" by simp
  also have "(ucast (0xDC80 OR ucast d :: u32) :: u8) = ucast (0xDC80 :: u32) OR d"
    by (intro bit_word_eqI) (auto simp: bit_simps)
  also have "(ucast (0xDC80 :: u32) :: u8) = push_bit 7 1" by simp
  finally show ?thesis using * by simp
qed

lemma bit7_ge: "bit (d :: u8) 7 \<Longrightarrow> 128 \<le> unat d"
  by (simp add: u8_bit7)

lemma sint_uint_unat: "unat (r :: u32) < 2147483648 \<Longrightarrow> sint r = uint r"
proof -
  assume "unat r < 2147483648"
  then have "int (unat r) < 2147483648" by linarith
  then have "uint r < 2147483648" by simp
  moreover have "- 2147483648 \<le> uint r" using uint_nonnegative [of r] by linarith
  ultimately show ?thesis
    using signed_take_bit_int_eq_self [of 31 "uint r"] by (simp add: sint_uint)
qed

lemma utf8_error_bytes:
  assumes "bit (d :: u8) 7"
  shows "utf8_bytes (0xDC80 OR ucast d) = [d]"
proof -
  let ?r = "0xDC80 OR ucast d :: u32"
  have "128 \<le> unat d" using bit7_ge [OF assms] .
  then have "unat ?r < 2147483648" "0xDC80 \<le> unat ?r" "unat ?r \<le> 0xDCFF"
    using escape_val [OF assms] unat_less_256 [of d] by simp_all
  then show ?thesis
    by (simp add: utf8_bytes_def sint_uint_unat uint_unat_numeral escape_low [OF assms] del: uint_nat)
qed

text \<open>The value and the parts of a chain of groups.\<close>

lemma J_chain:
  assumes "unat x < 2 ^ k" "k \<le> 26"
  shows "unat (J x (bits6 d)) = 64 * unat x + unat (bits6 d)" "drop_bit 6 (J x (bits6 d)) = x"
    "unat (J x (bits6 d)) < 2 ^ (k + 6)"
proof -
  have x: "take_bit 26 x = x"
  proof (rule take_bit_less)
    have "(2 :: nat) ^ k \<le> 2 ^ 26" using assms(2) by (rule power_increasing) simp
    with assms(1) show "unat x < 2 ^ 26" by linarith
  qed
  show "unat (J x (bits6 d)) = 64 * unat x + unat (bits6 d)" by (rule unat_J [OF x take_bits6])
  then show "unat (J x (bits6 d)) < 2 ^ (k + 6)"
    using assms(1) unat_bits6 [of d] by (simp add: power_add)
  show "drop_bit 6 (J x (bits6 d)) = x" by (rule drop_J [OF x take_bits6])
qed

lemma drop_bit_nest:
  "drop_bit 12 r = drop_bit 6 (drop_bit 6 (r :: u32))"
  "drop_bit 18 r = drop_bit 6 (drop_bit 6 (drop_bit 6 r))"
  "drop_bit 24 r = drop_bit 6 (drop_bit 6 (drop_bit 6 (drop_bit 6 r)))"
  "drop_bit 30 r = drop_bit 6 (drop_bit 6 (drop_bit 6 (drop_bit 6 (drop_bit 6 r))))"
  by simp_all

section \<open>Re-encoding one sequence\<close>

lemmas bytes_simps = utf8_bytes_def sint_uint_unat uint_unat_numeral drop_bit_nest ucast_up_down ucast_and_u8

lemma bytes_2:
  assumes "d AND 0xe0 = 0xc0" "is_continuation_byte d1"
    and "r = J (ucast (d AND 0x1f)) (bits6 d1)" "\<not> r \<le> 0x7F"
  shows "utf8_bytes r = [d, d1]"
proof -
  let ?x = "ucast (d AND 0x1f) :: u32"
  have x: "unat ?x < 2 ^ 5" using unat_masks(1) [of d] by simp
  have "unat r < 2 ^ (5 + 6)" unfolding assms(3) by (rule J_chain(3) [OF x]) simp
  moreover have "\<not> unat r \<le> 127" using assms(4) by (simp add: word_le_nat_alt)
  moreover have "drop_bit 6 r = ?x" "utf8_cont r = d1"
    using J_chain(2) [OF x, of d1] utf8_cont_J [OF assms(2), of ?x] by (simp_all add: assms(3))
  ultimately show ?thesis
    using lead_bytes(1) [OF assms(1)] by (simp add: bytes_simps)
qed

lemma J_less:
  assumes "unat x < m" "m \<le> 2 ^ 26"
  shows "unat (J x (bits6 d)) < 64 * m"
proof -
  have "unat x < 2 ^ 26" using assms by linarith
  from J_chain(1) [OF this, of d] show ?thesis using assms(1) unat_bits6 [of d] by simp
qed

lemma J_drop: "unat x < m \<Longrightarrow> m \<le> 2 ^ 26 \<Longrightarrow> drop_bit 6 (J x (bits6 d)) = x"
  by (rule J_chain(2) [of _ 26]) simp_all

lemma bytes_3:
  assumes lead: "d AND 0xf0 = 0xe0" and c: "is_continuation_byte d1" "is_continuation_byte d2"
    and r: "r = J (J (ucast (d AND 0x0f)) (bits6 d1)) (bits6 d2)" "\<not> r \<le> 0x7FF"
    and range: "\<not> (0xDC80 \<le> unat r \<and> unat r \<le> 0xDCFF)"
  shows "utf8_bytes r = [d, d1, d2]"
proof -
  define x where "x = (ucast (d AND 0x0f) :: u32)"
  define a where "a = J x (bits6 d1)"
  have x: "unat x < 16" using unat_masks(2) [of d] by (simp add: x_def)
  have a: "unat a < 1024" using J_less [OF x, of d1] by (simp add: a_def)
  have "unat r < 65536" using J_less [OF a, of d2] by (simp add: r(1) a_def x_def)
  moreover have "\<not> unat r \<le> 2047" using r(2) by (simp add: word_le_nat_alt)
  moreover have "drop_bit 6 r = a" "drop_bit 6 a = x"
    using J_drop [OF x, of d1] J_drop [OF a, of d2] by (simp_all add: r(1) a_def x_def)
  moreover have "utf8_cont r = d2" "utf8_cont a = d1"
    using c by (simp_all add: r(1) a_def utf8_cont_J)
  ultimately show ?thesis
    using lead_bytes(2) [OF lead] range by (simp add: bytes_simps x_def del: drop_bit_drop_bit)
qed

lemma bytes_4:
  assumes lead: "d AND 0xf8 = 0xf0"
    and c: "is_continuation_byte d1" "is_continuation_byte d2" "is_continuation_byte d3"
    and r: "r = J (J (J (ucast (d AND 0x07)) (bits6 d1)) (bits6 d2)) (bits6 d3)" "\<not> r \<le> 0xFFFF"
  shows "utf8_bytes r = [d, d1, d2, d3]"
proof -
  define x where "x = (ucast (d AND 0x07) :: u32)"
  define a where "a = J x (bits6 d1)"
  define b where "b = J a (bits6 d2)"
  note defs = x_def a_def b_def
  have x: "unat x < 8" using unat_masks(3) [of d] by (simp add: x_def)
  have a: "unat a < 512" using J_less [OF x, of d1] by (simp add: a_def)
  have b: "unat b < 32768" using J_less [OF a, of d2] by (simp add: b_def)
  have "unat r < 2097152" using J_less [OF b, of d3] by (simp add: r(1) defs)
  moreover have "\<not> unat r \<le> 65535" using r(2) by (simp add: word_le_nat_alt)
  moreover have "drop_bit 6 r = b" "drop_bit 6 b = a" "drop_bit 6 a = x"
    using J_drop [OF x, of d1] J_drop [OF a, of d2] J_drop [OF b, of d3] by (simp_all add: r(1) defs)
  moreover have "utf8_cont r = d3" "utf8_cont b = d2" "utf8_cont a = d1"
    using c by (simp_all add: r(1) a_def b_def utf8_cont_J)
  ultimately show ?thesis
    using lead_bytes(3) [OF lead]
    by (simp add: bytes_simps x_def and.assoc del: drop_bit_drop_bit)
qed

lemma bytes_5:
  assumes lead: "d AND 0xfc = 0xf8"
    and c: "is_continuation_byte d1" "is_continuation_byte d2" "is_continuation_byte d3"
      "is_continuation_byte d4"
    and r: "r = J (J (J (J (ucast (d AND 0x03)) (bits6 d1)) (bits6 d2)) (bits6 d3)) (bits6 d4)"
      "\<not> r \<le> 0x1FFFFF"
  shows "utf8_bytes r = [d, d1, d2, d3, d4]"
proof -
  define x where "x = (ucast (d AND 0x03) :: u32)"
  define a where "a = J x (bits6 d1)"
  define b where "b = J a (bits6 d2)"
  define e where "e = J b (bits6 d3)"
  note defs = x_def a_def b_def e_def
  have x: "unat x < 4" using unat_masks(4) [of d] by (simp add: x_def)
  have a: "unat a < 256" using J_less [OF x, of d1] by (simp add: a_def)
  have b: "unat b < 16384" using J_less [OF a, of d2] by (simp add: b_def)
  have e: "unat e < 1048576" using J_less [OF b, of d3] by (simp add: e_def)
  have "unat r < 67108864" using J_less [OF e, of d4] by (simp add: r(1) defs)
  moreover have "\<not> unat r \<le> 2097151" using r(2) by (simp add: word_le_nat_alt)
  moreover have "drop_bit 6 r = e" "drop_bit 6 e = b" "drop_bit 6 b = a" "drop_bit 6 a = x"
    using J_drop [OF x, of d1] J_drop [OF a, of d2] J_drop [OF b, of d3] J_drop [OF e, of d4]
    by (simp_all add: r(1) defs)
  moreover have "utf8_cont r = d4" "utf8_cont e = d3" "utf8_cont b = d2" "utf8_cont a = d1"
    using c by (simp_all add: r(1) defs utf8_cont_J)
  ultimately show ?thesis
    using lead_bytes(4) [OF lead]
    by (simp add: bytes_simps x_def and.assoc del: drop_bit_drop_bit)
qed

lemma bytes_6:
  assumes lead: "d AND 0xfe = 0xfc"
    and c: "is_continuation_byte d1" "is_continuation_byte d2" "is_continuation_byte d3"
      "is_continuation_byte d4" "is_continuation_byte d5"
    and r: "r = J (J (J (J (J (ucast (d AND 0x01)) (bits6 d1)) (bits6 d2)) (bits6 d3)) (bits6 d4)) (bits6 d5)"
      "\<not> r \<le> 0x3FFFFFF"
  shows "utf8_bytes r = [d, d1, d2, d3, d4, d5]"
proof -
  define x where "x = (ucast (d AND 0x01) :: u32)"
  define a where "a = J x (bits6 d1)"
  define b where "b = J a (bits6 d2)"
  define e where "e = J b (bits6 d3)"
  define f where "f = J e (bits6 d4)"
  note defs = x_def a_def b_def e_def f_def
  have x: "unat x < 2" using unat_masks(5) [of d] by (simp add: x_def)
  have a: "unat a < 128" using J_less [OF x, of d1] by (simp add: a_def)
  have b: "unat b < 8192" using J_less [OF a, of d2] by (simp add: b_def)
  have e: "unat e < 524288" using J_less [OF b, of d3] by (simp add: e_def)
  have f: "unat f < 33554432" using J_less [OF e, of d4] by (simp add: f_def)
  have "unat r < 2147483648" using J_less [OF f, of d5] by (simp add: r(1) defs)
  moreover have "\<not> unat r \<le> 67108863" using r(2) by (simp add: word_le_nat_alt)
  moreover have "drop_bit 6 r = f" "drop_bit 6 f = e" "drop_bit 6 e = b" "drop_bit 6 b = a"
      "drop_bit 6 a = x"
    using J_drop [OF x, of d1] J_drop [OF a, of d2] J_drop [OF b, of d3] J_drop [OF e, of d4]
      J_drop [OF f, of d5]
    by (simp_all add: r(1) defs)
  moreover have "utf8_cont r = d5" "utf8_cont f = d4" "utf8_cont e = d3" "utf8_cont b = d2"
      "utf8_cont a = d1"
    using c by (simp_all add: r(1) defs utf8_cont_J)
  ultimately show ?thesis
    using lead_bytes(5) [OF lead]
    by (simp add: bytes_simps x_def and.assoc del: drop_bit_drop_bit)
qed

section \<open>Sequences of the buffer\<close>

text \<open>
  The three-byte sequences of the replacement range start with ED B2 or ED B3.
\<close>

fun surrogate_free :: "u8 list \<Rightarrow> bool" where
  "surrogate_free (a # b # bs) \<longleftrightarrow> \<not> (a = 0xED \<and> (b = 0xB2 \<or> b = 0xB3)) \<and> surrogate_free (b # bs)"
| "surrogate_free bs \<longleftrightarrow> True"

lemma unat_numeral_eq: "unat (y :: u8) = numeral n \<Longrightarrow> y = numeral n"
proof -
  assume a: "unat y = numeral n"
  have "y = of_nat (unat y)" by simp
  then show "y = numeral n" unfolding a by simp
qed

text \<open>A byte of the string, and what the decoder does there.\<close>

lemma rd_drop: "rd buf i = Some d \<Longrightarrow> d \<noteq> 0 \<Longrightarrow> drop i buf = d # drop (Suc i) buf"
  by (auto simp: rd_def Cons_nth_drop_Suc split: if_splits)

definition bytes_ok :: "u8 list \<Rightarrow> nat \<Rightarrow> (u32 \<times> nat) option \<Rightarrow> bool" where
  "bytes_ok buf i res \<longleftrightarrow>
     (case res of None \<Rightarrow> True | Some (r, i') \<Rightarrow> drop i buf = utf8_bytes r @ drop i' buf)"

lemma bytes_ok_error:
  "rd buf i = Some d \<Longrightarrow> bit d 7 \<Longrightarrow> bytes_ok buf i (utf8_error buf i)"
  using rd_drop [of buf i d] utf8_error_bytes [of d] by (cases "d = 0") (auto simp: bytes_ok_def utf8_error_def)

lemma bytes_ok_cont:
  assumes "rd buf i = Some d" "bit d 7"
    and "\<And>d1. drop ind buf = d1 # drop (Suc ind) buf \<Longrightarrow> is_continuation_byte d1 \<Longrightarrow> bytes_ok buf i (k d1)"
  shows "bytes_ok buf i (cont_byte buf i ind k)"
  using bytes_ok_error [OF assms(1,2)] assms(3) rd_drop [of buf ind]
  by (auto simp: cont_byte_def bytes_ok_def split: option.split)

lemma bytes_ok_if:
  "(b \<Longrightarrow> bytes_ok buf i x) \<Longrightarrow> (\<not> b \<Longrightarrow> bytes_ok buf i y) \<Longrightarrow> bytes_ok buf i (if b then x else y)"
  by simp

lemma bytes_ok_value:
  "drop i buf = utf8_bytes r @ drop i' buf \<Longrightarrow> bytes_ok buf i (Some (r, i'))"
  by (simp add: bytes_ok_def)

lemma range_parts:
  assumes "(r :: nat) = 64 * (64 * x + b) + c" "b < 64" "c < 64" "56448 \<le> r" "r \<le> 56575"
  shows "x = 13 \<and> (b = 50 \<or> b = 51)"
proof -
  have x: "x \<le> 13" "13 \<le> x" using assms by simp_all
  then have "x = 13" by simp
  with assms show ?thesis by simp linarith
qed

lemma replacement_range:
  fixes d :: u8
  assumes lead: "d AND 0xf0 = 0xe0" and c: "is_continuation_byte d1"
    and r: "r = J (J (ucast (d AND 0x0f)) (bits6 d1)) (bits6 d2)"
    and range: "0xDC80 \<le> unat r" "unat r \<le> 0xDCFF"
  shows "d = 0xED \<and> (d1 = 0xB2 \<or> d1 = 0xB3)"
proof -
  define x where "x = (ucast (d AND 0x0f) :: u32)"
  have x: "unat x < 16" using unat_masks(2) [of d] by (simp add: x_def)
  have a: "unat (J x (bits6 d1)) < 1024" using J_less [OF x, of d1] by simp
  have v: "unat r = 64 * (64 * unat x + unat (bits6 d1)) + unat (bits6 d2)"
    using J_chain(1) [of x 4 d1] J_chain(1) [of "J x (bits6 d1)" 10 d2] x a by (simp add: r x_def)
  have "unat (d AND 0x0f) = 13 \<and> (unat (d1 AND 0x3F) = 50 \<or> unat (d1 AND 0x3F) = 51)"
  proof -
    have "unat x = 13 \<and> (unat (bits6 d1) = 50 \<or> unat (bits6 d1) = 51)"
      using range_parts [OF v unat_bits6 unat_bits6 range] .
    then show ?thesis by (simp add: x_def bits6_def)
  qed
  then have "d AND 0x0f = 13" "d1 AND 0x3F = 50 \<or> d1 AND 0x3F = 51"
    by (auto dest: unat_numeral_eq)
  then show ?thesis
    using lead_bytes(2) [OF lead] continuation_byte [of d1] c by auto
qed

lemma surrogate_free_nth:
  "surrogate_free bs \<Longrightarrow> Suc i < length bs \<Longrightarrow> bs ! i = 0xED \<Longrightarrow> bs ! Suc i \<noteq> 0xB2 \<and> bs ! Suc i \<noteq> 0xB3"
  by (induction bs arbitrary: i rule: surrogate_free.induct) (auto simp: nth_Cons split: nat.splits)

lemma surrogate_free_drop:
  assumes "surrogate_free buf" "drop i buf = a # b # rest"
  shows "\<not> (a = 0xED \<and> (b = 0xB2 \<or> b = 0xB3))"
proof -
  have "Suc i < length buf" using arg_cong [OF assms(2), of length] by simp
  moreover have "buf ! i = a" "buf ! Suc i = b"
    using assms(2) nth_drop [of i buf 0] nth_drop [of i buf 1] calculation by simp_all
  ultimately show ?thesis using surrogate_free_nth [OF assms(1)] by blast
qed

lemma nat_offsets': "2 + i = Suc (Suc i)" "3 + i = Suc (Suc (Suc i))"
  "4 + i = Suc (Suc (Suc (Suc i)))" "5 + i = Suc (Suc (Suc (Suc (Suc i))))"
  "6 + i = Suc (Suc (Suc (Suc (Suc (Suc i)))))"
  by simp_all

lemma bytes_ok_long:
  assumes d: "rd buf i = Some d" "bit d 7" and free: "surrogate_free buf"
  shows "bytes_ok buf i (utf8_next_get_long (i + 1) d buf i)"
proof -
  have n: "d \<noteq> 0" using d(2) by auto
  note start = rd_drop [OF d(1) n]
  note err = bytes_ok_error [OF d]
  show ?thesis
    unfolding utf8_next_get_long_def Let_def unfolding J_5 unfolding J_4 unfolding J_3 unfolding J_2
    apply (intro bytes_ok_if bytes_ok_cont [OF d] err bytes_ok_value)
    subgoal for d1 d2
      using bytes_3 [of d d1 d2, OF _ _ _ refl, symmetric] replacement_range [of d d1 _ d2, OF _ _ refl]
        surrogate_free_drop [OF free, of i d d1 "d2 # drop (i + 3) buf"] start
      by (simp add: numeral_3_eq_3) blast
    subgoal for d1 d2 d3
      using bytes_4 [of d d1 d2 d3, OF _ _ _ _ refl] start by (auto simp: nat_offsets')
    subgoal for d1 d2 d3 d4
      using bytes_5 [of d d1 d2 d3 d4, OF _ _ _ _ _ refl] start by (auto simp: nat_offsets')
    subgoal for d1 d2 d3 d4 d5
      using bytes_6 [of d d1 d2 d3 d4 d5, OF _ _ _ _ _ _ refl] start by (auto simp: nat_offsets')
    done
qed

lemma next_get_bytes:
  assumes free: "surrogate_free buf" and "eina_unicode_utf8_next_get buf i = Some (r, i')" "r \<noteq> 0"
  shows "drop i buf = utf8_bytes r @ drop i' buf"
proof -
  have b7: "bit d 7 = (d AND 0x80 \<noteq> 0)" for d :: u8 by (simp add: u8_and_80)
  obtain d where d: "rd buf i = Some d" "d \<noteq> 0"
    using assms(2,3) by (auto simp: eina_unicode_utf8_next_get_def split: option.splits if_splits)
  note start = rd_drop [OF d]
  have "bytes_ok buf i (if d AND 0x80 = 0 then Some (ucast d, i + 1)
      else if d AND 0xe0 = 0xc0 then
        cont_byte buf i (i + 1) (\<lambda>d1.
          let r = push_bit 6 (ucast (d AND 0x1f)) OR bits6 d1
          in if r \<le> 0x7F then utf8_error buf i else Some (r, i + 2))
      else utf8_next_get_long (i + 1) d buf i)"
    unfolding Let_def J_def [symmetric]
    apply (intro bytes_ok_if bytes_ok_cont [OF d(1)] bytes_ok_error [OF d(1)] bytes_ok_value
        bytes_ok_long [OF d(1) _ free])
    subgoal using start ascii_byte [of d] by (simp add: utf8_bytes_def sint_uint_unat ucast_up_down uint_unat_numeral)
    subgoal by (simp add: b7)
    subgoal by (simp add: b7)
    subgoal for d1 using bytes_2 [of d d1, OF _ _ refl] start by (auto simp: nat_offsets')
    subgoal by (simp add: b7)
    done
  then show ?thesis
    using assms(2) d by (simp add: eina_unicode_utf8_next_get_def bytes_ok_def)
qed

section \<open>Whole strings\<close>

lemma next_get_total:
  "i \<le> length buf \<Longrightarrow> \<exists>r i'. eina_unicode_utf8_next_get buf i = Some (r, i')"
  using next_get_end [of buf] step_ok_next [of i buf]
  by (cases "i < length buf \<and> buf ! i \<noteq> 0")
    (auto simp: step_ok_def eina_unicode_utf8_next_get_def rd_def split: option.splits)

text \<open>One run over the buffer: the length and the code points agree.\<close>

lemma decode_run:
  "i \<le> length buf \<Longrightarrow>
     \<exists>us. get_len_from buf i = Some (length us) \<and> to_unicode_loop (length us) buf i = Some us
       \<and> length us \<le> length buf - i \<and> 0 \<notin> set us
       \<and> (surrogate_free buf \<and> 0 \<notin> set buf \<longrightarrow> concat (map utf8_bytes us) = drop i buf)"
proof (induction "length buf - i" arbitrary: i rule: less_induct)
  case less
  obtain r i' where n: "eina_unicode_utf8_next_get buf i = Some (r, i')"
    using next_get_total [OF less.prems] by blast
  show ?case
  proof (cases "r = 0")
    case True
    have "i = length buf \<or> buf ! i = 0"
      using n True step_ok_next [of i buf] less.prems by (cases "i < length buf") (auto simp: step_ok_def)
    then have "0 \<notin> set buf \<longrightarrow> drop i buf = []"
      using less.prems by (metis drop_all le_neq_implies_less nth_mem order_refl)
    with True n show ?thesis by (intro exI [of _ "[]"]) (simp add: get_len_from.simps)
  next
    case False
    note p = next_get_progress [OF n False]
    obtain us where us: "get_len_from buf i' = Some (length us)" "to_unicode_loop (length us) buf i' = Some us"
      "length us \<le> length buf - i'" "0 \<notin> set us"
      "surrogate_free buf \<and> 0 \<notin> set buf \<longrightarrow> concat (map utf8_bytes us) = drop i' buf"
      using less.hyps [OF _ p(2)] p by fastforce
    have "length (r # us) \<le> length buf - i" using us(3) p by simp
    moreover have "get_len_from buf i = Some (length (r # us))"
      using n False us(1) by (simp add: get_len_from.simps [of buf i])
    ultimately show ?thesis
      using n False us next_get_bytes [OF _ n False] by (intro exI [of _ "r # us"]) auto
  qed
qed

lemma to_utf8_loop_concat:
  "0 \<notin> set us \<Longrightarrow> to_utf8_loop us (length us) = concat (map utf8_bytes us)"
  by (induction us) auto

lemma utf8_bytes_length: "length (utf8_bytes c) \<le> 6"
  by (simp add: utf8_bytes_def)

lemma to_utf8_loop_length: "length (to_utf8_loop us n) \<le> 6 * n"
proof (induction us n rule: to_utf8_loop.induct)
  case (2 c cs n)
  then show ?case using utf8_bytes_length [of c] by (cases n) auto
qed simp

section \<open>The block of the encoder\<close>

lemma to_utf8_size_small: "0 \<le> ulen \<Longrightarrow> ulen \<le> 357913940 \<Longrightarrow> to_utf8_size ulen = 6 * nat (ulen + 1)"
  using sint_of_int_wrap [of "(ulen + 1) * 6" 0]
  by (simp add: to_utf8_size_def EINA_UNICODE_UTF8_BYTES_PER_CHAR_def size_of_int)

lemma to_utf8_size_wrapped:
  assumes "357913941 \<le> ulen" "ulen < 715827882"
  shows "2 ^ 63 \<le> to_utf8_size ulen"
  using assms sint_of_int_wrap [of "(ulen + 1) * 6" 1]
  by (simp add: to_utf8_size_def EINA_UNICODE_UTF8_BYTES_PER_CHAR_def size_of_int_negative)

lemma to_utf8_size_short:
  assumes "715827882 \<le> ulen" "ulen < 1073741823"
  shows "to_utf8_size ulen = nat ((ulen + 1) * 6 - 2 ^ 32)"
  using assms sint_of_int_wrap [of "(ulen + 1) * 6" 1]
  by (simp add: to_utf8_size_def EINA_UNICODE_UTF8_BYTES_PER_CHAR_def size_of_int)

lemma to_utf8_range_fits:
  assumes "length (to_utf8_loop us (nat ulen)) + 1 < 2 ^ 31" "ulen < 715827882"
  shows "eina_unicode_unicode_to_utf8_range True us ulen = Some (Some (to_utf8_loop us (nat ulen)))
    \<and> length (to_utf8_loop us (nat ulen)) \<le> to_utf8_size ulen"
proof -
  have "length (to_utf8_loop us (nat ulen)) \<le> to_utf8_size ulen"
  proof (cases "0 < ulen")
    case False
    then have "to_utf8_loop us (nat ulen) = []" by (cases us) simp_all
    then show ?thesis by simp
  next
    case True
    then show ?thesis
      using assms to_utf8_size_small [of ulen] to_utf8_size_wrapped [of ulen]
        to_utf8_loop_length [of us "nat ulen"]
      by (cases "ulen \<le> 357913940") auto
  qed
  then show ?thesis using assms by (simp add: eina_unicode_unicode_to_utf8_range_def Let_def)
qed

lemma strlen_as_int: "length us < 2 ^ 31 \<Longrightarrow>
    sint (of_nat (eina_unicode_strlen us) :: u32) = int (length us)"
  using sint_of_int_wrap [of "int (length us)" 0] by (simp add: eina_unicode_strlen_def)

lemma to_utf8_encodes:
  assumes "0 \<notin> set us" "length us < 715827882" "length (concat (map utf8_bytes us)) + 1 < 2 ^ 31"
  shows "eina_unicode_unicode_to_utf8 True us = Some (Some (concat (map utf8_bytes us)))"
  using to_utf8_range_fits [of us "int (length us)"] assms to_utf8_loop_concat [of us]
  by (simp add: eina_unicode_unicode_to_utf8_def strlen_as_int)


text \<open>
  C21: Decoding loses nothing: the code points of a buffer, malformed bytes included, encode
  back to exactly its bytes, unless it holds a three-byte sequence of the replacement range
  itself. The buffer has fewer than 715827882 bytes, so that the encoder's block is no smaller
  than it means to be.
\<close>

theorem decode_then_encode:
  assumes "surrogate_free buf" "0 \<notin> set buf" "length buf < 715827882"
  shows "do { us \<leftarrow> eina_unicode_utf8_to_unicode True buf; us \<leftarrow> us; eina_unicode_unicode_to_utf8 True us }
    = Some (Some buf)"
proof -
  obtain us where us: "get_len_from buf 0 = Some (length us)"
    "to_unicode_loop (length us) buf 0 = Some us" "0 \<notin> set us" "length us \<le> length buf"
    "concat (map utf8_bytes us) = buf"
    using decode_run [of 0 buf] assms by auto
  then have "eina_unicode_unicode_to_utf8 True us = Some (Some buf)"
    using to_utf8_encodes [of us] assms(3) by simp
  with us(1,2) show ?thesis
    by (simp add: eina_unicode_utf8_to_unicode_def eina_unicode_utf8_get_len_def)
qed

theorem decode_then_encode_witness:
  "do { us \<leftarrow> eina_unicode_utf8_to_unicode True [0x61, 0xC3, 0xFF, 0xE2, 0x82, 0xAC]; us \<leftarrow> us;
        eina_unicode_unicode_to_utf8 True us } = Some (Some [0x61, 0xC3, 0xFF, 0xE2, 0x82, 0xAC])"
  by (rule decode_then_encode) simp_all

text \<open>Encoded code points decode one by one.\<close>

lemma utf8_bytes_nonempty: "utf8_bytes c \<noteq> []"
  by (simp add: utf8_bytes_def)

lemma encodable_nonzero: "encodable c \<Longrightarrow> c \<noteq> 0"
  by (auto simp: encodable_def)

lemma encoded_run:
  "list_all encodable us \<Longrightarrow> i \<le> length buf \<Longrightarrow> drop i buf = concat (map utf8_bytes us) \<Longrightarrow>
     get_len_from buf i = Some (length us) \<and> to_unicode_loop (length us) buf i = Some us"
proof (induction us arbitrary: i)
  case Nil
  then have "i = length buf" by simp
  then show ?case by (simp add: get_len_from.simps next_get_end)
next
  case (Cons c us)
  note n = next_get_utf8_bytes [of c i buf "concat (map utf8_bytes us)"]
  have d: "drop i buf = utf8_bytes c @ concat (map utf8_bytes us)" using Cons.prems(3) by simp
  have "drop (length (utf8_bytes c)) (drop i buf) = concat (map utf8_bytes us)" unfolding d by simp
  then have "drop (i + length (utf8_bytes c)) buf = concat (map utf8_bytes us)"
    by (simp add: add.commute)
  moreover have "i + length (utf8_bytes c) \<le> length buf"
    using arg_cong [OF d, of length] Cons.prems(2) by simp
  ultimately show ?case
    using Cons.IH [of "i + length (utf8_bytes c)"] Cons.prems(1) n d
    by (simp add: get_len_from.simps [of buf i] encodable_nonzero add.commute)
qed

lemma encoded_length: "length (concat (map utf8_bytes us)) \<le> 6 * length us"
proof (induction us)
  case (Cons c us)
  then show ?case using utf8_bytes_length [of c] by simp
qed simp

text \<open>
  C22: Encoding positive code points outside the replacement range and decoding the bytes
  gives the code points back, over the whole 31-bit range of one to six byte sequences, for
  up to 357913941 of them, the most whose bytes an \<^verbatim>\<open>int\<close> counts.
\<close>

theorem encode_then_decode:
  assumes "list_all encodable us" "length us \<le> 357913941"
  shows "do { b \<leftarrow> eina_unicode_unicode_to_utf8 True us; b \<leftarrow> b; eina_unicode_utf8_to_unicode True b }
    = Some (Some us)"
proof -
  have "0 \<notin> set us" using assms(1) encodable_nonzero by (auto simp: list_all_iff)
  then have "eina_unicode_unicode_to_utf8 True us = Some (Some (concat (map utf8_bytes us)))"
    using assms(2) encoded_length [of us] by (intro to_utf8_encodes) simp_all
  moreover have "get_len_from (concat (map utf8_bytes us)) 0 = Some (length us)
      \<and> to_unicode_loop (length us) (concat (map utf8_bytes us)) 0 = Some us"
    by (rule encoded_run [OF assms(1)]) simp_all
  ultimately show ?thesis
    by (simp add: eina_unicode_utf8_to_unicode_def eina_unicode_utf8_get_len_def)
qed

theorem encode_then_decode_witness:
  "do { b \<leftarrow> eina_unicode_unicode_to_utf8 True [0x61, 0xE9, 0x20AC, 0x1F600, 0x300000, 0x7FFFFFFF];
        b \<leftarrow> b; eina_unicode_utf8_to_unicode True b }
    = Some (Some [0x61, 0xE9, 0x20AC, 0x1F600, 0x300000, 0x7FFFFFFF])"
proof (rule encode_then_decode)
  show "list_all encodable [0x61, 0xE9, 0x20AC, 0x1F600, 0x300000, 0x7FFFFFFF]" by code_simp
qed simp

lemma to_utf8_loop_takes:
  "to_utf8_loop us n = concat (map utf8_bytes (takeWhile (\<lambda>c. c \<noteq> 0) (take n us)))"
  by (induction us n rule: to_utf8_loop.induct) (auto simp: take_Cons')

text \<open>
  C24: Asked for at most 357913941 code points, the encoder stays in the block it allocates,
  whose size is the wrapping product \<^verbatim>\<open>(ulen + 1) * 6\<close>, whatever the code points are: it answers the
  bytes of the code points up to a zero or to \<open>ulen\<close>, or NULL when the allocation fails.
\<close>

theorem to_utf8_fits:
  assumes "ulen \<le> 357913941"
  shows "\<exists>b. eina_unicode_unicode_to_utf8_range ok us ulen = Some (if ok then Some b else None)
    \<and> b = concat (map utf8_bytes (takeWhile (\<lambda>c. c \<noteq> 0) (take (nat ulen) us)))
    \<and> length b \<le> to_utf8_size ulen"
proof -
  have "length (to_utf8_loop us (nat ulen)) + 1 < 2 ^ 31"
    using to_utf8_loop_length [of us "nat ulen"] assms(1) by simp
  then show ?thesis
    using to_utf8_range_fits [of us ulen] assms(1)
    by (simp add: to_utf8_loop_takes eina_unicode_unicode_to_utf8_range_def)
qed

theorem to_utf8_fits_witness:
  "eina_unicode_unicode_to_utf8_range True [0x20AC, 0, 0x61] 3 = Some (Some [0xE2, 0x82, 0xAC])
    \<and> 3 \<le> to_utf8_size 3"
  using to_utf8_fits [of 3 True "[0x20AC, 0, 0x61]"] by (simp add: utf8_bytes_def utf8_cont_def)

text \<open>
  A string of 715827882 code points or more (up to 858993457) makes the product wrap to a
  small positive number, and the encoder writes past its block, whatever the code points are:
  each takes at least one byte.
\<close>

theorem to_utf8_overruns:
  assumes "715827882 \<le> length us" "length us < 858993458" "0 \<notin> set us"
  shows "eina_unicode_unicode_to_utf8 True us = None"
proof -
  have "length us \<le> length (concat (map utf8_bytes us))"
  proof (induction us)
    case (Cons c us)
    then show ?case using utf8_bytes_nonempty [of c] by (cases "utf8_bytes c") simp_all
  qed simp
  then show ?thesis
    using assms to_utf8_size_short [of "int (length us)"] to_utf8_loop_concat [of us]
    by (simp add: eina_unicode_unicode_to_utf8_def eina_unicode_unicode_to_utf8_range_def
        strlen_as_int Let_def) linarith
qed

theorem to_utf8_overruns_witness:
  "eina_unicode_unicode_to_utf8 True (replicate 715827882 0x61) = None"
  by (rule to_utf8_overruns) simp_all

section \<open>Stepping back\<close>

lemma bit_C0_6: "bit (0xC0 :: u8) 6"
  by simp

lemma bit6_lead: "bit (m :: u8) 6 \<Longrightarrow> (m OR x) AND 0xC0 \<noteq> 0x80"
proof
  assume "bit m 6" "(m OR x) AND 0xC0 = 0x80"
  then have "bit (0x80 :: u8) 6" by (metis bit_and_iff bit_or_iff bit_C0_6)
  then show False by simp
qed

lemma lead_not_cont:
  "(0xC0 OR (x :: u8)) AND 0xC0 \<noteq> 0x80" "(0xE0 OR x) AND 0xC0 \<noteq> 0x80" "(0xF0 OR x) AND 0xC0 \<noteq> 0x80"
  "(0xF8 OR x) AND 0xC0 \<noteq> 0x80" "(0xFC OR x) AND 0xC0 \<noteq> 0x80"
  by (rule bit6_lead; simp)+

lemma utf8_bytes_shape:
  assumes "encodable c"
  shows "\<exists>l cs. utf8_bytes c = l # cs \<and> l AND 0xc0 \<noteq> 0x80 \<and> list_all is_continuation_byte cs"
proof -
  have "sint c \<le> 0x7F \<Longrightarrow> (ucast c :: u8) AND 0xC0 \<noteq> 0x80"
  proof -
    assume "sint c \<le> 0x7F"
    then have "unat c < 2 ^ 7"
      using assms sint_pos_unat [of c] by (simp add: encodable_def uint_unat_numeral)
    then have "take_bit 7 (ucast c :: u8) = ucast c" using ucast_low [of c 7] by simp
    then show ?thesis using low_not_continuation by metis
  qed
  then show ?thesis
    using assms by (auto simp: utf8_bytes_def encodable_def lead_not_cont)
qed

lemma prev_start_conts:
  assumes "drop s buf = l # cs @ rest" "list_all is_continuation_byte cs" "l AND 0xc0 \<noteq> 0x80" "k \<le> length cs"
  shows "prev_start buf (s + k) = Some s"
  using assms(4)
proof (induction k)
  case 0
  have "rd buf s = Some l" using rd_at [of s buf "l # cs" rest 0] assms(1) by simp
  then show ?case using assms(3) by (cases s) simp_all
next
  case (Suc k)
  have "rd buf (s + Suc k) = Some (cs ! k)" using rd_at [of s buf "l # cs" rest "Suc k"] assms(1) Suc.prems by simp
  moreover have "cs ! k AND 0xc0 = 0x80"
    using assms(2) Suc.prems by (simp add: list_all_length is_continuation_byte_def)
  ultimately show ?case using Suc by simp
qed

definition encoded :: "u32 list \<Rightarrow> u8 list" where
  "encoded us = concat (map utf8_bytes us)"

lemma next_get_at_boundary:
  assumes "list_all encodable post" "drop i buf = encoded post" "i \<le> length buf"
  shows "\<exists>i'. eina_unicode_utf8_next_get buf i = Some (case post of [] \<Rightarrow> 0 | c # cs \<Rightarrow> c, i')"
proof (cases post)
  case Nil
  then have "i = length buf" using assms by (simp add: encoded_def)
  then show ?thesis using Nil next_get_end [of buf] by auto
next
  case (Cons c cs)
  then show ?thesis
    using next_get_utf8_bytes [of c i buf "encoded cs"] assms by (simp add: encoded_def)
qed

text \<open>
  From the boundary after a character of an encoded string, stepping back returns the
  character at the boundary (zero at the end) and moves to the start of the one before it.
\<close>

theorem get_prev_steps_back:
  assumes "list_all encodable (pre @ c # post)"
  shows "eina_unicode_utf8_get_prev (encoded (pre @ c # post)) (length (encoded (pre @ [c])))
    = Some (case post of [] \<Rightarrow> 0 | d # ds \<Rightarrow> d, length (encoded pre))"
proof -
  let ?buf = "encoded (pre @ c # post)" and ?i = "length (encoded (pre @ [c]))"
  have buf: "?buf = encoded pre @ utf8_bytes c @ encoded post" by (simp add: encoded_def)
  have i: "?i = length (encoded pre) + length (utf8_bytes c)" by (simp add: encoded_def)
  obtain l cs where l: "utf8_bytes c = l # cs" "l AND 0xc0 \<noteq> 0x80" "list_all is_continuation_byte cs"
    using utf8_bytes_shape [of c] assms by auto
  have "drop (length (encoded pre)) ?buf = l # cs @ encoded post" by (simp add: buf l)
  from prev_start_conts [OF this l(3,2), of "length cs"]
  have p: "prev_start ?buf (?i - 1) = Some (length (encoded pre))" by (simp add: i l)
  obtain i' where "eina_unicode_utf8_next_get ?buf ?i = Some (case post of [] \<Rightarrow> 0 | d # ds \<Rightarrow> d, i')"
    using next_get_at_boundary [of post ?i ?buf] assms by (auto simp: buf i)
  moreover have "?i \<noteq> 0" by (simp add: i l)
  ultimately show ?thesis using p by (simp add: eina_unicode_utf8_get_prev_def)
qed

theorem get_prev_steps_back_witness:
  "eina_unicode_utf8_get_prev (encoded ([0x61] @ 0x20AC # [0xE9])) (length (encoded ([0x61] @ [0x20AC])))
    = Some (case [0xE9] of [] \<Rightarrow> 0 | d # ds \<Rightarrow> d, length (encoded [0x61]))"
  by (rule get_prev_steps_back) code_simp

end
