(* ===== verification/Eina_Rbtree.thy ===== *)
theory Eina_Rbtree
  imports Efl_Order
begin

text \<open>
  The red-black trees of eina (\<^verbatim>\<open>src/src/lib/eina/eina_rbtree.c\<close> and
  \<^verbatim>\<open>eina_inline_rbtree.x\<close>). A tree is given by its structure, a node by its colour, its two
  sons and an element of type \<open>'a\<close>, which stands for the object the node is embedded in and
  carries its identity. The array of link pointers \<^verbatim>\<open>stack\<close> of the code is a list of frames:
  a frame is the node the link leads to, the direction taken there and the other son.
  \<open>None\<close> is an access through a null pointer.
\<close>

section \<open>Trees\<close>

datatype color = EINA_RBTREE_RED | EINA_RBTREE_BLACK

datatype direction = EINA_RBTREE_LEFT | EINA_RBTREE_RIGHT

datatype 'a rbtree = NULL | Rbtree color "'a rbtree" 'a "'a rbtree"

fun opposite :: "direction \<Rightarrow> direction" where
  "opposite EINA_RBTREE_LEFT = EINA_RBTREE_RIGHT"
| "opposite EINA_RBTREE_RIGHT = EINA_RBTREE_LEFT"

fun son :: "'a rbtree \<Rightarrow> direction \<Rightarrow> 'a rbtree" where
  "son NULL d = NULL"
| "son (Rbtree c l x r) EINA_RBTREE_LEFT = l"
| "son (Rbtree c l x r) EINA_RBTREE_RIGHT = r"

fun set_son :: "'a rbtree \<Rightarrow> direction \<Rightarrow> 'a rbtree \<Rightarrow> 'a rbtree" where
  "set_son NULL d t = NULL"
| "set_son (Rbtree c l x r) EINA_RBTREE_LEFT t = Rbtree c t x r"
| "set_son (Rbtree c l x r) EINA_RBTREE_RIGHT t = Rbtree c l x t"

fun set_color :: "color \<Rightarrow> 'a rbtree \<Rightarrow> 'a rbtree" where
  "set_color c NULL = NULL"
| "set_color c (Rbtree c' l x r) = Rbtree c l x r"

fun is_red :: "'a rbtree \<Rightarrow> bool" where
  "is_red NULL = False"
| "is_red (Rbtree c l x r) = (c = EINA_RBTREE_RED)"

text \<open>The tree with one link followed, and the links put back.\<close>

type_synonym 'a frame = "color \<times> 'a \<times> direction \<times> 'a rbtree"

definition node :: "color \<Rightarrow> 'a \<Rightarrow> direction \<Rightarrow> 'a rbtree \<Rightarrow> 'a rbtree \<Rightarrow> 'a rbtree" where
  "node c x d t u = (case d of EINA_RBTREE_LEFT \<Rightarrow> Rbtree c t x u | EINA_RBTREE_RIGHT \<Rightarrow> Rbtree c u x t)"

fun plug :: "'a rbtree \<Rightarrow> 'a frame list \<Rightarrow> 'a rbtree" where
  "plug t [] = t"
| "plug t ((c, x, d, u) # fs) = plug (node c x d t u) fs"

section \<open>Rotations\<close>

definition single_rotation :: "'a rbtree \<Rightarrow> direction \<Rightarrow> 'a rbtree option" where
  "single_rotation n dir =
     (let save = son n (opposite dir) in
      if n = NULL \<or> save = NULL then None
      else
        let n = set_son n (opposite dir) (son save dir);
            n = set_color EINA_RBTREE_RED n;
            save = set_color EINA_RBTREE_BLACK (set_son save dir n)
        in Some save)"

definition double_rotation :: "'a rbtree \<Rightarrow> direction \<Rightarrow> 'a rbtree option" where
  "double_rotation n dir =
     do { s \<leftarrow> single_rotation (son n (opposite dir)) (opposite dir);
          single_rotation (set_son n (opposite dir) s) dir }"

section \<open>Lookup and insertion\<close>

fun eina_rbtree_inline_lookup :: "'a rbtree \<Rightarrow> ('a \<Rightarrow> int) \<Rightarrow> 'a option" where
  "eina_rbtree_inline_lookup NULL cmp = None"
| "eina_rbtree_inline_lookup (Rbtree c l x r) cmp =
     (let result = cmp x in
      if result \<noteq> 0 then eina_rbtree_inline_lookup (if result < 0 then l else r) cmp
      else Some x)"

text \<open>The path to the leaf, innermost link first.\<close>

fun insert_path :: "'a rbtree \<Rightarrow> ('a \<Rightarrow> direction) \<Rightarrow> 'a frame list \<Rightarrow> 'a frame list" where
  "insert_path NULL cmp stack = stack"
| "insert_path (Rbtree c l x r) cmp stack =
     (case cmp x of
        EINA_RBTREE_LEFT \<Rightarrow> insert_path l cmp ((c, x, EINA_RBTREE_LEFT, r) # stack)
      | EINA_RBTREE_RIGHT \<Rightarrow> insert_path r cmp ((c, x, EINA_RBTREE_RIGHT, l) # stack))"

fun insert_rebalance :: "'a rbtree \<Rightarrow> 'a frame list \<Rightarrow> 'a rbtree option" where
  "insert_rebalance a [] = Some a"
| "insert_rebalance a ((c, x, dir, b) # stack) =
     (let q = node c x dir a b in
      if \<not> is_red a then Some (plug q stack)
      else if is_red b then
        insert_rebalance (node EINA_RBTREE_RED x dir (set_color EINA_RBTREE_BLACK a)
          (set_color EINA_RBTREE_BLACK b)) stack
      else if is_red (son a dir) then
        do { q \<leftarrow> single_rotation q (opposite dir); insert_rebalance q stack }
      else if is_red (son a (opposite dir)) then
        do { q \<leftarrow> double_rotation q (opposite dir); insert_rebalance q stack }
      else insert_rebalance q stack)"

definition eina_rbtree_inline_insert ::
    "'a rbtree \<Rightarrow> 'a \<Rightarrow> ('a \<Rightarrow> 'a \<Rightarrow> direction) \<Rightarrow> 'a rbtree option" where
  "eina_rbtree_inline_insert root n cmp =
     map_option (set_color EINA_RBTREE_BLACK)
       (insert_rebalance (Rbtree EINA_RBTREE_RED NULL n NULL) (insert_path root (\<lambda>q. cmp q n) []))"

section \<open>Removal\<close>

text \<open>The node, by its identity: its colour, its sons and the path to it.\<close>

fun find_node ::
    "'a rbtree \<Rightarrow> 'a \<Rightarrow> ('a \<Rightarrow> direction) \<Rightarrow> 'a frame list \<Rightarrow>
     (color \<times> 'a rbtree \<times> 'a rbtree \<times> 'a frame list) option" where
  "find_node NULL n cmp stack = None"
| "find_node (Rbtree c l x r) n cmp stack =
     (if x = n then Some (c, l, r, stack)
      else case cmp x of
        EINA_RBTREE_LEFT \<Rightarrow> find_node l n cmp ((c, x, EINA_RBTREE_LEFT, r) # stack)
      | EINA_RBTREE_RIGHT \<Rightarrow> find_node r n cmp ((c, x, EINA_RBTREE_RIGHT, l) # stack))"

text \<open>
  The detached entry that replaces a node with two sons: the end of the left links of its
  right son, with its colour and right son, and the path to it.
\<close>

fun detach ::
    "'a rbtree \<Rightarrow> 'a frame list \<Rightarrow> (color \<times> 'a \<times> 'a rbtree \<times> 'a frame list) option" where
  "detach NULL stack = None"
| "detach (Rbtree c l x r) stack =
     (if l = NULL then Some (c, x, r, stack)
      else detach l ((c, x, EINA_RBTREE_LEFT, r) # stack))"

definition recolor_top :: "color \<Rightarrow> 'a rbtree \<Rightarrow> 'a rbtree option" where
  "recolor_top c t =
     (case t of NULL \<Rightarrow> None
      | Rbtree _ l x r \<Rightarrow>
          if l = NULL \<or> r = NULL then None
          else Some (Rbtree c (set_color EINA_RBTREE_BLACK l) x (set_color EINA_RBTREE_BLACK r)))"

text \<open>
  One step at the node \<open>r\<close> whose son at \<open>dir\<close> lacks a black node; the flag is the break.
\<close>

definition rebalance_step :: "'a rbtree \<Rightarrow> direction \<Rightarrow> ('a rbtree \<times> bool) option" where
  "rebalance_step r dir =
     (let q = son r (opposite dir);
          r_color = (if is_red r then EINA_RBTREE_RED else EINA_RBTREE_BLACK) in
      if q = NULL then Some (r, False)
      else if is_red (son q (opposite dir)) then
        do { t \<leftarrow> single_rotation r dir; t \<leftarrow> recolor_top r_color t; Some (t, True) }
      else if is_red (son q dir) then
        do { t \<leftarrow> double_rotation r dir; t \<leftarrow> recolor_top r_color t; Some (t, True) }
      else
        Some (set_son (set_color EINA_RBTREE_BLACK r) (opposite dir) (set_color EINA_RBTREE_RED q),
              r_color = EINA_RBTREE_RED))"

definition link :: "'a rbtree \<Rightarrow> direction \<Rightarrow> 'a frame list" where
  "link t dir = (case t of NULL \<Rightarrow> []
     | Rbtree c l x r \<Rightarrow> [(c, x, dir, son t (opposite dir))])"

fun remove_rebalance :: "'a rbtree \<Rightarrow> 'a frame list \<Rightarrow> 'a rbtree option" where
  "remove_rebalance t [] = Some t"
| "remove_rebalance t ((c, x, dir, q) # stack) =
     do { (r, rt) \<leftarrow>
            (if is_red q then
               do { save \<leftarrow> single_rotation (node c x dir t q) dir; Some (son save dir, link save dir) }
             else Some (node c x dir t q, []));
          (r, done) \<leftarrow> rebalance_step r dir;
          if done then Some (plug r (rt @ stack)) else remove_rebalance (plug r rt) stack }"

definition eina_rbtree_inline_remove ::
    "'a rbtree \<Rightarrow> 'a \<Rightarrow> ('a \<Rightarrow> 'a \<Rightarrow> direction) \<Rightarrow> 'a rbtree option" where
  "eina_rbtree_inline_remove root n cmp =
     (case find_node root n (\<lambda>q. cmp q n) [] of
        None \<Rightarrow> Some root
      | Some (c, l0, l1, stack) \<Rightarrow>
          map_option (set_color EINA_RBTREE_BLACK)
            (if l0 \<noteq> NULL \<and> l1 \<noteq> NULL then
               do { (cq, q, u, path) \<leftarrow> detach l1 [];
                    if cq = EINA_RBTREE_RED
                    then Some (plug u (path @ (c, q, EINA_RBTREE_RIGHT, l0) # stack))
                    else remove_rebalance u (path @ (c, q, EINA_RBTREE_RIGHT, l0) # stack) }
             else
               let l0 = (if l0 = NULL then l1 else l0) in
               if c = EINA_RBTREE_RED then Some (plug l0 stack)
               else if is_red l0 then Some (plug (set_color EINA_RBTREE_BLACK l0) stack)
               else remove_rebalance l0 stack))"

fun eina_rbtree_delete :: "'a rbtree \<Rightarrow> 'a list" where
  "eina_rbtree_delete NULL = []"
| "eina_rbtree_delete (Rbtree c l x r) = eina_rbtree_delete l @ eina_rbtree_delete r @ [x]"

section \<open>Nodes seen from one of their links\<close>

lemma opposite_opposite [simp]: "opposite (opposite d) = d"
  by (cases d) simp_all

lemma opposite_noteq [simp]: "opposite d \<noteq> d" "d \<noteq> opposite d"
  by (cases d; simp)+

lemma node_opposite: "node c x (opposite d) t u = node c x d u t"
  by (cases d) (simp_all add: node_def)

lemma node_cases: "t = NULL \<or> (\<exists>c x a b. t = node c x d a b)"
  by (cases t; cases d) (auto simp: node_def)

lemma node_simps [simp]:
  "node c x d a b \<noteq> NULL" "son (node c x d a b) d = a" "son (node c x d a b) (opposite d) = b"
  "set_son (node c x d a b) d t = node c x d t b" "set_son (node c x d a b) (opposite d) t = node c x d a t"
  "set_color c' (node c x d a b) = node c' x d a b" "is_red (node c x d a b) = (c = EINA_RBTREE_RED)"
  "link (node c x d a b) d = [(c, x, d, b)]"
  by (cases d; simp add: node_def link_def)+

lemma set_color_NULL [simp]: "set_color c t = NULL \<longleftrightarrow> t = NULL" "NULL = set_color c t \<longleftrightarrow> t = NULL"
  by (cases t; simp)+

lemma is_red_set_color [simp]:
  "is_red (set_color EINA_RBTREE_RED t) = (t \<noteq> NULL)" "\<not> is_red (set_color EINA_RBTREE_BLACK t)"
  "set_color c (set_color c' t) = set_color c t"
  by (cases t; simp)+

lemma single_rotation_node [simp]:
  "single_rotation (node c x d a (node c' y d s t)) d =
     Some (node EINA_RBTREE_BLACK y d (node EINA_RBTREE_RED x d a s) t)"
  by (simp add: single_rotation_def)

lemma single_rotation_opposite [simp]:
  "single_rotation (node c x d (node c' y d s t) b) (opposite d) =
     Some (node EINA_RBTREE_BLACK y d s (node EINA_RBTREE_RED x d t b))"
  using single_rotation_node [of c x "opposite d" b c' y t s] by (simp add: node_opposite)

lemma double_rotation_node [simp]:
  "double_rotation (node c x d a (node c' y d (node c'' z d e f) t)) d =
     Some (node EINA_RBTREE_BLACK z d (node EINA_RBTREE_RED x d a e) (node EINA_RBTREE_RED y d f t))"
  by (simp add: double_rotation_def)

lemma double_rotation_opposite [simp]:
  "double_rotation (node c x d (node c' y d s (node c'' z d e f)) b) (opposite d) =
     Some (node EINA_RBTREE_BLACK z d (node EINA_RBTREE_RED y d s e) (node EINA_RBTREE_RED x d f b))"
  using double_rotation_node [of c x "opposite d" b c' y c'' z f e s] by (simp add: node_opposite)

lemma recolor_top_node [simp]:
  "a \<noteq> NULL \<Longrightarrow> b \<noteq> NULL \<Longrightarrow> recolor_top c (node c' x d a b) =
     Some (node c x d (set_color EINA_RBTREE_BLACK a) (set_color EINA_RBTREE_BLACK b))"
  by (cases d) (simp_all add: recolor_top_def node_def)

lemma red_node: "is_red t \<Longrightarrow> \<exists>x a b. t = node EINA_RBTREE_RED x d a b"
  by (cases t; cases d) (auto simp: node_def)

section \<open>The red-black invariant\<close>

text \<open>\<open>black n\<close>: every path has \<open>n\<close> black nodes. \<open>colored\<close>: no red node has a red son.\<close>

fun black :: "nat \<Rightarrow> 'a rbtree \<Rightarrow> bool" where
  "black n NULL \<longleftrightarrow> n = 0"
| "black n (Rbtree c l x r) \<longleftrightarrow>
     (if c = EINA_RBTREE_RED then black n l \<and> black n r
      else n \<noteq> 0 \<and> black (n - 1) l \<and> black (n - 1) r)"

fun colored :: "'a rbtree \<Rightarrow> bool" where
  "colored NULL \<longleftrightarrow> True"
| "colored (Rbtree c l x r) \<longleftrightarrow>
     colored l \<and> colored r \<and> (c = EINA_RBTREE_RED \<longrightarrow> \<not> is_red l \<and> \<not> is_red r)"

definition rb_inv :: "'a rbtree \<Rightarrow> bool" where
  "rb_inv t \<longleftrightarrow> (\<exists>n. black n t) \<and> colored t \<and> \<not> is_red t"

lemma color_exhaust: "c \<noteq> EINA_RBTREE_RED \<longleftrightarrow> c = EINA_RBTREE_BLACK"
  by (cases c) simp_all

lemma black_node:
  "black n (node c x d a b) \<longleftrightarrow>
     (if c = EINA_RBTREE_RED then black n a \<and> black n b
      else n \<noteq> 0 \<and> black (n - 1) a \<and> black (n - 1) b)"
  by (cases d) (auto simp: node_def)

lemma colored_node:
  "colored (node c x d a b) \<longleftrightarrow>
     colored a \<and> colored b \<and> (c = EINA_RBTREE_RED \<longrightarrow> \<not> is_red a \<and> \<not> is_red b)"
  by (cases d) (auto simp: node_def)

lemma colored_set_color: "colored t \<Longrightarrow> colored (set_color EINA_RBTREE_BLACK t)"
  by (cases t) simp_all

lemma black_set_color:
  "black n t \<Longrightarrow> \<exists>m. black m (set_color EINA_RBTREE_BLACK t)"
  "is_red t \<Longrightarrow> black n t \<Longrightarrow> black (Suc n) (set_color EINA_RBTREE_BLACK t)"
  "\<not> is_red t \<Longrightarrow> set_color EINA_RBTREE_BLACK t = t"
  by (cases t; auto simp: color_exhaust split: if_splits; fail | metis color.exhaust diff_Suc_1 nat.distinct(1) set_color.simps(2) black.simps(2))+

text \<open>
  A context for a tree with \<open>n\<close> black nodes on its paths; \<open>red\<close>: the hole may not be red
  under a red node.
\<close>

fun fits :: "'a frame list \<Rightarrow> nat \<Rightarrow> bool \<Rightarrow> bool" where
  "fits [] n red \<longleftrightarrow> True"
| "fits ((c, x, d, b) # fs) n red \<longleftrightarrow>
     black n b \<and> colored b \<and> (c = EINA_RBTREE_RED \<longrightarrow> \<not> is_red b \<and> \<not> red) \<and>
     fits fs (if c = EINA_RBTREE_RED then n else Suc n) (c = EINA_RBTREE_RED)"

lemma fits_red: "fits fs n red \<Longrightarrow> fits fs n False"
  by (induction fs n red rule: fits.induct) auto

lemma fits_plug:
  "fits fs n (is_red t) \<Longrightarrow> black n t \<Longrightarrow> colored t \<Longrightarrow> (\<exists>m. black m (plug t fs)) \<and> colored (plug t fs)"
proof (induction fs arbitrary: n t)
  case (Cons f fs)
  obtain c x d b where f: "f = (c, x, d, b)" by (cases f)
  show ?case
    using Cons.prems Cons.IH [of "if c = EINA_RBTREE_RED then n else Suc n" "node c x d t b"]
    by (auto simp: f black_node colored_node split: if_splits)
qed auto


section \<open>Insertion\<close>

text \<open>
  The loop keeps a tree that is correct, or a red node over one red son under a black link.
\<close>

definition one_red_son :: "'a rbtree \<Rightarrow> bool" where
  "one_red_son t \<longleftrightarrow>
     is_red (son t EINA_RBTREE_LEFT) \<noteq> is_red (son t EINA_RBTREE_RIGHT) \<and>
     colored (son t EINA_RBTREE_LEFT) \<and> colored (son t EINA_RBTREE_RIGHT)"

lemma one_red_son_node: "one_red_son (node c x d s t) \<longleftrightarrow> is_red s \<noteq> is_red t \<and> colored s \<and> colored t"
  by (cases d) (auto simp: one_red_son_def node_def)

lemma one_red_son_black: "one_red_son t \<Longrightarrow> colored (set_color EINA_RBTREE_BLACK t)"
  by (cases t) (auto simp: one_red_son_def)

definition near :: "'a frame list \<Rightarrow> nat \<Rightarrow> 'a rbtree \<Rightarrow> bool" where
  "near fs n t \<longleftrightarrow> black n t \<and>
     (colored t \<and> fits fs n False \<or> fits fs n True \<and> is_red t \<and> one_red_son t)"

lemma nearI: "black n t \<Longrightarrow> colored t \<Longrightarrow> fits fs n False \<Longrightarrow> near fs n t"
  by (simp add: near_def)

lemma near_black: "near fs n t \<Longrightarrow> \<not> is_red t \<Longrightarrow> black n t \<and> colored t \<and> fits fs n False"
  by (auto simp: near_def)

lemma near_recolor: 
  assumes "near ((c, x, d, b) # fs) n a" "is_red a" "is_red b"
  shows "near fs (Suc n) (node EINA_RBTREE_RED x d (set_color EINA_RBTREE_BLACK a) (set_color EINA_RBTREE_BLACK b))"
proof (rule nearI)
  have b: "black n b" "colored b" "black n a" "colored (set_color EINA_RBTREE_BLACK a)"
    using assms(1) by (auto simp: near_def one_red_son_black colored_set_color)
  then show "black (Suc n) (node EINA_RBTREE_RED x d (set_color EINA_RBTREE_BLACK a) (set_color EINA_RBTREE_BLACK b))"
    using assms(2,3) by (simp add: black_node black_set_color)
  show "colored (node EINA_RBTREE_RED x d (set_color EINA_RBTREE_BLACK a) (set_color EINA_RBTREE_BLACK b))"
    using b by (simp add: colored_node colored_set_color)
  show "fits fs (Suc n) False" using assms(1,3) by (auto simp: near_def dest: fits_red)
qed

lemma near_rotate:
  assumes near: "near ((c, x, d, b) # fs) n a" and b: "\<not> is_red b"
    and a: "is_red (son a d) \<or> is_red (son a (opposite d))" "is_red a"
  shows "\<exists>t. (if is_red (son a d) then single_rotation (node c x d a b) (opposite d)
        else double_rotation (node c x d a b) (opposite d)) = Some t \<and> near fs (Suc n) t"
proof -
  obtain y s t where n: "a = node EINA_RBTREE_RED y d s t" using red_node [OF a(2)] by blast
  have not: "\<not> colored a" using a(1) by (auto simp: n colored_node)
  then have h: "black n a" "c = EINA_RBTREE_BLACK" "black n b" "colored b" "fits fs (Suc n) False"
      "(is_red s \<and> \<not> is_red t \<or> \<not> is_red s \<and> is_red t) \<and> colored s \<and> colored t"
    using near by (auto simp: near_def color_exhaust n one_red_son_node colored_node)
  show ?thesis
  proof (cases "is_red s")
    case True
    then show ?thesis using h b by (auto simp: n intro!: nearI simp: black_node colored_node)
  next
    case False
    then obtain z e f where "t = node EINA_RBTREE_RED z d e f" using h red_node by blast
    with False show ?thesis using h b by (auto simp: n intro!: nearI simp: black_node colored_node)
  qed
qed

lemma near_step:
  assumes near: "near ((c, x, d, b) # fs) n a" and b: "\<not> is_red b"
    and a: "\<not> is_red (son a d)" "\<not> is_red (son a (opposite d))" "is_red a"
  shows "near fs (if c = EINA_RBTREE_RED then n else Suc n) (node c x d a b)"
proof -
  obtain y s t where n: "a = node EINA_RBTREE_RED y d s t" using red_node [OF a(3)] by blast
  have "colored a" "fits ((c, x, d, b) # fs) n False" "black n a"
    using near a(1,2) by (auto simp: near_def n one_red_son_node)
  then show ?thesis
    using b a by (auto simp: n near_def black_node colored_node one_red_son_node dest: fits_red)
qed

lemma insert_rebalance_inv:
  "near fs n a \<Longrightarrow> \<exists>t m. insert_rebalance a fs = Some t \<and> black m t \<and> colored (set_color EINA_RBTREE_BLACK t)"
proof (induction a fs arbitrary: n rule: insert_rebalance.induct)
  case (1 a)
  then show ?case by (auto simp: near_def one_red_son_black colored_set_color)
next
  case (2 a c x d b fs)
  consider (stop) "\<not> is_red a" | (recolor) "is_red a" "is_red b"
    | (rotate) "is_red a" "\<not> is_red b" "is_red (son a d) \<or> is_red (son a (opposite d))"
    | (up) "is_red a" "\<not> is_red b" "\<not> is_red (son a d)" "\<not> is_red (son a (opposite d))" by blast
  then show ?case
  proof cases
    case stop
    then have "fits ((c, x, d, b) # fs) n (is_red a)" "black n a" "colored a"
      using near_black [OF "2.prems"] by auto
    from fits_plug [OF this] stop show ?thesis by (auto simp: colored_set_color)
  next
    case recolor
    then show ?thesis using "2.IH"(1) [OF refl] near_recolor [OF "2.prems"] by auto
  next
    case rotate
    from near_rotate [OF "2.prems" rotate(2,3,1)] obtain t where
      t: "(if is_red (son a d) then single_rotation (node c x d a b) (opposite d)
        else double_rotation (node c x d a b) (opposite d)) = Some t" "near fs (Suc n) t" by blast
    then show ?thesis using "2.IH"(2,3) [OF refl] rotate by (auto split: if_splits)
  next
    case up
    then show ?thesis using "2.IH"(4) [OF refl] near_step [OF "2.prems" up(2,3,4,1)] by auto
  qed
qed

lemma insert_path_fits:
  "black n t \<Longrightarrow> colored t \<Longrightarrow> fits fs n (is_red t) \<Longrightarrow> fits (insert_path t cmp fs) 0 False"
proof (induction t cmp fs arbitrary: n rule: insert_path.induct)
  case (1 cmp stack)
  then show ?case by simp
next
  case (2 c l x r cmp stack)
  then show ?case
    by (auto split: direction.splits if_splits dest: fits_red)
qed

lemma rb_inv_insert:
  assumes "rb_inv t"
  shows "\<exists>t'. eina_rbtree_inline_insert t n cmp = Some t' \<and> rb_inv t'"
proof -
  obtain k where "black k t" "colored t" "\<not> is_red t" using assms by (auto simp: rb_inv_def)
  then have "fits (insert_path t (\<lambda>q. cmp q n) []) 0 False" by (intro insert_path_fits) simp_all
  then have "near (insert_path t (\<lambda>q. cmp q n) []) 0 (Rbtree EINA_RBTREE_RED NULL n NULL)"
    by (intro nearI) simp_all
  from insert_rebalance_inv [OF this] show ?thesis
    using black_set_color(1) by (fastforce simp: eina_rbtree_inline_insert_def rb_inv_def)
qed

section \<open>Removal\<close>

lemma rebalance_step_ok:
  assumes q: "\<not> is_red q" and t: "black n t" "colored t"
    and fits: "fits ((c, x, d, q) # fs) (Suc n) False"
  shows "\<exists>r done. rebalance_step (node c x d t q) d = Some (r, done) \<and> colored r \<and>
    (if done then \<exists>m. black m r \<and> fits fs m (is_red r)
     else c = EINA_RBTREE_BLACK \<and> black (Suc n) r \<and> fits fs (Suc (Suc n)) False)"
proof -
  have "q \<noteq> NULL" using fits by auto
  then obtain y s u where n: "q = node EINA_RBTREE_BLACK y d s u"
    using node_cases [of q d] q by (auto simp: color_exhaust)
  then have b: "black n s" "black n u" "colored s" "colored u"
    using fits by (auto simp: black_node colored_node)
  have f: "fits fs (if c = EINA_RBTREE_RED then Suc n else Suc (Suc n)) (c = EINA_RBTREE_RED)"
    using fits by simp
  consider (single) "is_red u" | (double) "is_red s" "\<not> is_red u" | (up) "\<not> is_red s" "\<not> is_red u"
    by blast
  then show ?thesis
  proof cases
    case single
    then obtain z e g where u: "u = node EINA_RBTREE_RED z d e g" using red_node by blast
    let ?r = "node c y d (node EINA_RBTREE_BLACK x d t s) (node EINA_RBTREE_BLACK z d e g)"
    have "rebalance_step (node c x d t q) d = Some (?r, True)"
      by (cases c) (simp_all add: n u rebalance_step_def)
    moreover have "colored ?r" "black (if c = EINA_RBTREE_RED then Suc n else Suc (Suc n)) ?r"
      using b t by (auto simp: u black_node colored_node)
    ultimately show ?thesis using f by (intro exI [of _ ?r] exI [of _ True]) auto
  next
    case double
    then obtain z e g where s: "s = node EINA_RBTREE_RED z d e g" using red_node by blast
    let ?r = "node c z d (node EINA_RBTREE_BLACK x d t e) (node EINA_RBTREE_BLACK y d g u)"
    have "rebalance_step (node c x d t q) d = Some (?r, True)"
      using double by (cases c) (simp_all add: n s rebalance_step_def)
    moreover have "colored ?r" "black (if c = EINA_RBTREE_RED then Suc n else Suc (Suc n)) ?r"
      using b t by (auto simp: s black_node colored_node)
    ultimately show ?thesis using f by (intro exI [of _ ?r] exI [of _ True]) auto
  next
    case up
    let ?r = "node EINA_RBTREE_BLACK x d t (node EINA_RBTREE_RED y d s u)"
    have "rebalance_step (node c x d t q) d = Some (?r, c = EINA_RBTREE_RED)"
      using up by (cases c) (simp_all add: n rebalance_step_def)
    moreover have "colored ?r" "black (Suc n) ?r"
      using b t up by (auto simp: black_node colored_node)
    ultimately show ?thesis
      using f fits_red [of fs "Suc n" True]
      by (intro exI [of _ ?r] exI [of _ "c = EINA_RBTREE_RED"]) (auto simp: color_exhaust)
  qed
qed

lemma remove_rebalance_inv:
  "black n t \<Longrightarrow> colored t \<Longrightarrow> fits fs (Suc n) False \<Longrightarrow>
     \<exists>r m. remove_rebalance t fs = Some r \<and> black m r \<and> colored r"
proof (induction t fs arbitrary: n rule: remove_rebalance.induct)
  case (1 t)
  then show ?case by auto
next
  case (2 t c x d q fs)
  note fits = "2.prems"(3)
  show ?case
  proof (cases "is_red q")
    case False
    from rebalance_step_ok [OF False "2.prems"]
    obtain r br where r: "rebalance_step (node c x d t q) d = Some (r, br)" "colored r"
      "if br then \<exists>m. black m r \<and> fits fs m (is_red r)
       else c = EINA_RBTREE_BLACK \<and> black (Suc n) r \<and> fits fs (Suc (Suc n)) False" by blast
    show ?thesis
    proof (cases br)
      case True
      then show ?thesis using r False fits_plug by fastforce
    next
      case b: False
      then show ?thesis using r False "2.IH" [of "(node c x d t q, [])"] by force
    qed
  next
    case True
    then obtain y s u where q: "q = node EINA_RBTREE_RED y d s u" using red_node by blast
    let ?fs = "(EINA_RBTREE_BLACK, y, d, u) # fs"
    have f: "\<not> is_red s" "fits ((EINA_RBTREE_RED, x, d, s) # ?fs) (Suc n) False"
      using fits by (auto simp: q black_node colored_node color_exhaust)
    from rebalance_step_ok [OF f(1) "2.prems"(1,2) f(2)]
    obtain r where r: "rebalance_step (node EINA_RBTREE_RED x d t s) d = Some (r, True)" "colored r"
      "\<exists>m. black m r \<and> fits ?fs m (is_red r)" by (auto split: if_splits)
    then obtain m where "black m r" "fits ?fs m (is_red r)" by blast
    from fits_plug [OF this(2,1) r(2)] r(1) show ?thesis by (auto simp: q)
  qed
qed


text \<open>A tree in its context; following a link keeps it.\<close>

definition placed :: "'a rbtree \<Rightarrow> 'a frame list \<Rightarrow> bool" where
  "placed t fs \<longleftrightarrow> (\<exists>n. black n t \<and> colored t \<and> fits fs n (is_red t))"

lemma placed_left: "placed (Rbtree c l x r) fs \<Longrightarrow> placed l ((c, x, EINA_RBTREE_LEFT, r) # fs)"
  by (cases c) (auto simp: placed_def gr0_conv_Suc dest: fits_red)

lemma placed_right: "placed (Rbtree c l x r) fs \<Longrightarrow> placed r ((c, x, EINA_RBTREE_RIGHT, l) # fs)"
  by (cases c) (auto simp: placed_def gr0_conv_Suc dest: fits_red)

lemma placed_top: "rb_inv t \<Longrightarrow> placed t []"
  by (auto simp: rb_inv_def placed_def)

lemma find_node_placed:
  "find_node t n cmp fs = Some (c, l, r, fs') \<Longrightarrow> placed t fs \<Longrightarrow> placed (Rbtree c l n r) fs'"
  by (induction t n cmp fs rule: find_node.induct)
    (auto split: if_splits direction.splits dest: placed_left placed_right)

lemma detach_placed:
  "detach t fs = Some (c, y, u, fs') \<Longrightarrow> placed t fs \<Longrightarrow> placed (Rbtree c NULL y u) fs'"
  by (induction t fs rule: detach.induct) (auto split: if_splits dest: placed_left)

lemma detach_append:
  "detach t (fs @ gs) = map_option (\<lambda>(c, y, u, fs'). (c, y, u, fs' @ gs)) (detach t fs)"
  by (induction t fs rule: detach.induct) auto

lemma detach_some: "t \<noteq> NULL \<Longrightarrow> \<exists>c y u fs'. detach t fs = Some (c, y, u, fs')"
  by (induction t fs rule: detach.induct) auto

lemma fits_value: "fits (fs @ (c, y, d, u) # gs) n red \<longleftrightarrow> fits (fs @ (c, z, d, u) # gs) n red"
  by (induction fs arbitrary: n red) auto

lemma placed_value: "placed t (fs @ (c, y, d, u) # gs) \<longleftrightarrow> placed t (fs @ (c, z, d, u) # gs)"
  unfolding placed_def using fits_value by metis

text \<open>What is left of a node with one son, put in its place.\<close>

lemma removed_inv:
  assumes "placed (Rbtree c l x r) fs" "l = NULL \<or> r = NULL"
  shows "\<exists>t m. (if c = EINA_RBTREE_RED then Some (plug (if l = NULL then r else l) fs)
      else remove_rebalance (if l = NULL then r else l) fs) = Some t \<and> black m t \<and> colored t"
proof -
  let ?s = "if l = NULL then r else l"
  obtain n where n: "black n (Rbtree c l x r)" "colored (Rbtree c l x r)" "fits fs n (c = EINA_RBTREE_RED)"
    using assms(1) by (auto simp: placed_def)
  show ?thesis
  proof (cases c)
    case EINA_RBTREE_RED
    then show ?thesis using n fits_plug [of fs n ?s] fits_red [of fs n True] by auto
  next
    case EINA_RBTREE_BLACK
    then have "black (n - 1) ?s" "colored ?s" "fits fs (Suc (n - 1)) False" using n by auto
    from remove_rebalance_inv [OF this] show ?thesis using EINA_RBTREE_BLACK by simp
  qed
qed

lemma remove_recolor_inv:
  assumes "placed (Rbtree EINA_RBTREE_BLACK l x r) fs" "l = NULL \<or> r = NULL"
    and "is_red (if l = NULL then r else l)"
  shows "\<exists>m. black m (plug (set_color EINA_RBTREE_BLACK (if l = NULL then r else l)) fs) \<and>
    colored (plug (set_color EINA_RBTREE_BLACK (if l = NULL then r else l)) fs)"
proof -
  let ?s = "if l = NULL then r else l"
  obtain n where n: "black n (Rbtree EINA_RBTREE_BLACK l x r)" "colored ?s" "fits fs n False"
    using assms(1) by (auto simp: placed_def split: if_splits)
  then have "black (Suc (n - 1)) (set_color EINA_RBTREE_BLACK ?s)"
    using assms(3) by (intro black_set_color(2)) auto
  then show ?thesis
    using n fits_plug [of fs n "set_color EINA_RBTREE_BLACK ?s"] by (auto simp: colored_set_color)
qed

lemma rb_inv_paint: "black m t \<Longrightarrow> colored t \<Longrightarrow> rb_inv (set_color EINA_RBTREE_BLACK t)"
  using black_set_color(1) by (auto simp: rb_inv_def colored_set_color)

lemma rb_inv_remove:
  assumes "rb_inv t"
  shows "\<exists>t'. eina_rbtree_inline_remove t n cmp = Some t' \<and> rb_inv t'"
proof (cases "find_node t n (\<lambda>q. cmp q n) []")
  case None
  then show ?thesis using assms by (simp add: eina_rbtree_inline_remove_def)
next
  case (Some a)
  then obtain c l0 l1 fs where f: "find_node t n (\<lambda>q. cmp q n) [] = Some (c, l0, l1, fs)"
    by (cases a) auto
  note p = find_node_placed [OF f placed_top [OF assms]]
  show ?thesis
  proof (cases "l0 \<noteq> NULL \<and> l1 \<noteq> NULL")
    case True
    then obtain cq y u path where d: "detach l1 [] = Some (cq, y, u, path)" using detach_some by blast
    then have "detach l1 ([] @ (c, n, EINA_RBTREE_RIGHT, l0) # fs) =
        Some (cq, y, u, path @ (c, n, EINA_RBTREE_RIGHT, l0) # fs)" 
      by (simp add: detach_append del: append_Nil)
    from detach_placed [OF this] placed_right [OF p]
    have "placed (Rbtree cq NULL y u) (path @ (c, y, EINA_RBTREE_RIGHT, l0) # fs)"
      using placed_value by fastforce
    from removed_inv [OF this] show ?thesis
      using f d True by (auto simp: eina_rbtree_inline_remove_def rb_inv_paint split: if_splits)
  next
    case False
    then show ?thesis
      using f removed_inv [OF p] remove_recolor_inv [of l0 n l1 fs] p
      by (cases c) (auto simp: eina_rbtree_inline_remove_def Let_def rb_inv_paint split: if_splits)
  qed
qed

end
