(* ===== verification/Eina_Rbtree_Map.thy ===== *)
theory Eina_Rbtree_Map
  imports Eina_Rbtree "HOL-Library.Multiset"
begin

text \<open>
  The contents of the red-black trees of \<^verbatim>\<open>src/src/lib/eina/eina_rbtree.c\<close>: insertion and
  removal on the list of elements, the map a tree ordered by a key stands for (locale
  \<open>rbtree_keys\<close>), the depth of the path, and the properties of the trees.
\<close>

section \<open>The elements in order\<close>

text \<open>
  A comparison below zero leads to the first son, so the elements in increasing order are
  those of the second son, the node and those of the first son.
\<close>

fun elements :: "'a rbtree \<Rightarrow> 'a list" where
  "elements NULL = []"
| "elements (Rbtree c l x r) = elements r @ x # elements l"

fun around :: "'a frame list \<Rightarrow> 'a list \<Rightarrow> 'a list" where
  "around [] xs = xs"
| "around ((c, x, d, u) # fs) xs =
     around fs (case d of EINA_RBTREE_LEFT \<Rightarrow> elements u @ x # xs | EINA_RBTREE_RIGHT \<Rightarrow> xs @ x # elements u)"

lemma elements_node:
  "elements (node c x d t u) =
     (case d of EINA_RBTREE_LEFT \<Rightarrow> elements u @ x # elements t | EINA_RBTREE_RIGHT \<Rightarrow> elements t @ x # elements u)"
  by (cases d) (simp_all add: node_def)

lemma elements_plug [simp]: "elements (plug t fs) = around fs (elements t)"
  by (induction t fs rule: plug.induct) (auto simp: elements_node)

lemma around_append [simp]: "around (fs @ gs) xs = around gs (around fs xs)"
  by (induction fs xs rule: around.induct) auto

lemma elements_set_color [simp]: "elements (set_color c t) = elements t"
  by (cases t) simp_all

lemma elements_eq_Nil [simp]: "elements t = [] \<longleftrightarrow> t = NULL"
  by (cases t) simp_all

lemma elements_single_rotation: "single_rotation t d = Some t' \<Longrightarrow> elements t' = elements t"
proof -
  assume r: "single_rotation t d = Some t'"
  then obtain c x a y where t: "t = node c x d a y" "y \<noteq> NULL"
    using node_cases [of t d] by (auto simp: single_rotation_def split: if_splits)
  then obtain c' z b e where "y = node c' z d b e" using node_cases by blast
  with r t show ?thesis by (auto simp: elements_node split: direction.splits)
qed

lemma elements_double_rotation: "double_rotation t d = Some t' \<Longrightarrow> elements t' = elements t"
proof -
  assume r: "double_rotation t d = Some t'"
  then obtain s where s: "single_rotation (son t (opposite d)) (opposite d) = Some s"
    "single_rotation (set_son t (opposite d) s) d = Some t'"
    by (auto simp: double_rotation_def split: Option.bind_splits)
  then obtain c x a y where t: "t = node c x d a y"
    using node_cases [of t d] by (auto simp: single_rotation_def split: if_splits)
  have "elements t' = elements (node c x d a s)"
    using elements_single_rotation [OF s(2)] by (simp add: t)
  also have "\<dots> = elements t"
    using elements_single_rotation [OF s(1)] by (simp add: t elements_node split: direction.splits)
  finally show ?thesis .
qed

lemma elements_insert_rebalance:
  "insert_rebalance t fs = Some t' \<Longrightarrow> elements t' = around fs (elements t)"
proof (induction t fs arbitrary: t' rule: insert_rebalance.induct)
  case (2 a c x d b fs)
  show ?case
    using "2.prems" "2.IH"
    by (auto simp: elements_node Let_def split: if_splits Option.bind_splits direction.splits
        dest!: elements_single_rotation elements_double_rotation)
qed simp

lemma elements_recolor_top: "recolor_top c t = Some t' \<Longrightarrow> elements t' = elements t"
  by (auto simp: recolor_top_def split: rbtree.splits if_splits)

lemma elements_rebalance_step:
  assumes "rebalance_step r d = Some (t, br)"
  shows "elements t = elements r"
proof (cases "r = NULL")
  case True
  then show ?thesis using assms by (simp add: rebalance_step_def)
next
  case False
  then obtain c x a q where r: "r = node c x d a q" using node_cases by blast
  show ?thesis
    using assms
    by (auto simp: r rebalance_step_def Let_def elements_node
        split: if_splits Option.bind_splits direction.splits
        dest!: elements_single_rotation elements_double_rotation elements_recolor_top)
qed

lemma elements_remove_rebalance:
  "remove_rebalance t fs = Some t' \<Longrightarrow> elements t' = around fs (elements t)"
proof (induction t fs arbitrary: t' rule: remove_rebalance.induct)
  case (2 t c x d q fs)
  show ?case
  proof (cases "is_red q")
    case False
    with "2.prems" obtain r br where s: "rebalance_step (node c x d t q) d = Some (r, br)"
      and r: "if br then t' = plug r fs else remove_rebalance r fs = Some t'"
      by (auto split: Option.bind_splits if_splits)
    have e: "elements r = elements (node c x d t q)" using elements_rebalance_step [OF s] .
    have "elements t' = around fs (elements r)"
      using r "2.IH" [of "(node c x d t q, [])" "node c x d t q" "[]"] s False by (cases br) auto
    with e show ?thesis by (simp add: elements_node split: direction.splits)
  next
    case True
    then obtain y s u where q: "q = node EINA_RBTREE_RED y d s u" using red_node by blast
    let ?r = "node EINA_RBTREE_RED x d t s"
    from "2.prems" obtain r br where s: "rebalance_step ?r d = Some (r, br)"
      and r: "if br then t' = plug r ((EINA_RBTREE_BLACK, y, d, u) # fs)
        else remove_rebalance (plug r [(EINA_RBTREE_BLACK, y, d, u)]) fs = Some t'"
      by (auto simp: q split: Option.bind_splits if_splits)
    have e: "elements r = elements ?r" using elements_rebalance_step [OF s] .
    have "elements t' = around fs (elements (node EINA_RBTREE_BLACK y d r u))"
      using r "2.IH" [of "(?r, [(EINA_RBTREE_BLACK, y, d, u)])" ?r "[(EINA_RBTREE_BLACK, y, d, u)]" ] s
      by (cases br) (auto simp: q elements_node)
    with e show ?thesis by (simp add: q elements_node split: direction.splits)
  qed
qed simp

text \<open>Where an element goes: behind those whose comparison leads to the first son.\<close>

definition insert_at :: "('a \<Rightarrow> direction) \<Rightarrow> 'a \<Rightarrow> 'a list \<Rightarrow> 'a list" where
  "insert_at cmp n xs =
     filter (\<lambda>x. cmp x = EINA_RBTREE_LEFT) xs @ n # filter (\<lambda>x. cmp x = EINA_RBTREE_RIGHT) xs"

definition splits :: "('a \<Rightarrow> direction) \<Rightarrow> 'a list \<Rightarrow> bool" where
  "splits cmp xs \<longleftrightarrow> sorted_wrt (\<lambda>a b. cmp b = EINA_RBTREE_LEFT \<longrightarrow> cmp a = EINA_RBTREE_LEFT) xs"

lemma direction_cases: "d \<noteq> EINA_RBTREE_LEFT \<longleftrightarrow> d = EINA_RBTREE_RIGHT"
  by (cases d) simp_all

lemma splits_node:
  assumes "splits cmp (xs @ x # ys)"
  shows "splits cmp xs" "splits cmp ys"
    "cmp x = EINA_RBTREE_LEFT \<Longrightarrow> insert_at cmp n (xs @ x # ys) = xs @ x # insert_at cmp n ys"
    "cmp x = EINA_RBTREE_RIGHT \<Longrightarrow> insert_at cmp n (xs @ x # ys) = insert_at cmp n xs @ x # ys"
proof -
  show "splits cmp xs" "splits cmp ys" using assms by (auto simp: splits_def sorted_wrt_append)
  show "insert_at cmp n (xs @ x # ys) = xs @ x # insert_at cmp n ys" if "cmp x = EINA_RBTREE_LEFT"
  proof -
    have "\<forall>a \<in> set xs. cmp a = EINA_RBTREE_LEFT"
      using assms that by (auto simp: splits_def sorted_wrt_append)
    then have "filter (\<lambda>x. cmp x = EINA_RBTREE_LEFT) xs = xs" "filter (\<lambda>x. cmp x = EINA_RBTREE_RIGHT) xs = []"
      by (auto simp: filter_id_conv filter_empty_conv)
    with that show ?thesis by (simp add: insert_at_def)
  qed
  show "insert_at cmp n (xs @ x # ys) = insert_at cmp n xs @ x # ys" if "cmp x = EINA_RBTREE_RIGHT"
  proof -
    have "\<forall>a \<in> set ys. cmp a = EINA_RBTREE_RIGHT"
      using assms that by (auto simp: splits_def sorted_wrt_append direction_cases [symmetric])
    then have "filter (\<lambda>x. cmp x = EINA_RBTREE_RIGHT) ys = ys" "filter (\<lambda>x. cmp x = EINA_RBTREE_LEFT) ys = []"
      by (auto simp: filter_id_conv filter_empty_conv)
    with that show ?thesis by (simp add: insert_at_def)
  qed
qed

lemma insert_path_elements:
  "splits cmp (elements t) \<Longrightarrow>
     around (insert_path t cmp fs) [n] = around fs (insert_at cmp n (elements t))"
proof (induction t cmp fs rule: insert_path.induct)
  case (2 c l x r cmp stack)
  from "2.prems" have s: "splits cmp (elements r @ x # elements l)" by simp
  then show ?case
    using "2.IH" splits_node [OF s] by (cases "cmp x") simp_all
qed (simp add: insert_at_def)

lemma elements_insert:
  assumes "eina_rbtree_inline_insert t n cmp = Some t'" "splits (\<lambda>q. cmp q n) (elements t)"
  shows "elements t' = insert_at (\<lambda>q. cmp q n) n (elements t)"
  using assms insert_path_elements [of "\<lambda>q. cmp q n" t "[]" n]
  by (auto simp: eina_rbtree_inline_insert_def elements_insert_rebalance)

text \<open>The search for a node, in a tree whose comparisons lead to it.\<close>

definition leads :: "('a \<Rightarrow> direction) \<Rightarrow> 'a \<Rightarrow> 'a list \<Rightarrow> bool" where
  "leads cmp n xs \<longleftrightarrow>
     (\<exists>as bs. xs = as @ n # bs \<and> n \<notin> set as \<and> (\<forall>a \<in> set as. cmp a = EINA_RBTREE_LEFT)
        \<and> (\<forall>b \<in> set bs. b \<noteq> n \<and> cmp b = EINA_RBTREE_RIGHT))"

lemma find_node_splits:
  "find_node t n cmp fs = Some (c, l, r, fs') \<Longrightarrow> 
     \<exists>as bs. elements t = as @ elements r @ n # elements l @ bs \<and> 
       (\<forall>xs. around fs' xs = around fs (as @ xs @ bs))"
proof (induction t n cmp fs rule: find_node.induct)
  case (2 c' l' x r' n cmp stack)
  show ?case
  proof (cases "x = n")
    case True
    with "2.prems" show ?thesis by (intro exI [of _ "[]"]) auto
  next
    case False
    show ?thesis
    proof (cases "cmp x")
      case EINA_RBTREE_LEFT
      with False "2.prems" "2.IH" obtain as bs where "elements l' = as @ elements r @ n # elements l @ bs"
        "\<forall>xs. around fs' xs = around stack (elements r' @ x # as @ xs @ bs)" by auto
      then show ?thesis by (intro exI [of _ "elements r' @ x # as"] exI [of _ bs]) simp
    next
      case EINA_RBTREE_RIGHT
      with False "2.prems" "2.IH" obtain as bs where "elements r' = as @ elements r @ n # elements l @ bs"
        "\<forall>xs. around fs' xs = around stack ((as @ xs @ bs) @ x # elements l')" by auto
      then show ?thesis by (intro exI [of _ as] exI [of _ "bs @ x # elements l'"]) simp
    qed
  qed
qed simp

lemma find_node_found:
  "leads cmp n (elements t) \<Longrightarrow> find_node t n cmp fs \<noteq> None"
proof (induction t n cmp fs rule: find_node.induct)
  case (1 n cmp stack)
  then show ?case by (simp add: leads_def)
next
  case (2 c l x r n cmp stack)
  from "2.prems" obtain as bs where e: "elements r @ x # elements l = as @ n # bs"
    and a: "n \<notin> set as" "\<forall>a \<in> set as. cmp a = EINA_RBTREE_LEFT"
    and b: "\<forall>b \<in> set bs. b \<noteq> n \<and> cmp b = EINA_RBTREE_RIGHT" by (auto simp: leads_def)
  show ?case
  proof (cases "x = n")
    case False
    from e consider zs where "as = elements r @ x # zs" "elements l = zs @ n # bs"
      | zs where "elements r = as @ n # zs" "bs = zs @ x # elements l"
      using False by (auto simp: append_eq_append_conv2 Cons_eq_append_conv append_eq_Cons_conv)
    then show ?thesis
    proof cases
      case 1
      then have "leads cmp n (elements l)" "cmp x = EINA_RBTREE_LEFT"
        using a b by (auto simp: leads_def)
      then show ?thesis using "2.IH"(1) [OF False] False by simp
    next
      case c: 2
      then have "leads cmp n (elements r)" "cmp x = EINA_RBTREE_RIGHT"
        using a b by (auto simp: leads_def)
      then show ?thesis using "2.IH"(2) [OF False] False by simp
    qed
  qed simp
qed

lemma detach_elements:
  "detach t fs = Some (c, y, u, fs') \<Longrightarrow>
     \<exists>path. fs' = path @ fs \<and> elements t = around path (elements u) @ [y] \<and>
       (\<forall>xs zs. around path (xs @ zs) = around path xs @ zs)"
proof (induction t fs rule: detach.induct)
  case (2 c' l x r stack)
  show ?case
  proof (cases "l = NULL")
    case True
    with "2.prems" show ?thesis by simp
  next
    case False
    with "2.prems" "2.IH" obtain path where p: "fs' = path @ (c', x, EINA_RBTREE_LEFT, r) # stack"
      "elements l = around path (elements u) @ [y]" "\<forall>xs zs. around path (xs @ zs) = around path xs @ zs"
      by auto
    then show ?thesis
      by (intro exI [of _ "path @ [(c', x, EINA_RBTREE_LEFT, r)]"]) simp
  qed
qed simp

text \<open>Removing takes one occurrence of the node out, or leaves the tree as it is.\<close>

lemma elements_remove:
  assumes "eina_rbtree_inline_remove t n cmp = Some t'"
    and "find_node t n (\<lambda>q. cmp q n) [] \<noteq> None"
  shows "\<exists>as bs. elements t = as @ n # bs \<and> elements t' = as @ bs"
proof -
  from assms(2) obtain c l0 l1 fs where f: "find_node t n (\<lambda>q. cmp q n) [] = Some (c, l0, l1, fs)" by auto
  from find_node_splits [OF f] obtain as bs where e: "elements t = as @ elements l1 @ n # elements l0 @ bs"
    "\<forall>xs. around fs xs = as @ xs @ bs" by auto
  have "elements t' = as @ elements l1 @ elements l0 @ bs"
  proof (cases "l0 \<noteq> NULL \<and> l1 \<noteq> NULL")
    case True
    then obtain cq y u path where d: "detach l1 [] = Some (cq, y, u, path)" using detach_some by blast
    from detach_elements [OF d] have p: "elements l1 = around path (elements u) @ [y]" by simp
    show ?thesis
      using assms(1) f d True e(2)
      by (auto simp: p eina_rbtree_inline_remove_def elements_remove_rebalance split: if_splits)
  next
    case False
    then show ?thesis
      using assms(1) f e(2)
      by (auto simp: eina_rbtree_inline_remove_def elements_remove_rebalance Let_def split: if_splits)
  qed
  with e(1) show ?thesis by (intro exI [of _ "as @ elements l1"] exI [of _ "elements l0 @ bs"]) simp
qed

lemma elements_remove_leads:
  assumes "eina_rbtree_inline_remove t n cmp = Some t'" "leads (\<lambda>q. cmp q n) n (elements t)"
  shows "elements t' = filter (\<lambda>x. x \<noteq> n) (elements t)"
proof -
  from elements_remove [OF assms(1) find_node_found [OF assms(2)]] obtain as bs
    where e: "elements t = as @ n # bs" "elements t' = as @ bs" by blast
  obtain as' bs' where l: "elements t = as' @ n # bs'" "n \<notin> set as'" "n \<notin> set bs'"
    using assms(2) by (auto simp: leads_def)
  then have "count_list (elements t) n = 1" by (simp add: count_notin)
  then have "n \<notin> set as" "n \<notin> set bs" unfolding e(1) by (auto simp: count_list_0_iff)
  then have "filter (\<lambda>x. x \<noteq> n) as = as" "filter (\<lambda>x. x \<noteq> n) bs = bs"
    by (auto simp: filter_id_conv)
  then show ?thesis unfolding e by simp
qed

text \<open>The operations only compare with the elements of the tree.\<close>

lemma lookup_cong:
  "(\<And>x. x \<in> set (elements t) \<Longrightarrow> cmp x = cmp' x) \<Longrightarrow>
     eina_rbtree_inline_lookup t cmp = eina_rbtree_inline_lookup t cmp'"
  by (induction t) (auto simp: Let_def)

lemma insert_path_cong:
  "(\<And>x. x \<in> set (elements t) \<Longrightarrow> cmp x = cmp' x) \<Longrightarrow> insert_path t cmp fs = insert_path t cmp' fs"
  by (induction t cmp fs rule: insert_path.induct) (auto split: direction.splits)

lemma insert_cong:
  "(\<And>x. x \<in> set (elements t) \<Longrightarrow> cmp x n = cmp' x n) \<Longrightarrow>
     eina_rbtree_inline_insert t n cmp = eina_rbtree_inline_insert t n cmp'"
  using insert_path_cong [of t "\<lambda>q. cmp q n" "\<lambda>q. cmp' q n" "[]"]
  by (simp add: eina_rbtree_inline_insert_def)

lemma find_node_cong:
  "(\<And>x. x \<in> set (elements t) \<Longrightarrow> cmp x = cmp' x) \<Longrightarrow> find_node t n cmp fs = find_node t n cmp' fs"
  by (induction t n cmp fs rule: find_node.induct) (auto split: direction.splits)

lemma remove_cong:
  "(\<And>x. x \<in> set (elements t) \<Longrightarrow> cmp x n = cmp' x n) \<Longrightarrow>
     eina_rbtree_inline_remove t n cmp = eina_rbtree_inline_remove t n cmp'"
  using find_node_cong [of t "\<lambda>q. cmp q n" "\<lambda>q. cmp' q n" n "[]"]
  by (simp add: eina_rbtree_inline_remove_def)

text \<open>Changing the elements in place.\<close>

lemma elements_map [simp]: "elements (map_rbtree f t) = map f (elements t)"
  by (induction t) simp_all

lemma is_red_map [simp]: "is_red (map_rbtree f t) = is_red t"
  by (cases t) simp_all

lemma black_map [simp]: "black n (map_rbtree f t) = black n t"
  by (induction t arbitrary: n) simp_all

lemma colored_map [simp]: "colored (map_rbtree f t) = colored t"
  by (induction t) simp_all

lemma rb_inv_map [simp]: "rb_inv (map_rbtree f t) = rb_inv t"
  by (simp add: rb_inv_def)

section \<open>Trees ordered by a key\<close>

text \<open>
  The two callbacks of a client that compares keys with \<open>cmp\<close>, the order they maintain and
  the map a tree stands for.
\<close>

definition cmp_node :: "('k \<Rightarrow> 'k \<Rightarrow> int) \<Rightarrow> ('a \<Rightarrow> 'k) \<Rightarrow> 'a \<Rightarrow> 'a \<Rightarrow> direction" where
  "cmp_node cmp key a b = (if cmp (key a) (key b) < 0 then EINA_RBTREE_LEFT else EINA_RBTREE_RIGHT)"

definition keyed :: "('k \<Rightarrow> 'k \<Rightarrow> int) \<Rightarrow> ('a \<Rightarrow> 'k) \<Rightarrow> 'a rbtree \<Rightarrow> bool" where
  "keyed cmp key t \<longleftrightarrow> sorted_wrt (\<lambda>a b. cmp (key a) (key b) < 0) (elements t)"

definition lookup_key :: "('k \<Rightarrow> 'k \<Rightarrow> int) \<Rightarrow> ('a \<Rightarrow> 'k) \<Rightarrow> 'a rbtree \<Rightarrow> 'k \<Rightarrow> 'a option" where
  "lookup_key cmp key t k = eina_rbtree_inline_lookup t (\<lambda>x. cmp (key x) k)"

locale rbtree_keys = key_order cmp
  for cmp :: "'k \<Rightarrow> 'k \<Rightarrow> int" +
  fixes key :: "'a \<Rightarrow> 'k"
begin

lemma lookup_key_elements:
  "keyed cmp key t \<Longrightarrow> lookup_key cmp key t k = map_of (map (\<lambda>x. (key x, x)) (elements t)) k"
proof (induction t)
  case (Rbtree c l x r)
  have "sorted_wrt (\<lambda>a b. cmp (fst a) (fst b) < 0) 
      (map (\<lambda>x. (key x, x)) (elements r) @ (key x, x) # map (\<lambda>x. (key x, x)) (elements l))"
    using Rbtree.prems by (auto simp: keyed_def sorted_wrt_append sorted_wrt_map)
  from sorted_split [OF this, of k] have
    "map_of (map (\<lambda>x. (key x, x)) (elements (Rbtree c l x r))) k =
      (if 0 < cmp (key x) k then map_of (map (\<lambda>x. (key x, x)) (elements r)) k
       else if cmp (key x) k < 0 then map_of (map (\<lambda>x. (key x, x)) (elements l)) k else Some x)" by simp
  moreover have "keyed cmp key l" "keyed cmp key r"
    using Rbtree.prems by (auto simp: keyed_def sorted_wrt_append)
  ultimately show ?case
    using Rbtree.IH by (simp add: lookup_key_def Let_def)
qed (simp add: lookup_key_def)

lemma keyed_distinct: "keyed cmp key t \<Longrightarrow> distinct (map key (elements t))"
proof -
  have "sorted_wrt (\<lambda>a b. cmp (key a) (key b) < 0) xs \<Longrightarrow> distinct (map key xs)" for xs :: "'a list"
    by (induction xs) (auto dest: cmp_less_not_eq)
  then show "keyed cmp key t \<Longrightarrow> distinct (map key (elements t))" by (simp add: keyed_def)
qed

lemma lookup_key_map:
  assumes "\<And>x. x \<in> set (elements t) \<Longrightarrow> key (f x) = key x"
  shows "lookup_key cmp key (map_rbtree f t) k = map_option f (lookup_key cmp key t k)"
  using assms by (induction t) (auto simp: lookup_key_def Let_def)

lemma keyed_map:
  assumes "\<And>x. x \<in> set (elements t) \<Longrightarrow> key (f x) = key x"
  shows "keyed cmp key (map_rbtree f t) = keyed cmp key t"
proof -
  have "(\<And>x. x \<in> set xs \<Longrightarrow> key (f x) = key x) \<Longrightarrow>
    sorted_wrt (\<lambda>a b. cmp (key a) (key b) < 0) (map f xs) = sorted_wrt (\<lambda>a b. cmp (key a) (key b) < 0) xs" for xs
    by (induction xs) auto
  with assms show ?thesis by (simp add: keyed_def)
qed

lemma lookup_key_Some:
  "keyed cmp key t \<Longrightarrow> lookup_key cmp key t k = Some x \<longleftrightarrow> x \<in> set (elements t) \<and> key x = k"
  using keyed_distinct [of t] lookup_key_elements [of t k]
  by (auto simp: map_of_eq_Some_iff comp_def)

lemma lookup_key_None:
  "keyed cmp key t \<Longrightarrow> lookup_key cmp key t k = None \<longleftrightarrow> k \<notin> key ` set (elements t)"
proof -
  assume t: "keyed cmp key t"
  show ?thesis
  proof (cases "lookup_key cmp key t k")
    case None
    then show ?thesis using lookup_key_Some [OF t, of k] by auto
  next
    case (Some a)
    then have "a \<in> set (elements t)" "key a = k" using lookup_key_Some [OF t] by blast+
    then show ?thesis using Some by auto
  qed
qed

lemma lookup_key_eqI:
  assumes "keyed cmp key t" "keyed cmp key t'"
    and "\<And>x. (x \<in> set (elements t') \<and> key x = k) = (r = Some x)"
  shows "lookup_key cmp key t' k = r"
proof -
  have "(lookup_key cmp key t' k = Some x) = (r = Some x)" for x
    using assms(3) lookup_key_Some [OF assms(2), of k] by simp
  then show ?thesis by (cases r) (auto intro: option.exhaust)
qed

text \<open>The tree is a map under insertion of a new key and removal of an element it holds.\<close>

lemma insert_update:
  assumes t: "keyed cmp key t" "lookup_key cmp key t (key n) = None"
    and t': "eina_rbtree_inline_insert t n (cmp_node cmp key) = Some t'"
  shows "keyed cmp key t'" "lookup_key cmp key t' k = (if k = key n then Some n else lookup_key cmp key t k)"
    "mset (elements t') = add_mset n (mset (elements t))"
proof -
  let ?xs = "elements t" and ?d = "\<lambda>q. cmp_node cmp key q n"
  have "splits ?d ?xs"
    using t(1) unfolding splits_def keyed_def
    by (rule sorted_wrt_mono_rel [rotated]) (auto simp: cmp_node_def dest: cmp_trans)
  from elements_insert [OF t' this] have e: "elements t' = insert_at ?d n ?xs" .
  have new: "key n \<notin> key ` set ?xs" using lookup_key_None [OF t(1)] t(2) by simp
  then have less: "cmp (key n) (key x) < 0" if "x \<in> set ?xs" "\<not> cmp (key x) (key n) < 0" for x
  proof -
    have "cmp (key x) (key n) \<noteq> 0" using new that(1) by (metis cmp_eq image_eqI)
    then show ?thesis using that(2) cmp_flip [of "key x" "key n"] by linarith
  qed
  have sel: "filter (\<lambda>x. ?d x = EINA_RBTREE_LEFT) ?xs = filter (\<lambda>x. cmp (key x) (key n) < 0) ?xs"
    "filter (\<lambda>x. ?d x = EINA_RBTREE_RIGHT) ?xs = filter (\<lambda>x. \<not> cmp (key x) (key n) < 0) ?xs"
    by (simp_all add: cmp_node_def)
  show k': "keyed cmp key t'"
    using t(1) less unfolding keyed_def e insert_at_def sel
    by (auto simp: sorted_wrt_append intro!: sorted_wrt_filter intro: cmp_trans)
  show m: "mset (elements t') = add_mset n (mset ?xs)"
    using multiset_partition [of "mset ?xs" "\<lambda>x. cmp (key x) (key n) < 0"]
    by (simp add: e insert_at_def sel)
  have set: "set (elements t') = insert n (set ?xs)"
    using arg_cong [OF m, of set_mset] by simp
  show "lookup_key cmp key t' k = (if k = key n then Some n else lookup_key cmp key t k)"
    using new lookup_key_Some [OF t(1)]
    by (intro lookup_key_eqI [OF t(1) k']) (auto simp: set image_iff)
qed

lemma remove_update:
  assumes t: "keyed cmp key t" "n \<in> set (elements t)"
    and t': "eina_rbtree_inline_remove t n (cmp_node cmp key) = Some t'"
  shows "keyed cmp key t'" "lookup_key cmp key t' k = (if k = key n then None else lookup_key cmp key t k)"
    "mset (elements t') = mset (elements t) - {#n#}"
proof -
  let ?xs = "elements t" and ?d = "\<lambda>q. cmp_node cmp key q n"
  from t(2) obtain as bs where xs: "?xs = as @ n # bs" by (meson split_list)
  have "sorted_wrt (\<lambda>a b. cmp (key a) (key b) < 0) (as @ n # bs)" "distinct (map key (as @ n # bs))"
    using t(1) keyed_distinct [OF t(1)] by (simp_all add: keyed_def xs)
  then have side: "n \<notin> set as \<and> (\<forall>a \<in> set as. ?d a = EINA_RBTREE_LEFT)
      \<and> (\<forall>b \<in> set bs. b \<noteq> n \<and> ?d b = EINA_RBTREE_RIGHT)"
    by (auto simp: sorted_wrt_append cmp_node_def dest: cmp_asym)
  from side have "leads ?d n ?xs" unfolding leads_def xs by blast
  from elements_remove_leads [OF t' this] have e: "elements t' = filter (\<lambda>x. x \<noteq> n) ?xs" .
  have "filter (\<lambda>x. x \<noteq> n) as = as" "filter (\<lambda>x. x \<noteq> n) bs = bs"
    using side by (auto simp: filter_id_conv)
  then show "mset (elements t') = mset ?xs - {#n#}" by (simp add: e xs)
  show k': "keyed cmp key t'" using t(1) unfolding keyed_def e by (intro sorted_wrt_filter)
  have inj: "x \<in> set ?xs \<Longrightarrow> key x = key n \<Longrightarrow> x = n" for x
    using keyed_distinct [OF t(1)] t(2) by (auto simp: distinct_map inj_on_def)
  show "lookup_key cmp key t' k = (if k = key n then None else lookup_key cmp key t k)"
    using inj lookup_key_Some [OF t(1)] by (intro lookup_key_eqI [OF t(1) k']) (auto simp: e)
qed

end

text \<open>C strings as keys.\<close>

interpretation strings: rbtree_keys strcmp key for key :: "'a \<Rightarrow> u8 list"
  by unfold_locales

section \<open>The depth of the path\<close>

text \<open>The array of links has 48 places; nothing checks its bound.\<close>

fun height :: "'a rbtree \<Rightarrow> nat" where
  "height NULL = 0"
| "height (Rbtree c l x r) = Suc (max (height l) (height r))"

lemma insert_path_height: "length (insert_path t cmp fs) \<le> height t + length fs"
  by (induction t cmp fs rule: insert_path.induct) (auto split: direction.splits)

lemma find_node_height:
  "find_node t n cmp fs = Some (c, l, r, fs') \<Longrightarrow>
     length fs' + Suc (max (height l) (height r)) \<le> height t + length fs"
  by (induction t n cmp fs rule: find_node.induct) (fastforce split: if_splits direction.splits)+

lemma detach_height: "detach t fs = Some (c, y, u, fs') \<Longrightarrow> length fs' < height t + length fs"
  by (induction t fs rule: detach.induct) (fastforce split: if_splits)+

lemma black_height: "black n t \<Longrightarrow> colored t \<Longrightarrow> height t \<le> 2 * n + (if is_red t then 1 else 0)"
proof (induction t arbitrary: n)
  case (Rbtree c l x r)
  show ?case
  proof (cases c)
    case EINA_RBTREE_RED
    then show ?thesis using Rbtree.prems Rbtree.IH [of n] by simp
  next
    case EINA_RBTREE_BLACK
    then obtain m where "n = Suc m" "black m l" "black m r" using Rbtree.prems by (cases n) auto
    then have "height l \<le> Suc (2 * m)" "height r \<le> Suc (2 * m)"
      using Rbtree.IH(1,2) [of m] Rbtree.prems(2) by (auto split: if_splits)
    then show ?thesis using EINA_RBTREE_BLACK \<open>n = Suc m\<close> by simp
  qed
qed simp

lemma black_size: "black n t \<Longrightarrow> 2 ^ n \<le> Suc (length (elements t))"
proof (induction t arbitrary: n)
  case (Rbtree c l x r)
  show ?case
  proof (cases c)
    case EINA_RBTREE_RED
    then show ?thesis using Rbtree.prems Rbtree.IH [of n] by simp
  next
    case EINA_RBTREE_BLACK
    then obtain m where "n = Suc m" "black m l" "black m r" using Rbtree.prems by (cases n) auto
    then show ?thesis using Rbtree.IH(1,2) [of m] by simp
  qed
qed simp

lemma rb_inv_height:
  assumes "rb_inv t" "length (elements t) < 2 ^ k - 1" "0 < k"
  shows "height t \<le> 2 * (k - 1)"
proof -
  obtain n where n: "black n t" "colored t" "\<not> is_red t" using assms(1) by (auto simp: rb_inv_def)
  have "2 ^ n < (2 :: nat) ^ k" using black_size [OF n(1)] assms(2) by linarith
  then have "n < k" by simp
  then show ?thesis using black_height [OF n(1,2)] n(3) by auto
qed

section \<open>Properties\<close>

text \<open>The trees that insertions and removals build, with whatever comparisons.\<close>

inductive rb_built :: "'a rbtree \<Rightarrow> bool" where
  empty: "rb_built NULL"
| insert: "rb_built t \<Longrightarrow> eina_rbtree_inline_insert t n cmp = Some t' \<Longrightarrow> rb_built t'"
| remove: "rb_built t \<Longrightarrow> eina_rbtree_inline_remove t n cmp = Some t' \<Longrightarrow> rb_built t'"

inductive_simps rb_built_NULL: "rb_built NULL"

lemma rb_built_inv: "rb_built t \<Longrightarrow> rb_inv t"
proof (induction rule: rb_built.induct)
  case empty
  show ?case unfolding rb_inv_def by simp
next
  case (insert t n cmp t')
  with rb_inv_insert [of t n cmp] show ?case by auto
next
  case (remove t n cmp t')
  with rb_inv_remove [of t n cmp] show ?case by auto
qed

text \<open>
  C25: Every tree built by insertions and removals, whatever the comparison callback answers,
  satisfies the red-black invariant, and no further insertion or removal on it follows a null
  pointer.
\<close>

theorem built_trees_red_black:
  assumes "rb_built t"
  shows "rb_inv t \<and> eina_rbtree_inline_insert t n cmp \<noteq> None \<and> eina_rbtree_inline_remove t m cmp \<noteq> None"
  using rb_built_inv [OF assms] rb_inv_insert [of t n cmp] rb_inv_remove [of t m cmp] by auto

definition three :: "int rbtree" where
  "three = Rbtree EINA_RBTREE_BLACK (Rbtree EINA_RBTREE_RED NULL 3 NULL) 2 (Rbtree EINA_RBTREE_RED NULL 1 NULL)"

lemma three_built: "rb_built three"
proof -
  have s: "eina_rbtree_inline_insert NULL 1 (cmp_node (-) id) = Some (Rbtree EINA_RBTREE_BLACK NULL (1 :: int) NULL)"
    "eina_rbtree_inline_insert (Rbtree EINA_RBTREE_BLACK NULL (1 :: int) NULL) 2 (cmp_node (-) id) =
       Some (Rbtree EINA_RBTREE_BLACK (Rbtree EINA_RBTREE_RED NULL 2 NULL) 1 NULL)"
    "eina_rbtree_inline_insert (Rbtree EINA_RBTREE_BLACK (Rbtree EINA_RBTREE_RED NULL (2 :: int) NULL) 1 NULL) 3
       (cmp_node (-) id) = Some three"
    by code_simp+
  show ?thesis
    by (rule rb_built.insert [OF rb_built.insert [OF rb_built.insert [OF rb_built.empty s(1)] s(2)] s(3)])
qed

theorem built_trees_red_black_witness:
  "rb_inv three \<and> eina_rbtree_inline_insert three 5 (cmp_node (-) id) \<noteq> None
     \<and> eina_rbtree_inline_remove three 2 (cmp_node (-) id) \<noteq> None"
  by (rule built_trees_red_black [OF three_built])

text \<open>
  C26: Insertion of an element with a new key updates the map a tree stands for: the result
  is again a red-black tree ordered by the key, and its lookups are those of the old tree
  with the element added.
\<close>

theorem insert_refines_update:
  assumes "key_order cmp" "rb_inv t" "keyed cmp key t" "lookup_key cmp key t (key n) = None"
  shows "\<exists>t'. eina_rbtree_inline_insert t n (cmp_node cmp key) = Some t' \<and> rb_inv t' \<and> keyed cmp key t'
    \<and> lookup_key cmp key t' = (lookup_key cmp key t)(key n \<mapsto> n)"
proof -
  note k = rbtree_keys.intro [OF assms(1)]
  obtain t' where t': "eina_rbtree_inline_insert t n (cmp_node cmp key) = Some t'" "rb_inv t'"
    using rb_inv_insert [OF assms(2)] by blast
  show ?thesis
    using t' rbtree_keys.insert_update [OF k assms(3,4) t'(1)] by (auto simp: fun_eq_iff)
qed

definition strings_tree :: "u8 list rbtree" where
  "strings_tree = Rbtree EINA_RBTREE_BLACK (Rbtree EINA_RBTREE_RED NULL [99] NULL) [98]
     (Rbtree EINA_RBTREE_RED NULL [97] NULL)"

lemma strings_tree_ok: "rb_inv strings_tree" "keyed strcmp id strings_tree"
  unfolding rb_inv_def strings_tree_def keyed_def by (simp_all add: exI [of _ 1])

theorem insert_refines_update_witness:
  "\<exists>t'. eina_rbtree_inline_insert strings_tree [98, 97] (cmp_node strcmp id) = Some t' \<and> rb_inv t'
    \<and> keyed strcmp id t' \<and> lookup_key strcmp id t' = (lookup_key strcmp id strings_tree)(id [98, 97] \<mapsto> [98, 97])"
  by (rule insert_refines_update [OF strcmp.key_order_axioms strings_tree_ok])
    (simp add: strings_tree_def lookup_key_def)

text \<open>
  C27: Removal of an element of a tree ordered by its key takes that key out of the map the
  tree stands for, keeps the order and the red-black invariant.
\<close>

theorem remove_refines_delete:
  assumes "key_order cmp" "rb_inv t" "keyed cmp key t" "n \<in> set (elements t)"
  shows "\<exists>t'. eina_rbtree_inline_remove t n (cmp_node cmp key) = Some t' \<and> rb_inv t' \<and> keyed cmp key t'
    \<and> lookup_key cmp key t' = (lookup_key cmp key t)(key n := None)"
proof -
  note k = rbtree_keys.intro [OF assms(1)]
  obtain t' where t': "eina_rbtree_inline_remove t n (cmp_node cmp key) = Some t'" "rb_inv t'"
    using rb_inv_remove [OF assms(2)] by blast
  show ?thesis
    using t' rbtree_keys.remove_update [OF k assms(3,4) t'(1)] by (auto simp: fun_eq_iff)
qed

theorem remove_refines_delete_witness:
  "\<exists>t'. eina_rbtree_inline_remove strings_tree [98] (cmp_node strcmp id) = Some t' \<and> rb_inv t'
    \<and> keyed strcmp id t' \<and> lookup_key strcmp id t' = (lookup_key strcmp id strings_tree)(id [98] := None)"
  by (rule remove_refines_delete [OF strcmp.key_order_axioms strings_tree_ok])
    (simp add: strings_tree_def)

text \<open>
  C28: The path of an insertion fits the 48 links of the array on the stack for every
  red-black tree of fewer than 2 to the 25 minus 1 nodes.
\<close>

theorem path_fits_stack:
  assumes "rb_inv t" "length (elements t) < 2 ^ 25 - 1"
  shows "length (insert_path t cmp []) \<le> 48"
  using insert_path_height [of t cmp "[]"] rb_inv_height [OF assms] by simp

theorem path_fits_stack_witness:
  "length (insert_path strings_tree (\<lambda>q. cmp_node strcmp id q [97]) []) \<le> 48"
  by (rule path_fits_stack [OF strings_tree_ok(1)]) (simp add: strings_tree_def)

text \<open>The removal uses no more places than the insertion.\<close>

lemma remove_path_fits_stack:
  assumes "rb_inv t" "length (elements t) < 2 ^ 25 - 1"
    and "find_node t n cmp [] = Some (c, l0, l1, stack)" "detach l1 [] = Some (cq, q, u, path)"
  shows "length (path @ (c, q, EINA_RBTREE_RIGHT, l0) # stack) \<le> 48"
  using find_node_height [OF assms(3)] detach_height [OF assms(4)] rb_inv_height [OF assms(1,2)] by simp

end
