(* ===== verification/Eina_Rbtree_Iter.thy ===== *)
theory Eina_Rbtree_Iter
  imports Eina_Rbtree_Map
begin

text \<open>
  The iterators of \<^verbatim>\<open>src/src/lib/eina/eina_rbtree.c\<close>: a stack of visited nodes with the
  direction taken and the mark of a finished son. The iterator is the list of its stack
  entries, innermost first; the pools of entries and iterators it recycles only save
  allocations, which are taken to succeed.
\<close>

datatype mask = Mask (pre_order: bool) (in_order: bool) (post_order: bool)

definition EINA_RBTREE_ITERATOR_PREFIX_MASK :: mask where
  "EINA_RBTREE_ITERATOR_PREFIX_MASK = Mask True False False"

definition EINA_RBTREE_ITERATOR_INFIX_MASK :: mask where
  "EINA_RBTREE_ITERATOR_INFIX_MASK = Mask False True False"

definition EINA_RBTREE_ITERATOR_POSTFIX_MASK :: mask where
  "EINA_RBTREE_ITERATOR_POSTFIX_MASK = Mask False False True"

record 'a iterator_list =
  it_tree :: "'a rbtree"
  it_dir :: direction
  it_up :: bool

definition iterator_list_new :: "'a rbtree \<Rightarrow> 'a iterator_list" where
  "iterator_list_new t = \<lparr>it_tree = t, it_dir = EINA_RBTREE_RIGHT, it_up = False\<rparr>"

text \<open>
  The loop that leaves finished nodes: it yields a node after its sons, ends, or comes back
  to a node whose second son is done.
\<close>

datatype 'a unwound = Yield "'a" "'a iterator_list list" | Ended | Back 'a "'a iterator_list" "'a iterator_list list"

fun mark_up :: "'a iterator_list list \<Rightarrow> 'a iterator_list list" where
  "mark_up [] = []"
| "mark_up (e # st) = e\<lparr>it_up := True\<rparr> # st"

fun unwind :: "mask \<Rightarrow> 'a iterator_list \<Rightarrow> 'a iterator_list list \<Rightarrow> 'a unwound" where
  "unwind m e st =
     (case it_tree e of
        Rbtree c l x r \<Rightarrow>
          if it_dir e = EINA_RBTREE_LEFT then
            if post_order m then Yield x (mark_up st)
            else (case st of [] \<Rightarrow> Ended | e' # st' \<Rightarrow> unwind m e' st')
          else Back x (e\<lparr>it_dir := EINA_RBTREE_LEFT, it_up := False\<rparr>) st
      | NULL \<Rightarrow> (case st of [] \<Rightarrow> Ended | e' # st' \<Rightarrow> unwind m e' st'))"

declare unwind.simps [simp del]

text \<open>The work left: of a tree, of an entry below the top and of the top entry.\<close>

fun weight :: "'a rbtree \<Rightarrow> nat" where
  "weight NULL = 1"
| "weight (Rbtree c l x r) = weight l + weight r + 4"

definition weight_below :: "'a iterator_list \<Rightarrow> nat" where
  "weight_below e =
     (case it_tree e of NULL \<Rightarrow> 0
      | Rbtree c l x r \<Rightarrow> if it_dir e = EINA_RBTREE_LEFT then 1 else weight l + 3)"

definition weight_top :: "'a iterator_list \<Rightarrow> nat" where
  "weight_top e =
     (case it_tree e of NULL \<Rightarrow> 1
      | Rbtree c l x r \<Rightarrow>
          if it_up e then weight_below e
          else if it_dir e = EINA_RBTREE_LEFT then weight l + 2 else weight (it_tree e))"

fun weight_stack :: "'a iterator_list list \<Rightarrow> nat" where
  "weight_stack [] = 0"
| "weight_stack (e # st) = weight_top e + sum_list (map weight_below st)"

lemma unwind_back:
  "unwind m e st = Back x e' st' \<Longrightarrow>
     weight_stack (e' # st') < weight_below e + sum_list (map weight_below st) \<and>
     (\<exists>c l r. it_tree e' = Rbtree c l x r) \<and> \<not> it_up e' \<and> it_dir e' = EINA_RBTREE_LEFT"
proof (induction m e st rule: unwind.induct)
  case (1 m e st)
  show ?case
  proof (cases "it_tree e")
    case NULL
    with 1 show ?thesis by (auto simp: unwind.simps [of m e] weight_below_def [of e] split: list.splits)
  next
    case (Rbtree c l y r)
    with 1 show ?thesis
      by (auto simp: unwind.simps [of m e] weight_top_def [of "e\<lparr>it_dir := d\<rparr>" for d] weight_below_def [of e]
          weight_top_def [of "e\<lparr>it_dir := d, it_up := u\<rparr>" for d u] split: list.splits if_splits intro: less_SucI)
  qed
qed

text \<open>
  The part of a call before it follows a link: it is over, with or without a node, or it
  goes on at an entry.
\<close>

definition arrive ::
    "mask \<Rightarrow> 'a iterator_list \<Rightarrow> 'a iterator_list list \<Rightarrow>
     ('a \<times> 'a iterator_list list) option + 'a iterator_list \<times> 'a iterator_list list" where
  "arrive m e st =
     (if it_tree e = NULL \<or> it_up e then
        (case unwind m e st of
           Yield x st \<Rightarrow> Inl (Some (x, st))
         | Ended \<Rightarrow> Inl None
         | Back x e st \<Rightarrow> if in_order m then Inl (Some (x, e # st)) else Inr (e, st))
      else Inr (e, st))"

definition push_son :: "'a iterator_list \<Rightarrow> 'a iterator_list list \<Rightarrow> 'a iterator_list list" where
  "push_son e st = iterator_list_new (son (it_tree e) (it_dir e)) # e # st"

lemma push_son_weight:
  "it_tree e \<noteq> NULL \<Longrightarrow> \<not> it_up e \<Longrightarrow> weight_stack (push_son e st) < weight_stack (e # st)"
proof -
  have "weight_top (iterator_list_new t) = weight t" for t :: "'a rbtree"
    by (cases t) (simp_all add: weight_top_def iterator_list_new_def)
  then show "it_tree e \<noteq> NULL \<Longrightarrow> \<not> it_up e \<Longrightarrow> weight_stack (push_son e st) < weight_stack (e # st)"
    by (cases "it_tree e"; cases "it_dir e") (auto simp: push_son_def weight_top_def [of e] weight_below_def [of e])
qed

lemma weight_below_top: "it_tree e = NULL \<or> it_up e \<Longrightarrow> weight_below e \<le> weight_top e"
  by (cases "it_tree e") (auto simp: weight_top_def weight_below_def)

lemma arrive_weight:
  "arrive m e st = Inr (e', st') \<Longrightarrow> it_tree e' \<noteq> NULL \<and> weight_stack (push_son e' st') < weight_stack (e # st)"
proof (cases "it_tree e = NULL \<or> it_up e")
  case True
  assume "arrive m e st = Inr (e', st')"
  then obtain x where "unwind m e st = Back x e' st'"
    using True by (auto simp: arrive_def split: unwound.splits if_splits)
  from unwind_back [OF this] weight_below_top [OF True] push_son_weight [of e' st'] show ?thesis by auto
next
  case False
  then show "arrive m e st = Inr (e', st') \<Longrightarrow> ?thesis"
    using push_son_weight [of e st] by (auto simp: arrive_def)
qed

function iterator_next ::
    "mask \<Rightarrow> 'a iterator_list list \<Rightarrow> ('a \<times> 'a iterator_list list) option" where
  "iterator_next m [] = None"
| "iterator_next m (e # st) =
     (case arrive m e st of
        Inl res \<Rightarrow> res
      | Inr (e, st) \<Rightarrow>
          case it_tree e of NULL \<Rightarrow> None
          | Rbtree c l x r \<Rightarrow>
              if it_dir e = EINA_RBTREE_RIGHT \<and> pre_order m then Some (x, push_son e st)
              else iterator_next m (push_son e st))"
  by pat_completeness auto
termination
  by (relation "measure (\<lambda>(m, st). weight_stack st)") (auto dest: arrive_weight)

declare iterator_next.simps [simp del]

definition iterator_build :: "'a rbtree \<Rightarrow> 'a iterator_list list" where
  "iterator_build root = [iterator_list_new root]"

section \<open>What is left to visit\<close>

definition emit :: "bool \<Rightarrow> 'a \<Rightarrow> 'a list" where
  "emit b x = (if b then [x] else [])"

fun visit :: "mask \<Rightarrow> 'a rbtree \<Rightarrow> 'a list" where
  "visit m NULL = []"
| "visit m (Rbtree c l x r) =
     emit (pre_order m) x @ visit m r @ emit (in_order m) x @ visit m l @ emit (post_order m) x"

definition visit_below :: "mask \<Rightarrow> 'a iterator_list \<Rightarrow> 'a list" where
  "visit_below m e =
     (case it_tree e of NULL \<Rightarrow> []
      | Rbtree c l x r \<Rightarrow>
          (if it_dir e = EINA_RBTREE_LEFT then [] else emit (in_order m) x @ visit m l) @ emit (post_order m) x)"

definition visit_top :: "mask \<Rightarrow> 'a iterator_list \<Rightarrow> 'a list" where
  "visit_top m e =
     (case it_tree e of NULL \<Rightarrow> []
      | Rbtree c l x r \<Rightarrow>
          if it_up e then visit_below m e
          else if it_dir e = EINA_RBTREE_LEFT then visit m l @ emit (post_order m) x
          else visit m (it_tree e))"

fun remaining :: "mask \<Rightarrow> 'a iterator_list list \<Rightarrow> 'a list" where
  "remaining m [] = []"
| "remaining m (e # st) = visit_top m e @ concat (map (visit_below m) st)"

text \<open>The entries below the top are nodes whose son is on the stack.\<close>

definition stack_ok :: "'a iterator_list list \<Rightarrow> bool" where
  "stack_ok st \<longleftrightarrow> list_all (\<lambda>e. it_tree e \<noteq> NULL \<and> \<not> it_up e) st"

lemma visit_top_new [simp]: "visit_top m (iterator_list_new t) = visit m t"
  by (cases t) (simp_all add: visit_top_def iterator_list_new_def)

lemma remaining_mark_up: "stack_ok st \<Longrightarrow> remaining m (mark_up st) = concat (map (visit_below m) st)"
  by (cases st) (auto simp: visit_top_def visit_below_def stack_ok_def split: rbtree.splits)

fun unwound_ok :: "mask \<Rightarrow> 'a list \<Rightarrow> 'a unwound \<Rightarrow> bool" where
  "unwound_ok m xs (Yield x st) \<longleftrightarrow> xs = x # remaining m st \<and> stack_ok (tl st)"
| "unwound_ok m xs Ended \<longleftrightarrow> xs = []"
| "unwound_ok m xs (Back x e st) \<longleftrightarrow> xs = emit (in_order m) x @ remaining m (e # st) \<and> stack_ok (e # st)"

lemma unwind_visit:
  "stack_ok st \<Longrightarrow> unwound_ok m (visit_below m e @ concat (map (visit_below m) st)) (unwind m e st)"
proof (induction m e st rule: unwind.induct)
  case (1 m e st)
  show ?case
  proof (cases "it_tree e")
    case NULL
    then show ?thesis using 1
      by (cases st) (auto simp: unwind.simps [of m e] visit_below_def [of m e] stack_ok_def)
  next
    case (Rbtree c l y r)
    then show ?thesis using 1 remaining_mark_up [of st m]
      by (cases st) (auto simp: unwind.simps [of m e] visit_below_def [of m e] stack_ok_def emit_def
          visit_top_def [of m "e\<lparr>it_dir := d, it_up := u\<rparr>" for d u])
  qed
qed


fun next_ok :: "mask \<Rightarrow> 'a list \<Rightarrow> ('a \<times> 'a iterator_list list) option \<Rightarrow> bool" where
  "next_ok m xs None \<longleftrightarrow> xs = []"
| "next_ok m xs (Some (x, st)) \<longleftrightarrow> xs = x # remaining m st \<and> stack_ok (tl st)"

lemma stack_ok_tail: "stack_ok (e # st) \<Longrightarrow> stack_ok st"
  by (simp add: stack_ok_def)

lemma remaining_push_son:
  assumes "it_tree e = Rbtree c l x r" "\<not> it_up e"
  shows "remaining m (e # st) =
    (if it_dir e = EINA_RBTREE_RIGHT then emit (pre_order m) x else []) @ remaining m (push_son e st)"
  using assms by (cases "it_dir e") (auto simp: push_son_def visit_top_def [of m e] visit_below_def [of m e])

lemma iterator_next_visit: "stack_ok (tl st) \<Longrightarrow> next_ok m (remaining m st) (iterator_next m st)"
proof (induction m st rule: iterator_next.induct)
  case (1 m)
  then show ?case by (simp add: iterator_next.simps)
next
  case (2 m e st)
  show ?case
  proof (cases "arrive m e st")
    case (Inl res)
    then have t: "it_tree e = NULL \<or> it_up e" by (auto simp: arrive_def split: if_splits)
    then have "remaining m (e # st) = visit_below m e @ concat (map (visit_below m) st)"
      by (auto simp: visit_top_def visit_below_def split: rbtree.splits)
    with unwind_visit [of st m e] "2.prems" Inl t show ?thesis
      by (auto simp: iterator_next.simps arrive_def emit_def split: unwound.splits if_splits
          dest: stack_ok_tail)
  next
    case (Inr es)
    then obtain e' st' where a: "arrive m e st = Inr (e', st')" by (cases es) auto
    obtain c l x r where t: "it_tree e' = Rbtree c l x r"
      using arrive_weight [OF a] by (cases "it_tree e'") auto
    have l: "remaining m (e # st) = remaining m (e' # st') \<and> stack_ok (e' # st')"
    proof (cases "it_tree e = NULL \<or> it_up e")
      case True
      then have "remaining m (e # st) = visit_below m e @ concat (map (visit_below m) st)"
        by (auto simp: visit_top_def visit_below_def split: rbtree.splits)
      with unwind_visit [of st m e] "2.prems" a True show ?thesis
        by (auto simp: arrive_def emit_def split: unwound.splits if_splits)
    next
      case False
      with a "2.prems" show ?thesis by (auto simp: arrive_def stack_ok_def)
    qed
    then have u: "\<not> it_up e'" by (simp add: stack_ok_def)
    have s: "stack_ok (tl (push_son e' st'))" using l by (simp add: push_son_def)
    show ?thesis
      using "2.IH" [OF a refl t _ ] s remaining_push_son [OF t u, of m st'] l
      by (cases "it_dir e'") (auto simp: iterator_next.simps a t emit_def)
  qed
qed

text \<open>The first \<open>n\<close> results of an iterator.\<close>

fun iterator_take :: "nat \<Rightarrow> mask \<Rightarrow> 'a iterator_list list \<Rightarrow> 'a list" where
  "iterator_take 0 m st = []"
| "iterator_take (Suc n) m st =
     (case iterator_next m st of None \<Rightarrow> [] | Some (x, st) \<Rightarrow> x # iterator_take n m st)"

lemma iterator_take_remaining: "stack_ok (tl st) \<Longrightarrow> iterator_take n m st = take n (remaining m st)"
proof (induction n arbitrary: st)
  case (Suc n)
  then show ?case using iterator_next_visit [of st m]
    by (cases "iterator_next m st") auto
qed simp

text \<open>
  C29: The stack machine of the iterators yields exactly the nodes of the tree, each at its
  place in the traversal the mask asks for, and then ends.
\<close>

theorem iterator_visits_tree:
  "iterator_take n m (iterator_build root) = take n (visit m root)"
  using iterator_take_remaining [of "iterator_build root" n m]
  by (simp add: iterator_build_def stack_ok_def)

text \<open>In order, these are the elements by increasing key.\<close>

lemma visit_infix: "visit EINA_RBTREE_ITERATOR_INFIX_MASK t = elements t"
  by (induction t) (simp_all add: EINA_RBTREE_ITERATOR_INFIX_MASK_def emit_def)

lemma set_visit_prefix: "set (visit EINA_RBTREE_ITERATOR_PREFIX_MASK t) = set (elements t)"
  by (induction t) (auto simp: EINA_RBTREE_ITERATOR_PREFIX_MASK_def emit_def)

end
