(* ===== verification/Eina_Hash.thy ===== *)
theory Eina_Hash
  imports Eina_Rbtree_Iter
begin

text \<open>
  The hash tables of eina (\<^verbatim>\<open>src/src/lib/eina/eina_hash.c\<close> and
  \<^verbatim>\<open>eina_inline_hash.x\<close>): an array of buckets, each a red-black tree of heads ordered by
  the upper bits of the hash, each head a red-black tree of elements ordered by the key. The
  callbacks of a table are functions of its record. A key is its content, of type \<open>'k\<close>;
  whether the element points to the caller's copy or to its own makes no difference to it.
  A datum is an address, zero for NULL. \<open>None\<close> is an access through a null pointer or
  outside the array of buckets.
\<close>

section \<open>State\<close>

definition EINA_HASH_BUCKET_SIZE :: nat where "EINA_HASH_BUCKET_SIZE = 8"

definition EINA_HASH_SMALL_BUCKET_SIZE :: nat where "EINA_HASH_SMALL_BUCKET_SIZE = 5"

definition EINA_HASH_RBTREE_MASK :: u32 where "EINA_HASH_RBTREE_MASK = 0xFFFF"

record 'k hash_tuple =
  tp_key :: 'k
  tp_key_length :: int
  tp_data :: nat

record 'k hash_element =
  el_address :: nat
  el_tuple :: "'k hash_tuple"

record 'k hash_head =
  hd_head :: "'k hash_element rbtree"
  hd_hash :: int

record 'k eina_hash =
  key_length_cb :: "('k \<Rightarrow> int) option"
  key_cmp_cb :: "'k \<Rightarrow> int \<Rightarrow> 'k \<Rightarrow> int \<Rightarrow> int"
  key_hash_cb :: "'k \<Rightarrow> int \<Rightarrow> u32"
  data_free_cb :: bool
  buckets :: "'k hash_head rbtree list option"
  hsize :: nat
  hmask :: u32
  population :: int
  buckets_power_size :: nat

text \<open>What the allocations of an insertion return.\<close>

record allocations =
  buckets_allocated :: bool
  head_allocated :: bool
  element_address :: nat

section \<open>Comparisons\<close>

definition hash_rbtree_cmp_hash :: "int \<Rightarrow> 'k hash_head \<Rightarrow> int" where
  "hash_rbtree_cmp_hash hash head = hd_hash head - hash"

definition hash_rbtree_cmp_node :: "'k hash_head \<Rightarrow> 'k hash_head \<Rightarrow> direction" where
  "hash_rbtree_cmp_node left right =
     (if hd_hash left - hd_hash right < 0 then EINA_RBTREE_LEFT else EINA_RBTREE_RIGHT)"

definition key_rbtree_cmp_key_data ::
    "('k \<Rightarrow> int \<Rightarrow> 'k \<Rightarrow> int \<Rightarrow> int) \<Rightarrow> 'k hash_tuple \<Rightarrow> 'k hash_element \<Rightarrow> int" where
  "key_rbtree_cmp_key_data cmp tuple e =
     (let result = cmp (tp_key (el_tuple e)) (tp_key_length (el_tuple e)) (tp_key tuple) (tp_key_length tuple) in
      if result = 0 \<and> tp_data tuple \<noteq> 0 \<and> tp_data tuple \<noteq> tp_data (el_tuple e) then 1 else result)"

definition key_rbtree_cmp_node ::
    "('k \<Rightarrow> int \<Rightarrow> 'k \<Rightarrow> int \<Rightarrow> int) \<Rightarrow> 'k hash_element \<Rightarrow> 'k hash_element \<Rightarrow> direction" where
  "key_rbtree_cmp_node cmp left right =
     (let result = cmp (tp_key (el_tuple left)) (tp_key_length (el_tuple left))
        (tp_key (el_tuple right)) (tp_key_length (el_tuple right)) in
      if result < 0 then EINA_RBTREE_LEFT else EINA_RBTREE_RIGHT)"

section \<open>Buckets\<close>

text \<open>The two parts of a hash value: the bucket and the position in its tree.\<close>

definition hash_num :: "'k eina_hash \<Rightarrow> u32 \<Rightarrow> nat" where
  "hash_num h key_hash = unat (key_hash AND hmask h)"

definition rb_hash :: "'k eina_hash \<Rightarrow> u32 \<Rightarrow> int" where
  "rb_hash h key_hash =
     uint (signed_drop_bit (buckets_power_size h) key_hash AND EINA_HASH_RBTREE_MASK)"

definition bucket :: "'a rbtree list \<Rightarrow> nat \<Rightarrow> 'a rbtree option" where
  "bucket bs i = (if i < length bs then Some (bs ! i) else None)"

text \<open>Assigning \<^verbatim>\<open>hash_head->head\<close> changes the head where it is in its tree.\<close>

definition head_assign :: "'k hash_head \<Rightarrow> 'k hash_element rbtree \<Rightarrow> 'k hash_head rbtree \<Rightarrow> 'k hash_head rbtree" where
  "head_assign head t = map_rbtree (\<lambda>x. if x = head then head\<lparr>hd_head := t\<rparr> else x)"

section \<open>Insertion\<close>

text \<open>From the head, found or new, to the new element.\<close>

definition add_element ::
    "'k eina_hash \<Rightarrow> 'k hash_head rbtree list \<Rightarrow> nat \<Rightarrow> 'k hash_head \<Rightarrow> 'k hash_tuple \<Rightarrow> allocations \<Rightarrow>
     ('k eina_hash \<times> bool) option" where
  "add_element h bs num head tuple al =
     (if element_address al = 0 then Some (h\<lparr>buckets := Some bs\<rparr>, False)
      else
        do { t \<leftarrow> eina_rbtree_inline_insert (hd_head head)
               \<lparr>el_address = element_address al, el_tuple = tuple\<rparr> (key_rbtree_cmp_node (key_cmp_cb h));
             b \<leftarrow> bucket bs num;
             Some (h\<lparr>buckets := Some (bs[num := head_assign head t b]), population := population h + 1\<rparr>, True) })"

definition add_in_buckets ::
    "'k eina_hash \<Rightarrow> 'k hash_head rbtree list \<Rightarrow> nat \<Rightarrow> int \<Rightarrow> 'k hash_head option \<Rightarrow> 'k hash_tuple \<Rightarrow>
     allocations \<Rightarrow> ('k eina_hash \<times> bool) option" where
  "add_in_buckets h bs num rb found tuple al =
     (case found of
        Some head \<Rightarrow> add_element h bs num head tuple al
      | None \<Rightarrow>
          if \<not> head_allocated al then Some (h\<lparr>buckets := Some bs\<rparr>, False)
          else
            let head = \<lparr>hd_head = NULL, hd_hash = rb\<rparr> in
            do { b \<leftarrow> bucket bs num;
                 b \<leftarrow> eina_rbtree_inline_insert b head hash_rbtree_cmp_node;
                 add_element h (bs[num := b]) num head tuple al })"

definition eina_hash_add_alloc_by_hash ::
    "'k eina_hash \<Rightarrow> 'k \<Rightarrow> int \<Rightarrow> u32 \<Rightarrow> nat \<Rightarrow> allocations \<Rightarrow> ('k eina_hash \<times> bool) option" where
  "eina_hash_add_alloc_by_hash h key key_length key_hash data al =
     (if data = 0 then Some (h, False)
      else
        let num = hash_num h key_hash; rb = rb_hash h key_hash;
            tuple = \<lparr>tp_key = key, tp_key_length = key_length, tp_data = data\<rparr> in
        case buckets h of
          None \<Rightarrow>
            if \<not> buckets_allocated al then Some (h, False)
            else add_in_buckets h (replicate (hsize h) NULL) num rb None tuple al
        | Some bs \<Rightarrow>
            do { t \<leftarrow> bucket bs num;
                 add_in_buckets h bs num rb
                   (eina_rbtree_inline_lookup t (hash_rbtree_cmp_hash rb)) tuple al })"

definition hash_compute :: "'k eina_hash \<Rightarrow> 'k \<Rightarrow> int \<times> u32" where
  "hash_compute h key =
     (let key_length = (case key_length_cb h of None \<Rightarrow> 0 | Some f \<Rightarrow> f key) in
      (key_length, key_hash_cb h key key_length))"

text \<open>The variants that copy the key and those that keep the caller's.\<close>

definition eina_hash_add_by_hash ::
    "'k eina_hash \<Rightarrow> 'k \<Rightarrow> int \<Rightarrow> u32 \<Rightarrow> nat \<Rightarrow> allocations \<Rightarrow> ('k eina_hash \<times> bool) option" where
  "eina_hash_add_by_hash = eina_hash_add_alloc_by_hash"

definition eina_hash_direct_add_by_hash ::
    "'k eina_hash \<Rightarrow> 'k \<Rightarrow> int \<Rightarrow> u32 \<Rightarrow> nat \<Rightarrow> allocations \<Rightarrow> ('k eina_hash \<times> bool) option" where
  "eina_hash_direct_add_by_hash = eina_hash_add_alloc_by_hash"

definition eina_hash_add :: "'k eina_hash \<Rightarrow> 'k \<Rightarrow> nat \<Rightarrow> allocations \<Rightarrow> ('k eina_hash \<times> bool) option" where
  "eina_hash_add h key data al =
     (if data = 0 then Some (h, False)
      else let (key_length, key_hash) = hash_compute h key in
           eina_hash_add_alloc_by_hash h key key_length key_hash data al)"

definition eina_hash_direct_add :: "'k eina_hash \<Rightarrow> 'k \<Rightarrow> nat \<Rightarrow> allocations \<Rightarrow> ('k eina_hash \<times> bool) option" where
  "eina_hash_direct_add h key data al =
     (if data = 0 then Some (h, False)
      else let (key_length, key_hash) = hash_compute h key in
           eina_hash_add_alloc_by_hash h key key_length key_hash data al)"

section \<open>Search\<close>

text \<open>The element and its head, if there is one; the outer option is a bad bucket.\<close>

definition hash_find_by_hash ::
    "'k eina_hash \<Rightarrow> 'k hash_tuple \<Rightarrow> u32 \<Rightarrow> ('k hash_head \<times> 'k hash_element) option option" where
  "hash_find_by_hash h tuple key_hash =
     (case buckets h of
        None \<Rightarrow> Some None
      | Some bs \<Rightarrow>
          do { t \<leftarrow> bucket bs (hash_num h key_hash);
               Some (do { head \<leftarrow> eina_rbtree_inline_lookup t (hash_rbtree_cmp_hash (rb_hash h key_hash));
                          e \<leftarrow> eina_rbtree_inline_lookup (hd_head head)
                                 (key_rbtree_cmp_key_data (key_cmp_cb h) tuple);
                          Some (head, e) }) })"

definition eina_hash_find_by_hash :: "'k eina_hash \<Rightarrow> 'k \<Rightarrow> int \<Rightarrow> u32 \<Rightarrow> nat option" where
  "eina_hash_find_by_hash h key key_length key_hash =
     map_option (\<lambda>r. case r of None \<Rightarrow> 0 | Some (head, e) \<Rightarrow> tp_data (el_tuple e))
       (hash_find_by_hash h \<lparr>tp_key = key, tp_key_length = key_length, tp_data = 0\<rparr> key_hash)"

definition eina_hash_find :: "'k eina_hash \<Rightarrow> 'k \<Rightarrow> nat option" where
  "eina_hash_find h key =
     (let (key_length, key_hash) = hash_compute h key in eina_hash_find_by_hash h key key_length key_hash)"

text \<open>The search for a datum walks the trees in prefix order.\<close>

definition hash_rbtree_each :: "nat \<Rightarrow> 'k hash_head \<Rightarrow> 'k hash_element option" where
  "hash_rbtree_each data head =
     List.find (\<lambda>e. tp_data (el_tuple e) = data) (visit EINA_RBTREE_ITERATOR_PREFIX_MASK (hd_head head))"

fun heads_each :: "nat \<Rightarrow> 'k hash_head list \<Rightarrow> ('k hash_head \<times> 'k hash_element) option" where
  "heads_each data [] = None"
| "heads_each data (head # heads) =
     (case hash_rbtree_each data head of Some e \<Rightarrow> Some (head, e) | None \<Rightarrow> heads_each data heads)"

fun buckets_each ::
    "nat \<Rightarrow> nat \<Rightarrow> 'k hash_head rbtree list \<Rightarrow> (nat \<times> 'k hash_head \<times> 'k hash_element) option" where
  "buckets_each data num [] = None"
| "buckets_each data num (b # bs) =
     (case heads_each data (visit EINA_RBTREE_ITERATOR_PREFIX_MASK b) of
        Some (head, e) \<Rightarrow> Some (num, head, e)
      | None \<Rightarrow> buckets_each data (num + 1) bs)"

definition hash_find_by_data ::
    "'k eina_hash \<Rightarrow> nat \<Rightarrow> (nat \<times> 'k hash_head \<times> 'k hash_element) option" where
  "hash_find_by_data h data =
     (case buckets h of None \<Rightarrow> None | Some bs \<Rightarrow> buckets_each data 0 bs)"

section \<open>Removal\<close>

text \<open>The data handed to the free callback.\<close>

definition hash_el_free :: "'k eina_hash \<Rightarrow> 'k hash_element \<Rightarrow> nat list" where
  "hash_el_free h e = (if data_free_cb h then [tp_data (el_tuple e)] else [])"

definition hash_head_free :: "'k eina_hash \<Rightarrow> 'k hash_head \<Rightarrow> nat list" where
  "hash_head_free h head = concat (map (hash_el_free h) (eina_rbtree_delete (hd_head head)))"

definition hash_del_by_hash_el ::
    "'k eina_hash \<Rightarrow> 'k hash_element \<Rightarrow> 'k hash_head \<Rightarrow> nat \<Rightarrow> ('k eina_hash \<times> bool \<times> nat list) option" where
  "hash_del_by_hash_el h e head num =
     (case buckets h of
        None \<Rightarrow> None
      | Some bs \<Rightarrow>
          do { t \<leftarrow> eina_rbtree_inline_remove (hd_head head) e (key_rbtree_cmp_node (key_cmp_cb h));
               b \<leftarrow> bucket bs num;
               let b = head_assign head t b;
               b \<leftarrow> (if t = NULL then eina_rbtree_inline_remove b (head\<lparr>hd_head := t\<rparr>) hash_rbtree_cmp_node
                     else Some b);
               let n = population h - 1;
               Some (h\<lparr>buckets := (if n = 0 then None else Some (bs[num := b])), population := n\<rparr>,
                     True, hash_el_free h e) })"

definition hash_del_by_key_hash ::
    "'k eina_hash \<Rightarrow> 'k \<Rightarrow> int \<Rightarrow> u32 \<Rightarrow> nat \<Rightarrow> ('k eina_hash \<times> bool \<times> nat list) option" where
  "hash_del_by_key_hash h key key_length key_hash data =
     (if buckets h = None then Some (h, False, [])
      else
        do { r \<leftarrow> hash_find_by_hash h \<lparr>tp_key = key, tp_key_length = key_length, tp_data = data\<rparr> key_hash;
             case r of
               None \<Rightarrow> Some (h, False, [])
             | Some (head, e) \<Rightarrow> hash_del_by_hash_el h e head (hash_num h key_hash) })"

definition hash_del_by_key :: "'k eina_hash \<Rightarrow> 'k \<Rightarrow> nat \<Rightarrow> ('k eina_hash \<times> bool \<times> nat list) option" where
  "hash_del_by_key h key data =
     (if buckets h = None then Some (h, False, [])
      else let (key_length, key_hash) = hash_compute h key in
           hash_del_by_key_hash h key key_length key_hash data)"

definition eina_hash_del_by_key_hash ::
    "'k eina_hash \<Rightarrow> 'k \<Rightarrow> int \<Rightarrow> u32 \<Rightarrow> ('k eina_hash \<times> bool \<times> nat list) option" where
  "eina_hash_del_by_key_hash h key key_length key_hash = hash_del_by_key_hash h key key_length key_hash 0"

definition eina_hash_del_by_key :: "'k eina_hash \<Rightarrow> 'k \<Rightarrow> ('k eina_hash \<times> bool \<times> nat list) option" where
  "eina_hash_del_by_key h key = hash_del_by_key h key 0"

definition eina_hash_del_by_data :: "'k eina_hash \<Rightarrow> nat \<Rightarrow> ('k eina_hash \<times> bool \<times> nat list) option" where
  "eina_hash_del_by_data h data =
     (if data = 0 then Some (h, False, [])
      else case hash_find_by_data h data of
        None \<Rightarrow> Some (h, False, [])
      | Some (num, head, e) \<Rightarrow>
          if tp_data (el_tuple e) \<noteq> data then Some (h, False, [])
          else hash_del_by_hash_el h e head (hash_num h (of_nat num)))"

definition eina_hash_del_by_hash ::
    "'k eina_hash \<Rightarrow> 'k option \<Rightarrow> int \<Rightarrow> u32 \<Rightarrow> nat \<Rightarrow> ('k eina_hash \<times> bool \<times> nat list) option" where
  "eina_hash_del_by_hash h key key_length key_hash data =
     (case key of Some k \<Rightarrow> hash_del_by_key_hash h k key_length key_hash data
      | None \<Rightarrow> eina_hash_del_by_data h data)"

definition eina_hash_del ::
    "'k eina_hash \<Rightarrow> 'k option \<Rightarrow> nat \<Rightarrow> ('k eina_hash \<times> bool \<times> nat list) option" where
  "eina_hash_del h key data =
     (case key of None \<Rightarrow> eina_hash_del_by_data h data | Some k \<Rightarrow> hash_del_by_key h k data)"

definition hash_free_trace :: "'k eina_hash \<Rightarrow> nat list" where
  "hash_free_trace h =
     (case buckets h of None \<Rightarrow> []
      | Some bs \<Rightarrow> concat (map (\<lambda>b. concat (map (hash_head_free h) (eina_rbtree_delete b))) bs))"

definition eina_hash_free :: "'k eina_hash \<Rightarrow> nat list" where
  "eina_hash_free h = hash_free_trace h"

definition eina_hash_free_buckets :: "'k eina_hash \<Rightarrow> 'k eina_hash \<times> nat list" where
  "eina_hash_free_buckets h =
     (if buckets h = None then (h, [])
      else (h\<lparr>buckets := None, population := 0\<rparr>, hash_free_trace h))"

section \<open>Changing data\<close>

text \<open>Assigning \<^verbatim>\<open>hash_element->tuple.data\<close> changes the element in the tree of its head.\<close>

definition data_assign :: "'k eina_hash \<Rightarrow> nat \<Rightarrow> 'k hash_head \<Rightarrow> 'k hash_element \<Rightarrow> nat \<Rightarrow> 'k eina_hash option" where
  "data_assign h num head e data =
     (case buckets h of
        None \<Rightarrow> None
      | Some bs \<Rightarrow>
          do { b \<leftarrow> bucket bs num;
               let t = map_rbtree (\<lambda>x. if x = e then e\<lparr>el_tuple := (el_tuple e)\<lparr>tp_data := data\<rparr>\<rparr> else x)
                 (hd_head head);
               Some (h\<lparr>buckets := Some (bs[num := head_assign head t b])\<rparr>) })"

definition eina_hash_modify_by_hash ::
    "'k eina_hash \<Rightarrow> 'k \<Rightarrow> int \<Rightarrow> u32 \<Rightarrow> nat \<Rightarrow> ('k eina_hash \<times> nat) option" where
  "eina_hash_modify_by_hash h key key_length key_hash data =
     (if data = 0 then Some (h, 0)
      else
        do { r \<leftarrow> hash_find_by_hash h \<lparr>tp_key = key, tp_key_length = key_length, tp_data = 0\<rparr> key_hash;
             case r of
               None \<Rightarrow> Some (h, 0)
             | Some (head, e) \<Rightarrow>
                 do { h' \<leftarrow> data_assign h (hash_num h key_hash) head e data;
                      Some (h', tp_data (el_tuple e)) } })"

definition eina_hash_modify :: "'k eina_hash \<Rightarrow> 'k \<Rightarrow> nat \<Rightarrow> ('k eina_hash \<times> nat) option" where
  "eina_hash_modify h key data =
     (if data = 0 then Some (h, 0)
      else let (key_length, key_hash) = hash_compute h key in
           eina_hash_modify_by_hash h key key_length key_hash data)"

definition eina_hash_set ::
    "'k eina_hash \<Rightarrow> 'k \<Rightarrow> nat \<Rightarrow> allocations \<Rightarrow> ('k eina_hash \<times> nat) option" where
  "eina_hash_set h key data al =
     (let (key_length, key_hash) = hash_compute h key in
      do { r \<leftarrow> hash_find_by_hash h \<lparr>tp_key = key, tp_key_length = key_length, tp_data = 0\<rparr> key_hash;
           case r of
             Some (head, e) \<Rightarrow>
               let old_data = tp_data (el_tuple e) in
               if data \<noteq> 0 then
                 do { h' \<leftarrow> data_assign h (hash_num h key_hash) head e data; Some (h', old_data) }
               else
                 do { (h', _, _) \<leftarrow> hash_del_by_hash_el (h\<lparr>data_free_cb := False\<rparr>) e head (hash_num h key_hash);
                      Some (h'\<lparr>data_free_cb := data_free_cb h\<rparr>, old_data) }
           | None \<Rightarrow>
               if data = 0 then Some (h, 0)
               else do { (h', _) \<leftarrow> eina_hash_add_alloc_by_hash h key key_length key_hash data al;
                         Some (h', 0) } })"

definition eina_hash_move ::
    "'k eina_hash \<Rightarrow> 'k \<Rightarrow> 'k \<Rightarrow> allocations \<Rightarrow> ('k eina_hash \<times> bool) option" where
  "eina_hash_move h old_key new_key al =
     do { data \<leftarrow> eina_hash_find h old_key;
          if data = 0 then Some (h, False)
          else
            do { (h', _, _) \<leftarrow> eina_hash_del (h\<lparr>data_free_cb := False\<rparr>) (Some old_key) data;
                 (h', result) \<leftarrow> eina_hash_add h' new_key data al;
                 Some (h'\<lparr>data_free_cb := data_free_cb h\<rparr>, result) } }"

section \<open>Creation\<close>

definition eina_hash_new ::
    "('k \<Rightarrow> int) option \<Rightarrow> ('k \<Rightarrow> int \<Rightarrow> 'k \<Rightarrow> int \<Rightarrow> int) \<Rightarrow> ('k \<Rightarrow> int \<Rightarrow> u32) \<Rightarrow> bool \<Rightarrow> nat \<Rightarrow> bool \<Rightarrow>
     'k eina_hash option" where
  "eina_hash_new length_cb cmp_cb hash_cb free_cb power_size ok =
     (if power_size \<le> 2 \<or> 17 \<le> power_size \<or> \<not> ok then None
      else Some \<lparr>key_length_cb = length_cb, key_cmp_cb = cmp_cb, key_hash_cb = hash_cb,
        data_free_cb = free_cb, buckets = None, hsize = 2 ^ power_size,
        hmask = of_nat (2 ^ power_size) - 1, population = 0, buckets_power_size = power_size\<rparr>)"

definition eina_hash_population :: "'k eina_hash option \<Rightarrow> int" where
  "eina_hash_population h = (case h of None \<Rightarrow> 0 | Some h \<Rightarrow> population h)"

definition eina_hash_free_cb_set :: "'k eina_hash \<Rightarrow> bool \<Rightarrow> 'k eina_hash" where
  "eina_hash_free_cb_set h cb = h\<lparr>data_free_cb := cb\<rparr>"

end
