(* ===== verification/Eina_Hash_Map.thy ===== *)
theory Eina_Hash_Map
  imports Eina_Hash
begin

text \<open>
  The hash tables of \<^verbatim>\<open>src/src/lib/eina/eina_hash.c\<close> as maps: the invariant of a table whose
  keys are unique, and what the operations do to the map from keys to data it stands for.
  The trees are used through the contract \<open>rbtree_keys\<close>.
\<close>

section \<open>The invariant\<close>

definition el_key :: "'k hash_element \<Rightarrow> 'k" where
  "el_key e = tp_key (el_tuple e)"

definition el_data :: "'k hash_element \<Rightarrow> nat" where
  "el_data e = tp_data (el_tuple e)"

text \<open>What the callbacks of a table make of a key.\<close>

definition klen :: "'k eina_hash \<Rightarrow> 'k \<Rightarrow> int" where
  "klen h k = fst (hash_compute h k)"

definition khash :: "'k eina_hash \<Rightarrow> 'k \<Rightarrow> u32" where
  "khash h k = snd (hash_compute h k)"

definition kcmp :: "'k eina_hash \<Rightarrow> 'k \<Rightarrow> 'k \<Rightarrow> int" where
  "kcmp h a b = key_cmp_cb h a (klen h a) b (klen h b)"

definition element_ok :: "'k eina_hash \<Rightarrow> nat \<Rightarrow> int \<Rightarrow> 'k hash_element \<Rightarrow> bool" where
  "element_ok h num rb e \<longleftrightarrow>
     tp_key_length (el_tuple e) = klen h (el_key e) \<and> el_data e \<noteq> 0 \<and>
     hash_num h (khash h (el_key e)) = num \<and> rb_hash h (khash h (el_key e)) = rb"

definition head_ok :: "'k eina_hash \<Rightarrow> nat \<Rightarrow> 'k hash_head \<Rightarrow> bool" where
  "head_ok h num head \<longleftrightarrow>
     rb_inv (hd_head head) \<and> keyed (kcmp h) el_key (hd_head head) \<and>
     (\<forall>e \<in> set (elements (hd_head head)). element_ok h num (hd_hash head) e)"

definition bucket_ok :: "'k eina_hash \<Rightarrow> nat \<Rightarrow> 'k hash_head rbtree \<Rightarrow> bool" where
  "bucket_ok h num t \<longleftrightarrow>
     rb_inv t \<and> keyed (-) hd_hash t \<and> (\<forall>head \<in> set (elements t). head_ok h num head)"

definition bucket_count :: "'k hash_head rbtree \<Rightarrow> nat" where
  "bucket_count t = (\<Sum>head \<in># mset (elements t). length (elements (hd_head head)))"

definition hash_ok :: "'k eina_hash \<Rightarrow> bool" where
  "hash_ok h \<longleftrightarrow>
     key_order (kcmp h) \<and> (\<forall>kh. hash_num h kh < hsize h) \<and>
     (case buckets h of
        None \<Rightarrow> population h = 0
      | Some bs \<Rightarrow>
          length bs = hsize h \<and> (\<forall>i < hsize h. bucket_ok h i (bs ! i)) \<and>
          population h = int (sum_list (map bucket_count bs)))"

text \<open>The element of a key.\<close>

definition bucket_entry :: "'k eina_hash \<Rightarrow> 'k hash_head rbtree \<Rightarrow> 'k \<Rightarrow> 'k hash_element option" where
  "bucket_entry h t k =
     do { head \<leftarrow> lookup_key (-) hd_hash t (rb_hash h (khash h k));
          lookup_key (kcmp h) el_key (hd_head head) k }"

definition entry :: "'k eina_hash \<Rightarrow> 'k \<Rightarrow> 'k hash_element option" where
  "entry h k =
     (case buckets h of None \<Rightarrow> None | Some bs \<Rightarrow> bucket_entry h (bs ! hash_num h (khash h k)) k)"

definition hash_map :: "'k eina_hash \<Rightarrow> 'k \<Rightarrow> nat" where
  "hash_map h k = (case entry h k of None \<Rightarrow> 0 | Some e \<Rightarrow> el_data e)"

section \<open>Trees of a bucket\<close>

interpretation heads: rbtree_keys "(-) :: int \<Rightarrow> int \<Rightarrow> int" "hd_hash :: 'k hash_head \<Rightarrow> int"
  by unfold_locales auto

lemma lookup_key_NULL [simp]: "lookup_key cmp key NULL k = None"
  by (simp add: lookup_key_def)

lemma heads_cmp: "hash_rbtree_cmp_node = cmp_node (-) hd_hash"
  by (simp add: fun_eq_iff hash_rbtree_cmp_node_def cmp_node_def)

lemma heads_lookup: "eina_rbtree_inline_lookup t (hash_rbtree_cmp_hash rb) = lookup_key (-) hd_hash t rb"
  by (simp add: lookup_key_def hash_rbtree_cmp_hash_def [abs_def])

lemma elements_cmp:
  assumes "\<forall>e \<in> set (elements t). element_ok h num rb e" "tp_key_length (el_tuple n) = klen h (el_key n)"
  shows "eina_rbtree_inline_insert t n (key_rbtree_cmp_node (key_cmp_cb h)) =
      eina_rbtree_inline_insert t n (cmp_node (kcmp h) el_key)"
    "eina_rbtree_inline_remove t n (key_rbtree_cmp_node (key_cmp_cb h)) =
      eina_rbtree_inline_remove t n (cmp_node (kcmp h) el_key)"
  using assms
  by (auto intro!: insert_cong remove_cong
      simp: key_rbtree_cmp_node_def cmp_node_def kcmp_def el_key_def element_ok_def Let_def)

lemma elements_lookup:
  assumes "\<forall>e \<in> set (elements t). element_ok h num rb e"
  shows "eina_rbtree_inline_lookup t (key_rbtree_cmp_key_data (key_cmp_cb h)
      \<lparr>tp_key = k, tp_key_length = klen h k, tp_data = 0\<rparr>) = lookup_key (kcmp h) el_key t k"
  unfolding lookup_key_def using assms
  by (intro lookup_cong) (auto simp: key_rbtree_cmp_key_data_def kcmp_def el_key_def element_ok_def)

lemma elements_keys: "key_order (kcmp h) \<Longrightarrow> rbtree_keys (kcmp h)"
  by (rule rbtree_keys.intro)

lemma bucket_head:
  "bucket_ok h num t \<Longrightarrow> lookup_key (-) hd_hash t rb = Some head \<Longrightarrow>
     head \<in> set (elements t) \<and> hd_hash head = rb \<and> head_ok h num head"
  using heads.lookup_key_Some [of t rb head] by (auto simp: bucket_ok_def)

lemma find_by_hash_entry:
  assumes "hash_ok h"
  shows "hash_find_by_hash h \<lparr>tp_key = k, tp_key_length = klen h k, tp_data = 0\<rparr> (khash h k) =
    Some (case buckets h of None \<Rightarrow> None
      | Some bs \<Rightarrow> (do { head \<leftarrow> lookup_key (-) hd_hash (bs ! hash_num h (khash h k)) (rb_hash h (khash h k));
                     e \<leftarrow> lookup_key (kcmp h) el_key (hd_head head) k; Some (head, e) }))"
proof (cases "buckets h")
  case None
  then show ?thesis by (simp add: hash_find_by_hash_def)
next
  case (Some bs)
  let ?num = "hash_num h (khash h k)" and ?rb = "rb_hash h (khash h k)"
  have b: "?num < length bs" "bucket_ok h ?num (bs ! ?num)" using assms Some by (auto simp: hash_ok_def)
  show ?thesis
  proof (cases "lookup_key (-) hd_hash (bs ! ?num) ?rb")
    case None
    then show ?thesis using Some b by (simp add: hash_find_by_hash_def bucket_def heads_lookup)
  next
    case head: (Some head)
    from bucket_head [OF b(2) head] have "\<forall>e \<in> set (elements (hd_head head)). element_ok h ?num ?rb e"
      by (auto simp: head_ok_def)
    from elements_lookup [OF this] show ?thesis
      using Some b head by (simp add: hash_find_by_hash_def bucket_def heads_lookup)
  qed
qed

lemma hash_compute_eq: "hash_compute h k = (klen h k, khash h k)"
  by (simp add: klen_def khash_def)

lemma eina_hash_find_map: "hash_ok h \<Longrightarrow> eina_hash_find h k = Some (hash_map h k)"
proof -
  assume h: "hash_ok h"
  note f = find_by_hash_entry [OF h, of k]
  show ?thesis
  proof (cases "buckets h")
    case None
    then show ?thesis using f
      by (simp add: eina_hash_find_def eina_hash_find_by_hash_def hash_compute_eq hash_map_def entry_def)
  next
    case (Some bs)
    show ?thesis
    proof (cases "lookup_key (-) hd_hash (bs ! hash_num h (khash h k)) (rb_hash h (khash h k))")
      case None
      then show ?thesis using f Some
        by (simp add: eina_hash_find_def eina_hash_find_by_hash_def hash_compute_eq hash_map_def entry_def
            bucket_entry_def)
    next
      case head: (Some head)
      then show ?thesis using f Some
        by (cases "lookup_key (kcmp h) el_key (hd_head head) k")
          (simp_all add: eina_hash_find_def eina_hash_find_by_hash_def hash_compute_eq hash_map_def entry_def
            bucket_entry_def el_data_def)
    qed
  qed
qed

section \<open>Changing a bucket\<close>

text \<open>
  The callbacks and the geometry of a table decide everything but the buckets and the
  population.
\<close>

lemma same_callbacks [simp]:
  "klen (h\<lparr>buckets := b\<rparr>) = klen h" "klen (h\<lparr>population := n\<rparr>) = klen h" "klen (h\<lparr>data_free_cb := c\<rparr>) = klen h"
  "khash (h\<lparr>buckets := b\<rparr>) = khash h" "khash (h\<lparr>population := n\<rparr>) = khash h" "khash (h\<lparr>data_free_cb := c\<rparr>) = khash h"
  "kcmp (h\<lparr>buckets := b\<rparr>) = kcmp h" "kcmp (h\<lparr>population := n\<rparr>) = kcmp h" "kcmp (h\<lparr>data_free_cb := c\<rparr>) = kcmp h"
  "hash_num (h\<lparr>buckets := b\<rparr>) = hash_num h" "hash_num (h\<lparr>population := n\<rparr>) = hash_num h"
  "hash_num (h\<lparr>data_free_cb := c\<rparr>) = hash_num h"
  "rb_hash (h\<lparr>buckets := b\<rparr>) = rb_hash h" "rb_hash (h\<lparr>population := n\<rparr>) = rb_hash h"
  "rb_hash (h\<lparr>data_free_cb := c\<rparr>) = rb_hash h"
  by (simp_all add: fun_eq_iff klen_def khash_def kcmp_def hash_num_def rb_hash_def hash_compute_def)

lemma same_ok [simp]:
  "element_ok (h\<lparr>buckets := b\<rparr>) = element_ok h" "element_ok (h\<lparr>population := n\<rparr>) = element_ok h"
  "element_ok (h\<lparr>data_free_cb := c\<rparr>) = element_ok h"
  "head_ok (h\<lparr>buckets := b\<rparr>) = head_ok h" "head_ok (h\<lparr>population := n\<rparr>) = head_ok h"
  "head_ok (h\<lparr>data_free_cb := c\<rparr>) = head_ok h"
  "bucket_ok (h\<lparr>buckets := b\<rparr>) = bucket_ok h" "bucket_ok (h\<lparr>population := n\<rparr>) = bucket_ok h"
  "bucket_ok (h\<lparr>data_free_cb := c\<rparr>) = bucket_ok h"
  "bucket_entry (h\<lparr>buckets := b\<rparr>) = bucket_entry h" "bucket_entry (h\<lparr>population := n\<rparr>) = bucket_entry h"
  "bucket_entry (h\<lparr>data_free_cb := c\<rparr>) = bucket_entry h"
  by (simp_all add: fun_eq_iff element_ok_def head_ok_def bucket_ok_def bucket_entry_def)

lemma same_map [simp]:
  "hash_ok (h\<lparr>data_free_cb := c\<rparr>) = hash_ok h" "hash_map (h\<lparr>data_free_cb := c\<rparr>) = hash_map h"
  by (cases "buckets h"; simp add: hash_ok_def hash_map_def entry_def fun_eq_iff)+

lemma bucket_ok_NULL [simp]: "bucket_ok h num NULL" "bucket_count NULL = 0" "bucket_entry h NULL k = None"
  by (simp_all add: bucket_ok_def rb_inv_def keyed_def bucket_count_def bucket_entry_def lookup_key_def)

text \<open>One bucket replaced by another.\<close>

lemma hash_ok_bucket:
  assumes h: "hash_ok h" "buckets h = Some bs" "num < hsize h" and b: "bucket_ok h num b"
    and n: "n = population h - int (bucket_count (bs ! num)) + int (bucket_count b)"
  shows "hash_ok (h\<lparr>buckets := Some (bs[num := b]), population := n\<rparr>)"
proof -
  have l: "length bs = hsize h" "population h = int (sum_list (map bucket_count bs))"
    using h by (auto simp: hash_ok_def)
  have "sum_list (map bucket_count (bs[num := b])) + bucket_count (bs ! num) =
      sum_list (map bucket_count bs) + bucket_count b"
  proof -
    have "bucket_count (bs ! num) \<le> sum_list (map bucket_count bs)"
      using h(3) l(1) by (intro member_le_sum_list) auto
    then show ?thesis using h(3) l(1) by (simp add: map_update sum_list_update)
  qed
  then have "n = int (sum_list (map bucket_count (bs[num := b])))" using n l(2) by linarith
  then show ?thesis using h b l(1) by (auto simp: hash_ok_def nth_list_update)
qed

lemma entry_bucket:
  assumes "hash_ok h" "buckets h = Some bs"
  shows "entry (h\<lparr>buckets := Some (bs[num := b]), population := n\<rparr>) k =
    (if hash_num h (khash h k) = num then bucket_entry h b k else entry h k)"
  using assms by (auto simp: entry_def hash_ok_def nth_list_update)

text \<open>A head of the bucket given another tree.\<close>

lemma distinct_heads: "bucket_ok h num t \<Longrightarrow> distinct (elements t)"
  using heads.keyed_distinct [of t] by (simp add: bucket_ok_def distinct_map)

lemma sum_replace:
  fixes g :: "'b \<Rightarrow> nat"
  assumes "distinct xs" "x \<in> set xs"
  shows "(\<Sum>y \<in># mset (map (\<lambda>y. if y = x then x' else y) xs). g y) + g x = (\<Sum>y \<in># mset xs. g y) + g x'"
  using assms
proof (induction xs)
  case (Cons y ys)
  show ?case
  proof (cases "y = x")
    case True
    then have "map (\<lambda>y. if y = x then x' else y) ys = ys" using Cons.prems by (intro map_idI) auto
    then have "image_mset (\<lambda>y. if y = x then x' else y) (mset ys) = mset ys" by (metis mset_map)
    then show ?thesis using True by simp
  next
    case False
    then show ?thesis using Cons.prems Cons.IH by simp
  qed
qed simp

lemma head_assign_bucket:
  assumes t: "bucket_ok h num t" "head \<in> set (elements t)"
    and e: "head_ok h num (head\<lparr>hd_head := u\<rparr>)"
  shows "bucket_ok h num (head_assign head u t)"
    "bucket_count (head_assign head u t) + length (elements (hd_head head)) = bucket_count t + length (elements u)"
    "lookup_key (-) hd_hash (head_assign head u t) rb =
       (if rb = hd_hash head then Some (head\<lparr>hd_head := u\<rparr>) else lookup_key (-) hd_hash t rb)"
proof -
  let ?f = "\<lambda>x. if x = head then head\<lparr>hd_head := u\<rparr> else x"
  have k: "keyed (-) hd_hash t" using t(1) by (simp add: bucket_ok_def)
  show "bucket_ok h num (head_assign head u t)"
    using t e by (auto simp: bucket_ok_def head_assign_def heads.keyed_map)
  from sum_replace [OF distinct_heads [OF t(1)] t(2), of "\<lambda>head. length (elements (hd_head head))" "head\<lparr>hd_head := u\<rparr>"]
  show "bucket_count (head_assign head u t) + length (elements (hd_head head)) = bucket_count t + length (elements u)"
    by (simp add: bucket_count_def head_assign_def)
  have m: "lookup_key (-) hd_hash (head_assign head u t) rb = map_option ?f (lookup_key (-) hd_hash t rb)"
    unfolding head_assign_def by (rule heads.lookup_key_map) auto
  show "lookup_key (-) hd_hash (head_assign head u t) rb =
       (if rb = hd_hash head then Some (head\<lparr>hd_head := u\<rparr>) else lookup_key (-) hd_hash t rb)"
  proof (cases "rb = hd_hash head")
    case True
    then have "lookup_key (-) hd_hash t rb = Some head" using heads.lookup_key_Some [OF k] t(2) by simp
    with True m show ?thesis by simp
  next
    case False
    then have "lookup_key (-) hd_hash t rb \<noteq> Some head" using heads.lookup_key_Some [OF k, of rb head] by auto
    with False m show ?thesis by (cases "lookup_key (-) hd_hash t rb") auto
  qed
qed


section \<open>Insertion\<close>

lemma update_fun_eq: "(\<And>k. g k = (if k = a then b else f k)) \<Longrightarrow> g = f(a := b)"
  by auto

text \<open>A new element in the tree of a head.\<close>

lemma head_insert:
  assumes o: "key_order (kcmp h)" and hd: "head_ok h num head"
    and e: "element_ok h num (hd_hash head) e" "lookup_key (kcmp h) el_key (hd_head head) (el_key e) = None"
  shows "\<exists>u. eina_rbtree_inline_insert (hd_head head) e (key_rbtree_cmp_node (key_cmp_cb h)) = Some u \<and>
    head_ok h num (head\<lparr>hd_head := u\<rparr>) \<and> length (elements u) = Suc (length (elements (hd_head head))) \<and>
    lookup_key (kcmp h) el_key u = (lookup_key (kcmp h) el_key (hd_head head))(el_key e \<mapsto> e)"
proof -
  note k = elements_keys [OF o]
  have t: "rb_inv (hd_head head)" "keyed (kcmp h) el_key (hd_head head)"
    "\<forall>e \<in> set (elements (hd_head head)). element_ok h num (hd_hash head) e"
    using hd by (simp_all add: head_ok_def)
  obtain u where u: "eina_rbtree_inline_insert (hd_head head) e (cmp_node (kcmp h) el_key) = Some u" "rb_inv u"
    using rb_inv_insert [OF t(1)] by blast
  note r = rbtree_keys.insert_update [OF k t(2) e(2) u(1)]
  have "set (elements u) = insert e (set (elements (hd_head head)))"
    using arg_cong [OF r(3), of set_mset] by simp
  moreover have "length (elements u) = Suc (length (elements (hd_head head)))"
    using arg_cong [OF r(3), of size] by simp
  moreover have "eina_rbtree_inline_insert (hd_head head) e (key_rbtree_cmp_node (key_cmp_cb h)) = Some u"
    using elements_cmp(1) [OF t(3), of e] e(1) u(1) by (simp add: element_ok_def)
  ultimately show ?thesis using t e u r by (auto simp: head_ok_def fun_eq_iff)
qed

lemma add_element_map:
  assumes h: "hash_ok (h\<lparr>buckets := Some bs\<rparr>)"
    and hd: "head \<in> set (elements (bs ! num))" "hash_num h (khash h k) = num" "hd_hash head = rb_hash h (khash h k)"
    and new: "entry (h\<lparr>buckets := Some bs\<rparr>) k = None" and d: "data \<noteq> 0" "element_address al \<noteq> 0"
  shows "\<exists>h'. add_element h bs num head \<lparr>tp_key = k, tp_key_length = klen h k, tp_data = data\<rparr> al = Some (h', True) \<and>
    hash_ok h' \<and> population h' = population h + 1 \<and> khash h' = khash h \<and>
    hash_map h' = (hash_map (h\<lparr>buckets := Some bs\<rparr>))(k := data)"
proof -
  let ?H = "h\<lparr>buckets := Some bs\<rparr>"
  let ?e = "\<lparr>el_address = element_address al, el_tuple = \<lparr>tp_key = k, tp_key_length = klen h k, tp_data = data\<rparr>\<rparr>"
  have n: "num < hsize h" "length bs = hsize h" and b: "bucket_ok h num (bs ! num)" and o: "key_order (kcmp h)"
    using h hd(2) by (auto simp: hash_ok_def)
  have k: "keyed (-) hd_hash (bs ! num)" and hok: "head_ok h num head"
    using b hd(1) by (auto simp: bucket_ok_def)
  have l: "lookup_key (-) hd_hash (bs ! num) (rb_hash h (khash h k)) = Some head"
    using heads.lookup_key_Some [OF k] hd by simp
  have e: "el_key ?e = k" "element_ok h num (hd_hash head) ?e"
    using hd d by (simp_all add: element_ok_def el_key_def el_data_def)
  have "lookup_key (kcmp h) el_key (hd_head head) (el_key ?e) = None"
    using new hd(2) l by (simp add: entry_def bucket_entry_def e)
  from head_insert [OF o hok e(2) this] obtain u where
    u: "eina_rbtree_inline_insert (hd_head head) ?e (key_rbtree_cmp_node (key_cmp_cb h)) = Some u"
    "head_ok h num (head\<lparr>hd_head := u\<rparr>)" "length (elements u) = Suc (length (elements (hd_head head)))"
    "lookup_key (kcmp h) el_key u = (lookup_key (kcmp h) el_key (hd_head head))(k \<mapsto> ?e)" unfolding e by blast
  let ?b = "head_assign head u (bs ! num)"
  let ?h' = "h\<lparr>buckets := Some (bs[num := ?b]), population := population h + 1\<rparr>"
  note a = head_assign_bucket [OF b hd(1) u(2)]
  have "hash_ok (?H\<lparr>buckets := Some (bs[num := ?b]), population := population h + 1\<rparr>)"
  proof (rule hash_ok_bucket [OF h])
    have "bucket_count ?b = Suc (bucket_count (bs ! num))" using a(2) u(3) by linarith
    then show "population h + 1 = population ?H - int (bucket_count (bs ! num)) + int (bucket_count ?b)" by simp
  qed (use n a(1) in simp_all)
  moreover have "hash_map ?h' = (hash_map ?H)(k := data)"
  proof (rule update_fun_eq)
    fix k'
    have "entry ?h' k' = (if hash_num h (khash h k') = num then bucket_entry h ?b k' else entry ?H k')"
      using entry_bucket [OF h, where bs = bs and num = num and b = ?b and n = "population h + 1" and k = k']
      by simp
    moreover have "bucket_entry h ?b k' = (if k' = k then Some ?e else bucket_entry h (bs ! num) k')"
      if "hash_num h (khash h k') = num"
      using l hd(3) by (auto simp: bucket_entry_def a(3) u(4))
    moreover have "entry ?H k' = bucket_entry h (bs ! num) k'" if "hash_num h (khash h k') = num"
      using that by (simp add: entry_def)
    ultimately show "hash_map ?h' k' = (if k' = k then data else hash_map ?H k')"
      using hd(2) by (auto simp: hash_map_def el_data_def)
  qed
  ultimately show ?thesis using u(1) n d by (simp add: add_element_def bucket_def)
qed


text \<open>A new head, still without elements.\<close>

lemma bucket_new_head:
  assumes t: "bucket_ok h num t" "lookup_key (-) hd_hash t rb = None"
  shows "\<exists>b. eina_rbtree_inline_insert t \<lparr>hd_head = NULL, hd_hash = rb\<rparr> hash_rbtree_cmp_node = Some b \<and>
    bucket_ok h num b \<and> bucket_count b = bucket_count t \<and> \<lparr>hd_head = NULL, hd_hash = rb\<rparr> \<in> set (elements b) \<and>
    bucket_entry h b = bucket_entry h t"
proof -
  let ?head = "\<lparr>hd_head = NULL, hd_hash = rb\<rparr> :: 'a hash_head"
  have k: "rb_inv t" "keyed (-) hd_hash t" using t(1) by (simp_all add: bucket_ok_def)
  have n: "lookup_key (-) hd_hash t (hd_hash ?head) = None" using t(2) by simp
  obtain b where b: "eina_rbtree_inline_insert t ?head (cmp_node (-) hd_hash) = Some b" "rb_inv b"
    using rb_inv_insert [OF k(1)] by blast
  note r = heads.insert_update [OF k(2) n b(1)]
  have s: "set (elements b) = insert ?head (set (elements t))"
    using arg_cong [OF r(3), of set_mset] by simp
  have "head_ok h num ?head" by (simp add: head_ok_def rb_inv_def keyed_def)
  then have "bucket_ok h num b" using t(1) b(2) r(1) s by (auto simp: bucket_ok_def)
  moreover have "bucket_count b = bucket_count t" using r(3) by (simp add: bucket_count_def)
  moreover have "bucket_entry h b = bucket_entry h t"
    using t(2) by (auto simp: fun_eq_iff bucket_entry_def r(2))
  ultimately show ?thesis using b s by (simp add: heads_cmp)
qed

lemma add_in_buckets_map:
  assumes h: "hash_ok (h\<lparr>buckets := Some bs\<rparr>)"
    and num: "num = hash_num h (khash h k)" "rb = rb_hash h (khash h k)"
    and new: "entry (h\<lparr>buckets := Some bs\<rparr>) k = None"
    and d: "data \<noteq> 0" "element_address al \<noteq> 0" "head_allocated al"
  shows "\<exists>h'. add_in_buckets h bs num rb (lookup_key (-) hd_hash (bs ! num) rb)
      \<lparr>tp_key = k, tp_key_length = klen h k, tp_data = data\<rparr> al = Some (h', True) \<and>
    hash_ok h' \<and> population h' = population h + 1 \<and> khash h' = khash h \<and>
    hash_map h' = (hash_map (h\<lparr>buckets := Some bs\<rparr>))(k := data)"
proof -
  let ?H = "h\<lparr>buckets := Some bs\<rparr>"
  have n: "num < hsize h" "length bs = hsize h" and b: "bucket_ok h num (bs ! num)"
    using h num by (auto simp: hash_ok_def)
  show ?thesis
  proof (cases "lookup_key (-) hd_hash (bs ! num) rb")
    case (Some head)
    note hd = bucket_head [OF b Some]
    have "\<exists>h'. add_element h bs num head \<lparr>tp_key = k, tp_key_length = klen h k, tp_data = data\<rparr> al = Some (h', True) \<and>
      hash_ok h' \<and> population h' = population h + 1 \<and> khash h' = khash h \<and> hash_map h' = (hash_map ?H)(k := data)"
      using hd new d num by (intro add_element_map [OF h]) simp_all
    then show ?thesis by (simp add: Some add_in_buckets_def)
  next
    case None
    from bucket_new_head [OF b this] obtain t where
      t: "eina_rbtree_inline_insert (bs ! num) \<lparr>hd_head = NULL, hd_hash = rb\<rparr> hash_rbtree_cmp_node = Some t"
      "bucket_ok h num t" "bucket_count t = bucket_count (bs ! num)"
      "\<lparr>hd_head = NULL, hd_hash = rb\<rparr> \<in> set (elements t)" "bucket_entry h t = bucket_entry h (bs ! num)" by blast
    let ?H' = "h\<lparr>buckets := Some (bs[num := t])\<rparr>"
    have e: "entry ?H' = entry ?H"
      using n t(5) by (auto simp: entry_def fun_eq_iff nth_list_update)
    have "hash_ok (?H\<lparr>buckets := Some (bs[num := t]), population := population h\<rparr>)"
      by (rule hash_ok_bucket [OF h]) (use n t in simp_all)
    then have ok: "hash_ok ?H'" by simp
    have "\<exists>h'. add_element h (bs[num := t]) num \<lparr>hd_head = NULL, hd_hash = rb\<rparr>
        \<lparr>tp_key = k, tp_key_length = klen h k, tp_data = data\<rparr> al = Some (h', True) \<and>
      hash_ok h' \<and> population h' = population h + 1 \<and> khash h' = khash h \<and>
      hash_map h' = (hash_map ?H')(k := data)"
      using n t(4) num new e d by (intro add_element_map [OF ok]) simp_all
    moreover have "hash_map ?H' = hash_map ?H" by (simp add: hash_map_def fun_eq_iff e)
    ultimately show ?thesis
      using None n t(1) d(3) by (simp add: add_in_buckets_def bucket_def)
  qed
qed

lemma hash_map_eq_0: "hash_ok h \<Longrightarrow> hash_map h k = 0 \<longleftrightarrow> entry h k = None"
proof (cases "entry h k")
  case (Some e)
  assume h: "hash_ok h"
  obtain bs head where b: "buckets h = Some bs"
    "lookup_key (-) hd_hash (bs ! hash_num h (khash h k)) (rb_hash h (khash h k)) = Some head"
    "lookup_key (kcmp h) el_key (hd_head head) k = Some e"
    using Some by (auto simp: entry_def bucket_entry_def split: option.splits Option.bind_splits)
  have "bucket_ok h (hash_num h (khash h k)) (bs ! hash_num h (khash h k))" "key_order (kcmp h)"
    using h b(1) by (auto simp: hash_ok_def)
  from bucket_head [OF this(1) b(2)] rbtree_keys.lookup_key_Some [OF elements_keys [OF this(2)], of el_key "hd_head head" k e] b(3)
  have "el_data e \<noteq> 0" by (auto simp: head_ok_def element_ok_def)
  then show ?thesis using Some by (simp add: hash_map_def)
qed (simp add: hash_map_def)

lemma hash_ok_new_buckets:
  "hash_ok h \<Longrightarrow> buckets h = None \<Longrightarrow> hash_ok (h\<lparr>buckets := Some (replicate (hsize h) NULL)\<rparr>)"
  by (simp add: hash_ok_def sum_list_replicate)

lemma entry_new_buckets:
  "hash_ok h \<Longrightarrow> buckets h = None \<Longrightarrow> entry (h\<lparr>buckets := Some (replicate (hsize h) NULL)\<rparr>) = entry h"
  by (simp add: hash_ok_def entry_def fun_eq_iff)

lemma hash_add_map:
  fixes h :: "'k eina_hash"
  assumes h: "hash_ok h" and new: "hash_map h k = 0" and d: "data \<noteq> 0"
    and al: "buckets_allocated al" "head_allocated al" "element_address al \<noteq> 0"
  shows "\<exists>h'. eina_hash_add h k data al = Some (h', True) \<and> hash_ok h' \<and>
    population h' = population h + 1 \<and> hash_map h' = (hash_map h)(k := data)"
proof -
  let ?num = "hash_num h (khash h k)" and ?rb = "rb_hash h (khash h k)"
  have e: "entry h k = None" using hash_map_eq_0 [OF h] new by simp
  have n: "?num < hsize h" using h by (simp add: hash_ok_def)
  show ?thesis
  proof (cases "buckets h")
    case None
    let ?bs = "replicate (hsize h) (NULL :: 'k hash_head rbtree)"
    have "lookup_key (-) hd_hash (?bs ! ?num) ?rb = None" using n by (simp add: lookup_key_def)
    moreover have "hash_map (h\<lparr>buckets := Some ?bs\<rparr>) = hash_map h"
      using entry_new_buckets [OF h None] by (simp add: hash_map_def fun_eq_iff)
    moreover have "entry (h\<lparr>buckets := Some ?bs\<rparr>) k = None" using e entry_new_buckets [OF h None] by simp
    from add_in_buckets_map [OF hash_ok_new_buckets [OF h None] refl refl this d al(3,2)] calculation
    obtain h' where "add_in_buckets h ?bs ?num ?rb None
        \<lparr>tp_key = k, tp_key_length = klen h k, tp_data = data\<rparr> al = Some (h', True)"
      "hash_ok h'" "population h' = population h + 1" "hash_map h' = (hash_map h)(k := data)" by auto
    then show ?thesis
      using None d al(1) by (auto simp: eina_hash_add_def hash_compute_eq eina_hash_add_alloc_by_hash_def)
  next
    case (Some bs)
    then have b: "h\<lparr>buckets := Some bs\<rparr> = h" by (metis eina_hash.surjective eina_hash.update_convs(5))
    have l: "bucket bs ?num = Some (bs ! ?num)" using h n Some by (simp add: hash_ok_def bucket_def)
    from add_in_buckets_map [where h = h and bs = bs, unfolded b, OF h refl refl e d al(3,2)] show ?thesis
      using Some d l by (auto simp: eina_hash_add_def hash_compute_eq eina_hash_add_alloc_by_hash_def heads_lookup)
  qed
qed


section \<open>Removal\<close>

lemma head_remove:
  assumes o: "key_order (kcmp h)" and hd: "head_ok h num head" and e: "e \<in> set (elements (hd_head head))"
  shows "\<exists>u. eina_rbtree_inline_remove (hd_head head) e (key_rbtree_cmp_node (key_cmp_cb h)) = Some u \<and>
    head_ok h num (head\<lparr>hd_head := u\<rparr>) \<and> Suc (length (elements u)) = length (elements (hd_head head)) \<and>
    lookup_key (kcmp h) el_key u = (lookup_key (kcmp h) el_key (hd_head head))(el_key e := None)"
proof -
  note k = elements_keys [OF o]
  have t: "rb_inv (hd_head head)" "keyed (kcmp h) el_key (hd_head head)"
    "\<forall>e \<in> set (elements (hd_head head)). element_ok h num (hd_hash head) e"
    using hd by (simp_all add: head_ok_def)
  obtain u where u: "eina_rbtree_inline_remove (hd_head head) e (cmp_node (kcmp h) el_key) = Some u" "rb_inv u"
    using rb_inv_remove [OF t(1)] by blast
  note r = rbtree_keys.remove_update [OF k t(2) e u(1)]
  have "set (elements u) \<subseteq> set (elements (hd_head head))"
    using arg_cong [OF r(3), of set_mset] by (auto dest: in_diffD)
  moreover have "Suc (length (elements u)) = length (elements (hd_head head))"
  proof -
    have "size (mset (elements u)) = size (mset (elements (hd_head head))) - 1"
      unfolding r(3) using e by (simp add: size_Diff_singleton)
    moreover have "elements (hd_head head) \<noteq> []" using e by auto
    ultimately show ?thesis by (cases "elements (hd_head head)") auto
  qed
  moreover have "eina_rbtree_inline_remove (hd_head head) e (key_rbtree_cmp_node (key_cmp_cb h)) = Some u"
    using elements_cmp(2) [OF t(3), of e] e t(3) u(1) by (auto simp: element_ok_def)
  ultimately show ?thesis using t u r by (auto simp: head_ok_def fun_eq_iff)
qed

text \<open>An empty head taken out of its bucket.\<close>

lemma bucket_drop_head:
  assumes t: "bucket_ok h num t" "head \<in> set (elements t)" "hd_head head = NULL"
  shows "\<exists>b. eina_rbtree_inline_remove t head hash_rbtree_cmp_node = Some b \<and>
    bucket_ok h num b \<and> bucket_count b = bucket_count t \<and> bucket_entry h b = bucket_entry h t"
proof -
  have k: "rb_inv t" "keyed (-) hd_hash t" using t(1) by (simp_all add: bucket_ok_def)
  obtain b where b: "eina_rbtree_inline_remove t head (cmp_node (-) hd_hash) = Some b" "rb_inv b"
    using rb_inv_remove [OF k(1)] by blast
  note r = heads.remove_update [OF k(2) t(2) b(1)]
  have s: "set (elements b) \<subseteq> set (elements t)"
    using arg_cong [OF r(3), of set_mset] by (auto dest: in_diffD)
  then have "bucket_ok h num b" using t(1) b(2) r(1) by (auto simp: bucket_ok_def)
  moreover have "bucket_count b = bucket_count t"
  proof -
    have "mset (elements t) = add_mset head (mset (elements b))" using t(2) by (simp add: r(3))
    then show ?thesis by (simp add: bucket_count_def t(3))
  qed
  moreover have "bucket_entry h b = bucket_entry h t"
  proof -
    have "lookup_key (-) hd_hash t (hd_hash head) = Some head"
      using heads.lookup_key_Some [OF k(2)] t(2) by simp
    then show ?thesis by (auto simp: fun_eq_iff bucket_entry_def r(2) t(3))
  qed
  ultimately show ?thesis using b by (simp add: heads_cmp)
qed


lemma count_zero_entry:
  assumes "hash_ok h" "population h = 0"
  shows "entry h k = None"
proof (rule ccontr)
  assume "entry h k \<noteq> None"
  then obtain bs head e where b: "buckets h = Some bs"
    "lookup_key (-) hd_hash (bs ! hash_num h (khash h k)) (rb_hash h (khash h k)) = Some head"
    "lookup_key (kcmp h) el_key (hd_head head) k = Some e"
    by (auto simp: entry_def bucket_entry_def split: option.splits Option.bind_splits)
  let ?t = "bs ! hash_num h (khash h k)"
  have t: "bucket_ok h (hash_num h (khash h k)) ?t" "hash_num h (khash h k) < length bs"
    "sum_list (map bucket_count bs) = 0"
    using assms b(1) by (auto simp: hash_ok_def)
  then have "bucket_count ?t = 0" by simp
  moreover have "head \<in># mset (elements ?t)" using bucket_head [OF t(1) b(2)] by simp
  ultimately have "hd_head head = NULL" by (auto simp: bucket_count_def)
  with b(3) show False by simp
qed

lemma del_by_hash_el_map:
  assumes h: "hash_ok h" "buckets h = Some bs" "num = hash_num h (khash h k)"
    and l: "lookup_key (-) hd_hash (bs ! num) (rb_hash h (khash h k)) = Some head"
      "lookup_key (kcmp h) el_key (hd_head head) k = Some e"
  shows "\<exists>h'. hash_del_by_hash_el h e head num = Some (h', True, hash_el_free h e) \<and>
    hash_ok h' \<and> population h' = population h - 1 \<and> hash_map h' = (hash_map h)(k := 0)"
proof -
  have n: "num < hsize h" "length bs = hsize h" and b: "bucket_ok h num (bs ! num)" and o: "key_order (kcmp h)"
    using h by (auto simp: hash_ok_def)
  have hd: "head \<in> set (elements (bs ! num))" "hd_hash head = rb_hash h (khash h k)" "head_ok h num head"
    using bucket_head [OF b l(1)] by auto
  have e: "e \<in> set (elements (hd_head head))" "el_key e = k"
    using rbtree_keys.lookup_key_Some [OF elements_keys [OF o], of el_key "hd_head head" k e] l(2) hd(3)
    by (auto simp: head_ok_def)
  from head_remove [OF o hd(3) e(1)] obtain u where
    u: "eina_rbtree_inline_remove (hd_head head) e (key_rbtree_cmp_node (key_cmp_cb h)) = Some u"
    "head_ok h num (head\<lparr>hd_head := u\<rparr>)" "Suc (length (elements u)) = length (elements (hd_head head))"
    "lookup_key (kcmp h) el_key u = (lookup_key (kcmp h) el_key (hd_head head))(k := None)" unfolding e by blast
  let ?t = "head_assign head u (bs ! num)"
  note a = head_assign_bucket [OF b hd(1) u(2)]
  have count: "Suc (bucket_count ?t) = bucket_count (bs ! num)" using a(2) u(3) by linarith
  have ent: "bucket_entry h ?t k' = (if k' = k then None else bucket_entry h (bs ! num) k')" for k'
    using l(1) hd(2) by (auto simp: bucket_entry_def a(3) u(4))
  obtain b' where b': "(if u = NULL then eina_rbtree_inline_remove ?t (head\<lparr>hd_head := u\<rparr>) hash_rbtree_cmp_node
      else Some ?t) = Some b'" "bucket_ok h num b'" "bucket_count b' = bucket_count ?t"
    "bucket_entry h b' = bucket_entry h ?t"
  proof (cases "u = NULL")
    case True
    have "head\<lparr>hd_head := u\<rparr> \<in> set (elements ?t)" using hd(1) by (auto simp: head_assign_def)
    from bucket_drop_head [OF a(1) this] True that show ?thesis by auto
  next
    case False
    with a(1) that show ?thesis by auto
  qed
  let ?n = "population h - 1"
  let ?h' = "h\<lparr>buckets := Some (bs[num := b']), population := ?n\<rparr>"
  have ok: "hash_ok ?h'"
  proof (rule hash_ok_bucket [OF h(1,2) n(1) b'(2)])
    show "?n = population h - int (bucket_count (bs ! num)) + int (bucket_count b')" using count b'(3) by linarith
  qed
  have map: "hash_map ?h' = (hash_map h)(k := 0)"
  proof (rule update_fun_eq)
    fix k'
    have "entry ?h' k' = (if hash_num h (khash h k') = num then bucket_entry h b' k' else entry h k')"
      by (rule entry_bucket [OF h(1,2)])
    moreover have "entry h k' = bucket_entry h (bs ! num) k'" if "hash_num h (khash h k') = num"
      using that h(2) by (simp add: entry_def)
    ultimately show "hash_map ?h' k' = (if k' = k then 0 else hash_map h k')"
      by (cases "k' = k") (auto simp: hash_map_def b'(4) ent h(3) [symmetric])
  qed
  let ?r = "h\<lparr>buckets := (if ?n = 0 then None else Some (bs[num := b'])), population := ?n\<rparr>"
  have "hash_del_by_hash_el h e head num = Some (?r, True, hash_el_free h e)"
    using h(2) u(1) n b'(1) by (simp add: hash_del_by_hash_el_def bucket_def Let_def)
  moreover have "hash_ok ?r \<and> hash_map ?r = (hash_map h)(k := 0)"
  proof (cases "?n = 0")
    case True
    then have "hash_map ?h' k' = 0" for k'
      using count_zero_entry [OF ok] by (simp add: hash_map_def)
    then have "hash_map ?r = hash_map ?h'" using True by (simp add: hash_map_def entry_def fun_eq_iff)
    then show ?thesis using ok map True by (simp add: hash_ok_def)
  next
    case False
    then show ?thesis using ok map by simp
  qed
  ultimately show ?thesis by simp
qed


lemma hash_del_by_key_map:
  assumes h: "hash_ok h"
  shows "\<exists>h'. eina_hash_del_by_key h k =
      Some (h', hash_map h k \<noteq> 0, if hash_map h k \<noteq> 0 \<and> data_free_cb h then [hash_map h k] else []) \<and>
    hash_ok h' \<and> population h' = population h - (if hash_map h k \<noteq> 0 then 1 else 0) \<and>
    hash_map h' = (hash_map h)(k := 0)"
proof (cases "entry h k")
  case None
  then have z: "hash_map h k = 0" by (simp add: hash_map_def)
  have "eina_hash_del_by_key h k = Some (h, False, [])"
  proof (cases "buckets h")
    case (Some bs)
    have "hash_find_by_hash h \<lparr>tp_key = k, tp_key_length = klen h k, tp_data = 0\<rparr> (khash h k) = Some None"
      using find_by_hash_entry [OF h, of k] None Some
      by (auto simp: entry_def bucket_entry_def split: Option.bind_splits)
    with Some show ?thesis
      by (simp add: eina_hash_del_by_key_def hash_del_by_key_def hash_compute_eq hash_del_by_key_hash_def)
  qed (simp add: eina_hash_del_by_key_def hash_del_by_key_def)
  then show ?thesis using h z by (auto simp: fun_eq_iff)
next
  case (Some e)
  then obtain bs head where b: "buckets h = Some bs"
    "lookup_key (-) hd_hash (bs ! hash_num h (khash h k)) (rb_hash h (khash h k)) = Some head"
    "lookup_key (kcmp h) el_key (hd_head head) k = Some e"
    by (auto simp: entry_def bucket_entry_def split: option.splits Option.bind_splits)
  have nz: "hash_map h k \<noteq> 0" using hash_map_eq_0 [OF h] Some by simp
  have "hash_find_by_hash h \<lparr>tp_key = k, tp_key_length = klen h k, tp_data = 0\<rparr> (khash h k) = Some (Some (head, e))"
    using find_by_hash_entry [OF h, of k] b by simp
  then have "eina_hash_del_by_key h k = hash_del_by_hash_el h e head (hash_num h (khash h k))"
    using b(1) by (simp add: eina_hash_del_by_key_def hash_del_by_key_def hash_compute_eq hash_del_by_key_hash_def)
  moreover have "hash_el_free h e = (if data_free_cb h then [hash_map h k] else [])"
    using Some by (simp add: hash_el_free_def hash_map_def el_data_def)
  ultimately show ?thesis using del_by_hash_el_map [OF h b(1) refl b(2,3)] nz by auto
qed

section \<open>Changing data\<close>

lemma head_set_data:
  assumes o: "key_order (kcmp h)" and hd: "head_ok h num head" and e: "e \<in> set (elements (hd_head head))"
    and d: "data \<noteq> 0"
  defines "f \<equiv> \<lambda>x. if x = e then e\<lparr>el_tuple := (el_tuple e)\<lparr>tp_data := data\<rparr>\<rparr> else x"
  shows "head_ok h num (head\<lparr>hd_head := map_rbtree f (hd_head head)\<rparr>)"
    "lookup_key (kcmp h) el_key (map_rbtree f (hd_head head)) k =
       map_option f (lookup_key (kcmp h) el_key (hd_head head) k)"
proof -
  note k = elements_keys [OF o]
  have f: "el_key (f x) = el_key x" for x by (simp add: f_def el_key_def)
  have "element_ok h num (hd_hash head) (f x)" if "element_ok h num (hd_hash head) x" for x
    using that d by (cases "x = e") (simp_all add: f_def element_ok_def el_key_def el_data_def)
  then show "head_ok h num (head\<lparr>hd_head := map_rbtree f (hd_head head)\<rparr>)"
    using hd f by (auto simp: head_ok_def rbtree_keys.keyed_map [OF k])
  show "lookup_key (kcmp h) el_key (map_rbtree f (hd_head head)) k =
       map_option f (lookup_key (kcmp h) el_key (hd_head head) k)"
    by (rule rbtree_keys.lookup_key_map [OF k]) (rule f)
qed

lemma data_assign_map:
  assumes h: "hash_ok h" "buckets h = Some bs" "num = hash_num h (khash h k)"
    and l: "lookup_key (-) hd_hash (bs ! num) (rb_hash h (khash h k)) = Some head"
      "lookup_key (kcmp h) el_key (hd_head head) k = Some e"
    and d: "data \<noteq> 0"
  shows "\<exists>h'. data_assign h num head e data = Some h' \<and> hash_ok h' \<and> population h' = population h \<and>
    hash_map h' = (hash_map h)(k := data)"
proof -
  let ?f = "\<lambda>x. if x = e then e\<lparr>el_tuple := (el_tuple e)\<lparr>tp_data := data\<rparr>\<rparr> else x"
  have n: "num < hsize h" "length bs = hsize h" and b: "bucket_ok h num (bs ! num)" and o: "key_order (kcmp h)"
    using h by (auto simp: hash_ok_def)
  have hd: "head \<in> set (elements (bs ! num))" "hd_hash head = rb_hash h (khash h k)" "head_ok h num head"
    using bucket_head [OF b l(1)] by auto
  have e: "e \<in> set (elements (hd_head head))" "el_key e = k"
    using rbtree_keys.lookup_key_Some [OF elements_keys [OF o], of el_key "hd_head head" k e] l(2) hd(3)
    by (auto simp: head_ok_def)
  note u = head_set_data [OF o hd(3) e(1) d]
  let ?t = "head_assign head (map_rbtree ?f (hd_head head)) (bs ! num)"
  note a = head_assign_bucket [OF b hd(1) u(1)]
  let ?h' = "h\<lparr>buckets := Some (bs[num := ?t]), population := population h\<rparr>"
  have ok: "hash_ok ?h'"
    by (rule hash_ok_bucket [OF h(1,2) n(1) a(1)]) (use a(2) in simp)
  let ?e = "e\<lparr>el_tuple := (el_tuple e)\<lparr>tp_data := data\<rparr>\<rparr>"
  have ent: "bucket_entry h ?t k' = (if k' = k then Some ?e else bucket_entry h (bs ! num) k')" for k'
  proof (cases "rb_hash h (khash h k') = hd_hash head")
    case True
    have "lookup_key (kcmp h) el_key (hd_head head) k' \<noteq> Some e" if "k' \<noteq> k"
      using rbtree_keys.lookup_key_Some [OF elements_keys [OF o], of el_key "hd_head head" k' e] hd(3) e(2) that
      by (auto simp: head_ok_def)
    then have "map_option ?f (lookup_key (kcmp h) el_key (hd_head head) k') =
        (if k' = k then Some ?e else lookup_key (kcmp h) el_key (hd_head head) k')"
      using l(2) by (cases "lookup_key (kcmp h) el_key (hd_head head) k'") auto
    then show ?thesis using True l(1) hd(2) by (simp add: bucket_entry_def a(3) u(2))
  next
    case False
    then show ?thesis using hd(2) by (auto simp: bucket_entry_def a(3))
  qed
  have map: "hash_map ?h' = (hash_map h)(k := data)"
  proof (rule update_fun_eq)
    fix k'
    have "entry ?h' k' = (if hash_num h (khash h k') = num then bucket_entry h ?t k' else entry h k')"
      by (rule entry_bucket [OF h(1,2)])
    moreover have "entry h k' = bucket_entry h (bs ! num) k'" if "hash_num h (khash h k') = num"
      using that h(2) by (simp add: entry_def)
    ultimately show "hash_map ?h' k' = (if k' = k then data else hash_map h k')"
      by (cases "k' = k") (auto simp: hash_map_def ent h(3) [symmetric] el_data_def)
  qed
  have "data_assign h num head e data = Some ?h'"
    using h(2) n by (simp add: data_assign_def bucket_def Let_def)
  then show ?thesis using ok map by simp
qed

lemma eina_hash_set_map:
  assumes h: "hash_ok h" and al: "buckets_allocated al" "head_allocated al" "element_address al \<noteq> 0"
  shows "\<exists>h'. eina_hash_set h k data al = Some (h', hash_map h k) \<and> hash_ok h' \<and>
    hash_map h' = (hash_map h)(k := data)"
proof (cases "entry h k")
  case None
  then have z: "hash_map h k = 0" by (simp add: hash_map_def)
  have "hash_find_by_hash h \<lparr>tp_key = k, tp_key_length = klen h k, tp_data = 0\<rparr> (khash h k) = Some None"
    using find_by_hash_entry [OF h, of k] None
    by (auto simp: entry_def bucket_entry_def split: Option.bind_splits option.splits)
  moreover have "\<exists>h'. eina_hash_add_alloc_by_hash h k (klen h k) (khash h k) data al = Some (h', True) \<and>
      hash_ok h' \<and> hash_map h' = (hash_map h)(k := data)" if "data \<noteq> 0"
    using hash_add_map [OF h z that al] that by (auto simp: eina_hash_add_def hash_compute_eq)
  ultimately show ?thesis
    using h z by (cases "data = 0") (auto simp: eina_hash_set_def hash_compute_eq fun_eq_iff)
next
  case (Some e)
  then obtain bs head where b: "buckets h = Some bs"
    "lookup_key (-) hd_hash (bs ! hash_num h (khash h k)) (rb_hash h (khash h k)) = Some head"
    "lookup_key (kcmp h) el_key (hd_head head) k = Some e"
    by (auto simp: entry_def bucket_entry_def split: option.splits Option.bind_splits)
  have f: "hash_find_by_hash h \<lparr>tp_key = k, tp_key_length = klen h k, tp_data = 0\<rparr> (khash h k) = Some (Some (head, e))"
    using find_by_hash_entry [OF h, of k] b by simp
  have m: "tp_data (el_tuple e) = hash_map h k" using Some by (simp add: hash_map_def el_data_def)
  show ?thesis
  proof (cases "data = 0")
    case True
    let ?H = "h\<lparr>data_free_cb := False\<rparr>"
    obtain h' where "hash_del_by_hash_el ?H e head (hash_num h (khash h k)) = Some (h', True, hash_el_free ?H e)"
      "hash_ok h'" "hash_map h' = (hash_map h)(k := 0)"
      using del_by_hash_el_map [of ?H bs "hash_num h (khash h k)" k head e] h b by auto
    then show ?thesis using f m True by (simp add: eina_hash_set_def hash_compute_eq)
  next
    case False
    with data_assign_map [OF h b(1) refl b(2,3) False] f m show ?thesis
      by (auto simp: eina_hash_set_def hash_compute_eq)
  qed
qed

end
