(* ===== verification/Eina_Hash_Keys.thy ===== *)
theory Eina_Hash_Keys
  imports Eina_Hash_Map
begin

text \<open>
  The hash functions and key callbacks of \<^verbatim>\<open>src/src/lib/eina/eina_hash.c\<close> and
  \<^verbatim>\<open>eina_inline_hash.x\<close>, the tables built on them, and the properties of the tables. A key
  of a function on strings is the bytes before the terminator; a buffer is a byte list that
  holds at least the bytes the length asks for.
\<close>

section \<open>Hash functions\<close>

definition get16bits :: "u8 \<Rightarrow> u8 \<Rightarrow> u32" where
  "get16bits d0 d1 = push_bit 8 (ucast d1) + ucast d0"

fun superfast_main :: "u8 list \<Rightarrow> u32 \<Rightarrow> u32 \<times> u8 list" where
  "superfast_main (a # b # c # d # key) hash =
     (let hash = hash + get16bits a b;
          tmp = push_bit 11 (get16bits c d) XOR hash;
          hash = push_bit 16 hash XOR tmp;
          hash = hash + signed_drop_bit 11 hash
      in superfast_main key hash)"
| "superfast_main key hash = (hash, key)"

definition superfast_end :: "u8 list \<Rightarrow> u32 \<Rightarrow> u32" where
  "superfast_end key hash =
     (case key of
        [a, b, c] \<Rightarrow>
          let hash = hash + get16bits a b;
              hash = hash XOR push_bit 16 hash;
              hash = hash XOR push_bit 18 (scast c)
          in hash + signed_drop_bit 11 hash
      | [a, b] \<Rightarrow>
          let hash = hash + get16bits a b;
              hash = hash XOR push_bit 11 hash
          in hash + signed_drop_bit 17 hash
      | [a] \<Rightarrow>
          let hash = hash + scast a;
              hash = hash XOR push_bit 10 hash
          in hash + signed_drop_bit 1 hash
      | _ \<Rightarrow> hash)"

definition eina_hash_superfast :: "u8 list \<Rightarrow> int \<Rightarrow> u32" where
  "eina_hash_superfast key len =
     (let (hash, key) = superfast_main (take (nat len) key) (of_int len);
          hash = superfast_end key hash;
          hash = hash XOR push_bit 3 hash;
          hash = hash + signed_drop_bit 5 hash;
          hash = hash XOR push_bit 4 hash;
          hash = hash + signed_drop_bit 17 hash;
          hash = hash XOR push_bit 25 hash
      in hash + signed_drop_bit 6 hash)"

definition djb2_step :: "u32 \<Rightarrow> u8 \<Rightarrow> u32" where
  "djb2_step hash c = (push_bit 5 hash + hash) XOR ucast c"

definition eina_hash_djb2 :: "u32 \<Rightarrow> u8 list \<Rightarrow> int \<Rightarrow> u32" where
  "eina_hash_djb2 eina_seed key len = foldl djb2_step (5381 XOR eina_seed) (take (nat len) key)"

text \<open>The variant that measures the string, with the length it reports.\<close>

definition eina_hash_djb2_len :: "u32 \<Rightarrow> u8 list \<Rightarrow> u32 \<times> int" where
  "eina_hash_djb2_len eina_seed s = (foldl djb2_step (5381 XOR eina_seed) s, int (length s) + 1)"

definition eina_hash_int32 :: "u32 \<Rightarrow> u32 \<Rightarrow> u32" where
  "eina_hash_int32 eina_seed key =
     (let key = NOT key + push_bit 15 key;
          key = key XOR drop_bit 12 key;
          key = key + push_bit 2 key;
          key = key XOR drop_bit 4 key;
          key = key * (2057 XOR eina_seed)
      in key XOR drop_bit 16 key)"

definition eina_hash_int64 :: "u32 \<Rightarrow> 64 word \<Rightarrow> u32" where
  "eina_hash_int64 eina_seed key =
     (let key = NOT key + push_bit 18 key;
          key = key XOR drop_bit 31 key;
          key = key * ucast (21 XOR eina_seed);
          key = key XOR drop_bit 11 key;
          key = key + push_bit 6 key;
          key = key XOR drop_bit 22 key
      in ucast key)"

definition rotl32 :: "u32 \<Rightarrow> nat \<Rightarrow> u32" where
  "rotl32 x r = push_bit r x OR drop_bit (32 - r) x"

definition fmix32 :: "u32 \<Rightarrow> u32" where
  "fmix32 h =
     (let h = h XOR drop_bit 16 h;
          h = h * 0x85ebca6b;
          h = h XOR drop_bit 13 h;
          h = h * 0xc2b2ae35
      in h XOR drop_bit 16 h)"

definition block32 :: "u8 \<Rightarrow> u8 \<Rightarrow> u8 \<Rightarrow> u8 \<Rightarrow> u32" where
  "block32 a b c d = ucast a OR push_bit 8 (ucast b) OR push_bit 16 (ucast c) OR push_bit 24 (ucast d)"

fun murmur3_main :: "u32 \<Rightarrow> u32 \<Rightarrow> u8 list \<Rightarrow> u32 \<Rightarrow> u32 \<times> u8 list" where
  "murmur3_main c1 c2 (a # b # c # d # data) h1 =
     (let k1 = block32 a b c d * c1;
          k1 = rotl32 k1 15 * c2;
          h1 = rotl32 (h1 XOR k1) 13
      in murmur3_main c1 c2 data (h1 * 5 + 0xe6546b64))"
| "murmur3_main c1 c2 data h1 = (h1, data)"

definition murmur3_tail :: "u32 \<Rightarrow> u32 \<Rightarrow> u8 list \<Rightarrow> u32 \<Rightarrow> u32" where
  "murmur3_tail c1 c2 tail h1 =
     (if tail = [] then h1
      else
        let k1 = (if length tail = 3 then push_bit 16 (ucast (tail ! 2)) else 0);
            k1 = (if 2 \<le> length tail then k1 XOR push_bit 8 (ucast (tail ! 1)) else k1);
            k1 = k1 XOR ucast (tail ! 0);
            k1 = rotl32 (k1 * c1) 16 * c2
        in h1 XOR k1)"

definition eina_hash_murmur3 :: "u32 \<Rightarrow> u8 list \<Rightarrow> int \<Rightarrow> u32" where
  "eina_hash_murmur3 eina_seed key len =
     (let c1 = 0xcc9e2d51 XOR eina_seed; c2 = 0x1b873593 XOR eina_seed;
          (h1, tail) = murmur3_main c1 c2 (take (nat len) key) 0;
          h1 = murmur3_tail c1 c2 tail h1
      in fmix32 (h1 XOR of_int len))"

section \<open>Keys\<close>

text \<open>
  \<^verbatim>\<open>(int)strlen(key) + 1\<close>: the length is cut to 32 bits and the sum wraps around. The difference
  of two lengths in the comparison is exact; it would overflow only where one of the keys is
  longer than two gigabytes.
\<close>

definition string_key_length :: "u8 list \<Rightarrow> int" where
  "string_key_length key = sint (of_nat (length key) + 1 :: u32)"

definition string_key_cmp :: "u8 list \<Rightarrow> int \<Rightarrow> u8 list \<Rightarrow> int \<Rightarrow> int" where
  "string_key_cmp key1 key1_length key2 key2_length =
     (let delta = key1_length - key2_length in if delta \<noteq> 0 then delta else strcmp key1 key2)"

text \<open>A stringshared key is its address.\<close>

definition stringshared_key_cmp :: "64 word \<Rightarrow> int \<Rightarrow> 64 word \<Rightarrow> int \<Rightarrow> int" where
  "stringshared_key_cmp key1 l1 key2 l2 = (if key1 = key2 then 0 else if key2 < key1 then 1 else -1)"

definition address_bytes :: "64 word \<Rightarrow> u8 list" where
  "address_bytes key = map (\<lambda>i. ucast (drop_bit (8 * i) key)) [0..<8]"

definition stringshared_hash :: "64 word \<Rightarrow> int \<Rightarrow> u32" where
  "stringshared_hash key key_length = eina_hash_superfast (address_bytes key) 8"

definition int32_key_length :: "u32 \<Rightarrow> int" where "int32_key_length key = 4"

definition int32_key_cmp :: "u32 \<Rightarrow> int \<Rightarrow> u32 \<Rightarrow> int \<Rightarrow> int" where
  "int32_key_cmp key1 l1 key2 l2 = (if key1 = key2 then 0 else if key2 < key1 then 1 else -1)"

definition int64_key_length :: "64 word \<Rightarrow> int" where "int64_key_length key = 8"

definition int64_key_cmp :: "64 word \<Rightarrow> int \<Rightarrow> 64 word \<Rightarrow> int \<Rightarrow> int" where
  "int64_key_cmp key1 l1 key2 l2 = (if key1 = key2 then 0 else if key2 < key1 then 1 else -1)"

section \<open>Tables\<close>

definition eina_hash_string_djb2_new :: "u32 \<Rightarrow> bool \<Rightarrow> bool \<Rightarrow> u8 list eina_hash option" where
  "eina_hash_string_djb2_new eina_seed free_cb ok =
     eina_hash_new (Some string_key_length) string_key_cmp (\<lambda>key. eina_hash_djb2 eina_seed (key @ [0]))
       free_cb EINA_HASH_BUCKET_SIZE ok"

definition eina_hash_string_superfast_new :: "bool \<Rightarrow> bool \<Rightarrow> u8 list eina_hash option" where
  "eina_hash_string_superfast_new free_cb ok =
     eina_hash_new (Some string_key_length) string_key_cmp (\<lambda>key. eina_hash_superfast (key @ [0]))
       free_cb EINA_HASH_BUCKET_SIZE ok"

definition eina_hash_string_small_new :: "bool \<Rightarrow> bool \<Rightarrow> u8 list eina_hash option" where
  "eina_hash_string_small_new free_cb ok =
     eina_hash_new (Some string_key_length) string_key_cmp (\<lambda>key. eina_hash_superfast (key @ [0]))
       free_cb EINA_HASH_SMALL_BUCKET_SIZE ok"

definition eina_hash_int32_new :: "u32 \<Rightarrow> bool \<Rightarrow> bool \<Rightarrow> u32 eina_hash option" where
  "eina_hash_int32_new eina_seed free_cb ok =
     eina_hash_new (Some int32_key_length) int32_key_cmp (\<lambda>key len. eina_hash_int32 eina_seed key)
       free_cb EINA_HASH_BUCKET_SIZE ok"

definition eina_hash_int64_new :: "u32 \<Rightarrow> bool \<Rightarrow> bool \<Rightarrow> 64 word eina_hash option" where
  "eina_hash_int64_new eina_seed free_cb ok =
     eina_hash_new (Some int64_key_length) int64_key_cmp (\<lambda>key len. eina_hash_int64 eina_seed key)
       free_cb EINA_HASH_BUCKET_SIZE ok"

text \<open>On a 64-bit machine.\<close>

definition eina_hash_pointer_new :: "u32 \<Rightarrow> bool \<Rightarrow> bool \<Rightarrow> 64 word eina_hash option" where
  "eina_hash_pointer_new eina_seed free_cb ok =
     eina_hash_new (Some int64_key_length) int64_key_cmp (\<lambda>key len. eina_hash_int64 eina_seed key)
       free_cb EINA_HASH_BUCKET_SIZE ok"

definition eina_hash_stringshared_new :: "bool \<Rightarrow> bool \<Rightarrow> 64 word eina_hash option" where
  "eina_hash_stringshared_new free_cb ok =
     eina_hash_new None stringshared_key_cmp stringshared_hash free_cb EINA_HASH_BUCKET_SIZE ok"

section \<open>The contract of the callbacks\<close>

locale hash_keys =
  fixes cmp :: "'k \<Rightarrow> int \<Rightarrow> 'k \<Rightarrow> int \<Rightarrow> int" and len :: "'k \<Rightarrow> int"
  assumes order: "key_order (\<lambda>a b. cmp a (len a) b (len b))"
begin

lemma new_ok:
  assumes "eina_hash_new length_cb cmp hash_cb cb n ok = Some h"
    and "\<And>k. (case length_cb of None \<Rightarrow> 0 | Some f \<Rightarrow> f k) = len k"
  shows "hash_ok h \<and> hash_map h = (\<lambda>k. 0)"
proof -
  have h: "n < 17" "h = \<lparr>key_length_cb = length_cb, key_cmp_cb = cmp, key_hash_cb = hash_cb,
        data_free_cb = cb, buckets = None, hsize = 2 ^ n,
        hmask = of_nat (2 ^ n) - 1, population = 0, buckets_power_size = n\<rparr>"
    using assms(1) by (auto simp: eina_hash_new_def split: if_splits)
  have "klen h = len" using assms(2) by (simp add: fun_eq_iff klen_def hash_compute_def h(2) Let_def)
  then have "kcmp h = (\<lambda>a b. cmp a (len a) b (len b))" by (simp add: kcmp_def fun_eq_iff h(2))
  moreover have "hash_num h kh < hsize h" for kh
  proof -
    have "hmask h = Bit_Operations.mask n" by (simp add: h(2) mask_eq_exp_minus_1)
    then have "hash_num h kh = unat (take_bit n kh)" by (simp add: hash_num_def take_bit_eq_mask)
    then show ?thesis using unat_take_bit_mod [of n kh] by (simp add: h(2))
  qed
  moreover have "buckets h = None" "population h = 0" by (simp_all add: h(2))
  ultimately show ?thesis
    using order by (auto simp: hash_ok_def hash_map_def entry_def)
qed

end

lemma unsigned_order: "key_order (\<lambda>a b :: 'w :: len word. if a = b then 0 else if b < a then 1 else -1)"
  by unfold_locales (auto split: if_splits)

lemma string_order: "key_order (\<lambda>a b. string_key_cmp a (string_key_length a) b (string_key_length b))"
proof
  fix a b c
  show "string_key_cmp a (string_key_length a) b (string_key_length b) = 0 \<longleftrightarrow> a = b"
    by (auto simp: string_key_cmp_def string_key_length_def strcmp.cmp_eq Let_def)
  show "0 < string_key_cmp a (string_key_length a) b (string_key_length b) \<longleftrightarrow>
      string_key_cmp b (string_key_length b) a (string_key_length a) < 0"
    by (auto simp: string_key_cmp_def string_key_length_def strcmp.cmp_flip Let_def)
  show "string_key_cmp a (string_key_length a) b (string_key_length b) < 0 \<Longrightarrow>
      string_key_cmp b (string_key_length b) c (string_key_length c) < 0 \<Longrightarrow>
      string_key_cmp a (string_key_length a) c (string_key_length c) < 0"
    by (auto simp: string_key_cmp_def string_key_length_def Let_def split: if_splits intro: strcmp.cmp_trans)
qed

interpretation string_keys: hash_keys string_key_cmp string_key_length
  by (rule hash_keys.intro) (rule string_order)

interpretation int32_keys: hash_keys int32_key_cmp int32_key_length
  by (rule hash_keys.intro) (simp add: int32_key_cmp_def unsigned_order)

interpretation int64_keys: hash_keys int64_key_cmp int64_key_length
  by (rule hash_keys.intro) (simp add: int64_key_cmp_def unsigned_order)

interpretation stringshared_keys: hash_keys stringshared_key_cmp "\<lambda>k. 0"
  by (rule hash_keys.intro) (simp add: stringshared_key_cmp_def unsigned_order)

lemma string_table_ok: "eina_hash_string_superfast_new cb ok = Some h \<Longrightarrow> hash_ok h \<and> hash_map h = (\<lambda>k. 0)"
  unfolding eina_hash_string_superfast_new_def by (erule string_keys.new_ok) simp

lemma other_tables_ok:
  "eina_hash_string_djb2_new seed cb ok = Some h \<Longrightarrow> hash_ok h \<and> hash_map h = (\<lambda>k. 0)"
  "eina_hash_string_small_new cb ok = Some h \<Longrightarrow> hash_ok h \<and> hash_map h = (\<lambda>k. 0)"
  "eina_hash_int32_new seed cb ok = Some h' \<Longrightarrow> hash_ok h' \<and> hash_map h' = (\<lambda>k. 0)"
  "eina_hash_int64_new seed cb ok = Some h'' \<Longrightarrow> hash_ok h'' \<and> hash_map h'' = (\<lambda>k. 0)"
  "eina_hash_pointer_new seed cb ok = Some h'' \<Longrightarrow> hash_ok h'' \<and> hash_map h'' = (\<lambda>k. 0)"
  "eina_hash_stringshared_new cb ok = Some h'' \<Longrightarrow> hash_ok h'' \<and> hash_map h'' = (\<lambda>k. 0)"
  unfolding eina_hash_string_djb2_new_def eina_hash_string_small_new_def eina_hash_int32_new_def
    eina_hash_int64_new_def eina_hash_pointer_new_def eina_hash_stringshared_new_def
  by (erule string_keys.new_ok int32_keys.new_ok int64_keys.new_ok stringshared_keys.new_ok; simp)+

section \<open>Properties\<close>

definition allocated :: "allocations \<Rightarrow> bool" where
  "allocated al \<longleftrightarrow> buckets_allocated al \<and> head_allocated al \<and> element_address al \<noteq> 0"

text \<open>A sequence of assignments; a zero datum removes the key.\<close>

fun set_all :: "('k \<times> nat \<times> allocations) list \<Rightarrow> 'k eina_hash \<Rightarrow> 'k eina_hash option" where
  "set_all [] h = Some h"
| "set_all ((k, data, al) # ops) h = do { (h, old) \<leftarrow> eina_hash_set h k data al; set_all ops h }"

lemma set_all_map:
  "hash_ok h \<Longrightarrow> list_all (\<lambda>(k, data, al). allocated al) ops \<Longrightarrow>
     \<exists>h'. set_all ops h = Some h' \<and> hash_ok h' \<and>
       hash_map h' = fold (\<lambda>(k, data, al) m. m(k := data)) ops (hash_map h)"
proof (induction ops arbitrary: h)
  case (Cons op ops)
  obtain k data al where op: "op = (k, data, al)" by (cases op)
  from Cons.prems eina_hash_set_map [of h al k data] obtain h' where
    "eina_hash_set h k data al = Some (h', hash_map h k)" "hash_ok h'" "hash_map h' = (hash_map h)(k := data)"
    by (auto simp: op allocated_def)
  with Cons.IH [of h'] Cons.prems show ?case by (simp add: op)
qed simp

text \<open>
  C30: A table of string keys behaves as a map: after any sequence of assignments, insertions
  of new keys, changes and removals (a zero datum) alike, a search finds what was last assigned
  to its key, and no operation follows a null pointer or leaves the array of buckets. The
  allocations succeed.
\<close>

theorem string_table_refines_map:
  assumes "eina_hash_string_superfast_new cb True = Some h" "list_all (\<lambda>(k, data, al). allocated al) ops"
  shows "\<exists>h'. set_all ops h = Some h' \<and>
    (\<forall>k. eina_hash_find h' k = Some (fold (\<lambda>(k, data, al) m. m(k := data)) ops (\<lambda>k. 0) k))"
proof -
  have h: "hash_ok h" "hash_map h = (\<lambda>k. 0)" using string_table_ok [OF assms(1)] by auto
  from set_all_map [OF h(1) assms(2)] h(2) eina_hash_find_map show ?thesis by fastforce
qed

definition string_table :: "u8 list eina_hash" where
  "string_table = the (eina_hash_string_superfast_new True True)"

lemma string_table_new: "eina_hash_string_superfast_new True True = Some string_table"
  by (simp add: string_table_def eina_hash_string_superfast_new_def eina_hash_new_def EINA_HASH_BUCKET_SIZE_def)

definition al1 :: allocations where
  "al1 = \<lparr>buckets_allocated = True, head_allocated = True, element_address = 64\<rparr>"

theorem string_table_refines_map_witness:
  "\<exists>h'. set_all [([97], 5, al1), ([98], 6, al1), ([97], 0, al1)] string_table = Some h' \<and>
    (\<forall>k. eina_hash_find h' k = Some (fold (\<lambda>(k, data, al) m. m(k := data))
       [([97], 5, al1), ([98], 6, al1), ([97], 0, al1)] (\<lambda>k. 0) k))"
  by (rule string_table_refines_map [OF string_table_new]) (simp add: allocated_def al1_def)

text \<open>
  Adding a new key to a table in the invariant succeeds when its allocations do, keeps the
  invariant, counts one more element, and changes the search for that key only.
\<close>

theorem add_refines_update:
  assumes "hash_ok h" "eina_hash_find h k = Some 0" "data \<noteq> 0" "allocated al"
  shows "\<exists>h'. eina_hash_add h k data al = Some (h', True) \<and> hash_ok h' \<and> population h' = population h + 1
    \<and> (\<forall>q. eina_hash_find h' q = (if q = k then Some data else eina_hash_find h q))"
proof -
  have "hash_map h k = 0" using eina_hash_find_map [OF assms(1)] assms(2) by simp
  from hash_add_map [OF assms(1) this assms(3)] assms(4)
  obtain h' where "eina_hash_add h k data al = Some (h', True)" "hash_ok h'" "population h' = population h + 1"
    "hash_map h' = (hash_map h)(k := data)" by (auto simp: allocated_def)
  then show ?thesis using assms(1) by (simp add: eina_hash_find_map)
qed

theorem add_refines_update_witness:
  "\<exists>h'. eina_hash_add string_table [97] 5 al1 = Some (h', True) \<and> hash_ok h'
    \<and> population h' = population string_table + 1
    \<and> (\<forall>q. eina_hash_find h' q = (if q = [97] then Some 5 else eina_hash_find string_table q))"
proof (rule add_refines_update)
  show h: "hash_ok string_table" using string_table_ok [OF string_table_new] by simp
  show "eina_hash_find string_table [97] = Some 0"
    using string_table_ok [OF string_table_new] eina_hash_find_map [OF h] by simp
qed (simp_all add: allocated_def al1_def)

text \<open>
  C31: Removing a key says whether the table held it, hands its datum to the free callback
  once, and changes the search for that key only; the buckets are released exactly when the
  last element goes, so no other element is lost.
\<close>

theorem del_refines_delete:
  assumes "hash_ok h" "eina_hash_find h k = Some d"
  shows "\<exists>h'. eina_hash_del_by_key h k = Some (h', d \<noteq> 0, if d \<noteq> 0 \<and> data_free_cb h then [d] else [])
    \<and> hash_ok h' \<and> population h' = population h - (if d \<noteq> 0 then 1 else 0)
    \<and> (\<forall>q. eina_hash_find h' q = (if q = k then Some 0 else eina_hash_find h q))"
proof -
  have d: "hash_map h k = d" using eina_hash_find_map [OF assms(1)] assms(2) by simp
  from hash_del_by_key_map [OF assms(1), of k]
  obtain h' where "eina_hash_del_by_key h k = Some (h', d \<noteq> 0, if d \<noteq> 0 \<and> data_free_cb h then [d] else [])"
    "hash_ok h'" "population h' = population h - (if d \<noteq> 0 then 1 else 0)"
    "hash_map h' = (hash_map h)(k := 0)" unfolding d by blast
  then show ?thesis using assms(1) by (simp add: eina_hash_find_map)
qed


theorem del_refines_delete_witness:
  "\<exists>h'. eina_hash_del_by_key string_table [97] =
      Some (h', (0 :: nat) \<noteq> 0, if (0 :: nat) \<noteq> 0 \<and> data_free_cb string_table then [0] else [])
    \<and> hash_ok h' \<and> population h' = population string_table - (if (0 :: nat) \<noteq> 0 then 1 else 0)
    \<and> (\<forall>q. eina_hash_find h' q = (if q = [97] then Some 0 else eina_hash_find string_table q))"
proof (rule del_refines_delete)
  show h: "hash_ok string_table" using string_table_ok [OF string_table_new] by simp
  show "eina_hash_find string_table [97] = Some 0"
    using string_table_ok [OF string_table_new] eina_hash_find_map [OF h] by simp
qed

text \<open>
  Three elements of one key: rotations put one where the comparison, which goes right on equal
  keys, does not look. The removal of its datum by key fails; by datum it reports success, hands
  the datum to the free callback and keeps the element in the table.
\<close>

definition small_table :: "u8 list eina_hash" where
  "small_table = the (eina_hash_new (Some string_key_length) string_key_cmp
     (\<lambda>key. eina_hash_djb2 0 (key @ [0])) True 3 True)"

definition add3 :: "u8 list eina_hash option" where
  "add3 =
     do { (h, _) \<leftarrow> eina_hash_add small_table [97] 1 (al1\<lparr>element_address := 101\<rparr>);
          (h, _) \<leftarrow> eina_hash_add h [97] 2 (al1\<lparr>element_address := 102\<rparr>);
          (h, _) \<leftarrow> eina_hash_add h [97] 3 (al1\<lparr>element_address := 103\<rparr>);
          Some h }"

definition found :: "u8 list eina_hash \<Rightarrow> nat \<Rightarrow> bool" where
  "found h data = (hash_find_by_data h data \<noteq> None)"

text \<open>
  With several elements under one key, which the code says it supports, removing a datum
  that the table holds can fail, and removing it by datum frees it and leaves it in the table.
\<close>

theorem duplicate_keys_lose_removal:
  "(do { h \<leftarrow> add3; (h1, removed1, freed1) \<leftarrow> eina_hash_del h (Some [97]) 1;
         (h2, removed2, freed2) \<leftarrow> eina_hash_del_by_data h 1;
         Some (found h 1, removed1, removed2, freed2, found h2 1) }) = Some (True, False, True, [1], True)"
  by code_simp

lemma djb2_len_differs:
  "\<forall>c \<in> set s. c \<noteq> 0 \<Longrightarrow>
     eina_hash_djb2 seed (s @ [0]) (snd (eina_hash_djb2_len seed s)) = 33 * fst (eina_hash_djb2_len seed s)"
  by (simp add: eina_hash_djb2_def eina_hash_djb2_len_def djb2_step_def nat_add_distrib push_bit_eq_mult)

end
