(* ===== verification/Eina_Inlist.thy ===== *)
theory Eina_Inlist
  imports Efl_Order
begin

text \<open>
  The inlined doubly linked lists of eina (\<^verbatim>\<open>src/src/lib/eina/eina_inlist.c\<close> and
  \<^verbatim>\<open>eina_inline_inlist.x\<close>). The nodes live in objects of the caller, so the model keeps
  them in a heap: a node is its address, a positive number, and \<open>null\<close> is 0. Every function takes
  the heap and returns the heap it leaves. A loop that follows the links is a partial function:
  on a circular list it has no value, \<open>None\<close>, and \<open>None\<close> also stands for an access through
  a null pointer.
\<close>

section \<open>Nodes and the heap\<close>

record inode =
  il_next :: nat
  il_prev :: nat
  il_last :: nat

type_synonym inheap = "nat \<Rightarrow> inode"

abbreviation (input) null :: nat where "null \<equiv> 0"

definition set_next :: "inheap \<Rightarrow> nat \<Rightarrow> nat \<Rightarrow> inheap" where
  "set_next h p v = h(p := (h p)\<lparr>il_next := v\<rparr>)"

definition set_prev :: "inheap \<Rightarrow> nat \<Rightarrow> nat \<Rightarrow> inheap" where
  "set_prev h p v = h(p := (h p)\<lparr>il_prev := v\<rparr>)"

definition set_last :: "inheap \<Rightarrow> nat \<Rightarrow> nat \<Rightarrow> inheap" where
  "set_last h p v = h(p := (h p)\<lparr>il_last := v\<rparr>)"

lemma node_after_set [simp]:
  "il_next (set_next h p v q) = (if q = p then v else il_next (h q))"
  "il_prev (set_next h p v q) = il_prev (h q)"
  "il_last (set_next h p v q) = il_last (h q)"
  "il_next (set_prev h p v q) = il_next (h q)"
  "il_prev (set_prev h p v q) = (if q = p then v else il_prev (h q))"
  "il_last (set_prev h p v q) = il_last (h q)"
  "il_next (set_last h p v q) = il_next (h q)"
  "il_prev (set_last h p v q) = il_prev (h q)"
  "il_last (set_last h p v q) = (if q = p then v else il_last (h q))"
  by (simp_all add: set_next_def set_prev_def set_last_def)

lemma set_other [simp]:
  "q \<noteq> p \<Longrightarrow> set_next h p v q = h q"
  "q \<noteq> p \<Longrightarrow> set_prev h p v q = h q"
  "q \<noteq> p \<Longrightarrow> set_last h p v q = h q"
  by (simp_all add: set_next_def set_prev_def set_last_def)

lemma unat_inc_below: "i < (j :: u32) \<Longrightarrow> unat (i + 1) = Suc (unat i)"
  by unat_arith

section \<open>First and last node\<close>

partial_function (option) inlist_last_walk :: "inheap \<Rightarrow> nat \<Rightarrow> nat option" where
  "inlist_last_walk h l = (if il_next (h l) = null then Some l else inlist_last_walk h (il_next (h l)))"

declare inlist_last_walk.simps [code]

definition eina_inlist_last :: "inheap \<Rightarrow> nat \<Rightarrow> nat option" where
  "eina_inlist_last h list = (if list \<noteq> null then inlist_last_walk h list else Some null)"

partial_function (option) inlist_first_walk :: "inheap \<Rightarrow> nat \<Rightarrow> nat option" where
  "inlist_first_walk h l = (if il_prev (h l) = null then Some l else inlist_first_walk h (il_prev (h l)))"

declare inlist_first_walk.simps [code]

definition eina_inlist_first :: "inheap \<Rightarrow> nat \<Rightarrow> nat option" where
  "eina_inlist_first h list = (if list \<noteq> null then inlist_first_walk h list else Some null)"

section \<open>Insertion\<close>

definition eina_inlist_append :: "inheap \<Rightarrow> nat \<Rightarrow> nat \<Rightarrow> (inheap \<times> nat) option" where
  "eina_inlist_append h list new_l =
     (if new_l = null then Some (h, list)
      else
        let h = set_next h new_l null in
        if list = null then
          let h = set_prev h new_l null;
              h = set_last h new_l new_l
          in Some (h, new_l)
        else do {
          l \<leftarrow> (if il_last (h list) \<noteq> null then Some (il_last (h list)) else inlist_last_walk h list);
          let h = set_next h l new_l;
          let h = set_prev h new_l l;
          let h = set_last h list new_l;
          Some (h, list) })"

definition eina_inlist_prepend :: "inheap \<Rightarrow> nat \<Rightarrow> nat \<Rightarrow> (inheap \<times> nat) option" where
  "eina_inlist_prepend h list new_l =
     (if new_l = null then Some (h, list)
      else
        let h = set_prev h new_l null in
        if list = null then
          let h = set_next h new_l null;
              h = set_last h new_l new_l
          in Some (h, new_l)
        else
          let h = set_next h new_l list;
              h = set_prev h list new_l;
              h = set_last h new_l (il_last (h list));
              h = set_last h list null
          in Some (h, new_l))"

definition eina_inlist_append_relative ::
  "inheap \<Rightarrow> nat \<Rightarrow> nat \<Rightarrow> nat \<Rightarrow> (inheap \<times> nat) option" where
  "eina_inlist_append_relative h list new_l relative =
     (if new_l = null then Some (h, list)
      else if relative \<noteq> null \<and> list \<noteq> null then
        let h = (if il_next (h relative) \<noteq> null
                 then let h = set_next h new_l (il_next (h relative))
                      in set_prev h (il_next (h relative)) new_l
                 else set_next h new_l null);
            h = set_next h relative new_l;
            h = set_prev h new_l relative;
            h = (if il_next (h new_l) = null then set_last h list new_l else h)
        in Some (h, list)
      else eina_inlist_append h list new_l)"

definition eina_inlist_prepend_relative ::
  "inheap \<Rightarrow> nat \<Rightarrow> nat \<Rightarrow> nat \<Rightarrow> (inheap \<times> nat) option" where
  "eina_inlist_prepend_relative h list new_l relative =
     (if new_l = null then Some (h, list)
      else if relative \<noteq> null \<and> list \<noteq> null then
        let h = set_prev h new_l (il_prev (h relative));
            h = set_next h new_l relative;
            h = set_prev h relative new_l
        in if il_prev (h new_l) \<noteq> null
           then Some (set_next h (il_prev (h new_l)) new_l, list)
           else let h = set_last h new_l (il_last (h list));
                    h = set_last h list null
                in Some (h, new_l)
      else eina_inlist_prepend h list new_l)"

section \<open>Removal and moves\<close>

definition eina_inlist_remove :: "inheap \<Rightarrow> nat \<Rightarrow> nat \<Rightarrow> (inheap \<times> nat) option" where
  "eina_inlist_remove h list item =
     (if list = null then Some (h, null)
      else if item = null then Some (h, list)
      else if item \<noteq> list \<and> il_prev (h item) = null \<and> il_next (h item) = null then Some (h, list)
      else
        let h = (if il_next (h item) \<noteq> null
                 then set_prev h (il_next (h item)) (il_prev (h item)) else h);
            (h, return_l) =
              (if il_prev (h item) \<noteq> null
               then (set_next h (il_prev (h item)) (il_next (h item)), list)
               else let return_l = il_next (h item)
                    in (if return_l \<noteq> null then set_last h return_l (il_last (h list)) else h,
                        return_l));
            h = (if item = il_last (h list) then set_last h list (il_prev (h item)) else h);
            h = set_next h item null;
            h = set_prev h item null
        in Some (h, return_l))"

definition eina_inlist_promote :: "inheap \<Rightarrow> nat \<Rightarrow> nat \<Rightarrow> (inheap \<times> nat) option" where
  "eina_inlist_promote h list item =
     (if list = null then Some (h, null)
      else if item = null then Some (h, list)
      else if item = list then Some (h, list)
      else
        let h = (if il_next (h item) \<noteq> null
                 then set_prev h (il_next (h item)) (il_prev (h item)) else h)
        in if il_prev (h item) = null then None
           else
             let h = set_next h (il_prev (h item)) (il_next (h item));
                 h = (if il_last (h list) = item then set_last h list (il_prev (h item)) else h);
                 h = set_next h item list;
                 h = set_prev h item null;
                 h = set_last h item (il_last (h list));
                 h = set_prev h list item;
                 h = set_last h list null
             in Some (h, item))"

definition eina_inlist_demote :: "inheap \<Rightarrow> nat \<Rightarrow> nat \<Rightarrow> (inheap \<times> nat) option" where
  "eina_inlist_demote h list item =
     (if list = null then Some (h, null)
      else if item = null then Some (h, list)
      else if il_last (h list) = item then Some (h, list)
      else do {
        h \<leftarrow> (if il_last (h list) = null
              then do { l \<leftarrow> inlist_last_walk h list; Some (set_last h list l) }
              else Some h);
        let (h, l) = (if il_prev (h item) \<noteq> null
                      then (set_next h (il_prev (h item)) (il_next (h item)), list)
                      else (h, il_next (h item)));
        if il_next (h item) = null \<or> l = null then None
        else do {
          let h = set_prev h (il_next (h item)) (il_prev (h item));
          let h = set_next h (il_last (h list)) item;
          let h = set_prev h item (il_last (h list));
          let h = set_next h item null;
          Some (set_last h l item, l) } })"

section \<open>Search and count\<close>

partial_function (option) inlist_find_walk :: "inheap \<Rightarrow> nat \<Rightarrow> nat \<Rightarrow> nat option" where
  "inlist_find_walk h l item =
     (if l = null then Some null
      else if l = item then Some item
      else inlist_find_walk h (il_next (h l)) item)"

declare inlist_find_walk.simps [code]

definition eina_inlist_find :: "inheap \<Rightarrow> nat \<Rightarrow> nat \<Rightarrow> nat option" where
  "eina_inlist_find h list item = (if item = null then Some null else inlist_find_walk h list item)"

partial_function (option) inlist_count_walk :: "inheap \<Rightarrow> nat \<Rightarrow> u32 \<Rightarrow> u32 option" where
  "inlist_count_walk h l i = (if l = null then Some i else inlist_count_walk h (il_next (h l)) (i + 1))"

declare inlist_count_walk.simps [code]

definition eina_inlist_count :: "inheap \<Rightarrow> nat \<Rightarrow> u32 option" where
  "eina_inlist_count h list = inlist_count_walk h list 0"

section \<open>Iterators and accessors\<close>

record iterator_inlist =
  it_head :: nat
  it_current :: nat

definition eina_inlist_iterator_new :: "nat \<Rightarrow> iterator_inlist" where
  "eina_inlist_iterator_new list = \<lparr>it_head = list, it_current = list\<rparr>"

definition eina_inlist_iterator_get_container :: "iterator_inlist \<Rightarrow> nat" where
  "eina_inlist_iterator_get_container it = it_head it"

definition eina_inlist_iterator_next ::
  "inheap \<Rightarrow> iterator_inlist \<Rightarrow> (nat \<times> iterator_inlist) option" where
  "eina_inlist_iterator_next h it =
     (if it_current it = null then None
      else Some (it_current it, it\<lparr>it_current := il_next (h (it_current it))\<rparr>))"

record accessor_inlist =
  ac_head :: nat
  ac_current :: nat
  ac_index :: u32

definition eina_inlist_accessor_new :: "nat \<Rightarrow> accessor_inlist" where
  "eina_inlist_accessor_new list = \<lparr>ac_head = list, ac_current = list, ac_index = 0\<rparr>"

definition eina_inlist_accessor_get_container :: "accessor_inlist \<Rightarrow> nat" where
  "eina_inlist_accessor_get_container it = ac_head it"

function accessor_forward :: "inheap \<Rightarrow> u32 \<Rightarrow> u32 \<Rightarrow> nat \<Rightarrow> nat" where
  "accessor_forward h i idx over =
     (if i < idx \<and> over \<noteq> null then accessor_forward h (i + 1) idx (il_next (h over)) else over)"
  by auto
termination
proof (relation "measure (\<lambda>(h, i, idx, over). unat idx - unat i)")
  fix h :: inheap and i idx :: u32 and over :: nat
  assume "i < idx \<and> over \<noteq> null"
  then have "i < idx" ..
  then have "unat i < unat idx" "unat (i + 1) = Suc (unat i)"
    by (simp_all add: word_less_nat_alt unat_inc_below)
  then show "((h, i + 1, idx, il_next (h over)), (h, i, idx, over))
    \<in> measure (\<lambda>(h, i, idx, over). unat idx - unat i)" by simp
qed simp

function accessor_backward :: "inheap \<Rightarrow> u32 \<Rightarrow> u32 \<Rightarrow> nat \<Rightarrow> nat" where
  "accessor_backward h i idx over =
     (if idx < i \<and> over \<noteq> null then accessor_backward h (i - 1) idx (il_prev (h over)) else over)"
  by auto
termination
proof (relation "measure (\<lambda>(h, i, idx, over). unat i)")
  fix h :: inheap and i idx :: u32 and over :: nat
  assume "idx < i \<and> over \<noteq> null"
  then have "i \<noteq> 0" by auto
  then have "unat (i - 1) < unat i" by (simp add: unat_minus_one unat_gt_0)
  then show "((h, i - 1, idx, il_prev (h over)), (h, i, idx, over)) \<in> measure (\<lambda>(h, i, idx, over). unat i)"
    by simp
qed simp

declare accessor_forward.simps [simp del] accessor_backward.simps [simp del]

text \<open>\<open>None\<close> is the answer \<^verbatim>\<open>EINA_FALSE\<close>, which leaves the accessor as it is.\<close>

definition eina_inlist_accessor_get_at ::
  "inheap \<Rightarrow> accessor_inlist \<Rightarrow> u32 \<Rightarrow> (nat \<times> accessor_inlist) option" where
  "eina_inlist_accessor_get_at h it idx =
     (let over =
        (if ac_index it = idx then ac_current it
         else if ac_index it < idx then accessor_forward h (ac_index it) idx (ac_current it)
         else
           let middle = drop_bit 1 (ac_index it) in
           if middle < idx then accessor_backward h (ac_index it) idx (ac_current it)
           else accessor_forward h 0 idx (ac_head it))
      in if over = null then None
         else Some (over, it\<lparr>ac_current := over, ac_index := idx\<rparr>))"

section \<open>Sorting\<close>

definition EINA_INLIST_SORT_STACK_SIZE :: nat where
  "EINA_INLIST_SORT_STACK_SIZE = 32"

text \<open>
  The comparison callback is a function of the two nodes. \<open>None\<close> is a loop that does not end,
  or an access outside the array \<^verbatim>\<open>stack\<close>.
\<close>

type_synonym compare_cb = "nat \<Rightarrow> nat \<Rightarrow> int"

partial_function (option) sort_merge_loop ::
  "compare_cb \<Rightarrow> inheap \<Rightarrow> nat \<Rightarrow> nat \<Rightarrow> nat \<Rightarrow> inheap option" where
  "sort_merge_loop func h a b last_n =
     (if a \<noteq> null \<and> b \<noteq> null then
        if func a b < 0 then
          let h = set_next h last_n a in sort_merge_loop func h (il_next (h a)) b a
        else
          let h = set_next h last_n b in sort_merge_loop func h a (il_next (h b)) b
      else Some (set_next h last_n (if a \<noteq> null then a else b)))"

declare sort_merge_loop.simps [code]

definition eina_inlist_sort_merge ::
  "compare_cb \<Rightarrow> inheap \<Rightarrow> nat \<Rightarrow> nat \<Rightarrow> (inheap \<times> nat) option" where
  "eina_inlist_sort_merge func h a b =
     (if func a b < 0 then
        do { h \<leftarrow> sort_merge_loop func h (il_next (h a)) b a; Some (h, a) }
      else
        do { h \<leftarrow> sort_merge_loop func h a (il_next (h b)) b; Some (h, b) })"

partial_function (option) sort_rebuild_prev_loop ::
  "inheap \<Rightarrow> nat \<Rightarrow> nat \<Rightarrow> (inheap \<times> nat) option" where
  "sort_rebuild_prev_loop h list prev =
     (if list = null then Some (h, prev)
      else let h = set_prev h list prev in sort_rebuild_prev_loop h (il_next (h list)) list)"

declare sort_rebuild_prev_loop.simps [code]

definition eina_inlist_sort_rebuild_prev :: "inheap \<Rightarrow> nat \<Rightarrow> (inheap \<times> nat) option" where
  "eina_inlist_sort_rebuild_prev h list = sort_rebuild_prev_loop h list null"

function sort_merges ::
  "compare_cb \<Rightarrow> inheap \<Rightarrow> nat list \<Rightarrow> nat \<Rightarrow> u32 \<Rightarrow> (inheap \<times> nat list \<times> nat) option" where
  "sort_merges func h stack i idx =
     (if idx AND (idx - 1) = 0 then Some (h, stack, i)
      else if i < 2 \<or> length stack < i then None
      else do {
        (h, s) \<leftarrow> eina_inlist_sort_merge func h (stack ! (i - 2)) (stack ! (i - 1));
        sort_merges func h (stack[i - 2 := s]) (i - 1) (idx AND (idx - 1)) })"
  by pat_completeness auto
termination
proof (relation "measure (\<lambda>(func, h, stack, i, idx). unat idx)")
  fix idx :: u32
  assume "idx AND (idx - 1) \<noteq> 0"
  then have "idx \<noteq> 0" by auto
  have "unat (idx AND (idx - 1)) = unat idx AND unat (idx - 1)" by (simp add: unsigned_and_eq)
  also have "\<dots> \<le> unat (idx - 1)" by (simp add: word_and_le1 flip: unsigned_and_eq word_le_nat_alt)
  also have "\<dots> < unat idx" using \<open>idx \<noteq> 0\<close> by (simp add: unat_minus_one unat_gt_0)
  finally show "((func, h', stack[i - 2 := s], i - 1, idx AND (idx - 1)), (func, h, stack, i, idx))
    \<in> measure (\<lambda>(func, h, stack, i, idx). unat idx)" for func h h' stack i s by simp
qed auto

declare sort_merges.simps [simp del]

partial_function (option) sort_loop ::
  "compare_cb \<Rightarrow> inheap \<Rightarrow> nat list \<Rightarrow> nat \<Rightarrow> u32 \<Rightarrow> nat \<Rightarrow> (inheap \<times> nat list \<times> nat) option" where
  "sort_loop func h stack i n tail =
     (if tail = null then Some (h, stack, i)
      else if length stack \<le> i then None
      else
        let a = tail; b = il_next (h tail) in
        if b = null then Some (h, stack[i := a], i + 1)
        else
          let tail = il_next (h b);
              (h, stack) =
                (if func a b < 0 then (set_next (set_next h a b) b null, stack[i := a])
                 else (set_next (set_next h b a) a null, stack[i := b]))
          in do {
            (h, stack, i) \<leftarrow> sort_merges func h stack (i + 1) ((n + 1) XOR n);
            sort_loop func h stack i (n + 1) tail })"

declare sort_loop.simps [code]

fun sort_collapse ::
  "compare_cb \<Rightarrow> inheap \<Rightarrow> nat list \<Rightarrow> nat \<Rightarrow> (inheap \<times> nat list) option" where
  "sort_collapse func h stack (Suc (Suc k)) =
     do {
       (h, s) \<leftarrow> eina_inlist_sort_merge func h (stack ! k) (stack ! Suc k);
       sort_collapse func h (stack[k := s]) (Suc k) }"
| "sort_collapse func h stack i = Some (h, stack)"

definition eina_inlist_sort :: "compare_cb \<Rightarrow> inheap \<Rightarrow> nat \<Rightarrow> (inheap \<times> nat) option" where
  "eina_inlist_sort func h head =
     (if head = null then Some (h, null)
      else do {
        (h, stack, i) \<leftarrow> sort_loop func h (replicate EINA_INLIST_SORT_STACK_SIZE null) 0 0 head;
        (h, stack) \<leftarrow> sort_collapse func h stack i;
        (h, tail) \<leftarrow> eina_inlist_sort_rebuild_prev h (stack ! 0);
        Some (set_last h (stack ! 0) tail, stack ! 0) })"

end
