(* ===== verification/Eina_Inlist_Sorted.thy ===== *)
theory Eina_Inlist_Sorted
  imports Eina_Inlist
begin

text \<open>
  Insertion into a sorted inlist (\<^verbatim>\<open>eina_inlist_sorted_insert\<close>,
  \<^verbatim>\<open>eina_inlist_sorted_state_insert\<close> and what they call): a table of pointers into the list,
  one every \<^verbatim>\<open>jump_div\<close> nodes, is searched by bisection, then the nodes around the place found.
  The counters of the code are \<open>int\<close>s and \<open>nat\<close>s: none exceeds the number of nodes, or 256
  for the table.
\<close>

section \<open>The jump table\<close>

definition EINA_INLIST_JUMP_SIZE :: nat where
  "EINA_INLIST_JUMP_SIZE = 256"

record sorted_state =
  jump_table :: "nat list"
  jump_limit :: nat
  jump_div :: int
  inserted :: int

definition eina_inlist_sorted_state_new :: sorted_state where
  "eina_inlist_sorted_state_new =
     \<lparr>jump_table = replicate EINA_INLIST_JUMP_SIZE null, jump_limit = 0, jump_div = 1, inserted = 0\<rparr>"

definition sorted_state_compact :: "sorted_state \<Rightarrow> sorted_state" where
  "sorted_state_compact state =
     state\<lparr>jump_div := jump_div state * 2,
           jump_limit := jump_limit state div 2,
           jump_table := fold (\<lambda>j t. t[j := t ! (2 * j)]) [1..<EINA_INLIST_JUMP_SIZE div 2] (jump_table state)\<rparr>"

definition jump_push :: "sorted_state \<Rightarrow> nat \<Rightarrow> sorted_state" where
  "jump_push state ct =
     (let state = (if jump_limit state = EINA_INLIST_JUMP_SIZE then sorted_state_compact state else state)
      in state\<lparr>jump_table := (jump_table state)[jump_limit state := ct],
               jump_limit := jump_limit state + 1\<rparr>)"

partial_function (option) state_init_loop ::
  "inheap \<Rightarrow> sorted_state \<Rightarrow> nat \<Rightarrow> int \<Rightarrow> int \<Rightarrow> (sorted_state \<times> int) option" where
  "state_init_loop h state ct jump_count count =
     (if ct = null then Some (state, count)
      else
        let (state, jump_count) =
          (if jump_count = jump_div state then (jump_push state ct, 0) else (state, jump_count))
        in state_init_loop h state (il_next (h ct)) (jump_count + 1) (count + 1))"

declare state_init_loop.simps [code]

definition eina_inlist_sorted_state_init :: "inheap \<Rightarrow> sorted_state \<Rightarrow> nat \<Rightarrow> (sorted_state \<times> int) option" where
  "eina_inlist_sorted_state_init h state list =
     do { (state, count) \<leftarrow> state_init_loop h state list 1 0;
          Some (state\<lparr>inserted := count\<rparr>, count) }"

section \<open>The two searches\<close>

definition midpoint :: "int \<Rightarrow> int \<Rightarrow> int" where
  "midpoint inf_n sup_n = inf_n + drop_bit 1 (sup_n - inf_n)"

lemma midpoint_ge [intro]: "a \<le> b \<Longrightarrow> a \<le> midpoint a b"
  by (simp add: midpoint_def drop_bit_eq_div)

lemma midpoint_le [intro]: "a \<le> b \<Longrightarrow> midpoint a b \<le> b"
  by (simp add: midpoint_def drop_bit_eq_div)

lemma midpoint_splits:
  "a \<le> b \<Longrightarrow> nat (b - midpoint a b) < nat (1 + b - a)"
  "a \<le> b \<Longrightarrow> nat (midpoint a b - a) < nat (1 + b - a)"
  using midpoint_ge [of a b] midpoint_le [of a b] by linarith+

text \<open>The results are the last position looked at, the node there and how it compares.\<close>

function jump_search ::
  "compare_cb \<Rightarrow> nat list \<Rightarrow> nat \<Rightarrow> int \<Rightarrow> int \<Rightarrow> int \<times> nat \<times> int \<Rightarrow> (int \<times> nat \<times> int) option" where
  "jump_search func table item inf_n sup_n r =
     (if sup_n < inf_n then Some r
      else let cur = midpoint inf_n sup_n in
        do {
          ct \<leftarrow> nth_opt table (nat cur);
          let cmp = func ct item;
          if cmp = 0 then Some (cur, ct, cmp)
          else if cmp < 0 then jump_search func table item (cur + 1) sup_n (cur, ct, cmp)
          else if cur > 0 then jump_search func table item inf_n (cur - 1) (cur, ct, cmp)
          else Some (cur, ct, cmp) })"
  by pat_completeness auto
termination
proof (relation "measure (\<lambda>(func, table, item, inf_n, sup_n, r). nat (sup_n + 1 - inf_n))")
qed (use midpoint_splits in \<open>auto simp: not_less algebra_simps\<close>)

fun walk_next :: "inheap \<Rightarrow> nat \<Rightarrow> nat \<Rightarrow> nat option" where
  "walk_next h 0 ct = Some ct"
| "walk_next h (Suc k) ct = (if ct = null then None else walk_next h k (il_next (h ct)))"

fun walk_prev :: "inheap \<Rightarrow> nat \<Rightarrow> nat \<Rightarrow> nat option" where
  "walk_prev h 0 ct = Some ct"
| "walk_prev h (Suc k) ct = (if ct = null then None else walk_prev h k (il_prev (h ct)))"

definition walk_to :: "inheap \<Rightarrow> int \<Rightarrow> int \<Rightarrow> nat \<Rightarrow> nat option" where
  "walk_to h tmp cur ct =
     (if tmp < cur then walk_next h (nat (cur - tmp)) ct
      else walk_prev h (nat (tmp - cur)) ct)"

function list_search ::
  "compare_cb \<Rightarrow> inheap \<Rightarrow> nat \<Rightarrow> int \<Rightarrow> int \<Rightarrow> int \<times> nat \<times> int \<Rightarrow> (int \<times> nat \<times> int) option" where
  "list_search func h item inf_n sup_n r =
     (if sup_n < inf_n then Some r
      else let cur = midpoint inf_n sup_n in
        do {
          ct \<leftarrow> walk_to h (fst r) cur (fst (snd r));
          if ct = null then None
          else
            let cmp = func ct item in
            if cmp = 0 then Some (cur, ct, cmp)
            else if cmp < 0 then list_search func h item (cur + 1) sup_n (cur, ct, cmp)
            else if cur > 0 then list_search func h item inf_n (cur - 1) (cur, ct, cmp)
            else Some (cur, ct, cmp) })"
  by pat_completeness auto
termination
proof (relation "measure (\<lambda>(func, h, item, inf_n, sup_n, r). nat (sup_n + 1 - inf_n))")
qed (use midpoint_splits in \<open>auto simp: not_less algebra_simps\<close>)

declare jump_search.simps [simp del] list_search.simps [simp del]

definition search_table ::
  "compare_cb \<Rightarrow> sorted_state \<Rightarrow> nat \<Rightarrow> (int \<times> nat \<times> int) option" where
  "search_table func state item =
     do {
       ct \<leftarrow> nth_opt (jump_table state) 0;
       jump_search func (jump_table state) item 0 (int (jump_limit state) - 1) (0, ct, func ct item) }"

definition search_nodes ::
  "compare_cb \<Rightarrow> inheap \<Rightarrow> int \<Rightarrow> int \<Rightarrow> nat \<Rightarrow> int \<times> nat \<times> int \<Rightarrow> (int \<times> nat \<times> int) option" where
  "search_nodes func h dist count item r =
     (let cur = fst r * dist;
          inf_n = cur - dist - 1;
          sup_n = cur + dist + 1;
          sup_n = (if sup_n > count - 1 then count - 1 else sup_n);
          inf_n = (if inf_n < 0 then 0 else inf_n)
      in list_search func h item inf_n sup_n (cur, snd r))"

section \<open>Insertion without a state\<close>

definition eina_inlist_sorted_insert ::
  "compare_cb \<Rightarrow> inheap \<Rightarrow> nat \<Rightarrow> nat \<Rightarrow> (inheap \<times> nat) option" where
  "eina_inlist_sorted_insert func h list item =
     (if item = null then Some (h, list)
      else if list = null then eina_inlist_append h null item
      else if il_next (h list) = null then
        if func list item < 0 then eina_inlist_append h list item
        else eina_inlist_prepend h list item
      else do {
        (state, count) \<leftarrow> eina_inlist_sorted_state_init h eina_inlist_sorted_state_new list;
        (cur, ct, cmp) \<leftarrow> search_table func state item;
        if cur = 0 \<and> cmp > 0 then eina_inlist_prepend_relative h list item ct
        else if cmp < 0 \<and> ct = il_last (h list) then eina_inlist_append h list item
        else do {
          (cur, ct, cmp) \<leftarrow> search_nodes func h (jump_div state) count item (cur, ct, cmp);
          if cmp \<le> 0 then eina_inlist_append_relative h list item ct
          else eina_inlist_prepend_relative h list item ct } })"

section \<open>Insertion with a state\<close>

text \<open>\<^verbatim>\<open>jump_table[idx] = jump_table[idx]->prev\<close> for the entries from \<open>idx\<close> on; a null entry faults.\<close>

fun shift_table :: "inheap \<Rightarrow> nat list \<Rightarrow> nat list \<Rightarrow> nat list option" where
  "shift_table h [] t = Some t"
| "shift_table h (i # is) t =
     do { entry \<leftarrow> nth_opt t i;
          if entry = null then None else shift_table h is (t[i := il_prev (h entry)]) }"

definition shift_entries :: "inheap \<Rightarrow> nat \<Rightarrow> sorted_state \<Rightarrow> sorted_state option" where
  "shift_entries h idx state =
     do { t \<leftarrow> shift_table h [idx..<jump_limit state] (jump_table state);
          Some (state\<lparr>jump_table := t\<rparr>) }"

partial_function (option) rebuild_end ::
  "inheap \<Rightarrow> sorted_state \<Rightarrow> nat \<Rightarrow> nat \<Rightarrow> int \<Rightarrow> sorted_state option" where
  "rebuild_end h state start lst jump_count =
     (if lst = null then None
      else if il_next (h lst) = null then Some state
      else if jump_count = jump_div state then
        if jump_limit state = start \<and> jump_limit state = EINA_INLIST_JUMP_SIZE then
          let state = sorted_state_compact state
          in rebuild_end h state (jump_limit state - 1) (il_next (h lst)) (jump_count + 1)
        else
          let state = (if jump_limit state = start then state\<lparr>jump_limit := jump_limit state + 1\<rparr> else state);
              state = state\<lparr>jump_table := (jump_table state)[start := lst]\<rparr>
          in rebuild_end h state (start + 1) (il_next (h lst)) 1
      else rebuild_end h state start (il_next (h lst)) (jump_count + 1))"

declare rebuild_end.simps [code]

definition sorted_state_insert ::
  "inheap \<Rightarrow> sorted_state \<Rightarrow> nat \<Rightarrow> int \<Rightarrow> sorted_state option" where
  "sorted_state_insert h state idx offset =
     (let state = state\<lparr>inserted := inserted state + 1\<rparr>;
          idx = (if offset \<noteq> 0 then idx + 1 else idx)
      in do {
        state \<leftarrow> shift_entries h idx state;
        let start = jump_limit state - 3;
        lst \<leftarrow> nth_opt (jump_table state) start;
        rebuild_end h state (start + 1) lst 0 })"

definition eina_inlist_sorted_state_insert ::
  "compare_cb \<Rightarrow> inheap \<Rightarrow> nat \<Rightarrow> nat \<Rightarrow> sorted_state \<Rightarrow> (inheap \<times> nat \<times> sorted_state) option" where
  "eina_inlist_sorted_state_insert func h list item state =
     (if list = null then
        do { (h, l) \<leftarrow> eina_inlist_append h null item;
             Some (h, l, state\<lparr>inserted := 1, jump_limit := 1,
                               jump_table := (jump_table state)[0 := item]\<rparr>) }
      else if il_next (h list) = null then
        let state = state\<lparr>jump_limit := 2, inserted := 2\<rparr> in
        if func list item < 0 then
          do { (h, l) \<leftarrow> eina_inlist_append h list item;
               Some (h, l, state\<lparr>jump_table := (jump_table state)[1 := item]\<rparr>) }
        else
          do { (h, l) \<leftarrow> eina_inlist_prepend h list item;
               Some (h, l, state\<lparr>jump_table := (jump_table state)[1 := jump_table state ! 0, 0 := item]\<rparr>) }
      else do {
        (cur, ct, cmp) \<leftarrow> search_table func state item;
        if cur = 0 \<and> cmp > 0 then
          do { (h, l) \<leftarrow> eina_inlist_prepend_relative h list item ct;
               state \<leftarrow> sorted_state_insert h state 0 0;
               Some (h, l, state) }
        else if cmp < 0 \<and> ct = il_last (h list) then
          do { (h, l) \<leftarrow> eina_inlist_append h list item;
               state \<leftarrow> sorted_state_insert h state (jump_limit state - 1) 1;
               Some (h, l, state) }
        else do {
          (cur, ct, cmp) \<leftarrow> search_nodes func h (jump_div state) (inserted state) item (cur, ct, cmp);
          (h, l) \<leftarrow> (if cmp \<le> 0 then eina_inlist_append_relative h list item ct
                     else eina_inlist_prepend_relative h list item ct);
          let cur = (if cmp \<le> 0 then cur + 1 else cur);
          state \<leftarrow> sorted_state_insert h state (nat (cur div jump_div state)) (cur mod jump_div state);
          Some (h, l, state) } })"

end
