(* ===== verification/Eina_Inlist_List.thy ===== *)
theory Eina_Inlist_List
  imports Eina_Inlist
begin

text \<open>
  The lists that inlists stand for: the relation \<open>inlist h p xs\<close> says that from node \<open>p\<close> the
  links of the heap run through the nodes \<open>xs\<close>, forwards and backwards, and that the first node
  knows the last. Every operation refines an operation on lists, and touches no other node.
\<close>

section \<open>Linked segments\<close>

text \<open>
  \<open>seg h a p xs l n\<close>: from \<open>p\<close>, which \<open>a\<close> precedes, the nodes \<open>xs\<close> lead to \<open>n\<close>, which
  \<open>l\<close> precedes.
\<close>

fun seg :: "inheap \<Rightarrow> nat \<Rightarrow> nat \<Rightarrow> nat list \<Rightarrow> nat \<Rightarrow> nat \<Rightarrow> bool" where
  "seg h a p [] l n = (p = n \<and> l = a)"
| "seg h a p (x # xs) l n =
     (p = x \<and> x \<noteq> null \<and> il_prev (h x) = a \<and> seg h x (il_next (h x)) xs l n)"

lemma seg_append:
  "seg h a p (xs @ ys) l n \<longleftrightarrow> (\<exists>m q. seg h a p xs m q \<and> seg h m q ys l n)"
  by (induction xs arbitrary: a p) auto

lemma seg_cong:
  "\<forall>x \<in> set xs. il_next (h' x) = il_next (h x) \<and> il_prev (h' x) = il_prev (h x)
    \<Longrightarrow> seg h' a p xs l n = seg h a p xs l n"
  by (induction xs arbitrary: a p) auto

lemma seg_set [simp]:
  "q \<notin> set xs \<Longrightarrow> seg (set_next h q v) a p xs l n = seg h a p xs l n"
  "q \<notin> set xs \<Longrightarrow> seg (set_prev h q v) a p xs l n = seg h a p xs l n"
  "seg (set_last h q v) a p xs l n = seg h a p xs l n"
  by (rule seg_cong; auto)+

lemma seg_nonnull: "seg h a p xs l n \<Longrightarrow> x \<in> set xs \<Longrightarrow> x \<noteq> null"
  by (induction xs arbitrary: a p) auto

lemma seg_last: "seg h a p xs l n \<Longrightarrow> l = last (a # xs)"
  by (induction xs arbitrary: a p) auto

lemma seg_first: "seg h a p (x # xs) l n \<Longrightarrow> p = x"
  by simp

lemma seg_zero: "seg h a null xs l n \<longleftrightarrow> xs = [] \<and> n = null \<and> l = a"
  by (cases xs) auto

definition inlist :: "inheap \<Rightarrow> nat \<Rightarrow> nat list \<Rightarrow> bool" where
  "inlist h p xs \<longleftrightarrow>
     seg h null p xs (last (null # xs)) null \<and> distinct xs \<and> (xs \<noteq> [] \<longrightarrow> il_last (h p) = last xs)"

lemma inlist_Nil [simp]: "inlist h p [] \<longleftrightarrow> p = null"
  by (simp add: inlist_def)

lemma inlist_null [simp]: "inlist h null xs \<longleftrightarrow> xs = []"
  by (auto simp: inlist_def seg_zero)

lemma inlist_head: "inlist h p xs \<Longrightarrow> xs \<noteq> [] \<Longrightarrow> p = hd xs \<and> p \<noteq> null"
  by (cases xs) (auto simp: inlist_def)

lemma inlist_head_in: "inlist h p xs \<Longrightarrow> xs \<noteq> [] \<Longrightarrow> p \<in> set xs"
  using inlist_head [of h p xs] by auto

lemma inlist_nonnull: "inlist h p xs \<Longrightarrow> x \<in> set xs \<Longrightarrow> x \<noteq> null"
  by (auto simp: inlist_def dest: seg_nonnull)

text \<open>The nodes outside a set are as they were.\<close>

definition same_outside :: "nat set \<Rightarrow> inheap \<Rightarrow> inheap \<Rightarrow> bool" where
  "same_outside S h h' \<longleftrightarrow> (\<forall>q. q \<notin> S \<longrightarrow> h' q = h q)"

lemma same_outside_refl [simp]: "same_outside S h h"
  by (simp add: same_outside_def)

lemma same_outside_trans:
  "same_outside S h h' \<Longrightarrow> same_outside T h' h'' \<Longrightarrow> same_outside (S \<union> T) h h''"
  by (simp add: same_outside_def)

lemma same_outside_mono: "same_outside S h h' \<Longrightarrow> S \<subseteq> T \<Longrightarrow> same_outside T h h'"
  by (auto simp: same_outside_def)

lemma same_outside_set [simp]:
  "p \<in> S \<Longrightarrow> same_outside S h (set_next h' p v) = same_outside S h h'"
  "p \<in> S \<Longrightarrow> same_outside S h (set_prev h' p v) = same_outside S h h'"
  "p \<in> S \<Longrightarrow> same_outside S h (set_last h' p v) = same_outside S h h'"
  unfolding same_outside_def by (metis set_other)+

lemma inlist_same_outside:
  assumes "inlist h p xs" "same_outside S h h'" "S \<inter> set xs = {}"
  shows "inlist h' p xs"
proof -
  have "h' x = h x" if "x \<in> set xs" for x
    using assms that by (auto simp: same_outside_def)
  moreover from this have "seg h' null p xs (last (null # xs)) null = seg h null p xs (last (null # xs)) null"
    by (intro seg_cong) simp
  ultimately show ?thesis
    using assms(1) inlist_head [OF assms(1)] by (auto simp: inlist_def)
qed

section \<open>Insertion\<close>

lemma inlist_snoc_last: "inlist h p xs \<Longrightarrow> xs \<noteq> [] \<Longrightarrow> il_last (h p) = last xs"
  by (simp add: inlist_def)

lemma append_refines:
  assumes "inlist h p xs" "x \<noteq> null" "x \<notin> set xs"
  shows "\<exists>h' p'. eina_inlist_append h p x = Some (h', p') \<and> inlist h' p' (xs @ [x])
    \<and> same_outside (insert x (set xs)) h h'"
proof (cases xs rule: rev_cases)
  case Nil
  with assms show ?thesis by (auto simp: eina_inlist_append_def inlist_def)
next
  case (snoc as l)
  with assms have "p \<in> set xs" "il_last (h p) = l" "l \<noteq> null"
    using inlist_head_in [of h p xs] inlist_snoc_last [of h p xs] inlist_nonnull [of h p xs l] by simp_all
  moreover from this assms snoc have "p \<noteq> null" "p \<noteq> x" "x \<noteq> l"
    using inlist_nonnull [of h p xs p] by auto
  moreover note assms snoc
  ultimately show ?thesis
    by (auto simp: eina_inlist_append_def inlist_def seg_append)
qed

lemma prepend_refines:
  assumes "inlist h p xs" "x \<noteq> null" "x \<notin> set xs"
  shows "\<exists>h' p'. eina_inlist_prepend h p x = Some (h', p') \<and> inlist h' p' (x # xs)
    \<and> same_outside (insert x (set xs)) h h'"
  using assms by (cases xs) (auto simp: eina_inlist_prepend_def inlist_def)

fun insert_after :: "nat \<Rightarrow> nat \<Rightarrow> nat list \<Rightarrow> nat list" where
  "insert_after r x [] = [x]"
| "insert_after r x (y # ys) = (if y = r then y # x # ys else y # insert_after r x ys)"

fun insert_before :: "nat \<Rightarrow> nat \<Rightarrow> nat list \<Rightarrow> nat list" where
  "insert_before r x [] = []"
| "insert_before r x (y # ys) = (if y = r then x # y # ys else y # insert_before r x ys)"

lemma insert_after_split: "r \<notin> set as \<Longrightarrow> insert_after r x (as @ r # bs) = as @ r # x # bs"
  by (induction as) auto

lemma insert_after_end: "r \<notin> set as \<Longrightarrow> insert_after r x as = as @ [x]"
  by (induction as) auto

lemma insert_before_split: "r \<notin> set as \<Longrightarrow> insert_before r x (as @ r # bs) = as @ x # r # bs"
  by (induction as) auto

lemma append_relative_refines:
  assumes i: "inlist h p xs" and x: "x \<noteq> null" "x \<notin> set xs" and r: "r \<in> set xs"
  shows "\<exists>h' p'. eina_inlist_append_relative h p x r = Some (h', p')
    \<and> inlist h' p' (insert_after r x xs) \<and> same_outside (insert x (set xs)) h h'"
proof -
  from r obtain as bs where xs: "xs = as @ r # bs" by (meson split_list)
  from i have "distinct xs" by (simp add: inlist_def)
  with xs have d: "r \<notin> set as" "r \<notin> set bs" "distinct as" "distinct bs" "set as \<inter> set bs = {}" by auto
  have p: "p \<noteq> null" "p = hd xs" "p \<in> set xs" "r \<noteq> null"
    using i r inlist_head [OF i] inlist_nonnull [OF i r] by (cases xs; auto)+
  have px: "p \<noteq> x" using p x by auto
  show ?thesis
  proof (cases bs)
    case Nil
    with i x p px d xs show ?thesis
      by (auto simp: eina_inlist_append_relative_def inlist_def seg_append insert_after_split Let_def)
  next
    case (Cons b bs')
    with i x p px d xs have b: "il_next (h r) = b" "b \<noteq> null"
      by (auto simp: inlist_def seg_append)
    from Cons i x p px d xs b show ?thesis
      by (auto simp: eina_inlist_append_relative_def inlist_def seg_append insert_after_split Let_def)
  qed
qed

lemma prepend_relative_refines:
  assumes i: "inlist h p xs" and x: "x \<noteq> null" "x \<notin> set xs" and r: "r \<in> set xs"
  shows "\<exists>h' p'. eina_inlist_prepend_relative h p x r = Some (h', p')
    \<and> inlist h' p' (insert_before r x xs) \<and> same_outside (insert x (set xs)) h h'"
proof -
  from r obtain as bs where xs: "xs = as @ r # bs" by (meson split_list)
  from i have "distinct xs" by (simp add: inlist_def)
  with xs have d: "r \<notin> set as" "r \<notin> set bs" "distinct as" "distinct bs" "set as \<inter> set bs = {}" by auto
  have p: "p \<noteq> null" "p = hd xs" "p \<in> set xs" "r \<noteq> null"
    using i r inlist_head [OF i] inlist_nonnull [OF i r] by (cases xs; auto)+
  have px: "p \<noteq> x" using p x by auto
  show ?thesis
  proof (cases as rule: rev_cases)
    case Nil
    with xs have "insert_before r x xs = x # r # bs" by simp
    with i x p px d xs Nil show ?thesis
      by (auto simp: eina_inlist_prepend_relative_def inlist_def Let_def)
  next
    case (snoc as' a)
    with i x p px d xs have a: "il_prev (h r) = a" "a \<noteq> null"
      by (auto simp: inlist_def seg_append)
    have ib: "insert_before r x xs = as' @ a # x # r # bs"
      using insert_before_split [of r as x bs] xs snoc d by simp
    from snoc i x p px d xs a show ?thesis
      unfolding ib by (auto simp: eina_inlist_prepend_relative_def inlist_def seg_append Let_def)
  qed
qed

section \<open>Removal and moves\<close>

lemma remove1_split: "x \<notin> set as \<Longrightarrow> remove1 x (as @ x # bs) = as @ bs"
  by (induction as) auto

lemma remove_refines:
  assumes i: "inlist h p xs" and x: "x \<in> set xs"
  shows "\<exists>h' p'. eina_inlist_remove h p x = Some (h', p') \<and> inlist h' p' (remove1 x xs)
    \<and> same_outside (set xs) h h'"
proof -
  from x obtain as bs where xs: "xs = as @ x # bs" by (meson split_list)
  from i have "distinct xs" by (simp add: inlist_def)
  with xs have d: "x \<notin> set as" "x \<notin> set bs" "distinct as" "distinct bs" "set as \<inter> set bs = {}" by auto
  have r: "remove1 x xs = as @ bs" using d unfolding xs by (rule_tac remove1_split)
  have p: "p \<noteq> null" "p = hd xs" "p \<in> set xs" "x \<noteq> null"
    using i x inlist_head [OF i] inlist_nonnull [OF i x] by (cases xs; auto)+
  show ?thesis
  proof (cases as rule: rev_cases)
    case Nil
    show ?thesis unfolding r
      using Nil i p d xs by (cases bs) (auto simp: eina_inlist_remove_def inlist_def Let_def)
  next
    case (snoc as' a)
    have ax: "il_prev (h x) = a" "a \<noteq> null" "p \<noteq> x"
      using i p d snoc xs by (cases as'; auto simp: inlist_def seg_append)+
    show ?thesis
    proof (cases bs)
      case Nil
      show ?thesis unfolding r
        using Nil snoc i p d xs ax by (auto simp: eina_inlist_remove_def inlist_def seg_append Let_def)
    next
      case (Cons b bs')
      have b: "il_next (h x) = b" "b \<noteq> null" "il_last (h p) \<noteq> x"
        using i d Cons xs by (auto simp: inlist_def seg_append)
      show ?thesis unfolding r
        using Cons snoc i p d xs ax b by (auto simp: eina_inlist_remove_def inlist_def seg_append Let_def)
    qed
  qed
qed

lemma promote_refines:
  assumes i: "inlist h p xs" and x: "x \<in> set xs"
  shows "\<exists>h' p'. eina_inlist_promote h p x = Some (h', p') \<and> inlist h' p' (x # remove1 x xs)
    \<and> same_outside (set xs) h h'"
proof -
  from x obtain as bs where xs: "xs = as @ x # bs" by (meson split_list)
  from i have "distinct xs" by (simp add: inlist_def)
  with xs have d: "x \<notin> set as" "x \<notin> set bs" "distinct as" "distinct bs" "set as \<inter> set bs = {}" by auto
  have r: "remove1 x xs = as @ bs" using d unfolding xs by (rule_tac remove1_split)
  have p: "p \<noteq> null" "p = hd xs" "p \<in> set xs" "x \<noteq> null"
    using i x inlist_head [OF i] inlist_nonnull [OF i x] by (cases xs; auto)+
  show ?thesis
  proof (cases as rule: rev_cases)
    case Nil
    show ?thesis unfolding r using Nil i p xs by (auto simp: eina_inlist_promote_def)
  next
    case (snoc as' a)
    have ax: "il_prev (h x) = a" "a \<noteq> null" "p \<noteq> x"
      using i p d snoc xs by (cases as'; auto simp: inlist_def seg_append)+
    show ?thesis
    proof (cases bs)
      case Nil
      show ?thesis unfolding r
        using Nil snoc i p d xs ax
        by (cases as') (auto simp: eina_inlist_promote_def inlist_def seg_append Let_def)
    next
      case (Cons b bs')
      have b: "il_next (h x) = b" "b \<noteq> null" "il_last (h p) \<noteq> x"
        using i d Cons xs by (auto simp: inlist_def seg_append)
      show ?thesis unfolding r
        using Cons snoc i p d xs ax b
        by (cases as') (auto simp: eina_inlist_promote_def inlist_def seg_append Let_def)
    qed
  qed
qed

lemma demote_refines:
  assumes i: "inlist h p xs" and x: "x \<in> set xs"
  shows "\<exists>h' p'. eina_inlist_demote h p x = Some (h', p') \<and> inlist h' p' (remove1 x xs @ [x])
    \<and> same_outside (set xs) h h'"
proof -
  from x obtain as bs where xs: "xs = as @ x # bs" by (meson split_list)
  from i have "distinct xs" by (simp add: inlist_def)
  with xs have d: "x \<notin> set as" "x \<notin> set bs" "distinct as" "distinct bs" "set as \<inter> set bs = {}" by auto
  have r: "remove1 x xs = as @ bs" using d unfolding xs by (rule_tac remove1_split)
  have p: "p \<noteq> null" "p = hd xs" "p \<in> set xs" "x \<noteq> null"
    using i x inlist_head [OF i] inlist_nonnull [OF i x] by (cases xs; auto)+
  show ?thesis
  proof (cases bs rule: rev_cases)
    case Nil
    show ?thesis unfolding r using Nil i p xs by (auto simp: eina_inlist_demote_def inlist_def)
  next
    case (snoc bs' l)
    have l: "il_last (h p) = l" "l \<noteq> null" "l \<noteq> x"
      using i d snoc xs inlist_nonnull [OF i, of l] by (auto simp: inlist_def)
    have "bs \<noteq> []" using snoc by simp
    then obtain b bs'' where b: "bs = b # bs''" by (cases bs) auto
    have bx: "il_next (h x) = b" "b \<noteq> null" using i b xs by (auto simp: inlist_def seg_append)
    show ?thesis
    proof (cases as rule: rev_cases)
      case Nil
      show ?thesis unfolding r
        using Nil snoc b i p d xs l bx
        by (cases bs') (auto simp: eina_inlist_demote_def inlist_def seg_append Let_def)
    next
      case (snoc as' a)
      have ax: "il_prev (h x) = a" "a \<noteq> null" "p \<noteq> x"
        using i p d snoc xs by (cases as'; auto simp: inlist_def seg_append)+
      show ?thesis unfolding r
        using snoc \<open>bs = bs' @ [l]\<close> b i p d xs l bx ax
        by (cases bs') (auto simp: eina_inlist_demote_def inlist_def seg_append Let_def)
    qed
  qed
qed

section \<open>Walks\<close>

lemma last_walk: "seg h a p xs l null \<Longrightarrow> xs \<noteq> [] \<Longrightarrow> inlist_last_walk h p = Some (last xs)"
proof (induction xs arbitrary: a p)
  case (Cons x xs)
  then show ?case
    by (cases xs) (auto simp: inlist_last_walk.simps [of h x])
qed simp

lemma first_walk:
  "seg h a p (xs @ [x]) x n \<Longrightarrow> a = null \<Longrightarrow> inlist_first_walk h x = Some p"
proof (induction xs arbitrary: x n rule: rev_induct)
  case Nil
  then show ?case by (simp add: inlist_first_walk.simps)
next
  case (snoc y ys)
  from snoc.prems have "seg h a p (ys @ [y]) y x" "il_prev (h x) = y" "y \<noteq> null"
    by (auto simp: seg_append)
  with snoc show ?case by (simp add: inlist_first_walk.simps [of h x])
qed

lemma eina_inlist_last_refines:
  "inlist h p xs \<Longrightarrow> eina_inlist_last h p = Some (if xs = [] then null else last xs)"
  using inlist_head [of h p xs] last_walk [of h null p xs]
  by (auto simp: eina_inlist_last_def inlist_def)

lemma eina_inlist_first_refines:
  assumes "inlist h p xs" "x \<in> set xs"
  shows "eina_inlist_first h x = Some p"
proof -
  from assms(2) obtain as bs where xs: "xs = as @ x # bs" by (meson split_list)
  with assms have "seg h null p (as @ [x]) x (il_next (h x))"
    by (auto simp: inlist_def seg_append)
  from first_walk [OF this] show ?thesis
    using assms by (auto simp: eina_inlist_first_def inlist_nonnull)
qed

text \<open>One step of each walk; the equations of the loops themselves would unfold for ever.\<close>

lemma find_walk_step:
  "inlist_find_walk h null x = Some null"
  "l \<noteq> null \<Longrightarrow> inlist_find_walk h l x =
     (if l = x then Some x else inlist_find_walk h (il_next (h l)) x)"
  by (subst inlist_find_walk.simps; simp)+

lemma count_walk_step:
  "inlist_count_walk h null i = Some i"
  "l \<noteq> null \<Longrightarrow> inlist_count_walk h l i = inlist_count_walk h (il_next (h l)) (i + 1)"
  by (subst inlist_count_walk.simps; simp)+

lemma find_walk:
  "seg h a p xs l null \<Longrightarrow> x \<noteq> null \<Longrightarrow> inlist_find_walk h p x = Some (if x \<in> set xs then x else null)"
  by (induction xs arbitrary: a p) (auto simp: find_walk_step)

lemma eina_inlist_find_refines:
  "inlist h p xs \<Longrightarrow> eina_inlist_find h p x = Some (if x \<in> set xs then x else null)"
  using find_walk [of h null p xs] by (auto simp: eina_inlist_find_def inlist_def)

lemma count_walk: "seg h a p xs l null \<Longrightarrow> inlist_count_walk h p i = Some (i + of_nat (length xs))"
  by (induction xs arbitrary: a p i) (auto simp: count_walk_step algebra_simps)

lemma eina_inlist_count_refines: "inlist h p xs \<Longrightarrow> eina_inlist_count h p = Some (of_nat (length xs))"
  using count_walk [of h null p xs _ 0] by (auto simp: eina_inlist_count_def inlist_def)

text \<open>The loop of a client over an iterator.\<close>

partial_function (option) inlist_foreach :: "inheap \<Rightarrow> iterator_inlist \<Rightarrow> nat list option" where
  "inlist_foreach h it =
     (case eina_inlist_iterator_next h it of
        None \<Rightarrow> Some []
      | Some (data, it) \<Rightarrow> do { xs \<leftarrow> inlist_foreach h it; Some (data # xs) })"

declare inlist_foreach.simps [code]

lemma foreach_step:
  "inlist_foreach h \<lparr>it_head = q, it_current = null\<rparr> = Some []"
  "p \<noteq> null \<Longrightarrow> inlist_foreach h \<lparr>it_head = q, it_current = p\<rparr> =
     do { xs \<leftarrow> inlist_foreach h \<lparr>it_head = q, it_current = il_next (h p)\<rparr>; Some (p # xs) }"
  by (subst inlist_foreach.simps; simp add: eina_inlist_iterator_next_def)+

lemma foreach_seg: "seg h a p xs l null \<Longrightarrow> inlist_foreach h \<lparr>it_head = q, it_current = p\<rparr> = Some xs"
  by (induction xs arbitrary: a p) (auto simp: foreach_step)

lemma iterator_refines: "inlist h p xs \<Longrightarrow> inlist_foreach h (eina_inlist_iterator_new p) = Some xs"
  using foreach_seg by (auto simp: inlist_def eina_inlist_iterator_new_def)

section \<open>Accessors\<close>

definition at_pos :: "nat list \<Rightarrow> nat \<Rightarrow> nat" where
  "at_pos xs i = (if i < length xs then xs ! i else null)"

lemma seg_nth:
  "seg h a p xs l n \<Longrightarrow> i < length xs \<Longrightarrow>
     il_next (h (xs ! i)) = (if Suc i < length xs then xs ! Suc i else n)
     \<and> il_prev (h (xs ! i)) = (if i = 0 then a else xs ! (i - 1))"
proof (induction xs arbitrary: a p i)
  case (Cons x xs)
  then show ?case
    by (cases i; cases xs) (auto simp: nth_Cons')
qed simp

lemma inlist_next: "inlist h p xs \<Longrightarrow> i < length xs \<Longrightarrow> il_next (h (xs ! i)) = at_pos xs (Suc i)"
  using seg_nth [of h null p xs] by (auto simp: inlist_def at_pos_def)

lemma inlist_prev: "inlist h p xs \<Longrightarrow> Suc i < length xs \<Longrightarrow> il_prev (h (xs ! Suc i)) = xs ! i"
  using seg_nth [of h null p xs _ _ "Suc i"] by (auto simp: inlist_def)

lemma inlist_start: "inlist h p xs \<Longrightarrow> p = at_pos xs 0"
  using inlist_head [of h p xs] by (cases xs) (auto simp: at_pos_def)

lemma at_pos_null: "inlist h p xs \<Longrightarrow> at_pos xs i = null \<longleftrightarrow> length xs \<le> i"
  using inlist_nonnull [of h p xs "xs ! i"] by (auto simp: at_pos_def simp del: not_gr_zero)

lemma forward_at:
  "inlist h p xs \<Longrightarrow> i \<le> idx \<Longrightarrow> over = at_pos xs (unat i) \<Longrightarrow>
     accessor_forward h i idx over = at_pos xs (unat idx)"
proof (induction h i idx over rule: accessor_forward.induct)
  case (1 h i idx over)
  show ?case
  proof (cases "i < idx \<and> over \<noteq> null")
    case True
    then have l: "unat i < length xs" using 1 at_pos_null [of h p xs] by auto
    have s: "unat (i + 1) = Suc (unat i)" using True unat_inc_below by blast
    have "accessor_forward h (i + 1) idx (il_next (h over)) = at_pos xs (unat idx)"
      using 1 True l s inlist_next [of h p xs "unat i"] by (auto simp: at_pos_def inc_le)
    with True show ?thesis by (simp add: accessor_forward.simps [of h i])
  next
    case False
    then have "i = idx \<or> length xs \<le> unat i \<and> i < idx"
      using 1 at_pos_null [of h p xs "unat i"] by auto
    then have "over = at_pos xs (unat idx)"
      using 1 by (auto simp: at_pos_def word_less_nat_alt)
    with False show ?thesis by (subst accessor_forward.simps) auto
  qed
qed

lemma backward_at:
  "inlist h p xs \<Longrightarrow> idx \<le> i \<Longrightarrow> unat i < length xs \<Longrightarrow> over = at_pos xs (unat i) \<Longrightarrow>
     accessor_backward h i idx over = at_pos xs (unat idx)"
proof (induction h i idx over rule: accessor_backward.induct)
  case (1 h i idx over)
  show ?case
  proof (cases "idx < i")
    case True
    then have "i \<noteq> 0" by auto
    then obtain k where k: "unat i = Suc k" "unat (i - 1) = k"
      by (metis Suc_pred unat_gt_0 unat_minus_one diff_Suc_1)
    have o: "over \<noteq> null" using 1 at_pos_null [of h p xs] by auto
    have "idx \<le> i - 1" using True k by (simp add: word_le_nat_alt word_less_nat_alt)
    then have "accessor_backward h (i - 1) idx (il_prev (h over)) = at_pos xs (unat idx)"
      using 1 True k o inlist_prev [of h p xs k] by (auto simp: at_pos_def)
    with True o show ?thesis by (simp add: accessor_backward.simps [of h i])
  next
    case False
    then have "idx = i" using 1 by auto
    with 1 False show ?thesis by (simp add: accessor_backward.simps [of h i])
  qed
qed

definition accessor_ok :: "inheap \<Rightarrow> nat \<Rightarrow> nat list \<Rightarrow> accessor_inlist \<Rightarrow> bool" where
  "accessor_ok h p xs ac \<longleftrightarrow>
     ac_head ac = p \<and> ac_current ac = at_pos xs (unat (ac_index ac))
     \<and> (unat (ac_index ac) < length xs \<or> ac_index ac = 0)"

lemma accessor_new_ok: "inlist h p xs \<Longrightarrow> accessor_ok h p xs (eina_inlist_accessor_new p)"
  by (simp add: accessor_ok_def eina_inlist_accessor_new_def inlist_start)

lemma accessor_get_at:
  assumes i: "inlist h p xs" and ok: "accessor_ok h p xs ac"
  shows "eina_inlist_accessor_get_at h ac idx =
    (if unat idx < length xs
     then Some (xs ! unat idx, ac\<lparr>ac_current := xs ! unat idx, ac_index := idx\<rparr>) else None)"
proof -
  let ?over = "if ac_index ac = idx then ac_current ac
    else if ac_index ac < idx then accessor_forward h (ac_index ac) idx (ac_current ac)
    else if drop_bit 1 (ac_index ac) < idx then accessor_backward h (ac_index ac) idx (ac_current ac)
    else accessor_forward h 0 idx (ac_head ac)"
  have "?over = at_pos xs (unat idx)"
    using ok forward_at [OF i, of "ac_index ac" idx] backward_at [OF i, of idx "ac_index ac"]
      forward_at [OF i, of 0 idx] inlist_start [OF i]
    by (auto simp: accessor_ok_def)
  then show ?thesis
    using at_pos_null [OF i, of "unat idx"]
    by (auto simp: eina_inlist_accessor_get_at_def Let_def at_pos_def)
qed

text \<open>A sequence of accesses, the answers in order.\<close>

fun accessor_reads :: "inheap \<Rightarrow> accessor_inlist \<Rightarrow> u32 list \<Rightarrow> nat option list" where
  "accessor_reads h ac [] = []"
| "accessor_reads h ac (i # is) =
     (case eina_inlist_accessor_get_at h ac i of
        None \<Rightarrow> None # accessor_reads h ac is
      | Some (data, ac) \<Rightarrow> Some data # accessor_reads h ac is)"

lemma accessor_reads_ok:
  "inlist h p xs \<Longrightarrow> accessor_ok h p xs ac \<Longrightarrow> accessor_reads h ac is = map (\<lambda>i. nth_opt xs (unat i)) is"
proof (induction "is" arbitrary: ac)
  case (Cons i "is")
  have "accessor_ok h p xs (ac\<lparr>ac_current := xs ! unat i, ac_index := i\<rparr>)" if "unat i < length xs"
    using Cons.prems that by (simp add: accessor_ok_def at_pos_def)
  with Cons show ?case by (auto simp: accessor_get_at [OF Cons.prems] nth_opt_def)
qed simp

text \<open>
  An accessor answers a request for position \<open>i\<close> with the \<open>i\<close>-th node of the list, and with
  failure when there is none, in whatever order the positions are asked for: the walks it takes
  from the node of the last request, forwards or backwards, or from the head, end at the same node.
\<close>

theorem accessor_reads_positions:
  assumes "inlist h p xs"
  shows "accessor_reads h (eina_inlist_accessor_new p) is = map (\<lambda>i. nth_opt xs (unat i)) is"
  by (rule accessor_reads_ok [OF assms accessor_new_ok [OF assms]])

section \<open>Sequences of operations\<close>

datatype inlist_op =
    Append nat
  | Prepend nat
  | Append_relative nat nat
  | Prepend_relative nat nat
  | Remove nat
  | Promote nat
  | Demote nat

fun inlist_step :: "inheap \<times> nat \<Rightarrow> inlist_op \<Rightarrow> (inheap \<times> nat) option" where
  "inlist_step (h, l) (Append x) = eina_inlist_append h l x"
| "inlist_step (h, l) (Prepend x) = eina_inlist_prepend h l x"
| "inlist_step (h, l) (Append_relative x r) = eina_inlist_append_relative h l x r"
| "inlist_step (h, l) (Prepend_relative x r) = eina_inlist_prepend_relative h l x r"
| "inlist_step (h, l) (Remove x) = eina_inlist_remove h l x"
| "inlist_step (h, l) (Promote x) = eina_inlist_promote h l x"
| "inlist_step (h, l) (Demote x) = eina_inlist_demote h l x"

fun inlist_run :: "inheap \<times> nat \<Rightarrow> inlist_op list \<Rightarrow> (inheap \<times> nat) option" where
  "inlist_run s [] = Some s"
| "inlist_run s (c # cs) = do { s \<leftarrow> inlist_step s c; inlist_run s cs }"

fun list_step :: "nat list \<Rightarrow> inlist_op \<Rightarrow> nat list" where
  "list_step xs (Append x) = xs @ [x]"
| "list_step xs (Prepend x) = x # xs"
| "list_step xs (Append_relative x r) = insert_after r x xs"
| "list_step xs (Prepend_relative x r) = insert_before r x xs"
| "list_step xs (Remove x) = remove1 x xs"
| "list_step xs (Promote x) = x # remove1 x xs"
| "list_step xs (Demote x) = remove1 x xs @ [x]"

text \<open>A node is inserted only while it is on no list, and the other arguments are on the list.\<close>

fun op_ok :: "nat list \<Rightarrow> inlist_op \<Rightarrow> bool" where
  "op_ok xs (Append x) = (x \<noteq> null \<and> x \<notin> set xs)"
| "op_ok xs (Prepend x) = (x \<noteq> null \<and> x \<notin> set xs)"
| "op_ok xs (Append_relative x r) = (x \<noteq> null \<and> x \<notin> set xs \<and> r \<in> set xs)"
| "op_ok xs (Prepend_relative x r) = (x \<noteq> null \<and> x \<notin> set xs \<and> r \<in> set xs)"
| "op_ok xs (Remove x) = (x \<in> set xs)"
| "op_ok xs (Promote x) = (x \<in> set xs)"
| "op_ok xs (Demote x) = (x \<in> set xs)"

fun ops_ok :: "nat list \<Rightarrow> inlist_op list \<Rightarrow> bool" where
  "ops_ok xs [] = True"
| "ops_ok xs (c # cs) = (op_ok xs c \<and> ops_ok (list_step xs c) cs)"

fun op_nodes :: "inlist_op \<Rightarrow> nat set" where
  "op_nodes (Append x) = {x}"
| "op_nodes (Prepend x) = {x}"
| "op_nodes (Append_relative x r) = {x, r}"
| "op_nodes (Prepend_relative x r) = {x, r}"
| "op_nodes (Remove x) = {x}"
| "op_nodes (Promote x) = {x}"
| "op_nodes (Demote x) = {x}"

lemma set_insert_after: "set (insert_after r x xs) \<subseteq> insert x (set xs)"
  by (induction xs) auto

lemma set_insert_before: "set (insert_before r x xs) \<subseteq> insert x (set xs)"
  by (induction xs) auto

lemma set_list_step: "op_ok xs c \<Longrightarrow> set (list_step xs c) \<subseteq> set xs \<union> op_nodes c"
  using set_insert_after set_insert_before set_remove1_subset by (cases c) fastforce+

lemma inlist_step_refines:
  assumes "inlist h p xs" "op_ok xs c"
  shows "\<exists>h' p'. inlist_step (h, p) c = Some (h', p') \<and> inlist h' p' (list_step xs c)
    \<and> same_outside (set xs \<union> op_nodes c) h h'"
proof -
  have m: "\<exists>h' p'. E = Some (h', p') \<and> inlist h' p' ys \<and> same_outside T h h'"
    if "\<exists>h' p'. E = Some (h', p') \<and> inlist h' p' ys \<and> same_outside S h h'" "S \<subseteq> T" for E ys S T
    using that same_outside_mono by blast
  show ?thesis
    using assms
    by (cases c) (auto intro!: m [OF append_refines] m [OF prepend_refines]
      m [OF append_relative_refines] m [OF prepend_relative_refines]
      m [OF remove_refines] m [OF promote_refines] m [OF demote_refines])
qed

text \<open>
  C32: Any sequence of insertions (at the ends or next to a node), removals and moves to the front
  or the back of an inlist returns, leaves a well-formed inlist whose nodes are those of the same
  sequence of operations on lists, in the same order, and changes no node that is neither on the
  list nor inserted. The invariant it keeps includes the backward links and the pointer of the
  first node to the last.
\<close>

theorem inlist_refines_lists:
  assumes "inlist h p xs" "ops_ok xs cs"
  shows "\<exists>h' p'. inlist_run (h, p) cs = Some (h', p') \<and> inlist h' p' (foldl list_step xs cs)
    \<and> same_outside (set xs \<union> \<Union> (op_nodes ` set cs)) h h'"
  using assms
proof (induction cs arbitrary: h p xs)
  case (Cons c cs)
  from Cons.prems have "op_ok xs c" by simp
  from inlist_step_refines [OF Cons.prems(1) this] obtain h' p' where
    s: "inlist_step (h, p) c = Some (h', p')" "inlist h' p' (list_step xs c)"
      "same_outside (set xs \<union> op_nodes c) h h'" by blast
  with Cons obtain h'' p'' where
    t: "inlist_run (h', p') cs = Some (h'', p'')" "inlist h'' p'' (foldl list_step (list_step xs c) cs)"
      "same_outside (set (list_step xs c) \<union> \<Union> (op_nodes ` set cs)) h' h''" by fastforce
  have "same_outside (set xs \<union> \<Union> (op_nodes ` set (c # cs))) h h''"
    using same_outside_trans [OF s(3) t(3)] set_list_step [OF \<open>op_ok xs c\<close>]
    by (auto elim!: same_outside_mono)
  with s t show ?case by simp
qed simp

theorem inlist_refines_lists_witness:
  "\<exists>h' p'. inlist_run (\<lambda>q. \<lparr>il_next = 0, il_prev = 0, il_last = 0\<rparr>, null)
      [Append 1, Append 2, Prepend 3, Append_relative 4 1, Promote 2, Remove 1, Demote 2] = Some (h', p')
    \<and> inlist h' p' [3, 4, 2]"
  using inlist_refines_lists [of "\<lambda>q. \<lparr>il_next = 0, il_prev = 0, il_last = 0\<rparr>" null "[]"
    "[Append 1, Append 2, Prepend 3, Append_relative 4 1, Promote 2, Remove 1, Demote 2]"]
  by auto

theorem accessor_reads_positions_witness:
  "accessor_reads (\<lambda>q. if q = 5 then \<lparr>il_next = 7, il_prev = 0, il_last = 7\<rparr>
      else \<lparr>il_next = 0, il_prev = 5, il_last = 0\<rparr>) (eina_inlist_accessor_new 5) [1, 0, 2] = [Some 7, Some 5, None]"
  using accessor_reads_positions [of "\<lambda>q. if q = 5 then \<lparr>il_next = 7, il_prev = 0, il_last = 7\<rparr>
      else \<lparr>il_next = 0, il_prev = 5, il_last = 0\<rparr>" 5 "[5, 7]" "[1, 0, 2]"]
  by (simp add: inlist_def nth_opt_def)

end
