(* ===== verification/Eina_Inlist_Sort.thy ===== *)
theory Eina_Inlist_Sort
  imports Eina_Inlist_List "HOL-Library.Multiset"
begin

text \<open>
  \<^verbatim>\<open>eina_inlist_sort\<close>: the bottom-up merge sort over the array \<^verbatim>\<open>stack\<close> of sorted chains
  returns, stays inside its 32 places and orders the list, later nodes first among equal ones.
\<close>

section \<open>The order the sort establishes\<close>

definition pos :: "'k list \<Rightarrow> 'k \<Rightarrow> nat" where
  "pos xs x = length (takeWhile (\<lambda>y. y \<noteq> x) xs)"

definition later_first :: "('k \<Rightarrow> 'k \<Rightarrow> int) \<Rightarrow> 'k list \<Rightarrow> 'k \<Rightarrow> 'k \<Rightarrow> bool" where
  "later_first func xs x y \<longleftrightarrow> func x y < 0 \<or> (func x y = 0 \<and> pos xs y < pos xs x)"

lemma pos_split: "x \<notin> set as \<Longrightarrow> pos (as @ x # bs) x = length as"
  by (induction as) (auto simp: pos_def)

lemma pos_append: "x \<in> set as \<Longrightarrow> pos (as @ bs) x = pos as x"
  by (induction as) (auto simp: pos_def)

lemma pos_less: "x \<in> set as \<Longrightarrow> pos as x < length as"
  by (induction as) (auto simp: pos_def)

lemma pos_before: "x \<in> set as \<Longrightarrow> y \<notin> set as \<Longrightarrow> pos (as @ bs) x < pos (as @ bs) y"
proof -
  assume x: "x \<in> set as" and y: "y \<notin> set as"
  have "pos (as @ bs) y = length as + pos bs y" using y by (induction as) (auto simp: pos_def)
  then show ?thesis using pos_append [OF x] pos_less [OF x] by simp
qed

fun merge_nodes :: "('k \<Rightarrow> 'k \<Rightarrow> int) \<Rightarrow> 'k list \<Rightarrow> 'k list \<Rightarrow> 'k list" where
  "merge_nodes func [] ys = ys"
| "merge_nodes func (x # xs) [] = x # xs"
| "merge_nodes func (x # xs) (y # ys) =
     (if func x y < 0 then x # merge_nodes func xs (y # ys) else y # merge_nodes func (x # xs) ys)"

lemma merge_nodes_Nil [simp]: "merge_nodes func xs [] = xs"
  by (cases xs) auto

lemma mset_merge_nodes [simp]: "mset (merge_nodes func xs ys) = mset xs + mset ys"
  by (induction func xs ys rule: merge_nodes.induct) auto

lemma set_merge_nodes [simp]: "set (merge_nodes func xs ys) = set xs \<union> set ys"
  by (simp flip: set_mset_mset)

lemma merge_nodes_empty [simp]: "merge_nodes func xs ys = [] \<longleftrightarrow> xs = [] \<and> ys = []"
  by (metis Un_empty set_empty set_merge_nodes)

lemma merge_nodes_sorted:
  assumes "\<And>x y z. R x y \<Longrightarrow> R y z \<Longrightarrow> R x z"
    and "\<And>x y. x \<in> set b \<Longrightarrow> y \<in> set c \<Longrightarrow> if func x y < 0 then R x y else R y x"
    and "sorted_wrt R b" "sorted_wrt R c"
  shows "sorted_wrt R (merge_nodes func b c)"
  using assms(2-4)
proof (induction func b c rule: merge_nodes.induct)
  case (3 f x b y c)
  then have d: "if f x y < 0 then R x y else R y x" by simp
  show ?case
  proof (cases "f x y < 0")
    case True
    with d 3 have "\<forall>z \<in> set b \<union> set (y # c). R x z" using assms(1) [of x y] by auto
    with 3 True show ?thesis by auto
  next
    case False
    with d 3 have "\<forall>z \<in> set (x # b) \<union> set c. R y z" using assms(1) [of y x] by auto
    with 3 False show ?thesis by auto
  qed
qed auto

definition all_before :: "'k list \<Rightarrow> 'k list \<Rightarrow> 'k list \<Rightarrow> bool" where
  "all_before xs b c \<longleftrightarrow> (\<forall>x \<in> set b. \<forall>y \<in> set c. pos xs x < pos xs y)"

context cmp_preorder
begin

lemma later_first_trans:
  "later_first cmp xs x y \<Longrightarrow> later_first cmp xs y z \<Longrightarrow> later_first cmp xs x z"
  using cmp_less_le_trans [of x y z] cmp_le_less_trans [of x y z] cmp_eq_trans [of x y z]
  by (auto simp: later_first_def)

lemma later_first_before:
  assumes "pos xs x < pos xs y"
  shows "if cmp x y < 0 then later_first cmp xs x y else later_first cmp xs y x"
  using assms cmp_flip [of x y] cmp_flip [of y x] by (auto simp: later_first_def)

lemma sorted_merge:
  assumes "sorted_wrt (later_first cmp xs) b" "sorted_wrt (later_first cmp xs) c" "all_before xs b c"
  shows "sorted_wrt (later_first cmp xs) (merge_nodes cmp b c)"
proof (rule merge_nodes_sorted [OF _ _ assms(1,2)])
  show "if cmp x y < 0 then later_first cmp xs x y else later_first cmp xs y x" if "x \<in> set b" "y \<in> set c" for x y
    using that assms(3) by (intro later_first_before) (simp add: all_before_def)
qed (rule later_first_trans)

end

section \<open>Chains\<close>

text \<open>While the sort runs only the forward links count.\<close>

fun chain :: "inheap \<Rightarrow> nat \<Rightarrow> nat list \<Rightarrow> bool" where
  "chain h p [] = (p = null)"
| "chain h p (x # xs) = (p = x \<and> x \<noteq> null \<and> chain h (il_next (h x)) xs)"

lemma chain_cong: "\<forall>x \<in> set xs. il_next (h' x) = il_next (h x) \<Longrightarrow> chain h' p xs = chain h p xs"
  by (induction xs arbitrary: p) auto

lemma chain_set [simp]:
  "q \<notin> set xs \<Longrightarrow> chain (set_next h q v) p xs = chain h p xs"
  "chain (set_prev h q v) p xs = chain h p xs"
  by (rule chain_cong; auto)+

lemma chain_outside: "same_outside S h h' \<Longrightarrow> S \<inter> set xs = {} \<Longrightarrow> chain h' p xs = chain h p xs"
  by (rule chain_cong) (auto simp: same_outside_def)

lemma seg_chain: "seg h a p xs l null \<Longrightarrow> chain h p xs"
  by (induction xs arbitrary: a p) auto

lemma chain_head: "chain h p xs \<Longrightarrow> xs \<noteq> [] \<Longrightarrow> p = hd xs \<and> p \<noteq> null"
  by (cases xs) auto

lemma chain_null [simp]: "chain h null xs \<longleftrightarrow> xs = []"
  by (cases xs) auto

lemma sort_merge_loop_step:
  "sort_merge_loop func h null b l = Some (set_next h l b)"
  "sort_merge_loop func h a null l = Some (set_next h l a)"
  "a \<noteq> null \<Longrightarrow> b \<noteq> null \<Longrightarrow> sort_merge_loop func h a b l =
     (if func a b < 0 then sort_merge_loop func (set_next h l a) (il_next (set_next h l a a)) b a
      else sort_merge_loop func (set_next h l b) a (il_next (set_next h l b b)) b)"
  by (subst sort_merge_loop.simps; simp add: Let_def)+

lemma sort_merge_loop_merges:
  assumes "chain h a xs" "chain h b ys" "distinct (xs @ ys)" "l \<notin> set (xs @ ys)"
  shows "\<exists>h'. sort_merge_loop func h a b l = Some h' \<and> chain h' (il_next (h' l)) (merge_nodes func xs ys)
    \<and> same_outside (insert l (set (xs @ ys))) h h'"
  using assms
proof (induction func xs ys arbitrary: h a b l rule: merge_nodes.induct)
  case (3 func x xs y ys)
  have ab: "a = x" "b = y" "x \<noteq> null" "y \<noteq> null" "x \<noteq> y" "x \<noteq> l" "y \<noteq> l" using 3 by auto
  show ?case
  proof (cases "func x y < 0")
    case True
    let ?h = "set_next h l x"
    have "\<exists>h'. sort_merge_loop func ?h (il_next (?h x)) b x = Some h'
        \<and> chain h' (il_next (h' x)) (merge_nodes func xs (y # ys))
        \<and> same_outside (insert x (set (xs @ y # ys))) ?h h'"
      using "3.prems" ab by (intro "3.IH"(1) [OF True]) auto
    then obtain h' where h': "sort_merge_loop func ?h (il_next (?h x)) b x = Some h'"
      "chain h' (il_next (h' x)) (merge_nodes func xs (y # ys))"
      "same_outside (insert x (set (xs @ y # ys))) ?h h'" by blast
    have "h' l = ?h l" using h'(3) "3.prems"(4) by (simp add: same_outside_def)
    moreover have "same_outside (insert l (set (x # xs @ y # ys))) h h'"
      using h'(3) by (auto simp: same_outside_def)
    ultimately show ?thesis using h' ab True by (auto simp: sort_merge_loop_step)
  next
    case False
    let ?h = "set_next h l y"
    have "\<exists>h'. sort_merge_loop func ?h a (il_next (?h y)) y = Some h'
        \<and> chain h' (il_next (h' y)) (merge_nodes func (x # xs) ys)
        \<and> same_outside (insert y (set ((x # xs) @ ys))) ?h h'"
      using "3.prems" ab by (intro "3.IH"(2) [OF False]) auto
    then obtain h' where h': "sort_merge_loop func ?h a (il_next (?h y)) y = Some h'"
      "chain h' (il_next (h' y)) (merge_nodes func (x # xs) ys)"
      "same_outside (insert y (set ((x # xs) @ ys))) ?h h'" by blast
    have "h' l = ?h l" using h'(3) "3.prems"(4) by (simp add: same_outside_def)
    moreover have "same_outside (insert l (set (x # xs @ y # ys))) h h'"
      using h'(3) by (auto simp: same_outside_def)
    ultimately show ?thesis using h' ab False by (auto simp: sort_merge_loop_step)
  qed
qed (auto simp: sort_merge_loop_step)

lemma sort_merge_merges:
  assumes "chain h a xs" "chain h b ys" "distinct (xs @ ys)" "xs \<noteq> []" "ys \<noteq> []"
  shows "\<exists>h' m. eina_inlist_sort_merge func h a b = Some (h', m) \<and> chain h' m (merge_nodes func xs ys)
    \<and> same_outside (set (xs @ ys)) h h'"
proof -
  obtain x xs' y ys' where xy: "xs = x # xs'" "ys = y # ys'" using assms by (meson list.exhaust)
  show ?thesis
  proof (cases "func x y < 0")
    case True
    then show ?thesis
      using sort_merge_loop_merges [of h "il_next (h x)" xs' b ys x func] assms xy
      by (auto simp: eina_inlist_sort_merge_def)
  next
    case False
    then show ?thesis
      using sort_merge_loop_merges [of h a xs "il_next (h y)" ys' y func] assms xy
      by (auto simp: eina_inlist_sort_merge_def insert_commute)
  qed
qed

section \<open>Previous links\<close>

lemma rebuild_prev_step:
  "sort_rebuild_prev_loop h null q = Some (h, q)"
  "p \<noteq> null \<Longrightarrow> sort_rebuild_prev_loop h p q = sort_rebuild_prev_loop (set_prev h p q) (il_next (h p)) p"
  by (subst sort_rebuild_prev_loop.simps; simp add: Let_def)+

lemma rebuild_prev_links:
  "chain h p xs \<Longrightarrow> distinct xs \<Longrightarrow>
    \<exists>h'. sort_rebuild_prev_loop h p q = Some (h', last (q # xs)) \<and> seg h' q p xs (last (q # xs)) null
      \<and> same_outside (set xs) h h'"
proof (induction xs arbitrary: h p q)
  case (Cons x xs)
  let ?h = "set_prev h x q"
  have "chain ?h (il_next (h x)) xs" "distinct xs" using Cons.prems by auto
  from Cons.IH [OF this, of x] obtain h' where
    h': "sort_rebuild_prev_loop ?h (il_next (h x)) x = Some (h', last (x # xs))"
      "seg h' x (il_next (h x)) xs (last (x # xs)) null" "same_outside (set xs) ?h h'" by blast
  have "h' x = ?h x" using h'(3) Cons.prems by (simp add: same_outside_def)
  moreover have "same_outside (set (x # xs)) h h'" using h'(3) by (auto simp: same_outside_def)
  ultimately show ?case using h' Cons.prems by (auto simp: rebuild_prev_step)
qed (simp add: rebuild_prev_step)

section \<open>The stack of chains\<close>

definition stack_ok :: "compare_cb \<Rightarrow> nat list \<Rightarrow> inheap \<Rightarrow> nat list \<Rightarrow> nat list list \<Rightarrow> bool" where
  "stack_ok func xs h stack bs \<longleftrightarrow>
     length bs \<le> length stack \<and> (\<forall>k < length bs. chain h (stack ! k) (bs ! k))
     \<and> distinct (concat bs) \<and> [] \<notin> set bs
     \<and> (\<forall>b \<in> set bs. sorted_wrt (later_first func xs) b) \<and> sorted_wrt (all_before xs) bs"

lemma stack_ok_push:
  assumes "stack_ok func xs h stack bs" "length bs < length stack" "chain h p b" "b \<noteq> []" "distinct b"
    and "sorted_wrt (later_first func xs) b" "set (concat bs) \<inter> set b = {}" "all_before xs (concat bs) b"
  shows "stack_ok func xs h (stack[length bs := p]) (bs @ [b])"
  using assms by (auto simp: stack_ok_def nth_append less_Suc_eq sorted_wrt_append all_before_def)

lemma stack_ok_outside:
  assumes "stack_ok func xs h stack bs" "same_outside S h h'" "S \<inter> set (concat bs) = {}"
  shows "stack_ok func xs h' stack bs"
proof -
  have "chain h' (stack ! k) (bs ! k)" if "k < length bs" for k
  proof -
    have "bs ! k \<in> set bs" using that by simp
    then have "S \<inter> set (bs ! k) = {}" using assms(3) by auto
    with assms that show ?thesis by (simp add: chain_outside stack_ok_def)
  qed
  with assms show ?thesis by (simp add: stack_ok_def)
qed

lemma stack_ok_pop:
  assumes "stack_ok func xs h stack (bs @ cs)"
  shows "stack_ok func xs h stack bs"
proof -
  have "chain h (stack ! k) (bs ! k)" if "k < length bs" for k
    using assms that unfolding stack_ok_def by (metis length_append nth_append trans_less_add1)
  with assms show ?thesis by (auto simp: stack_ok_def sorted_wrt_append)
qed

lemma stack_ok_merge:
  assumes f: "cmp_preorder func" and ok: "stack_ok func xs h stack (bs @ [b, c])"
  shows "\<exists>h' m. eina_inlist_sort_merge func h (stack ! length bs) (stack ! Suc (length bs)) = Some (h', m)
    \<and> stack_ok func xs h' (stack[length bs := m]) (bs @ [merge_nodes func b c])
    \<and> same_outside (set (concat (bs @ [b, c]))) h h'"
proof -
  have c: "chain h (stack ! length bs) b" "chain h (stack ! Suc (length bs)) c"
    using ok by (auto simp: stack_ok_def nth_append dest: spec [of _ "length bs"] spec [of _ "Suc (length bs)"])
  have d: "distinct (b @ c)" "b \<noteq> []" "c \<noteq> []" "set (concat bs) \<inter> set (b @ c) = {}"
    "length bs < length stack" using ok by (auto simp: stack_ok_def)
  obtain h' m where m: "eina_inlist_sort_merge func h (stack ! length bs) (stack ! Suc (length bs)) = Some (h', m)"
    "chain h' m (merge_nodes func b c)" "same_outside (set (b @ c)) h h'"
    using sort_merge_merges [OF c d(1-3)] by blast
  have "stack_ok func xs h' stack bs"
    using stack_ok_outside [OF stack_ok_pop [OF ok] m(3)] d(4) by blast
  moreover have "sorted_wrt (later_first func xs) (merge_nodes func b c)"
    using ok by (intro cmp_preorder.sorted_merge [OF f]) (auto simp: stack_ok_def sorted_wrt_append)
  moreover have "distinct (merge_nodes func b c)"
    using d(1) by (metis mset_append mset_eq_imp_distinct_iff mset_merge_nodes)
  moreover have "all_before xs (concat bs) (merge_nodes func b c)"
    using ok by (auto simp: stack_ok_def sorted_wrt_append all_before_def)
  ultimately have "stack_ok func xs h' (stack[length bs := m]) (bs @ [merge_nodes func b c])"
    using d m(2) by (intro stack_ok_push) auto
  moreover have "same_outside (set (concat (bs @ [b, c]))) h h'"
    using m(3) by (rule same_outside_mono) auto
  ultimately show ?thesis using m(1) by blast
qed

section \<open>The number of chains: a binary counter\<close>

fun popcount :: "nat \<Rightarrow> nat" where
  "popcount n = (if n = 0 then 0 else n mod 2 + popcount (n div 2))"

declare popcount.simps [simp del]

lemma popcount_rec [simp]:
  "popcount 0 = 0"
  "popcount (2 * n) = popcount n"
  "popcount (Suc (2 * n)) = Suc (popcount n)"
  by (subst popcount.simps; simp; fail | simp add: popcount.simps [of "2 * n"] popcount.simps [of "Suc (2 * n)"])+

lemma popcount_Suc [simp]: "popcount (Suc 0) = 1" "popcount (Suc (Suc (2 * n))) = popcount (Suc n)"
  using popcount_rec(3) [of 0] popcount_rec(2) [of "Suc n"] by simp_all

lemma and_double:
  "(2 * m) AND Suc (2 * n) = 2 * (m AND n)" "Suc (2 * m) AND (2 * n) = 2 * (m AND n)" for m n :: nat
  by (simp_all add: and_nat_unfold [of "2 * m"] and_nat_unfold [of "Suc (2 * m)"])

lemma xor_double:
  "Suc (2 * m) XOR (2 * n) = Suc (2 * (m XOR n))" "(2 * m) XOR Suc (2 * n) = Suc (2 * (m XOR n))" for m n :: nat
  by (simp_all add: xor_nat_unfold [of "2 * m"] xor_nat_unfold [of "Suc (2 * m)"])

lemma popcount_clear: "popcount (m AND (m - 1)) = popcount m - 1"
proof (induction m rule: less_induct)
  case (less m)
  consider "m = 0" | u where "m = 2 * Suc u" | u where "m = Suc (2 * u)"
    by (metis evenE oddE Suc_eq_plus1 not0_implies_Suc mult_0_right)
  then show ?case
  proof cases
    case 2
    then have "m AND (m - 1) = 2 * (Suc u AND u)" using and_double(1) [of "Suc u" u] by simp
    with less [of "Suc u"] 2 show ?thesis by simp
  next
    case 3
    then show ?thesis using and_double(2) [of u u] by simp
  qed simp
qed

lemma popcount_step: "popcount (Suc t XOR t) + popcount (Suc t) = popcount t + 2"
proof (induction t rule: less_induct)
  case (less t)
  consider u where "t = 2 * u" | u where "t = Suc (2 * u)" by (metis evenE oddE Suc_eq_plus1)
  then show ?case
  proof cases
    case 1
    then show ?thesis using xor_double(1) [of u u] by simp
  next
    case 2
    then have "Suc t = 2 * Suc u" by simp
    with 2 less [of u] show ?thesis using xor_double(2) [of "Suc u" u] by (simp del: mult_Suc_right)
  qed
qed

lemma popcount_bound: "n < 2 ^ k \<Longrightarrow> popcount n \<le> k"
proof (induction k arbitrary: n)
  case (Suc k)
  have "n div 2 < 2 ^ k" using Suc.prems by simp
  from Suc.IH [OF this] show ?case by (cases "n = 0") (auto simp: popcount.simps [of n])
qed simp

lemma popcount_pos: "0 < n \<Longrightarrow> 0 < popcount n"
proof (induction n rule: less_induct)
  case (less n)
  then show ?case by (cases "n mod 2 = 0") (auto simp: popcount.simps [of n])
qed

lemma popcount_word_clear: "popcount (unat (idx AND (idx - 1 :: u32))) = popcount (unat idx) - 1"
  using popcount_clear [of "unat idx"]
  by (cases "idx = 0") (simp_all add: unsigned_and_eq unat_minus_one)

section \<open>The loops of the sort\<close>

lemma stack_merge_step:
  assumes f: "cmp_preorder func" and ok: "stack_ok func xs h stack bs" and "2 \<le> length bs"
  shows "\<exists>h' m bs'. eina_inlist_sort_merge func h (stack ! (length bs - 2)) (stack ! (length bs - 1)) = Some (h', m)
    \<and> stack_ok func xs h' (stack[length bs - 2 := m]) bs' \<and> length bs' = length bs - 1
    \<and> mset (concat bs') = mset (concat bs) \<and> same_outside (set (concat bs)) h h'"
proof -
  obtain cs b c where bs: "bs = cs @ [b, c]"
  proof -
    from assms(3) obtain ds c where "bs = ds @ [c]" by (cases bs rule: rev_cases) auto
    moreover from this assms(3) obtain cs b where "ds = cs @ [b]" by (cases ds rule: rev_cases) auto
    ultimately show thesis using that by simp
  qed
  obtain h' m where m: "eina_inlist_sort_merge func h (stack ! length cs) (stack ! Suc (length cs)) = Some (h', m)"
    "stack_ok func xs h' (stack[length cs := m]) (cs @ [merge_nodes func b c])"
    "same_outside (set (concat bs)) h h'"
    using stack_ok_merge [OF f] ok bs by blast
  then show ?thesis
    unfolding bs by (intro exI [of _ h'] exI [of _ m] exI [of _ "cs @ [merge_nodes func b c]"]) auto
qed

lemma sort_merges_stop: "idx AND (idx - 1) = 0 \<Longrightarrow> sort_merges func h stack i idx = Some (h, stack, i)"
  by (simp add: sort_merges.simps)

lemma sort_merges_ok:
  assumes f: "cmp_preorder func"
  shows "stack_ok func xs h stack bs \<Longrightarrow> popcount (unat idx) \<le> length bs \<Longrightarrow>
    \<exists>h' stack' bs'. sort_merges func h stack (length bs) idx = Some (h', stack', length bs')
      \<and> stack_ok func xs h' stack' bs' \<and> length stack' = length stack
      \<and> length bs' = length bs - (popcount (unat idx) - 1)
      \<and> mset (concat bs') = mset (concat bs) \<and> same_outside (set (concat bs)) h h'"
proof (induction "popcount (unat idx)" arbitrary: h stack bs idx rule: less_induct)
  case less
  let ?idx = "idx AND (idx - 1)"
  show ?case
  proof (cases "?idx = 0")
    case True
    then have "popcount (unat idx) - 1 = 0" using popcount_word_clear [of idx] by simp
    with less.prems show ?thesis
      by (intro exI [of _ h] exI [of _ stack] exI [of _ bs]) (simp add: sort_merges_stop [OF True])
  next
    case False
    then have "0 < popcount (unat ?idx)" by (intro popcount_pos) (simp add: unat_gt_0)
    then have p: "popcount (unat ?idx) < popcount (unat idx)" "2 \<le> length bs"
      using popcount_word_clear [of idx] less.prems by simp_all
    from stack_merge_step [OF f less.prems(1) p(2)] obtain h1 m bs1 where
      s: "eina_inlist_sort_merge func h (stack ! (length bs - 2)) (stack ! (length bs - 1)) = Some (h1, m)"
        "stack_ok func xs h1 (stack[length bs - 2 := m]) bs1" "length bs1 = length bs - 1"
        "mset (concat bs1) = mset (concat bs)" "same_outside (set (concat bs)) h h1" by blast
    have "popcount (unat ?idx) \<le> length bs1" using s(3) less.prems popcount_word_clear [of idx] by simp
    from less.hyps [OF p(1) s(2) this] obtain h' stack' bs' where
      t: "sort_merges func h1 (stack[length bs - 2 := m]) (length bs1) ?idx = Some (h', stack', length bs')"
        "stack_ok func xs h' stack' bs'" "length stack' = length stack"
        "length bs' = length bs1 - (popcount (unat ?idx) - 1)"
        "mset (concat bs') = mset (concat bs1)" "same_outside (set (concat bs1)) h1 h'"
      by auto
    have "set (concat bs1) = set (concat bs)" using s(4) by (rule mset_eq_setD)
    then have "same_outside (set (concat bs)) h h'"
      using same_outside_trans [OF s(5) t(6)] by simp
    moreover have "sort_merges func h stack (length bs) idx = Some (h', stack', length bs')"
      using False p(2) less.prems(1) s(1,3) t(1)
      by (subst sort_merges.simps) (simp add: stack_ok_def)
    moreover have "length bs' = length bs - (popcount (unat idx) - 1)"
      using t(4) s(3) popcount_word_clear [of idx] \<open>0 < popcount (unat ?idx)\<close> by simp
    ultimately show ?thesis using t s(4)
      by (intro exI [of _ h'] exI [of _ stack'] exI [of _ bs']) simp
  qed
qed

lemma sort_loop_step:
  "sort_loop func h stack i n null = Some (h, stack, i)"
  "a \<noteq> null \<Longrightarrow> i < length stack \<Longrightarrow> il_next (h a) = null \<Longrightarrow>
     sort_loop func h stack i n a = Some (h, stack[i := a], i + 1)"
  by (subst sort_loop.simps; simp add: Let_def)+

lemma sort_loop_pair:
  "a \<noteq> null \<Longrightarrow> i < length stack \<Longrightarrow> il_next (h a) = b \<Longrightarrow> b \<noteq> null \<Longrightarrow>
    sort_loop func h stack i n a =
      do { (h, stack, i) \<leftarrow> sort_merges func
             (if func a b < 0 then set_next (set_next h a b) b null else set_next (set_next h b a) a null)
             (stack[i := if func a b < 0 then a else b]) (i + 1) ((n + 1) XOR n);
           sort_loop func h stack i (n + 1) (il_next (h' b)) }"
  if "h' = h" for h'
  using that by (subst sort_loop.simps) (simp add: Let_def)

lemma sort_loop_ok:
  assumes f: "cmp_preorder func"
  shows "stack_ok func xs h stack bs \<Longrightarrow> chain h tail rest \<Longrightarrow> distinct (concat bs @ rest) \<Longrightarrow>
    all_before xs (concat bs) rest \<Longrightarrow> sorted_wrt (\<lambda>x y. pos xs x < pos xs y) rest \<Longrightarrow>
    length bs = popcount (unat n) \<Longrightarrow> length stack = 32 \<Longrightarrow> 2 * unat n + length rest < 2 ^ 32 \<Longrightarrow>
    \<exists>h' stack' bs'. sort_loop func h stack (length bs) n tail = Some (h', stack', length bs')
      \<and> stack_ok func xs h' stack' bs' \<and> mset (concat bs') = mset (concat bs) + mset rest
      \<and> same_outside (set (concat bs @ rest)) h h'"
proof (induction "length rest" arbitrary: h stack bs n tail rest rule: less_induct)
  case less
  have n: "popcount (unat n) \<le> 31" using less.prems(8) by (intro popcount_bound) simp
  then have i: "length bs < length stack" using less.prems(6,7) by simp
  consider "rest = []" | a where "rest = [a]" | a b rest' where "rest = a # b # rest'"
    by (metis list.exhaust)
  then show ?case
  proof cases
    case 1
    with less.prems show ?thesis
      by (intro exI [of _ h] exI [of _ stack] exI [of _ bs]) (auto simp: sort_loop_step)
  next
    case 2
    with less.prems have "stack_ok func xs h (stack[length bs := a]) (bs @ [[a]])"
      by (intro stack_ok_push i) (auto simp: all_before_def)
    with 2 less.prems i show ?thesis
      by (intro exI [of _ h] exI [of _ "stack[length bs := a]"] exI [of _ "bs @ [[a]]"])
        (auto simp: sort_loop_step)
  next
    case 3
    let ?c = "if func a b < 0 then [a, b] else [b, a]"
    let ?h = "if func a b < 0 then set_next (set_next h a b) b null else set_next (set_next h b a) a null"
    let ?stack = "stack[length bs := if func a b < 0 then a else b]"
    have ab: "tail = a" "il_next (h a) = b" "chain h (il_next (h b)) rest'" "a \<noteq> null" "b \<noteq> null" "a \<noteq> b"
      "a \<notin> set rest'" "b \<notin> set rest'" "pos xs a < pos xs b"
      using 3 less.prems by auto
    have o: "same_outside {a, b} h ?h" by (auto simp: same_outside_def)
    have h: "stack_ok func xs ?h stack bs"
      by (rule stack_ok_outside [OF less.prems(1) o]) (use 3 less.prems in auto)
    have s: "sorted_wrt (later_first func xs) ?c"
      using cmp_preorder.later_first_before [OF f ab(9)] by simp
    have ok: "stack_ok func xs ?h ?stack (bs @ [?c])"
      by (rule stack_ok_push [OF h i _ _ _ s]) (use ab 3 less.prems in \<open>auto simp: all_before_def\<close>)
    have "unat n < unat (-1 :: u32)"
      using less.prems(8) by (simp add: unsigned_minus_1_eq_mask mask_eq_exp_minus_1)
    then have nn: "unat (n + 1) = Suc (unat n)" using unat_inc_below [of n "-1"] by (simp add: word_less_nat_alt)
    have x: "unat ((n + 1) XOR n) = Suc (unat n) XOR unat n" by (simp add: unsigned_xor_eq nn)
    have k: "popcount (unat ((n + 1) XOR n)) + popcount (unat (n + 1)) = popcount (unat n) + 2"
      using popcount_step [of "unat n"] by (simp add: x nn)
    moreover have "0 < popcount (unat (n + 1))" by (rule popcount_pos) (simp add: nn)
    moreover have px: "0 < popcount (unat ((n + 1) XOR n))"
    proof (rule popcount_pos)
      have "((n + 1) XOR n) XOR n = n + 1" by (simp add: xor.assoc)
      then have "(n + 1) XOR n \<noteq> 0" by auto
      then show "0 < unat ((n + 1) XOR n)" by (simp add: unat_gt_0)
    qed
    ultimately have "popcount (unat ((n + 1) XOR n)) \<le> length (bs @ [?c])" using less.prems(6) by simp
    from sort_merges_ok [OF f ok this] obtain h1 stack1 bs1 where
      m: "sort_merges func ?h ?stack (length (bs @ [?c])) ((n + 1) XOR n) = Some (h1, stack1, length bs1)"
        "stack_ok func xs h1 stack1 bs1" "length stack1 = length ?stack"
        "length bs1 = length (bs @ [?c]) - (popcount (unat ((n + 1) XOR n)) - 1)"
        "mset (concat bs1) = mset (concat (bs @ [?c]))" "same_outside (set (concat (bs @ [?c]))) ?h h1" by blast
    have s1: "set (concat bs1) = set (concat bs) \<union> {a, b}"
      using mset_eq_setD [OF m(5)] by auto
    have o1: "same_outside (set (concat bs @ rest)) h h1"
      using same_outside_trans [OF o m(6)] by (rule same_outside_mono) (use 3 in auto)
    have o2: "same_outside (set (concat bs1)) h h1"
      using same_outside_trans [OF o m(6)] by (rule same_outside_mono) (use s1 in auto)
    have "\<exists>h' stack' bs'. sort_loop func h1 stack1 (length bs1) (n + 1) (il_next (h b)) = Some (h', stack', length bs')
      \<and> stack_ok func xs h' stack' bs' \<and> mset (concat bs') = mset (concat bs1) + mset rest'
      \<and> same_outside (set (concat bs1 @ rest')) h1 h'"
    proof (rule less.hyps)
      show "chain h1 (il_next (h b)) rest'"
        using chain_outside [OF o2, of rest' "il_next (h b)"] ab(3) s1 ab 3 less.prems by auto
      show "distinct (concat bs1 @ rest')"
        using m(2) s1 ab 3 less.prems by (auto simp: stack_ok_def)
      show "all_before xs (concat bs1) rest'" using s1 3 less.prems by (auto simp: all_before_def)
      show "length bs1 = popcount (unat (n + 1))" using m(4) k px less.prems(6) by simp
    qed (use 3 m less.prems nn in auto)
    then obtain h' stack' bs' where
      r: "sort_loop func h1 stack1 (length bs1) (n + 1) (il_next (h b)) = Some (h', stack', length bs')"
        "stack_ok func xs h' stack' bs'" "mset (concat bs') = mset (concat bs1) + mset rest'"
        "same_outside (set (concat bs1 @ rest')) h1 h'" by blast
    have "sort_loop func h stack (length bs) n tail = Some (h', stack', length bs')"
      using sort_loop_pair [OF refl, of a "length bs" stack h b func n] i ab m(1) r(1) by simp
    moreover have "mset (concat bs') = mset (concat bs) + mset rest" using r(3) m(5) 3 by simp
    moreover have "same_outside (set (concat bs @ rest)) h h'"
      using same_outside_trans [OF o1 r(4)] by (rule same_outside_mono) (use s1 3 in auto)
    ultimately show ?thesis using r(2) by blast
  qed
qed

lemma sort_collapse_ok:
  assumes f: "cmp_preorder func"
  shows "stack_ok func xs h stack bs \<Longrightarrow> bs \<noteq> [] \<Longrightarrow>
    \<exists>h' stack' b. sort_collapse func h stack (length bs) = Some (h', stack') \<and> stack_ok func xs h' stack' [b]
      \<and> mset b = mset (concat bs) \<and> same_outside (set (concat bs)) h h'"
proof (induction "length bs" arbitrary: h stack bs rule: less_induct)
  case less
  show ?case
  proof (cases "2 \<le> length bs")
    case True
    then obtain k where k: "length bs = Suc (Suc k)" by (metis add_2_eq_Suc le_Suc_ex)
    from stack_merge_step [OF f less.prems(1) True] obtain h1 m bs1 where
      s: "eina_inlist_sort_merge func h (stack ! (length bs - 2)) (stack ! (length bs - 1)) = Some (h1, m)"
        "stack_ok func xs h1 (stack[length bs - 2 := m]) bs1" "length bs1 = length bs - 1"
        "mset (concat bs1) = mset (concat bs)" "same_outside (set (concat bs)) h h1" by blast
    have "length bs1 < length bs" "bs1 \<noteq> []" using s(3) True by auto
    from less.hyps [OF this(1) s(2) this(2)] obtain h' stack' b where
      t: "sort_collapse func h1 (stack[length bs - 2 := m]) (length bs1) = Some (h', stack')"
        "stack_ok func xs h' stack' [b]" "mset b = mset (concat bs1)" "same_outside (set (concat bs1)) h1 h'" by blast
    have "set (concat bs1) = set (concat bs)" using s(4) by (rule mset_eq_setD)
    then have "same_outside (set (concat bs)) h h'" using same_outside_trans [OF s(5) t(4)] by simp
    moreover have "sort_collapse func h stack (length bs) = Some (h', stack')"
      using s(1,3) t(1) k by simp
    ultimately show ?thesis using t s by auto
  next
    case False
    with less.prems obtain b where "bs = [b]" by (cases bs; cases "tl bs"; auto)
    with less.prems show ?thesis by auto
  qed
qed

section \<open>The sort\<close>

lemma pos_nth: "distinct xs \<Longrightarrow> i < length xs \<Longrightarrow> pos xs (xs ! i) = i"
proof (induction xs arbitrary: i)
  case (Cons x xs)
  then show ?case by (cases i) (auto simp: pos_def)
qed simp

lemma pos_increasing: "distinct xs \<Longrightarrow> sorted_wrt (\<lambda>x y. pos xs x < pos xs y) xs"
  by (simp add: sorted_wrt_iff_nth_less pos_nth)

text \<open>
  C33: \<^verbatim>\<open>eina_inlist_sort\<close> on a list of fewer than \<open>2^32\<close> nodes, with any comparison that orders
  the nodes up to ties, returns without leaving its array of 32 chains; the result is a well-formed
  inlist of the same nodes, in ascending order, the later of two equal nodes first: the sort is not
  stable, it reverses ties. Other nodes are not touched.
\<close>

theorem inlist_sort_sorts:
  assumes f: "cmp_preorder func" and i: "inlist h p xs" and l: "length xs < 2 ^ 32"
  shows "\<exists>h' p' ys. eina_inlist_sort func h p = Some (h', p') \<and> inlist h' p' ys
    \<and> mset ys = mset xs \<and> sorted_wrt (later_first func xs) ys \<and> same_outside (set xs) h h'"
proof (cases "xs = []")
  case True
  with i show ?thesis by (auto simp: eina_inlist_sort_def)
next
  case False
  have d: "distinct xs" "chain h p xs" using i by (auto simp: inlist_def dest: seg_chain)
  let ?stack = "replicate EINA_INLIST_SORT_STACK_SIZE 0 :: nat list"
  have "stack_ok func xs h ?stack []" by (simp add: stack_ok_def)
  from sort_loop_ok [OF f this d(2), of 0] obtain h1 stack1 bs where
    s: "sort_loop func h ?stack 0 0 p = Some (h1, stack1, length bs)" "stack_ok func xs h1 stack1 bs"
      "mset (concat bs) = mset xs" "same_outside (set xs) h h1"
    using d pos_increasing [OF d(1)] l by (auto simp: all_before_def EINA_INLIST_SORT_STACK_SIZE_def)
  have bs: "bs \<noteq> []" "set (concat bs) = set xs" using s(3) False mset_eq_setD [OF s(3)] by auto
  from sort_collapse_ok [OF f s(2) bs(1)] obtain h2 stack2 ys where
    c: "sort_collapse func h1 stack1 (length bs) = Some (h2, stack2)" "stack_ok func xs h2 stack2 [ys]"
      "mset ys = mset (concat bs)" "same_outside (set xs) h1 h2"
    unfolding bs(2) by blast
  have ys: "set ys = set xs" "mset ys = mset xs" using c(3) s(3) mset_eq_setD by auto
  have y: "chain h2 (stack2 ! 0) ys" "distinct ys" "ys \<noteq> []" "sorted_wrt (later_first func xs) ys"
    using c(2) by (auto simp: stack_ok_def)
  from rebuild_prev_links [OF y(1,2), of 0] obtain h3 where
    r: "sort_rebuild_prev_loop h2 (stack2 ! 0) 0 = Some (h3, last (0 # ys))"
      "seg h3 0 (stack2 ! 0) ys (last (0 # ys)) 0" "same_outside (set xs) h2 h3"
    unfolding ys(1) by blast
  let ?h = "set_last h3 (stack2 ! 0) (last ys)"
  have "stack2 ! 0 \<in> set xs" using chain_head [OF y(1,3)] y(3) ys(1) by (metis hd_in_set)
  then have "same_outside (set xs) h ?h"
    using same_outside_trans [OF same_outside_trans [OF s(4) c(4)] r(3)] by simp
  moreover have "inlist ?h (stack2 ! 0) ys" using r(2) y by (simp add: inlist_def)
  moreover have "eina_inlist_sort func h p = Some (?h, stack2 ! 0)"
  proof -
    have "p \<noteq> 0" using chain_head [OF d(2) False] by simp
    moreover have "eina_inlist_sort_rebuild_prev h2 (stack2 ! 0) = Some (h3, last ys)"
      using r(1) y(3) unfolding eina_inlist_sort_rebuild_prev_def by simp
    ultimately show ?thesis
      unfolding eina_inlist_sort_def by (simp only: s(1) c(1) if_False bind.simps prod.case)
  qed
  ultimately show ?thesis using ys y(4) by blast
qed

theorem inlist_sort_sorts_witness:
  "\<exists>h' p' ys. eina_inlist_sort (\<lambda>a b. int (a div 10) - int (b div 10))
      (\<lambda>q. if q = 12 then \<lparr>il_next = 15, il_prev = 0, il_last = 15\<rparr>
           else \<lparr>il_next = 0, il_prev = 12, il_last = 0\<rparr>) 12 = Some (h', p')
    \<and> inlist h' p' ys \<and> mset ys = {#12, 15#}"
proof -
  let ?h = "\<lambda>q :: nat. if q = 12 then \<lparr>il_next = 15, il_prev = 0, il_last = 15\<rparr>
    else \<lparr>il_next = 0, il_prev = 12, il_last = 0\<rparr>"
  have "cmp_preorder (\<lambda>a b :: nat. int (a div 10) - int (b div 10))" by unfold_locales auto
  moreover have "inlist ?h 12 [12, 15]" by (simp add: inlist_def)
  ultimately show ?thesis
    using inlist_sort_sorts [of "\<lambda>a b. int (a div 10) - int (b div 10)" ?h 12 "[12, 15]"]
    by (simp only: length_Cons list.size mset.simps) auto
qed

end
