(* ===== verification/Eina_Inlist_Search.thy ===== *)
theory Eina_Inlist_Search
  imports Eina_Inlist_Sorted Eina_Inlist_Sort
begin

text \<open>
  Insertion into a sorted inlist is correct: the two bisections of the code are one function
  \<open>bisect\<close> over positions, read through the jump table and through the links; the place found
  keeps the list sorted; and the jump table follows the list.
\<close>

section \<open>Bisection\<close>

function bisect :: "(int \<Rightarrow> int) \<Rightarrow> int \<Rightarrow> int \<Rightarrow> int \<times> int \<Rightarrow> int \<times> int" where
  "bisect f inf_n sup_n r =
     (if sup_n < inf_n then r
      else let cur = midpoint inf_n sup_n; cmp = f cur in
        if cmp = 0 then (cur, cmp)
        else if cmp < 0 then bisect f (cur + 1) sup_n (cur, cmp)
        else if cur > 0 then bisect f inf_n (cur - 1) (cur, cmp)
        else (cur, cmp))"
  by pat_completeness auto
termination
proof (relation "measure (\<lambda>(f, inf_n, sup_n, r). nat (sup_n + 1 - inf_n))")
qed (use midpoint_splits in \<open>auto simp: not_less algebra_simps\<close>)

declare bisect.simps [simp del]

text \<open>The signs of \<open>f\<close> go up over the positions below \<open>n\<close>.\<close>

definition signs_up :: "(int \<Rightarrow> int) \<Rightarrow> int \<Rightarrow> bool" where
  "signs_up f n \<longleftrightarrow> (\<forall>a b. 0 \<le> a \<and> a \<le> b \<and> b < n \<longrightarrow> (f a > 0 \<longrightarrow> f b > 0) \<and> (f b < 0 \<longrightarrow> f a < 0))"

definition splits_at :: "(int \<Rightarrow> int) \<Rightarrow> int \<Rightarrow> int \<times> int \<Rightarrow> bool" where
  "splits_at f n r \<longleftrightarrow> 0 \<le> fst r \<and> fst r < n \<and> snd r = f (fst r)
     \<and> (snd r \<le> 0 \<longrightarrow> (\<forall>k. fst r < k \<and> k < n \<longrightarrow> f k \<ge> 0))
     \<and> (snd r \<ge> 0 \<longrightarrow> (\<forall>k. 0 \<le> k \<and> k < fst r \<longrightarrow> f k \<le> 0))"

lemma signs_up_ge: "signs_up f n \<Longrightarrow> 0 \<le> f a \<Longrightarrow> 0 \<le> a \<Longrightarrow> a \<le> b \<Longrightarrow> b < n \<Longrightarrow> 0 \<le> f b"
  unfolding signs_up_def by (meson not_less)

lemma signs_up_le: "signs_up f n \<Longrightarrow> f b \<le> 0 \<Longrightarrow> 0 \<le> a \<Longrightarrow> a \<le> b \<Longrightarrow> b < n \<Longrightarrow> f a \<le> 0"
  unfolding signs_up_def by (meson not_less)

lemma splits_at_cong:
  assumes "splits_at f n r" and "\<And>k. 0 \<le> k \<Longrightarrow> k < n \<Longrightarrow> f k = g k"
  shows "splits_at g n r"
proof -
  have "f (fst r) = g (fst r)" using assms by (simp add: splits_at_def)
  moreover have "g k \<ge> 0" if "f k \<ge> 0" "fst r < k" "k < n" for k
    using assms that by (simp add: splits_at_def)
  moreover have "g k \<le> 0" if "f k \<le> 0" "0 \<le> k" "k < fst r" for k
    using assms that by (simp add: splits_at_def)
  ultimately show ?thesis using assms(1) unfolding splits_at_def by auto
qed

lemma bisect_splits:
  "signs_up f n \<Longrightarrow> 0 \<le> inf_n \<Longrightarrow> sup_n < n \<Longrightarrow> (\<And>k. 0 \<le> k \<Longrightarrow> k < inf_n \<Longrightarrow> f k \<le> 0)
    \<Longrightarrow> (\<And>k. sup_n < k \<Longrightarrow> k < n \<Longrightarrow> f k \<ge> 0) \<Longrightarrow> inf_n \<le> sup_n \<or> splits_at f n r
    \<Longrightarrow> splits_at f n (bisect f inf_n sup_n r)"
proof (induction f inf_n sup_n r rule: bisect.induct)
  case (1 f inf_n sup_n r)
  show ?case
  proof (cases "sup_n < inf_n")
    case True
    with "1.prems" show ?thesis by (simp add: bisect.simps [of f inf_n])
  next
    case False
    let ?c = "midpoint inf_n sup_n"
    have c: "inf_n \<le> ?c" "?c \<le> sup_n" using False by auto
    then have bound: "0 \<le> ?c" "?c < n" using "1.prems" by auto
    have up: "f k \<ge> 0" if "f ?c \<ge> 0" "?c - 1 < k" "k < n" for k
      using signs_up_ge [OF "1.prems"(1) that(1) bound(1)] that by simp
    have down: "f k \<le> 0" if "f ?c \<le> 0" "0 \<le> k" "k < ?c + 1" for k
      using signs_up_le [OF "1.prems"(1) that(1,2)] that bound by simp
    consider "f ?c = 0" | "f ?c < 0" | "f ?c > 0" "?c > 0" | "f ?c > 0" "?c = 0"
      using bound by linarith
    then show ?thesis
    proof cases
      case 1
      with False bound up down show ?thesis
        by (simp add: bisect.simps [of f inf_n] Let_def splits_at_def)
    next
      case 2
      have r: "?c + 1 \<le> sup_n \<or> splits_at f n (?c, f ?c)"
        using 2 c bound "1.prems"(5) down by (auto simp: splits_at_def)
      have "splits_at f n (bisect f (?c + 1) sup_n (?c, f ?c))"
        by (rule "1.IH"(1) [OF False refl refl _ _ "1.prems"(1)])
          (use 2 "1.prems"(3,5) bound r down in simp_all)
      with False 2 show ?thesis by (simp add: bisect.simps [of f inf_n] Let_def)
    next
      case 3
      have r: "inf_n \<le> ?c - 1 \<or> splits_at f n (?c, f ?c)"
        using 3 c bound "1.prems"(4) up by (auto simp: splits_at_def)
      have "splits_at f n (bisect f inf_n (?c - 1) (?c, f ?c))"
        by (rule "1.IH"(2) [OF False refl refl _ _ _ "1.prems"(1)])
          (use 3 "1.prems"(2-4) bound r up in simp_all)
      with False 3 show ?thesis by (simp add: bisect.simps [of f inf_n] Let_def)
    next
      case 4
      with False bound show ?thesis
        by (simp add: bisect.simps [of f inf_n] Let_def splits_at_def)
    qed
  qed
qed

section \<open>The searches of the code are bisections\<close>

definition compare_at :: "compare_cb \<Rightarrow> nat list \<Rightarrow> nat \<Rightarrow> int \<Rightarrow> int" where
  "compare_at func xs item k = func (xs ! nat k) item"

lemma jump_search_bisect:
  "0 \<le> inf_n \<Longrightarrow> sup_n < int (length table) \<Longrightarrow> fst (snd r) = table ! nat (fst r) \<Longrightarrow>
    jump_search func table item inf_n sup_n r =
      (let (c, m) = bisect (compare_at func table item) inf_n sup_n (fst r, snd (snd r)) in Some (c, table ! nat c, m))"
proof (induction func table item inf_n sup_n r rule: jump_search.induct)
  case (1 func table item inf_n sup_n r)
  show ?case
  proof (cases "sup_n < inf_n")
    case True
    with "1.prems" show ?thesis
      by (simp add: jump_search.simps [of _ _ _ inf_n] bisect.simps [of _ inf_n] prod_eq_iff)
  next
    case False
    let ?c = "midpoint inf_n sup_n"
    have c: "inf_n \<le> ?c" "?c \<le> sup_n" using False by auto
    then have n: "nth_opt table (nat ?c) = Some (table ! nat ?c)" using "1.prems" by (simp add: nth_opt_def)
    note IH = "1.IH" [OF False refl n]
    let ?f = "compare_at func table item"
    consider "?f ?c = 0" | "?f ?c < 0" | "?f ?c > 0" "?c > 0" | "?f ?c > 0" "\<not> ?c > 0" by linarith
    then show ?thesis
    proof cases
      case 2
      then have "jump_search func table item (?c + 1) sup_n (?c, table ! nat ?c, ?f ?c) =
        (let (c, m) = bisect ?f (?c + 1) sup_n (?c, ?f ?c) in Some (c, table ! nat c, m))"
        using IH(1) [OF refl] "1.prems" c by (simp flip: compare_at_def)
      with 2 False n show ?thesis
        by (simp add: jump_search.simps [of _ _ _ inf_n] bisect.simps [of _ inf_n] Let_def flip: compare_at_def)
    next
      case 3
      then have "jump_search func table item inf_n (?c - 1) (?c, table ! nat ?c, ?f ?c) =
        (let (c, m) = bisect ?f inf_n (?c - 1) (?c, ?f ?c) in Some (c, table ! nat c, m))"
        using IH(2) [OF refl] "1.prems" c by (simp flip: compare_at_def)
      with 3 False n show ?thesis
        by (simp add: jump_search.simps [of _ _ _ inf_n] bisect.simps [of _ inf_n] Let_def flip: compare_at_def)
    qed (use False n in \<open>simp_all add: jump_search.simps [of _ _ _ inf_n] bisect.simps [of _ inf_n]
      Let_def compare_at_def\<close>)
  qed
qed

lemma walk_next_at:
  "inlist h p xs \<Longrightarrow> a + k < length xs \<Longrightarrow> walk_next h k (xs ! a) = Some (xs ! (a + k))"
proof (induction k arbitrary: a)
  case (Suc k)
  then have "il_next (h (xs ! a)) = xs ! Suc a" "xs ! a \<noteq> 0"
    using inlist_next [of h p xs a] inlist_nonnull [of h p xs "xs ! a"] by (simp_all add: at_pos_def)
  with Suc show ?case by (simp add: Suc.IH [of "Suc a"])
qed simp

lemma walk_prev_at:
  "inlist h p xs \<Longrightarrow> a + k < length xs \<Longrightarrow> walk_prev h k (xs ! (a + k)) = Some (xs ! a)"
proof (induction k)
  case (Suc k)
  then have "il_prev (h (xs ! Suc (a + k))) = xs ! (a + k)" "xs ! Suc (a + k) \<noteq> 0"
    using inlist_prev [of h p xs "a + k"] inlist_nonnull [of h p xs "xs ! Suc (a + k)"] by simp_all
  with Suc show ?case by simp
qed simp

lemma walk_to_at:
  assumes "inlist h p xs" "0 \<le> a" "a < int (length xs)" "0 \<le> b" "b < int (length xs)"
  shows "walk_to h a b (xs ! nat a) = Some (xs ! nat b)"
proof (cases "a < b")
  case True
  then show ?thesis
    using assms walk_next_at [OF assms(1), of "nat a" "nat (b - a)"]
    by (simp add: walk_to_def nat_add_distrib [symmetric])
next
  case False
  then show ?thesis
    using assms walk_prev_at [OF assms(1), of "nat b" "nat (a - b)"]
    by (simp add: walk_to_def nat_add_distrib [symmetric])
qed

lemma list_search_bisect:
  "inlist h p xs \<Longrightarrow> 0 \<le> inf_n \<Longrightarrow> sup_n < int (length xs) \<Longrightarrow> fst (snd r) = xs ! nat (fst r) \<Longrightarrow>
    0 \<le> fst r \<Longrightarrow> fst r < int (length xs) \<Longrightarrow>
    list_search func h item inf_n sup_n r =
      (let (c, m) = bisect (compare_at func xs item) inf_n sup_n (fst r, snd (snd r)) in Some (c, xs ! nat c, m))"
proof (induction func h item inf_n sup_n r rule: list_search.induct)
  case (1 func h item inf_n sup_n r)
  show ?case
  proof (cases "sup_n < inf_n")
    case True
    with "1.prems" show ?thesis
      by (simp add: list_search.simps [of _ _ _ inf_n] bisect.simps [of _ inf_n] prod_eq_iff)
  next
    case False
    let ?c = "midpoint inf_n sup_n"
    have c: "inf_n \<le> ?c" "?c \<le> sup_n" using False by auto
    then have cb: "0 \<le> ?c" "?c < int (length xs)" using "1.prems" by auto
    have n: "walk_to h (fst r) ?c (fst (snd r)) = Some (xs ! nat ?c)" "xs ! nat ?c \<noteq> 0"
      using walk_to_at [OF "1.prems"(1,5,6) cb] "1.prems"(4) cb inlist_nonnull [OF "1.prems"(1)] by simp_all
    note IH = "1.IH" [OF False refl n]
    let ?f = "compare_at func xs item"
    consider "?f ?c = 0" | "?f ?c < 0" | "?f ?c > 0" "?c > 0" | "?f ?c > 0" "\<not> ?c > 0" by linarith
    then show ?thesis
    proof cases
      case 2
      then have "list_search func h item (?c + 1) sup_n (?c, xs ! nat ?c, ?f ?c) =
        (let (c, m) = bisect ?f (?c + 1) sup_n (?c, ?f ?c) in Some (c, xs ! nat c, m))"
        using IH(1) [OF refl] "1.prems" c cb by (simp flip: compare_at_def)
      with 2 False n show ?thesis
        by (simp add: list_search.simps [of _ _ _ inf_n] bisect.simps [of _ inf_n] Let_def flip: compare_at_def)
    next
      case 3
      then have "list_search func h item inf_n (?c - 1) (?c, xs ! nat ?c, ?f ?c) =
        (let (c, m) = bisect ?f inf_n (?c - 1) (?c, ?f ?c) in Some (c, xs ! nat c, m))"
        using IH(2) [OF refl] "1.prems" c cb by (simp flip: compare_at_def)
      with 3 False n show ?thesis
        by (simp add: list_search.simps [of _ _ _ inf_n] bisect.simps [of _ inf_n] Let_def flip: compare_at_def)
    qed (use False n in \<open>simp_all add: list_search.simps [of _ _ _ inf_n] bisect.simps [of _ inf_n]
      Let_def compare_at_def\<close>)
  qed
qed

section \<open>The place to insert\<close>

definition insert_at :: "nat \<Rightarrow> 'a \<Rightarrow> 'a list \<Rightarrow> 'a list" where
  "insert_at q x xs = take q xs @ x # drop q xs"

lemma insert_after_nth: "distinct xs \<Longrightarrow> k < length xs \<Longrightarrow> insert_after (xs ! k) x xs = insert_at (Suc k) x xs"
proof -
  assume d: "distinct xs" "k < length xs"
  have "xs ! k \<notin> set (take k xs)" using d by (auto simp: in_set_conv_nth nth_eq_iff_index_eq)
  from insert_after_split [OF this, of x "drop (Suc k) xs"] show ?thesis
    using d by (simp add: insert_at_def take_Suc_conv_app_nth id_take_nth_drop [symmetric])
qed

lemma insert_before_nth: "distinct xs \<Longrightarrow> k < length xs \<Longrightarrow> insert_before (xs ! k) x xs = insert_at k x xs"
proof -
  assume d: "distinct xs" "k < length xs"
  have "xs ! k \<notin> set (take k xs)" using d by (auto simp: in_set_conv_nth nth_eq_iff_index_eq)
  from insert_before_split [OF this, of x "drop (Suc k) xs"] show ?thesis
    using d by (simp add: insert_at_def Cons_nth_drop_Suc id_take_nth_drop [symmetric])
qed

definition sorted_by :: "compare_cb \<Rightarrow> nat list \<Rightarrow> bool" where
  "sorted_by func = sorted_wrt (\<lambda>x y. func x y \<le> 0)"

definition fits_at :: "compare_cb \<Rightarrow> nat list \<Rightarrow> nat \<Rightarrow> nat \<Rightarrow> bool" where
  "fits_at func xs item q \<longleftrightarrow> q \<le> length xs \<and> (\<forall>x \<in> set (take q xs). func x item \<le> 0)
     \<and> (\<forall>x \<in> set (drop q xs). func x item \<ge> 0)"

lemma fits_sorted:
  assumes f: "cmp_preorder func" and "sorted_by func xs" "fits_at func xs item q"
  shows "sorted_by func (insert_at q item xs)"
proof -
  have "sorted_by func (take q xs @ drop q xs)" using assms(2) by simp
  moreover have "func item x \<le> 0" if "x \<in> set (drop q xs)" for x
    using assms(3) that cmp_preorder.cmp_flip [OF f, of item x] by (auto simp: fits_at_def not_less [symmetric])
  ultimately show ?thesis
    using assms(3) unfolding sorted_by_def insert_at_def sorted_wrt_append
    by (auto simp: fits_at_def)
qed

lemma compare_signs_up:
  assumes f: "cmp_preorder func" and s: "sorted_by func xs"
  shows "signs_up (compare_at func xs item) (int (length xs))"
proof -
  have "(0 < func x item \<longrightarrow> 0 < func y item) \<and> (func y item < 0 \<longrightarrow> func x item < 0)" if "func x y \<le> 0" for x y
    using cmp_preorder.cmp_le_less_trans [OF f that] cmp_preorder.cmp_less_le_trans [OF f _ that, of item]
      cmp_preorder.cmp_flip [OF f] by auto
  moreover have "func (xs ! nat a) (xs ! nat b) \<le> 0" if "0 \<le> a" "a \<le> b" "b < int (length xs)" for a b
    using s that cmp_preorder.cmp_flip [OF f, of "xs ! nat a" "xs ! nat a"] sorted_wrt_nth_less [of "\<lambda>x y. func x y \<le> 0" xs "nat a" "nat b"]
    by (cases "a = b") (auto simp: sorted_by_def)
  ultimately show ?thesis unfolding signs_up_def compare_at_def by blast
qed

lemma in_drop_nth: "x \<in> set (drop q xs) \<Longrightarrow> \<exists>i. q \<le> i \<and> i < length xs \<and> x = xs ! i"
  by (auto simp: in_set_conv_nth) (metis add.commute le_add1 less_diff_conv)

lemma splits_fits:
  assumes u: "signs_up (compare_at func xs item) (int (length xs))"
    and s: "splits_at (compare_at func xs item) (int (length xs)) (k, m)"
  shows "fits_at func xs item (if m \<le> 0 then Suc (nat k) else nat k)"
proof -
  let ?f = "compare_at func xs item" and ?n = "int (length xs)"
  let ?q = "if m \<le> 0 then Suc (nat k) else nat k"
  have k: "0 \<le> k" "k < ?n" "m = ?f k" using s by (auto simp: splits_at_def)
  have l: "?f i \<le> 0" if "0 \<le> i" "i < int ?q" for i
  proof (cases "m < 0")
    case True
    then show ?thesis using signs_up_le [OF u, of k i] that k by simp
  next
    case False
    then have "?f i \<le> 0" if "i < k" using s that \<open>0 \<le> i\<close> by (simp add: splits_at_def)
    moreover have "i < k \<or> i = k \<and> m \<le> 0" using that k(1) by (auto split: if_splits)
    ultimately show ?thesis using k by auto
  qed
  have g: "?f i \<ge> 0" if "int ?q \<le> i" "i < ?n" for i
  proof (cases "m \<le> 0")
    case True
    then have "k < i" using that k by simp
    with True s that show ?thesis by (simp add: splits_at_def)
  next
    case False
    then show ?thesis using signs_up_ge [OF u, of k i] that k by simp
  qed
  have "?q \<le> length xs" using k by auto
  moreover have "func x item \<le> 0" if "x \<in> set (take ?q xs)" for x
  proof -
    from that obtain i where "i < ?q" "i < length xs" "x = xs ! i" by (auto simp: in_set_conv_nth)
    with l [of "int i"] show ?thesis by (simp add: compare_at_def)
  qed
  moreover have "func x item \<ge> 0" if "x \<in> set (drop ?q xs)" for x
  proof -
    from in_drop_nth [OF that] obtain i where "?q \<le> i" "i < length xs" "x = xs ! i" by blast
    with g [of "int i"] show ?thesis by (simp add: compare_at_def)
  qed
  ultimately show ?thesis by (simp add: fits_at_def)
qed

section \<open>The jump table of a list\<close>

definition table_ok :: "nat list \<Rightarrow> sorted_state \<Rightarrow> bool" where
  "table_ok xs state \<longleftrightarrow>
     length (jump_table state) = EINA_INLIST_JUMP_SIZE \<and> 0 < jump_limit state
     \<and> jump_limit state \<le> EINA_INLIST_JUMP_SIZE \<and> 0 < jump_div state
     \<and> (\<forall>j < jump_limit state. int j * jump_div state < int (length xs)
          \<and> jump_table state ! j = xs ! nat (int j * jump_div state))"

text \<open>
  Past the last entry lie at most \<^verbatim>\<open>jump_div\<close> nodes and one: when the table has just been
  halved the place of the next entry is passed over, and it is recorded by the next insertion.
\<close>

definition table_covers :: "nat list \<Rightarrow> sorted_state \<Rightarrow> bool" where
  "table_covers xs state \<longleftrightarrow>
     int (length xs) \<le> int (jump_limit state) * jump_div state + 1
     \<or> jump_limit state = 128 \<and> 2 \<le> jump_div state \<and> int (length xs) = 128 * jump_div state + 2"

lemma compare_table:
  assumes "table_ok xs state" "0 \<le> k" "k < int (jump_limit state)"
  shows "compare_at func (jump_table state) item k = compare_at func xs item (k * jump_div state)"
    and "k * jump_div state < int (length xs)" "jump_table state ! nat k = xs ! nat (k * jump_div state)"
  using assms by (auto simp: table_ok_def compare_at_def dest: spec [of _ "nat k"])

lemma search_table_splits:
  assumes u: "signs_up (compare_at func xs item) (int (length xs))" and t: "table_ok xs state"
  shows "\<exists>c m. search_table func state item = Some (c, xs ! nat (c * jump_div state), m)
    \<and> splits_at (\<lambda>k. compare_at func xs item (k * jump_div state)) (int (jump_limit state)) (c, m)"
proof -
  let ?f = "compare_at func (jump_table state) item" and ?l = "int (jump_limit state)"
  let ?g = "\<lambda>k. compare_at func xs item (k * jump_div state)"
  have b: "0 < ?l" "?l \<le> int (length (jump_table state))" "0 < jump_div state"
    using t by (auto simp: table_ok_def EINA_INLIST_JUMP_SIZE_def)
  have "signs_up ?f ?l"
    unfolding signs_up_def
  proof (intro allI impI)
    fix a c assume a: "0 \<le> a \<and> a \<le> c \<and> c < ?l"
    have "a * jump_div state \<le> c * jump_div state" using a b(3) by (simp add: mult_right_mono)
    moreover have "0 \<le> a * jump_div state" using a b(3) by simp
    ultimately show "(0 < ?f a \<longrightarrow> 0 < ?f c) \<and> (?f c < 0 \<longrightarrow> ?f a < 0)"
      using u a compare_table [OF t, of a] compare_table [OF t, of c] by (simp add: signs_up_def)
  qed
  then have "splits_at ?f ?l (bisect ?f 0 (?l - 1) (0, ?f 0))"
    by (rule bisect_splits) (use b in auto)
  then obtain c m where r: "bisect ?f 0 (?l - 1) (0, ?f 0) = (c, m)" "splits_at ?f ?l (c, m)"
    by (metis surj_pair)
  then have c: "0 \<le> c" "c < ?l" by (simp_all add: splits_at_def)
  have "splits_at ?g ?l (c, m)"
    by (rule splits_at_cong [OF r(2) compare_table(1) [OF t]])
  moreover have "search_table func state item = Some (c, jump_table state ! nat c, m)"
    using jump_search_bisect [of 0 "?l - 1" "jump_table state" "(0, jump_table state ! 0, ?f 0)" func item] b r(1)
    by (auto simp: search_table_def nth_opt_def compare_at_def)
  ultimately show ?thesis using compare_table(3) [OF t c] by auto
qed

lemma window:
  fixes e d n :: int
  assumes "0 < d" "0 \<le> e" "e < n"
  shows "0 \<le> (if e - d - 1 < 0 then 0 else e - d - 1)"
    and "(if e + d + 1 > n - 1 then n - 1 else e + d + 1) < n"
    and "(if e - d - 1 < 0 then 0 else e - d - 1) \<le> (if e + d + 1 > n - 1 then n - 1 else e + d + 1)"
  using assms by auto

lemma search_nodes_splits:
  assumes i: "inlist h p xs" and u: "signs_up (compare_at func xs item) (int (length xs))"
    and t: "table_ok xs state" "table_covers xs state"
    and c: "splits_at (\<lambda>k. compare_at func xs item (k * jump_div state)) (int (jump_limit state)) (c, m)"
  shows "\<exists>k m'. search_nodes func h (jump_div state) (int (length xs)) item (c, xs ! nat (c * jump_div state), m)
      = Some (k, xs ! nat k, m') \<and> splits_at (compare_at func xs item) (int (length xs)) (k, m')"
proof -
  let ?n = "int (length xs)" and ?d = "jump_div state" and ?f = "compare_at func xs item"
  let ?i = "if c * ?d - ?d - 1 < 0 then 0 else c * ?d - ?d - 1"
  let ?s = "if c * ?d + ?d + 1 > ?n - 1 then ?n - 1 else c * ?d + ?d + 1"
  have d: "0 < ?d" "0 \<le> c" "c < int (jump_limit state)" "m = ?f (c * ?d)"
    using t c by (auto simp: table_ok_def splits_at_def)
  then have cd: "0 \<le> c * ?d" "c * ?d < ?n" using compare_table(2) [OF t(1) d(2,3)] by simp_all
  have low: "?f k \<le> 0" if "0 \<le> k" "k < ?i" for k
  proof (cases "m \<le> 0")
    case True
    then show ?thesis using signs_up_le [OF u, of "c * ?d" k] that d cd by (auto split: if_splits)
  next
    case False
    have k: "k \<le> (c - 1) * ?d" "0 < c" using that d by (cases "c = 0"; auto simp: algebra_simps split: if_splits)+
    then have "?f ((c - 1) * ?d) \<le> 0" using c False by (simp add: splits_at_def)
    moreover have "(c - 1) * ?d < ?n" using compare_table(2) [OF t(1), of "c - 1"] k d by simp
    ultimately show ?thesis using signs_up_le [OF u] k that by blast
  qed
  have high: "?f k \<ge> 0" if "?s < k" "k < ?n" for k
  proof (cases "m \<ge> 0")
    case True
    then show ?thesis using signs_up_ge [OF u, of "c * ?d" k] that d cd by (auto split: if_splits)
  next
    case False
    have k: "c * ?d + ?d + 1 < k" using that by (auto split: if_splits)
    have "c + 1 < int (jump_limit state)"
    proof (rule ccontr)
      assume "\<not> c + 1 < int (jump_limit state)"
      with d have "int (jump_limit state) = c + 1" by simp
      then have "int (jump_limit state) * ?d = c * ?d + ?d" by (simp add: algebra_simps)
      with t(2) k that show False by (auto simp: table_covers_def)
    qed
    then have "?f ((c + 1) * ?d) \<ge> 0" using c False by (simp add: splits_at_def)
    moreover have "(c + 1) * ?d \<le> k" "0 \<le> (c + 1) * ?d" using k d by (simp_all add: algebra_simps)
    ultimately show ?thesis using signs_up_ge [OF u] that by blast
  qed
  have "splits_at ?f ?n (bisect ?f ?i ?s (c * ?d, m))"
    by (rule bisect_splits [OF u window(1,2) low high disjI1 [OF window(3)]]) (use d cd in simp_all)
  moreover obtain k m' where "bisect ?f ?i ?s (c * ?d, m) = (k, m')" by (metis surj_pair)
  moreover have "search_nodes func h ?d ?n item (c, xs ! nat (c * ?d), m) =
      list_search func h item ?i ?s (c * ?d, xs ! nat (c * ?d), m)"
    by (simp add: search_nodes_def Let_def)
  ultimately show ?thesis
    using list_search_bisect [OF i window(1,2) [OF d(1) cd], of "(c * ?d, xs ! nat (c * ?d), m)" func item] cd
    by simp
qed

end
