(* ===== verification/Eina_Inlist_Table.thy ===== *)
theory Eina_Inlist_Table
  imports Eina_Inlist_Search
begin

text \<open>
  The jump table is built and kept: \<^verbatim>\<open>eina_inlist_sorted_state_init\<close> makes a table of the
  list from a fresh state, halving included, and an insertion with a state leaves a table of the
  new list. With the searches this gives the two insertions their specification.
\<close>

section \<open>Halving the table\<close>

lemma compact_fold:
  "2 * m \<le> Suc (length t) \<Longrightarrow>
    length (fold (\<lambda>j t. t[j := t ! (2 * j)]) [1..<m] t) = length t
    \<and> (\<forall>j < length t. fold (\<lambda>j t. t[j := t ! (2 * j)]) [1..<m] t ! j = (if 1 \<le> j \<and> j < m then t ! (2 * j) else t ! j))"
proof (induction m)
  case (Suc m)
  show ?case
  proof (cases "m = 0")
    case False
    then have "[1..<Suc m] = [1..<m] @ [m]" by simp
    moreover have "2 * m < length t" using Suc.prems by simp
    ultimately show ?thesis using Suc False by (auto simp: nth_list_update)
  qed simp
qed simp

lemma compact_table:
  assumes "length (jump_table st) = EINA_INLIST_JUMP_SIZE" "j < 128"
  shows "jump_table (sorted_state_compact st) ! j = jump_table st ! (2 * j)"
  using compact_fold [of 128 "jump_table st"] assms
  by (cases "j = 0") (auto simp: sorted_state_compact_def EINA_INLIST_JUMP_SIZE_def simp del: upt_Suc)

lemma compact_fields [simp]:
  "jump_limit (sorted_state_compact st) = jump_limit st div 2"
  "jump_div (sorted_state_compact st) = jump_div st * 2"
  "inserted (sorted_state_compact st) = inserted st"
  by (simp_all add: sorted_state_compact_def)

lemma compact_length:
  "length (jump_table st) = EINA_INLIST_JUMP_SIZE
    \<Longrightarrow> length (jump_table (sorted_state_compact st)) = EINA_INLIST_JUMP_SIZE"
  using compact_fold [of 128 "jump_table st"]
  by (simp add: sorted_state_compact_def EINA_INLIST_JUMP_SIZE_def del: upt_Suc)

section \<open>Building the table\<close>

text \<open>The entries point where they should; the next entry is for node \<open>limit * div\<close>.\<close>

definition entries_ok :: "nat list \<Rightarrow> sorted_state \<Rightarrow> bool" where
  "entries_ok xs st \<longleftrightarrow> length (jump_table st) = EINA_INLIST_JUMP_SIZE
     \<and> jump_limit st \<le> EINA_INLIST_JUMP_SIZE \<and> 0 < jump_div st
     \<and> (\<forall>j < jump_limit st. int j * jump_div st < int (length xs)
          \<and> jump_table st ! j = xs ! nat (int j * jump_div st))"

lemma entries_table: "table_ok xs st \<longleftrightarrow> entries_ok xs st \<and> 0 < jump_limit st"
  by (auto simp: table_ok_def entries_ok_def)

lemma compact_entries:
  assumes "entries_ok xs st" "jump_limit st = EINA_INLIST_JUMP_SIZE"
  shows "entries_ok xs (sorted_state_compact st)"
proof -
  have "int j * (jump_div st * 2) < int (length xs)
    \<and> jump_table (sorted_state_compact st) ! j = xs ! nat (int j * (jump_div st * 2))" if "j < 128" for j
  proof -
    have "2 * j < jump_limit st" using assms(2) that by (simp add: EINA_INLIST_JUMP_SIZE_def)
    then have "int (2 * j) * jump_div st < int (length xs)
      \<and> jump_table st ! (2 * j) = xs ! nat (int (2 * j) * jump_div st)"
      using assms(1) unfolding entries_ok_def by blast
    moreover have e: "int j * (jump_div st * 2) = int (2 * j) * jump_div st" by simp
    moreover have "jump_table (sorted_state_compact st) ! j = jump_table st ! (2 * j)"
      using compact_table [OF _ that, of st] assms(1) by (simp add: entries_ok_def)
    ultimately show ?thesis unfolding e by simp
  qed
  with assms compact_length [of st] show ?thesis
    by (auto simp: entries_ok_def EINA_INLIST_JUMP_SIZE_def)
qed

lemma entries_add:
  assumes "entries_ok xs st" "jump_limit st < EINA_INLIST_JUMP_SIZE"
    and "int (jump_limit st) * jump_div st < int (length xs)"
  shows "entries_ok xs (st\<lparr>jump_limit := Suc (jump_limit st),
    jump_table := (jump_table st)[jump_limit st := xs ! nat (int (jump_limit st) * jump_div st)]\<rparr>)"
  using assms by (auto simp: entries_ok_def less_Suc_eq)

lemma jump_push_entries:
  assumes "entries_ok xs st" "int (jump_limit st) * jump_div st = int i" "i < length xs"
  shows "entries_ok xs (jump_push st (xs ! i))
    \<and> int (jump_limit (jump_push st (xs ! i))) * jump_div (jump_push st (xs ! i))
      = int i + jump_div (jump_push st (xs ! i)) \<and> 0 < jump_limit (jump_push st (xs ! i))"
proof -
  let ?st = "if jump_limit st = EINA_INLIST_JUMP_SIZE then sorted_state_compact st else st"
  have e: "entries_ok xs ?st" using assms(1) compact_entries by simp
  moreover have "int (jump_limit ?st) * jump_div ?st = int i"
    using assms(2) by (auto simp: EINA_INLIST_JUMP_SIZE_def)
  moreover have "jump_limit ?st < EINA_INLIST_JUMP_SIZE"
    using assms(1) by (auto simp: entries_ok_def EINA_INLIST_JUMP_SIZE_def)
  moreover have "jump_push st (xs ! i) = ?st\<lparr>jump_limit := Suc (jump_limit ?st),
      jump_table := (jump_table ?st)[jump_limit ?st := xs ! i]\<rparr>"
    by (simp add: jump_push_def Let_def)
  ultimately show ?thesis using entries_add [OF e] assms(3) by (simp add: algebra_simps)
qed

lemma state_init_loop_step:
  "state_init_loop h st 0 jc c = Some (st, c)"
  "ct \<noteq> 0 \<Longrightarrow> state_init_loop h st ct jc c =
     (if jc = jump_div st then state_init_loop h (jump_push st ct) (il_next (h ct)) 1 (c + 1)
      else state_init_loop h st (il_next (h ct)) (jc + 1) (c + 1))"
  by (subst state_init_loop.simps; simp add: Let_def)+

lemma state_init_loop_ok:
  assumes h: "inlist h p xs"
  shows "i \<le> length xs \<Longrightarrow> entries_ok xs st \<Longrightarrow> int (jump_limit st) * jump_div st = int i + jump_div st - jc
    \<Longrightarrow> 1 \<le> jc \<Longrightarrow> jc \<le> jump_div st \<Longrightarrow>
    \<exists>st'. state_init_loop h st (at_pos xs i) jc (int i) = Some (st', int (length xs)) \<and> entries_ok xs st'
      \<and> int (length xs) \<le> int (jump_limit st') * jump_div st'"
proof (induction "length xs - i" arbitrary: i st jc)
  case 0
  then show ?case by (auto simp: at_pos_def state_init_loop_step)
next
  case (Suc d)
  then have i: "i < length xs" and d: "d = length xs - Suc i" "Suc i \<le> length xs" by auto
  have n: "at_pos xs i \<noteq> 0" "il_next (h (at_pos xs i)) = at_pos xs (Suc i)" "at_pos xs i = xs ! i"
    using i at_pos_null [OF h, of i] inlist_next [OF h i] by (auto simp: at_pos_def)
  show ?case
  proof (cases "jc = jump_div st")
    case True
    let ?st = "jump_push st (xs ! i)"
    have "int (jump_limit st) * jump_div st = int i" using Suc.prems(3) True by simp
    from jump_push_entries [OF Suc.prems(2) this i]
    have p: "entries_ok xs ?st" "int (jump_limit ?st) * jump_div ?st = int (Suc i) + jump_div ?st - 1" by simp_all
    from Suc.hyps(1) [OF d p(1,2)] p(1) True n show ?thesis
      by (simp add: state_init_loop_step entries_ok_def add.commute)
  next
    case False
    with Suc.prems have "int (jump_limit st) * jump_div st = int (Suc i) + jump_div st - (jc + 1)"
      "1 \<le> jc + 1" "jc + 1 \<le> jump_div st" by auto
    from Suc.hyps(1) [OF d Suc.prems(2) this] False n show ?thesis
      by (simp add: state_init_loop_step add.commute)
  qed
qed

lemma sorted_state_init_ok:
  assumes h: "inlist h p xs" and "xs \<noteq> []"
  shows "\<exists>st. eina_inlist_sorted_state_init h eina_inlist_sorted_state_new p = Some (st, int (length xs))
    \<and> table_ok xs st \<and> table_covers xs st \<and> inserted st = int (length xs)"
proof -
  have "entries_ok xs eina_inlist_sorted_state_new"
    by (simp add: entries_ok_def eina_inlist_sorted_state_new_def)
  from state_init_loop_ok [OF h _ this, of 0 1] obtain st where
    st: "state_init_loop h eina_inlist_sorted_state_new p 1 0 = Some (st, int (length xs))" "entries_ok xs st"
      "int (length xs) \<le> int (jump_limit st) * jump_div st"
    using inlist_start [OF h] by (auto simp: eina_inlist_sorted_state_new_def)
  have "0 < jump_limit st" using st(3) assms(2) by (cases "jump_limit st") auto
  with st show ?thesis
    by (simp add: eina_inlist_sorted_state_init_def entries_table table_covers_def entries_ok_def)
qed

section \<open>Keeping the table\<close>

lemma shift_fold:
  "l \<le> length t \<Longrightarrow> length (fold (\<lambda>i t. t[i := il_prev (h (t ! i))]) [a..<l] t) = length t
    \<and> (\<forall>j < length t. fold (\<lambda>i t. t[i := il_prev (h (t ! i))]) [a..<l] t ! j
         = (if a \<le> j \<and> j < l then il_prev (h (t ! j)) else t ! j))"
proof (induction l)
  case (Suc l)
  show ?case
  proof (cases "a \<le> l")
    case True
    then have "[a..<Suc l] = [a..<l] @ [l]" by simp
    with Suc True show ?thesis by (auto simp: nth_list_update)
  qed (auto simp: not_le)
qed simp

lemma shift_table_fold:
  "distinct is \<Longrightarrow> \<forall>i \<in> set is. i < length t \<and> t ! i \<noteq> null \<Longrightarrow>
    shift_table h is t = Some (fold (\<lambda>i t. t[i := il_prev (h (t ! i))]) is t)"
  by (induction "is" arbitrary: t) (auto simp: nth_opt_def nth_list_update)

lemma insert_at_nth:
  assumes "q \<le> length xs"
  shows "length (insert_at q x xs) = Suc (length xs)"
    and "i < q \<Longrightarrow> insert_at q x xs ! i = xs ! i"
    and "q \<le> i \<Longrightarrow> i < length xs \<Longrightarrow> insert_at q x xs ! Suc i = xs ! i"
  using assms by (auto simp: insert_at_def nth_append min_def)

lemma shift_entries_ok:
  assumes h: "inlist h p (insert_at q x xs)" and t: "entries_ok xs st" and q: "q \<le> length xs"
    and a: "\<And>j. j < jump_limit st \<Longrightarrow> a \<le> j \<longleftrightarrow> int q \<le> int j * jump_div st"
  shows "\<exists>t. shift_entries h a st = Some (st\<lparr>jump_table := t\<rparr>)
    \<and> entries_ok (insert_at q x xs) (st\<lparr>jump_table := t\<rparr>)"
proof -
  let ?ys = "insert_at q x xs"
  let ?t = "fold (\<lambda>i t. t[i := il_prev (h (t ! i))]) [a..<jump_limit st] (jump_table st)"
  have l: "length ?ys = Suc (length xs)" using insert_at_nth(1) [OF q] .
  have s: "length ?t = length (jump_table st)"
    "\<And>j. j < jump_limit st \<Longrightarrow> ?t ! j = (if a \<le> j then il_prev (h (jump_table st ! j)) else jump_table st ! j)"
    using shift_fold [of "jump_limit st" "jump_table st" h a] t by (auto simp: entries_ok_def)
  have "?t ! j = ?ys ! nat (int j * jump_div st)" if j: "j < jump_limit st" for j
  proof -
    let ?k = "nat (int j * jump_div st)"
    have e: "int j * jump_div st < int (length xs)" "jump_table st ! j = xs ! ?k" "0 < jump_div st"
      using t j unfolding entries_ok_def by blast+
    have k: "?k < length xs" "jump_table st ! j = xs ! ?k" "int ?k = int j * jump_div st"
      using e by (simp_all add: nat_less_iff)
    show ?thesis
    proof (cases "q \<le> ?k")
      case True
      then have "jump_table st ! j = ?ys ! Suc ?k" using insert_at_nth(3) [OF q True] k by simp
      moreover have "a \<le> j" using True a [OF j] k(3) by (metis of_nat_le_iff)
      moreover have "il_prev (h (?ys ! Suc ?k)) = ?ys ! ?k" using inlist_prev [OF h, of ?k] l k(1) by simp
      ultimately show ?thesis using s(2) [OF j] by simp
    next
      case False
      then have "\<not> a \<le> j" using a [OF j] k(3) by (metis of_nat_le_iff)
      then show ?thesis using s(2) [OF j] k(2) insert_at_nth(2) [OF q] False by simp
    qed
  qed
  moreover have "int j * jump_div st < int (length ?ys)" if "j < jump_limit st" for j
    using t that unfolding l entries_ok_def by fastforce
  ultimately have "entries_ok ?ys (st\<lparr>jump_table := ?t\<rparr>)" using t s(1) by (simp add: entries_ok_def)
  moreover have "\<forall>i \<in> set [a..<jump_limit st]. i < length (jump_table st) \<and> jump_table st ! i \<noteq> null"
  proof
    fix i assume "i \<in> set [a..<jump_limit st]"
    then have i: "i < jump_limit st" by simp
    then have e: "int i * jump_div st < int (length xs)" "jump_table st ! i = xs ! nat (int i * jump_div st)"
        "0 < jump_div st" "i < length (jump_table st)"
      using t unfolding entries_ok_def by auto
    then have "jump_table st ! i \<in> set xs" by (simp add: nat_less_iff)
    then have "jump_table st ! i \<in> set (take q xs) \<union> set (drop q xs)"
      by (simp only: set_append [symmetric] append_take_drop_id)
    then have "jump_table st ! i \<in> set ?ys" by (auto simp: insert_at_def)
    then show "i < length (jump_table st) \<and> jump_table st ! i \<noteq> null"
      using e(4) inlist_nonnull [OF h] by blast
  qed
  ultimately show ?thesis by (auto simp: shift_entries_def shift_table_fold)
qed

lemma rebuild_end_step:
  "lst \<noteq> 0 \<Longrightarrow> il_next (h lst) = 0 \<Longrightarrow> rebuild_end h st start lst jc = Some st"
  "lst \<noteq> 0 \<Longrightarrow> il_next (h lst) \<noteq> 0 \<Longrightarrow> jc \<noteq> jump_div st \<Longrightarrow>
     rebuild_end h st start lst jc = rebuild_end h st start (il_next (h lst)) (jc + 1)"
  "lst \<noteq> 0 \<Longrightarrow> il_next (h lst) \<noteq> 0 \<Longrightarrow> start < jump_limit st \<Longrightarrow>
     rebuild_end h st start lst (jump_div st) =
     rebuild_end h (st\<lparr>jump_table := (jump_table st)[start := lst]\<rparr>) (Suc start) (il_next (h lst)) 1"
  "lst \<noteq> 0 \<Longrightarrow> il_next (h lst) \<noteq> 0 \<Longrightarrow> start = jump_limit st \<Longrightarrow> start \<noteq> EINA_INLIST_JUMP_SIZE \<Longrightarrow>
     rebuild_end h st start lst (jump_div st) =
     rebuild_end h (st\<lparr>jump_limit := Suc start, jump_table := (jump_table st)[start := lst]\<rparr>)
       (Suc start) (il_next (h lst)) 1"
  "lst \<noteq> 0 \<Longrightarrow> il_next (h lst) \<noteq> 0 \<Longrightarrow> start = jump_limit st \<Longrightarrow> start = EINA_INLIST_JUMP_SIZE \<Longrightarrow>
     rebuild_end h st start lst (jump_div st) =
     rebuild_end h (sorted_state_compact st) (jump_limit (sorted_state_compact st) - 1) (il_next (h lst)) (jump_div st + 1)"
  by (subst rebuild_end.simps; simp add: Let_def)+

definition rebuild_bound :: "nat list \<Rightarrow> sorted_state \<Rightarrow> bool" where
  "rebuild_bound xs st \<longleftrightarrow>
     int (length xs) \<le> int (jump_limit st) * jump_div st + 2
     \<or> jump_limit st = 128 \<and> 2 \<le> jump_div st \<and> int (length xs) = 128 * jump_div st + 3"

definition rebuilt :: "nat list \<Rightarrow> sorted_state \<Rightarrow> sorted_state \<Rightarrow> bool" where
  "rebuilt xs st st' \<longleftrightarrow> table_ok xs st' \<and> table_covers xs st' \<and> inserted st' = inserted st
     \<and> (jump_div st' = jump_div st \<or> 256 < length xs)"

lemma rebuild_ok:
  assumes h: "inlist h p xs"
  shows "entries_ok xs st \<Longrightarrow> 1 \<le> start \<Longrightarrow> start \<le> jump_limit st \<Longrightarrow> i < length xs \<Longrightarrow>
    int i = (int start - 1) * jump_div st + jc \<Longrightarrow> 0 \<le> jc \<Longrightarrow> jc \<le> jump_div st \<Longrightarrow> rebuild_bound xs st \<Longrightarrow>
    \<exists>st'. rebuild_end h st start (xs ! i) jc = Some st' \<and> rebuilt xs st st'"
proof (induction "length xs - i" arbitrary: i st start jc rule: less_induct)
  case less
  let ?d = "jump_div st" and ?l = "jump_limit st"
  have d: "0 < ?d" using less.prems(1) by (simp add: entries_ok_def)
  have n: "xs ! i \<noteq> 0" "il_next (h (xs ! i)) = at_pos xs (Suc i)"
    using inlist_nonnull [OF h] inlist_next [OF h] less.prems(4) by simp_all
  have sl: "int start * ?d \<le> int ?l * ?d" using less.prems(3) d by (simp add: mult_right_mono)
  have start: "int start * ?d = (int start - 1) * ?d + ?d" by (simp add: algebra_simps)
  show ?case
  proof (cases "Suc i < length xs")
    case False
    then have "int (length xs) \<le> int ?l * ?d + 1" using less.prems(4-7) sl start by linarith
    then have "rebuilt xs st st"
      using less.prems(1-3) by (simp add: rebuilt_def table_covers_def entries_table)
    moreover have "at_pos xs (Suc i) = 0" using False by (simp add: at_pos_def)
    ultimately show ?thesis using n rebuild_end_step(1) by auto
  next
    case True
    then have m: "il_next (h (xs ! i)) = xs ! Suc i" "xs ! Suc i \<noteq> 0" "length xs - Suc i < length xs - i"
      using n inlist_nonnull [OF h] by (simp_all add: at_pos_def)
    consider "jc \<noteq> ?d" | "jc = ?d" "start < ?l" | "jc = ?d" "start = ?l" "?l \<noteq> EINA_INLIST_JUMP_SIZE"
      | "jc = ?d" "start = ?l" "?l = EINA_INLIST_JUMP_SIZE" using less.prems(3) by linarith
    then show ?thesis
    proof cases
      case 1
      with less.hyps [OF m(3) less.prems(1-3) True, of "jc + 1"] less.prems n m show ?thesis
        by (simp add: rebuild_end_step(2))
    next
      case 2
      then have i: "int i = int start * ?d" using less.prems(5) start by simp
      then have "(jump_table st)[start := xs ! i] = jump_table st"
        using less.prems(1) 2(2) by (metis entries_ok_def list_update_id nat_int)
      then have "rebuild_end h st start (xs ! i) jc = rebuild_end h st (Suc start) (xs ! Suc i) 1"
        using rebuild_end_step(3) [of "xs ! i" h start st] 2 n m by simp
      with less.hyps [OF m(3) less.prems(1) _ _ True, of "Suc start" 1] 2 less.prems i d show ?thesis by simp
    next
      case 3
      let ?st = "st\<lparr>jump_limit := Suc ?l, jump_table := (jump_table st)[?l := xs ! i]\<rparr>"
      have i: "int i = int ?l * ?d" using less.prems(5) start 3 by simp
      have "rebuild_end h st start (xs ! i) jc = rebuild_end h ?st (Suc ?l) (xs ! Suc i) 1"
        using rebuild_end_step(4) [of "xs ! i" h start st] 3 n m by simp
      moreover have "entries_ok xs ?st"
      proof -
        have "nat (int ?l * ?d) = i" using i by (metis nat_int)
        moreover have "?l < EINA_INLIST_JUMP_SIZE" "int ?l * ?d < int (length xs)"
          using less.prems(1,4) 3 i by (auto simp: entries_ok_def)
        ultimately show ?thesis using entries_add [OF less.prems(1)] by simp
      qed
      moreover have "rebuild_bound xs ?st"
        using less.prems(8) d by (auto simp: rebuild_bound_def algebra_simps)
      moreover from less.hyps [OF m(3) calculation(2) _ _ True _ _ _ calculation(3), of "Suc ?l" 1]
      obtain st' where "rebuild_end h ?st (Suc ?l) (xs ! Suc i) 1 = Some st'" "rebuilt xs ?st st'"
        using i d by (auto simp: algebra_simps)
      moreover from this(2) have "rebuilt xs st st'" by (simp add: rebuilt_def)
      ultimately show ?thesis by simp
    next
      case 4
      let ?st = "sorted_state_compact st"
      have i: "int i = 256 * ?d" using less.prems(5) start 4 by (simp add: EINA_INLIST_JUMP_SIZE_def)
      have b: "int (length xs) = int i + 2"
        using less.prems(8) 4 True i by (auto simp: rebuild_bound_def EINA_INLIST_JUMP_SIZE_def)
      then have "at_pos xs (Suc (Suc i)) = 0" by (simp add: at_pos_def)
      then have "il_next (h (xs ! Suc i)) = 0" using inlist_next [OF h True] by simp
      then have "rebuild_end h st start (xs ! i) jc = Some ?st"
        using rebuild_end_step(5) [of "xs ! i" h start st] 4 n m by (simp add: rebuild_end_step(1))
      moreover have "rebuilt xs st ?st"
        using compact_entries [OF less.prems(1)] 4 b i d
        by (auto simp: rebuilt_def entries_table table_covers_def EINA_INLIST_JUMP_SIZE_def)
      ultimately show ?thesis by blast
    qed
  qed
qed

lemma sorted_state_insert_keeps:
  assumes h: "inlist h p (insert_at q x xs)" and t: "table_ok xs st" "table_covers xs st" and q: "q \<le> length xs"
    and a: "\<And>j. j < jump_limit st \<Longrightarrow> (if offset \<noteq> 0 then idx + 1 else idx) \<le> j \<longleftrightarrow> int q \<le> int j * jump_div st"
  shows "\<exists>st'. sorted_state_insert h st idx offset = Some st'
    \<and> rebuilt (insert_at q x xs) (st\<lparr>inserted := inserted st + 1\<rparr>) st'"
proof -
  let ?ys = "insert_at q x xs" and ?a = "if offset \<noteq> 0 then idx + 1 else idx"
  have "\<exists>tab. shift_entries h ?a (st\<lparr>inserted := inserted st + 1\<rparr>) =
        Some (st\<lparr>inserted := inserted st + 1, jump_table := tab\<rparr>)
      \<and> entries_ok ?ys (st\<lparr>inserted := inserted st + 1, jump_table := tab\<rparr>)"
    by (rule shift_entries_ok [OF h _ q]) (use t a in \<open>simp_all add: entries_table entries_ok_def\<close>)
  then obtain tab where
      sh: "shift_entries h ?a (st\<lparr>inserted := inserted st + 1\<rparr>) =
        Some (st\<lparr>inserted := inserted st + 1, jump_table := tab\<rparr>)"
    and e: "entries_ok ?ys (st\<lparr>inserted := inserted st + 1, jump_table := tab\<rparr>)"
    by blast
  let ?st = "st\<lparr>inserted := inserted st + 1, jump_table := tab\<rparr>" and ?s = "jump_limit st - 3"
  have f: "jump_limit ?st = jump_limit st" "jump_div ?st = jump_div st" "0 < jump_limit st" "0 < jump_div st"
    using t(1) by (simp_all add: table_ok_def)
  have s: "?s < jump_limit ?st" using f by simp
  then have l: "jump_table ?st ! ?s = ?ys ! nat (int ?s * jump_div st)" "nat (int ?s * jump_div st) < length ?ys"
      "nth_opt (jump_table ?st) ?s = Some (jump_table ?st ! ?s)"
    using e f by (auto simp: entries_ok_def nth_opt_def nat_less_iff)
  have b: "rebuild_bound ?ys ?st"
    using t(2) insert_at_nth(1) [OF q] f by (auto simp: rebuild_bound_def table_covers_def)
  obtain st' where "rebuild_end h ?st (Suc ?s) (?ys ! nat (int ?s * jump_div st)) 0 = Some st'" "rebuilt ?ys ?st st'"
    using rebuild_ok [OF h e _ _ l(2) _ _ _ b, of "Suc ?s" 0] f s by auto
  moreover have "rebuilt ?ys (st\<lparr>inserted := inserted st + 1\<rparr>) st' = rebuilt ?ys ?st st'"
    by (simp add: rebuilt_def)
  ultimately show ?thesis
    using l f sh by (simp add: sorted_state_insert_def Let_def)
qed

section \<open>The place found\<close>

text \<open>What the two searches tell, in the three cases the code goes on with.\<close>

lemma insertion_place:
  assumes f: "cmp_preorder func" and h: "inlist h p xs" and s: "sorted_by func xs"
    and t: "table_ok xs st" "table_covers xs st"
  obtains (first) ct m where "search_table func st x = Some (0, ct, m)" "0 < m" "ct = xs ! 0" "fits_at func xs x 0"
  | (final) c ct m where "search_table func st x = Some (c, ct, m)" "m < 0" "ct = il_last (h p)"
      "fits_at func xs x (length xs)"
  | (inner) c ct m k m' where "search_table func st x = Some (c, ct, m)" "\<not> (c = 0 \<and> 0 < m)"
      "\<not> (m < 0 \<and> ct = il_last (h p))" "0 \<le> k" "k < int (length xs)"
      "search_nodes func h (jump_div st) (int (length xs)) x (c, ct, m) = Some (k, xs ! nat k, m')"
      "fits_at func xs x (if m' \<le> 0 then Suc (nat k) else nat k)"
proof -
  let ?f = "compare_at func xs x" and ?n = "int (length xs)"
  have u: "signs_up ?f ?n" by (rule compare_signs_up [OF f s])
  obtain c m where r: "search_table func st x = Some (c, xs ! nat (c * jump_div st), m)"
    "splits_at (\<lambda>k. ?f (k * jump_div st)) (int (jump_limit st)) (c, m)"
    using search_table_splits [OF u t(1)] by blast
  then have c: "0 \<le> c" "c < int (jump_limit st)" "m = ?f (c * jump_div st)" by (simp_all add: splits_at_def)
  let ?k = "c * jump_div st"
  have k: "0 \<le> ?k" "?k < ?n" using c t(1) compare_table(2) [OF t(1) c(1,2)] by (simp_all add: table_ok_def)
  obtain k m' where nodes: "search_nodes func h (jump_div st) ?n x (c, xs ! nat ?k, m) = Some (k, xs ! nat k, m')"
    "splits_at ?f ?n (k, m')"
    using search_nodes_splits [OF h u t r(2)] by blast
  consider "c = 0" "0 < m" | "m < 0" "xs ! nat ?k = il_last (h p)"
    | "\<not> (c = 0 \<and> 0 < m)" "\<not> (m < 0 \<and> xs ! nat ?k = il_last (h p))" by blast
  then show thesis
  proof cases
    case 1
    then have "splits_at ?f ?n (0, m)" using k signs_up_ge [OF u] c by (auto simp: splits_at_def)
    from splits_fits [OF u this] first [of "xs ! 0" m] r(1) 1 show thesis by simp
  next
    case 2
    have d: "distinct xs" "xs \<noteq> []" "il_last (h p) = last xs" using h k by (auto simp: inlist_def)
    then have "nat ?k = length xs - 1"
      using 2 k by (metis last_conv_nth nth_eq_iff_index_eq diff_less length_greater_0_conv nat_less_iff zero_less_one)
    then have "?k = ?n - 1" using k d by (auto simp: nat_eq_iff)
    then have "splits_at ?f ?n (?n - 1, m)" using 2 k c by (auto simp: splits_at_def)
    from splits_fits [OF u this] have "fits_at func xs x (Suc (nat (?n - 1)))" using 2 by simp
    moreover have "Suc (nat (?n - 1)) = length xs" using d(2) by (cases xs) auto
    ultimately show thesis using final [of c "xs ! nat ?k" m] r(1) 2 by simp
  next
    case 3
    have "0 \<le> k" "k < ?n" using nodes(2) by (simp_all add: splits_at_def)
    with inner [OF r(1) 3 _ _ nodes(1) splits_fits [OF u nodes(2)]] show thesis by blast
  qed
qed

lemma insert_at_ends: "insert_at 0 x xs = x # xs" "insert_at (length xs) x xs = xs @ [x]"
  by (simp_all add: insert_at_def)

lemma insert_relative_refines:
  assumes h: "inlist h p xs" and x: "x \<noteq> 0" "x \<notin> set xs" and k: "k < length xs"
  shows "\<exists>h' p'. (if m \<le> (0 :: int) then eina_inlist_append_relative h p x (xs ! k)
      else eina_inlist_prepend_relative h p x (xs ! k)) = Some (h', p')
    \<and> inlist h' p' (insert_at (if m \<le> 0 then Suc k else k) x xs) \<and> same_outside (insert x (set xs)) h h'"
proof -
  have "distinct xs" "xs ! k \<in> set xs" using h k by (simp_all add: inlist_def)
  then show ?thesis
    using append_relative_refines [OF h x, of "xs ! k"] prepend_relative_refines [OF h x, of "xs ! k"]
      insert_after_nth [of xs k x] insert_before_nth [of xs k x] k by (cases "m \<le> 0") auto
qed

lemma single_fits:
  assumes f: "cmp_preorder func"
  shows "fits_at func [a] x (if func a x < 0 then Suc 0 else 0)"
  by (auto simp: fits_at_def)

lemma inlist_single:
  assumes "inlist h p xs" "xs \<noteq> []" "il_next (h p) = 0"
  shows "xs = [p]"
  using assms inlist_next [of h p xs 0] inlist_head [of h p xs] at_pos_null [of h p xs 1]
  by (cases xs; cases "tl xs") (auto simp: hd_conv_nth)

section \<open>Insertion without a state\<close>

text \<open>
  \<^verbatim>\<open>eina_inlist_sorted_insert\<close>, with a comparison that orders the nodes up to ties and a
  sorted list, returns: the searches never leave the jump table or the list. The result is a
  well-formed inlist, the old list with the item inserted at one place, and it is sorted.
\<close>

theorem sorted_insert_sorts:
  assumes f: "cmp_preorder func" and h: "inlist h p xs" and s: "sorted_by func xs"
    and x: "x \<noteq> 0" "x \<notin> set xs"
  shows "\<exists>h' p' q. eina_inlist_sorted_insert func h p x = Some (h', p') \<and> inlist h' p' (insert_at q x xs)
    \<and> sorted_by func (insert_at q x xs) \<and> same_outside (insert x (set xs)) h h'"
proof -
  have ok: ?thesis if "eina_inlist_sorted_insert func h p x = r" "fits_at func xs x q"
      "\<exists>h' p'. r = Some (h', p') \<and> inlist h' p' (insert_at q x xs) \<and> same_outside (insert x (set xs)) h h'" for q r
    using that fits_sorted [OF f s that(2)] by blast
  show ?thesis
  proof (cases "xs = []")
    case True
    with h have "p = 0" by simp
    with True h x ok [of "eina_inlist_append h 0 x" 0] append_refines [OF h x] show ?thesis
      by (simp add: eina_inlist_sorted_insert_def fits_at_def insert_at_def)
  next
    case False
    have p: "p \<noteq> 0" using inlist_head [OF h False] by simp
    show ?thesis
    proof (cases "il_next (h p) = 0")
      case True
      have xs: "xs = [p]" by (rule inlist_single [OF h False True])
      show ?thesis
        using ok [OF _ single_fits [OF f, of p x, folded xs]] append_refines [OF h x] prepend_refines [OF h x] x True p
          insert_at_ends(1) [of x xs] insert_at_ends(2) [of xs x] xs
        by (cases "func p x < 0") (auto simp: eina_inlist_sorted_insert_def)
    next
      case many: False
      obtain st where st: "eina_inlist_sorted_state_init h eina_inlist_sorted_state_new p = Some (st, int (length xs))"
        "table_ok xs st" "table_covers xs st" using sorted_state_init_ok [OF h False] by blast
      show ?thesis
      proof (cases rule: insertion_place [OF f h s st(2,3), of x, case_names first final inner])
        case (first ct m)
        have "0 < length xs" using False by simp
        from insert_relative_refines [OF h x this, of 1] first show ?thesis
          using x p many st(1) by (intro ok [OF _ first(4)]) (auto simp: eina_inlist_sorted_insert_def)
      next
        case (final c ct m)
        from append_refines [OF h x] final show ?thesis
          using x p many st(1) insert_at_ends(2) [of xs x]
          by (intro ok [OF _ final(4)]) (auto simp: eina_inlist_sorted_insert_def)
      next
        case (inner c ct m k m')
        have "nat k < length xs" using inner(4,5) by simp
        from insert_relative_refines [OF h x this, of m'] inner show ?thesis
          using x p many st(1) by (intro ok [OF _ inner(7)]) (auto simp: eina_inlist_sorted_insert_def)
      qed
    qed
  qed
qed

theorem sorted_insert_sorts_witness:
  "\<exists>h' p' q. eina_inlist_sorted_insert (\<lambda>a b. int a - int b)
      (\<lambda>q. if q = 12 then \<lparr>il_next = 15, il_prev = 0, il_last = 15\<rparr>
           else \<lparr>il_next = 0, il_prev = 12, il_last = 0\<rparr>) 12 14 = Some (h', p')
    \<and> inlist h' p' (insert_at q 14 [12, 15])"
proof -
  let ?h = "\<lambda>q :: nat. if q = 12 then \<lparr>il_next = 15, il_prev = 0, il_last = 15\<rparr>
    else \<lparr>il_next = 0, il_prev = 12, il_last = 0\<rparr>"
  have "cmp_preorder (\<lambda>a b :: nat. int a - int b)" by unfold_locales auto
  moreover have "inlist ?h 12 [12, 15]" by (simp add: inlist_def)
  ultimately show ?thesis
    using sorted_insert_sorts [of "\<lambda>a b. int a - int b" ?h 12 "[12, 15]" 14]
    by (auto simp: sorted_by_def)
qed

section \<open>Insertion with a state\<close>

text \<open>A state matches a list: the invariant the insertions keep.\<close>

definition state_ok :: "nat list \<Rightarrow> sorted_state \<Rightarrow> bool" where
  "state_ok xs st \<longleftrightarrow> length (jump_table st) = EINA_INLIST_JUMP_SIZE
     \<and> (jump_div st = 1 \<or> 256 < length xs)
     \<and> (xs \<noteq> [] \<longrightarrow> table_ok xs st \<and> table_covers xs st \<and> inserted st = int (length xs))"

lemma new_state_ok: "state_ok [] eina_inlist_sorted_state_new"
  by (simp add: state_ok_def eina_inlist_sorted_state_new_def)

lemma rebuilt_state_ok:
  assumes "state_ok xs st" "xs \<noteq> []" "q \<le> length xs"
    and "rebuilt (insert_at q x xs) (st\<lparr>inserted := inserted st + 1\<rparr>) st'"
  shows "state_ok (insert_at q x xs) st'"
  using assms insert_at_nth(1) [of q xs x]
  by (auto simp: state_ok_def rebuilt_def table_ok_def)

lemma ceiling_place:
  assumes "0 < (d :: int)"
  shows "(if int q mod d \<noteq> 0 then nat (int q div d) + 1 else nat (int q div d)) \<le> j \<longleftrightarrow> int q \<le> int j * d"
proof -
  have q: "int q = int q div d * d + int q mod d" "0 \<le> int q mod d" "int q mod d < d" "0 \<le> int q div d"
    using assms by (simp_all add: pos_imp_zdiv_nonneg_iff)
  have "int q \<le> int j * d \<longleftrightarrow> int q div d + (if int q mod d \<noteq> 0 then 1 else 0) \<le> int j"
  proof (cases "int q div d < int j")
    case True
    then have "(int q div d + 1) * d \<le> int j * d" using assms by (intro mult_right_mono) auto
    then have "int q div d * d + d \<le> int j * d" by (simp add: distrib_right)
    then have "int q \<le> int j * d" using q(1,3) by linarith
    with True show ?thesis by auto
  next
    case False
    then have a: "int j * d \<le> int q div d * d" using assms by (intro mult_right_mono) auto
    have e: "int j * d = int q div d * d \<longleftrightarrow> int j = int q div d" using assms by simp
    show ?thesis
    proof
      assume "int q \<le> int j * d"
      then have "int j * d = int q div d * d" "int q mod d = 0" using a q(1,2) by linarith+
      with e show "int q div d + (if int q mod d \<noteq> 0 then 1 else 0) \<le> int j" by simp
    next
      assume "int q div d + (if int q mod d \<noteq> 0 then 1 else 0) \<le> int j"
      with False have "int j = int q div d" "int q mod d = 0" by (auto split: if_splits)
      then show "int q \<le> int j * d" using q(1) by simp
    qed
  qed
  then show ?thesis using q(4) by (auto simp: nat_le_iff)
qed

lemma state_insert_step:
  assumes f: "cmp_preorder func" and h: "inlist h p xs" and s: "sorted_by func xs"
    and x: "x \<noteq> 0" "x \<notin> set xs" and st: "state_ok xs st"
  shows "\<exists>h' p' st' q. eina_inlist_sorted_state_insert func h p x st = Some (h', p', st') \<and> q \<le> length xs
    \<and> inlist h' p' (insert_at q x xs) \<and> sorted_by func (insert_at q x xs) \<and> state_ok (insert_at q x xs) st'"
proof -
  have ok: ?thesis if "eina_inlist_sorted_state_insert func h p x st = Some (h', p', st')" "fits_at func xs x q"
      "inlist h' p' (insert_at q x xs)" "state_ok (insert_at q x xs) st'" for q h' p' st'
    using that fits_sorted [OF f s that(2)] unfolding fits_at_def by blast
  show ?thesis
  proof (cases "xs = []")
    case True
    with h obtain h' p' where a: "p = 0" "eina_inlist_append h 0 x = Some (h', p')" "inlist h' p' [x]"
      using append_refines [OF h x] by auto
    show ?thesis
      by (rule ok [of h' p' _ 0])
        (use a True st in \<open>auto simp: eina_inlist_sorted_state_insert_def fits_at_def insert_at_def state_ok_def
          table_ok_def table_covers_def EINA_INLIST_JUMP_SIZE_def\<close>)
  next
    case False
    have p: "p \<noteq> 0" using inlist_head [OF h False] by simp
    show ?thesis
    proof (cases "il_next (h p) = 0")
      case True
      have xs: "xs = [p]" by (rule inlist_single [OF h False True])
      have t: "length (jump_table st) = 256" "jump_div st = 1" "jump_table st ! 0 = p"
        using st xs by (auto simp: state_ok_def table_ok_def EINA_INLIST_JUMP_SIZE_def)
      show ?thesis
      proof (cases "func p x < 0")
        case less: True
        obtain h' p' where a: "eina_inlist_append h p x = Some (h', p')" "inlist h' p' [p, x]"
          using append_refines [OF h x] xs by auto
        show ?thesis
          by (rule ok [of h' p' _ "Suc 0"])
            (use a True less p xs t single_fits [OF f, of p x] in \<open>auto simp: eina_inlist_sorted_state_insert_def
              insert_at_def state_ok_def table_ok_def table_covers_def EINA_INLIST_JUMP_SIZE_def less_2_cases_iff\<close>)
      next
        case ge: False
        obtain h' p' where a: "eina_inlist_prepend h p x = Some (h', p')" "inlist h' p' [x, p]"
          using prepend_refines [OF h x] xs by auto
        show ?thesis
          by (rule ok [of h' p' _ 0])
            (use a True ge p xs t single_fits [OF f, of p x] in \<open>auto simp: eina_inlist_sorted_state_insert_def
              insert_at_def state_ok_def table_ok_def table_covers_def EINA_INLIST_JUMP_SIZE_def less_2_cases_iff\<close>)
      qed
    next
      case many: False
      have t: "table_ok xs st" "table_covers xs st" "inserted st = int (length xs)" "0 < jump_div st"
        using st False by (auto simp: state_ok_def table_ok_def)
      have keep: "\<exists>st'. sorted_state_insert h' st idx offset = Some st' \<and> state_ok (insert_at q x xs) st'"
        if "inlist h' p' (insert_at q x xs)" "fits_at func xs x q"
          "\<And>j. j < jump_limit st \<Longrightarrow> (if offset \<noteq> 0 then idx + 1 else idx) \<le> j \<longleftrightarrow> int q \<le> int j * jump_div st"
        for h' p' q idx offset
        using sorted_state_insert_keeps [OF that(1) t(1,2) _ that(3)] rebuilt_state_ok [OF st False] that(2)
        unfolding fits_at_def by blast
      show ?thesis
      proof (cases rule: insertion_place [OF f h s t(1,2), of x, case_names first final inner])
        case (first ct m)
        have "0 < length xs" using False by simp
        from insert_relative_refines [OF h x this, of 1] first obtain h' p' where
          a: "eina_inlist_prepend_relative h p x ct = Some (h', p')" "inlist h' p' (insert_at 0 x xs)" by auto
        from keep [OF a(2) first(4), of 0 0] obtain st' where
          "sorted_state_insert h' st 0 0 = Some st'" "state_ok (insert_at 0 x xs) st'"
          using t(4) by auto
        with a first p many show ?thesis
          by (intro ok [OF _ first(4) a(2)]) (auto simp: eina_inlist_sorted_state_insert_def)
      next
        case (final c ct m)
        from append_refines [OF h x] obtain h' p' where
          a: "eina_inlist_append h p x = Some (h', p')" "inlist h' p' (insert_at (length xs) x xs)"
          by (auto simp: insert_at_def)
        have "int j * jump_div st < int (length xs)" if "j < jump_limit st" for j
          using t(1) that unfolding table_ok_def by blast
        with keep [OF a(2) final(4), of 1 "jump_limit st - 1"] t(1) obtain st' where
          "sorted_state_insert h' st (jump_limit st - 1) 1 = Some st'" "state_ok (insert_at (length xs) x xs) st'"
          by (auto simp: table_ok_def not_le)
        with a final p many show ?thesis
          by (intro ok [OF _ final(4) a(2)]) (auto simp: eina_inlist_sorted_state_insert_def)
      next
        case (inner c ct m k m')
        let ?q = "if m' \<le> 0 then Suc (nat k) else nat k" and ?d = "jump_div st"
        have "nat k < length xs" using inner(4,5) by simp
        from insert_relative_refines [OF h x this, of m'] obtain h' p' where
          a: "(if m' \<le> 0 then eina_inlist_append_relative h p x (xs ! nat k)
               else eina_inlist_prepend_relative h p x (xs ! nat k)) = Some (h', p')"
            "inlist h' p' (insert_at ?q x xs)" by blast
        have q: "int ?q = (if m' \<le> 0 then k + 1 else k)" using inner(4) by simp
        have "(if int ?q mod ?d \<noteq> 0 then nat (int ?q div ?d) + 1 else nat (int ?q div ?d)) \<le> j
            \<longleftrightarrow> int ?q \<le> int j * ?d" for j
          by (rule ceiling_place [OF t(4)])
        from keep [OF a(2) inner(7) this] obtain st' where
          s': "sorted_state_insert h' st (nat (int ?q div ?d)) (int ?q mod ?d) = Some st'"
            "state_ok (insert_at ?q x xs) st'" by blast
        have "eina_inlist_sorted_state_insert func h p x st = Some (h', p', st')"
          using p many inner(1-3,6) a(1) s'(1) t(3) unfolding q eina_inlist_sorted_state_insert_def
          by (auto simp: Let_def)
        then show ?thesis by (rule ok [OF _ inner(7) a(2) s'(2)])
      qed
    qed
  qed
qed

text \<open>A client inserts nodes one after the other.\<close>

fun insert_all :: "compare_cb \<Rightarrow> inheap \<times> nat \<times> sorted_state \<Rightarrow> nat list \<Rightarrow> (inheap \<times> nat \<times> sorted_state) option" where
  "insert_all func s [] = Some s"
| "insert_all func (h, l, st) (x # xs) =
     do { s \<leftarrow> eina_inlist_sorted_state_insert func h l x st; insert_all func s xs }"

lemma mset_insert_at [simp]: "mset (insert_at q x xs) = add_mset x (mset xs)"
proof -
  have "mset (insert_at q x xs) = add_mset x (mset (take q xs) + mset (drop q xs))"
    by (simp add: insert_at_def)
  also have "mset (take q xs) + mset (drop q xs) = mset xs"
    by (metis append_take_drop_id mset_append)
  finally show ?thesis .
qed

lemma set_insert_at [simp]: "set (insert_at q x xs) = insert x (set xs)"
  by (metis mset_insert_at set_mset_add_mset_insert set_mset_mset)

lemma insert_all_ok:
  assumes f: "cmp_preorder func"
  shows "inlist h p xs \<Longrightarrow> sorted_by func xs \<Longrightarrow> state_ok xs st \<Longrightarrow> distinct ns \<Longrightarrow> 0 \<notin> set ns
    \<Longrightarrow> set ns \<inter> set xs = {} \<Longrightarrow>
    \<exists>h' p' st' ys. insert_all func (h, p, st) ns = Some (h', p', st') \<and> inlist h' p' ys
      \<and> mset ys = mset xs + mset ns \<and> sorted_by func ys \<and> state_ok ys st'"
proof (induction ns arbitrary: h p xs st)
  case (Cons n ns)
  then have "n \<noteq> 0" "n \<notin> set xs" by auto
  from state_insert_step [OF f Cons.prems(1,2) this Cons.prems(3)] obtain h1 p1 st1 q where
    s: "eina_inlist_sorted_state_insert func h p n st = Some (h1, p1, st1)" "inlist h1 p1 (insert_at q n xs)"
      "sorted_by func (insert_at q n xs)" "state_ok (insert_at q n xs) st1" by blast
  from Cons.IH [OF s(2-4)] Cons.prems obtain h' p' st' ys where
    "insert_all func (h1, p1, st1) ns = Some (h', p', st')" "inlist h' p' ys"
    "mset ys = mset (insert_at q n xs) + mset ns" "sorted_by func ys" "state_ok ys st'" by auto
  with s(1) show ?case by auto
qed auto

text \<open>
  C34: Inserting any number of nodes one after the other with
  \<^verbatim>\<open>eina_inlist_sorted_state_insert\<close>, from an empty list and a fresh state, returns: no search
  leaves the table or the list, however often the table has been halved. The result is a sorted
  well-formed inlist of the nodes, and the state matches it: every entry of the jump table points
  to the node at its multiple of \<^verbatim>\<open>jump_div\<close>, and \<^verbatim>\<open>inserted\<close> is the number of nodes.
\<close>

theorem state_insertions_sort:
  assumes "cmp_preorder func" "distinct ns" "0 \<notin> set ns"
  shows "\<exists>h' p' st ys. insert_all func (h, 0, eina_inlist_sorted_state_new) ns = Some (h', p', st)
    \<and> inlist h' p' ys \<and> mset ys = mset ns \<and> sorted_by func ys \<and> state_ok ys st"
  using insert_all_ok [OF assms(1) _ _ new_state_ok assms(2,3), of h 0] by (simp add: sorted_by_def)

theorem state_insertions_sort_witness:
  "\<exists>h' p' st ys. insert_all (\<lambda>a b. int a - int b) (\<lambda>q. \<lparr>il_next = 0, il_prev = 0, il_last = 0\<rparr>, 0,
      eina_inlist_sorted_state_new) [7, 3, 5] = Some (h', p', st)
    \<and> inlist h' p' ys \<and> mset ys = {#3, 5, 7#} \<and> state_ok ys st"
proof -
  have "cmp_preorder (\<lambda>a b :: nat. int a - int b)" by unfold_locales auto
  from state_insertions_sort [OF this, of "[7, 3, 5]"] show ?thesis
    by (fastforce simp: add_mset_commute)
qed

section \<open>States that do not match\<close>

text \<open>The nodes a client sees after an insertion from a given state.\<close>

definition nodes_after :: "(inheap \<times> nat \<times> sorted_state) option \<Rightarrow> nat list option" where
  "nodes_after r = do { (h, l, st) \<leftarrow> r; inlist_foreach h (eina_inlist_iterator_new l) }"

definition init_and_insert :: "inheap \<Rightarrow> nat \<Rightarrow> nat \<Rightarrow> sorted_state \<Rightarrow> nat list option" where
  "init_and_insert h l item st =
     do { (st, n) \<leftarrow> eina_inlist_sorted_state_init h st l;
          nodes_after (eina_inlist_sorted_state_insert (\<lambda>a b. int a - int b) h l item st) }"

text \<open>
  \<^verbatim>\<open>eina_inlist_sorted_state_init\<close> is documented to force a state to match a list, but it
  adds to the table the state has: for a state with two entries of nodes that have left the list
  it keeps them, and the next insertion starts from one of them and follows its links out of the
  list, to a null pointer. A fresh state gives the insertion at the right place.
\<close>

theorem state_init_keeps_stale:
  "let h = (\<lambda>q. if q = 5 then \<lparr>il_next = 6, il_prev = 0, il_last = 7\<rparr>
           else if q = 6 then \<lparr>il_next = 7, il_prev = 5, il_last = 0\<rparr>
           else if q = 7 then \<lparr>il_next = 0, il_prev = 6, il_last = 0\<rparr>
           else \<lparr>il_next = 0, il_prev = 0, il_last = 0\<rparr>);
       stale = eina_inlist_sorted_state_new\<lparr>jump_table := [1, 2] @ replicate 254 0, jump_limit := 2, inserted := 2\<rparr>
   in inlist h 5 [5, 6, 7]
      \<and> map_option (\<lambda>(st, n). take 5 (jump_table st)) (eina_inlist_sorted_state_init h stale 5) = Some [1, 2, 5, 6, 7]
      \<and> init_and_insert h 5 4 stale = None
      \<and> init_and_insert h 5 4 eina_inlist_sorted_state_new = Some [4, 5, 6, 7]"
  by code_simp

lemma halved_after: "state_ok xs st \<Longrightarrow> 257 < length xs \<Longrightarrow> 2 \<le> jump_div st"
proof (rule ccontr)
  assume a: "state_ok xs st" "257 < length xs" "\<not> 2 \<le> jump_div st"
  then have "table_ok xs st" "table_covers xs st" by (auto simp: state_ok_def)
  with a(3) have "jump_div st = 1" "jump_limit st \<le> 256" by (auto simp: table_ok_def EINA_INLIST_JUMP_SIZE_def)
  with a(2) \<open>table_covers xs st\<close> show False by (simp add: table_covers_def)
qed

text \<open>
  A state whose table has been halved, as it is after 258 insertions (\<open>halved_after\<close>), cannot be
  used again for an empty list: insertion into the empty list resets the number of entries but
  not \<^verbatim>\<open>jump_div\<close>, the two-node case stores the second node as the entry for position
  \<^verbatim>\<open>jump_div\<close>, and the third insertion walks past the first node to a null pointer. With
  \<^verbatim>\<open>jump_div\<close> 1 the same insertions give the sorted list.
\<close>

theorem halved_state_not_reusable:
  "let run = (\<lambda>d. nodes_after (insert_all (\<lambda>a b. int a - int b)
         (\<lambda>q. \<lparr>il_next = 0, il_prev = 0, il_last = 0\<rparr>, 0, eina_inlist_sorted_state_new\<lparr>jump_div := d\<rparr>) [1, 3, 2]))
   in run 2 = None \<and> run 1 = Some [1, 2, 3]"
  by code_simp

end
