(* ===== verification/Eina_Array.thy ===== *)
theory Eina_Array
  imports Efl_Prelude
begin

text \<open>
  The growing arrays of pointers of eina (\<^verbatim>\<open>src/src/lib/eina/eina_array.c\<close> and
  \<^verbatim>\<open>eina_inline_array.x\<close>). A pointer is a number, \<open>0\<close> is null. \<open>data\<close> holds exactly the
  slots allocated; \<open>None\<close> as a result is an access outside them. Each allocation takes an
  \<open>allocation\<close>: whether it succeeds, and what the new slots hold before they are written.
\<close>

section \<open>Arrays\<close>

type_synonym voidp = nat

record eina_array =
  ar_data :: "voidp list option"
  ar_total :: u32
  ar_count :: u32
  ar_step :: u32

type_synonym allocation = "bool \<times> (nat \<Rightarrow> voidp)"

definition array_realloc :: "allocation \<Rightarrow> voidp list option \<Rightarrow> u32 \<Rightarrow> voidp list option" where
  "array_realloc al data n =
     (if fst al
      then let old = (case data of None \<Rightarrow> [] | Some d \<Rightarrow> d)
           in Some (take (unat n) old @ map (snd al) [length old..<unat n])
      else None)"

definition eina_array_new :: "u32 \<Rightarrow> eina_array" where
  "eina_array_new step = \<lparr>ar_data = None, ar_total = 0, ar_count = 0, ar_step = step\<rparr>"

text \<open>An unknown size of the structure leaves a zeroed array.\<close>

definition eina_array_step_set :: "u32 \<Rightarrow> u32 \<Rightarrow> u32 \<Rightarrow> eina_array" where
  "eina_array_step_set sizeof_Eina_Array sizeof_eina_array step =
     (if sizeof_Eina_Array \<noteq> sizeof_eina_array
      then \<lparr>ar_data = None, ar_total = 0, ar_count = 0, ar_step = 0\<rparr>
      else \<lparr>ar_data = None, ar_total = 0, ar_count = 0, ar_step = step\<rparr>)"

definition eina_array_flush :: "eina_array \<Rightarrow> eina_array" where
  "eina_array_flush a = a\<lparr>ar_count := 0, ar_total := 0, ar_data := None\<rparr>"

definition eina_array_clean :: "eina_array \<Rightarrow> eina_array" where
  "eina_array_clean a = a\<lparr>ar_count := 0\<rparr>"

definition eina_array_count :: "eina_array \<Rightarrow> u32" where
  "eina_array_count a = ar_count a"

definition eina_array_count_get :: "eina_array \<Rightarrow> u32" where
  "eina_array_count_get a = ar_count a"

section \<open>Elements\<close>

definition eina_array_data_get :: "eina_array \<Rightarrow> u32 \<Rightarrow> voidp option" where
  "eina_array_data_get a idx = do { d \<leftarrow> ar_data a; nth_opt d (unat idx) }"

definition eina_array_data_set :: "eina_array \<Rightarrow> u32 \<Rightarrow> voidp \<Rightarrow> eina_array option" where
  "eina_array_data_set a idx data =
     do { d \<leftarrow> ar_data a;
          if unat idx < length d then Some (a\<lparr>ar_data := Some (d[unat idx := data])\<rparr>) else None }"

definition eina_array_grow :: "allocation \<Rightarrow> eina_array \<Rightarrow> bool \<times> eina_array" where
  "eina_array_grow al a =
     (let total = ar_total a + ar_step a in
      case array_realloc al (ar_data a) total of
        None \<Rightarrow> (False, a)
      | Some tmp \<Rightarrow> (True, a\<lparr>ar_total := total, ar_data := Some tmp\<rparr>))"

text \<open>\<^verbatim>\<open>do_grow_back\<close>: the element goes to the slot behind the last.\<close>

definition array_put :: "eina_array \<Rightarrow> voidp \<Rightarrow> (bool \<times> eina_array) option" where
  "array_put a data =
     do { a \<leftarrow> eina_array_data_set a (ar_count a) data;
          Some (True, a\<lparr>ar_count := ar_count a + 1\<rparr>) }"

definition eina_array_push :: "allocation \<Rightarrow> eina_array \<Rightarrow> voidp \<Rightarrow> (bool \<times> eina_array) option" where
  "eina_array_push al a data =
     (if data \<noteq> 0 then
        if ar_count a + 1 > ar_total a then
          let (ok, a) = eina_array_grow al a
          in if ok then array_put a data else Some (False, a)
        else array_put a data
      else Some (False, a))"

definition eina_array_pop :: "eina_array \<Rightarrow> (voidp \<times> eina_array) option" where
  "eina_array_pop a =
     (if ar_count a > 0 then
        let a = a\<lparr>ar_count := ar_count a - 1\<rparr>
        in do { x \<leftarrow> eina_array_data_get a (ar_count a); Some (x, a) }
      else Some (0, a))"

section \<open>Removal by a predicate\<close>

text \<open>The loop over the slots \<open>i, i + 1, \<dots>, i + n - 1\<close>, writing from slot \<open>j\<close> on.\<close>

fun array_keep_loop :: "(voidp \<Rightarrow> bool) \<Rightarrow> voidp list \<Rightarrow> nat \<Rightarrow> nat \<Rightarrow> nat \<Rightarrow> (voidp list \<times> nat) option" where
  "array_keep_loop keep tmp j i 0 = Some (tmp, j)"
| "array_keep_loop keep tmp j i (Suc n) =
     do { data \<leftarrow> nth_opt tmp i;
          if keep data then array_keep_loop keep (tmp[j := data]) (j + 1) (i + 1) n
          else array_keep_loop keep tmp j (i + 1) n }"

text \<open>
  \<open>keep\<close> says whether the callback returns \<^verbatim>\<open>EINA_TRUE\<close>; a step of 0 divides by zero where
  the array is made smaller.
\<close>

definition eina_array_remove ::
  "allocation \<Rightarrow> (voidp \<Rightarrow> bool) \<Rightarrow> eina_array \<Rightarrow> (bool \<times> eina_array) option" where
  "eina_array_remove al keep a =
     (if ar_total a = 0 then Some (True, a)
      else do {
        d \<leftarrow> ar_data a;
        (tmp, j) \<leftarrow> array_keep_loop keep d 0 0 (unat (ar_count a));
        let a = a\<lparr>ar_data := Some tmp, ar_count := of_nat j\<rparr>;
        if ar_total a - ar_count a \<ge> ar_step a then
          if ar_count a = 0 then Some (True, a\<lparr>ar_total := 0, ar_data := None\<rparr>)
          else if ar_step a = 0 then None
          else
            let size = (ar_count a div ar_step a + (if ar_count a mod ar_step a \<noteq> 0 then 1 else 0)) * ar_step a in
            (case array_realloc al (ar_data a) size of
               None \<Rightarrow> Some (False, a)
             | Some tmp \<Rightarrow> Some (True, a\<lparr>ar_total := size, ar_data := Some tmp\<rparr>))
        else Some (True, a) })"

section \<open>Walks\<close>

text \<open>
  \<^verbatim>\<open>EINA_ARRAY_ITER_NEXT\<close> visits slots from \<open>i\<close> on, and stops at a null element; the callback
  answers whether to go on.
\<close>

fun array_foreach_loop :: "('s \<Rightarrow> voidp \<Rightarrow> bool \<times> 's) \<Rightarrow> eina_array \<Rightarrow> nat \<Rightarrow> nat \<Rightarrow> 's \<Rightarrow> (bool \<times> 's) option" where
  "array_foreach_loop cb a i 0 s = Some (True, s)"
| "array_foreach_loop cb a i (Suc n) s =
     do { data \<leftarrow> eina_array_data_get a (of_nat i);
          if data = 0 then Some (True, s)
          else let (go, s) = cb s data
               in if go then array_foreach_loop cb a (i + 1) n s else Some (False, s) }"

definition eina_array_foreach :: "('s \<Rightarrow> voidp \<Rightarrow> bool \<times> 's) \<Rightarrow> eina_array \<Rightarrow> 's \<Rightarrow> (bool \<times> 's) option" where
  "eina_array_foreach cb a s = array_foreach_loop cb a 0 (unat (eina_array_count a)) s"

record iterator_array =
  ia_array :: eina_array
  ia_index :: u32

definition eina_array_iterator_new :: "eina_array \<Rightarrow> iterator_array" where
  "eina_array_iterator_new a = \<lparr>ia_array = a, ia_index = 0\<rparr>"

text \<open>The inner \<open>None\<close> is the answer \<^verbatim>\<open>EINA_FALSE\<close>.\<close>

definition eina_array_iterator_next :: "iterator_array \<Rightarrow> (voidp \<times> iterator_array) option option" where
  "eina_array_iterator_next it =
     (if \<not> ia_index it < eina_array_count (ia_array it) then Some None
      else do { x \<leftarrow> eina_array_data_get (ia_array it) (ia_index it);
                Some (Some (x, it\<lparr>ia_index := ia_index it + 1\<rparr>)) })"

definition eina_array_accessor_get_at :: "eina_array \<Rightarrow> u32 \<Rightarrow> voidp option option" where
  "eina_array_accessor_get_at a idx =
     (if \<not> idx < eina_array_count a then Some None
      else do { x \<leftarrow> eina_array_data_get a idx; Some (Some x) })"

section \<open>What an array holds\<close>

definition array_list :: "eina_array \<Rightarrow> voidp list" where
  "array_list a = (case ar_data a of None \<Rightarrow> [] | Some d \<Rightarrow> take (unat (ar_count a)) d)"

text \<open>
  The slots allocated are \<open>total\<close>, a multiple of the step, and the elements fill the first
  \<open>count\<close> of them.
\<close>

definition array_ok :: "eina_array \<Rightarrow> bool" where
  "array_ok a \<longleftrightarrow> 0 < unat (ar_step a) \<and> ar_count a \<le> ar_total a \<and> unat (ar_step a) dvd unat (ar_total a)
     \<and> (case ar_data a of None \<Rightarrow> ar_total a = 0 | Some d \<Rightarrow> length d = unat (ar_total a))"

lemma array_ok_length: "array_ok a \<Longrightarrow> length (array_list a) = unat (ar_count a)"
  by (auto simp: array_ok_def array_list_def word_le_nat_alt split: option.splits)

lemma array_new_ok: "step \<noteq> 0 \<Longrightarrow> array_ok (eina_array_new step) \<and> array_list (eina_array_new step) = []"
  by (simp add: array_ok_def array_list_def eina_array_new_def unat_gt_0)

lemma array_flush_ok: "array_ok a \<Longrightarrow> array_ok (eina_array_flush a) \<and> array_list (eina_array_flush a) = []"
  by (simp add: array_ok_def array_list_def eina_array_flush_def)

lemma array_clean_ok: "array_ok a \<Longrightarrow> array_ok (eina_array_clean a) \<and> array_list (eina_array_clean a) = []"
  by (auto simp: array_ok_def array_list_def eina_array_clean_def split: option.splits)

lemma array_data_get_ok:
  "array_ok a \<Longrightarrow> unat idx < unat (ar_count a) \<Longrightarrow> eina_array_data_get a idx = Some (array_list a ! unat idx)"
  by (auto simp: array_ok_def array_list_def eina_array_data_get_def nth_opt_def word_le_nat_alt split: option.splits)

lemma array_data_set_ok:
  "array_ok a \<Longrightarrow> unat idx < unat (ar_count a) \<Longrightarrow>
     \<exists>a'. eina_array_data_set a idx x = Some a' \<and> array_ok a' \<and> array_list a' = (array_list a)[unat idx := x]
       \<and> ar_step a' = ar_step a"
  by (auto simp: array_ok_def array_list_def eina_array_data_set_def word_le_nat_alt take_update_swap
      split: option.splits)

lemma array_pop_ok:
  assumes "array_ok a"
  shows "\<exists>a'. eina_array_pop a = Some (if array_list a = [] then 0 else last (array_list a), a') \<and> array_ok a'
    \<and> array_list a' = butlast (array_list a) \<and> ar_step a' = ar_step a"
proof (cases "ar_count a = 0")
  case True
  with array_ok_length [OF assms] assms show ?thesis by (simp add: eina_array_pop_def)
next
  case False
  then obtain n where n: "unat (ar_count a) = Suc n" by (metis not0_implies_Suc unat_eq_zero)
  then have m: "unat (ar_count a - 1) = n" by (metis False diff_Suc_1 unat_minus_one)
  let ?a = "a\<lparr>ar_count := ar_count a - 1\<rparr>"
  obtain d where d: "ar_data a = Some d" "Suc n \<le> length d" "length d = unat (ar_total a)"
    using assms n by (auto simp: array_ok_def word_le_nat_alt split: option.splits)
  have "array_ok ?a" using assms d m n by (auto simp: array_ok_def word_le_nat_alt)
  moreover have "eina_array_data_get ?a (ar_count a - 1) = Some (last (array_list a))"
    using d m n by (simp add: eina_array_data_get_def nth_opt_def array_list_def take_Suc_conv_app_nth)
  moreover have "array_list ?a = butlast (array_list a)"
    using d m n by (simp add: array_list_def butlast_take)
  moreover have "array_list a \<noteq> []" using array_ok_length [OF assms] n by auto
  ultimately show ?thesis using False by (simp add: eina_array_pop_def word_gt_0 Let_def)
qed

lemma unat_of_nat_below: "n < 2 ^ 32 \<Longrightarrow> unat (of_nat n :: u32) = n"
  by (simp add: unat_of_nat)

lemma array_grow_ok:
  assumes "array_ok a" "unat (ar_total a) + unat (ar_step a) < 2 ^ 32"
  shows "\<exists>ok a'. eina_array_grow al a = (ok, a') \<and> ok = fst al \<and> array_ok a' \<and> array_list a' = array_list a
    \<and> ar_step a' = ar_step a \<and> ar_count a' = ar_count a
    \<and> unat (ar_total a') = unat (ar_total a) + (if ok then unat (ar_step a) else 0)"
proof (cases "fst al")
  case True
  let ?t = "ar_total a + ar_step a"
  have t: "unat ?t = unat (ar_total a) + unat (ar_step a)"
    using assms(2) by (simp add: unat_word_ariths)
  obtain d where d: "array_realloc al (ar_data a) ?t = Some (d)" "length d = unat ?t"
      "take (unat (ar_count a)) d = array_list a"
    using assms(1) True t
    by (auto simp: array_realloc_def array_ok_def array_list_def word_le_nat_alt split: option.splits)
  have "array_ok (a\<lparr>ar_total := ?t, ar_data := Some d\<rparr>)"
    using assms(1) t d by (auto simp: array_ok_def word_le_nat_alt)
  with d True t show ?thesis by (auto simp: eina_array_grow_def array_list_def Let_def)
next
  case False
  with assms show ?thesis by (auto simp: eina_array_grow_def array_realloc_def)
qed

lemma array_push_ok:
  assumes a: "array_ok a" and b: "unat (ar_count a) + unat (ar_step a) < 2 ^ 32"
  shows "\<exists>r a'. eina_array_push al a x = Some (r, a') \<and> array_ok a' \<and> ar_step a' = ar_step a
    \<and> array_list a' = (if r then array_list a @ [x] else array_list a) \<and> (r \<longrightarrow> x \<noteq> 0) \<and> (x \<noteq> 0 \<and> fst al \<longrightarrow> r)
    \<and> (unat (ar_total a') = unat (ar_total a) \<or> unat (ar_total a') = unat (ar_count a) + unat (ar_step a))"
proof (cases "x = 0")
  case True
  with a show ?thesis by (auto simp: eina_array_push_def)
next
  case x: False
  have s: "0 < unat (ar_step a)" "unat (ar_count a) \<le> unat (ar_total a)" using a by (auto simp: array_ok_def word_le_nat_alt)
  have c: "unat (ar_count a + 1) = Suc (unat (ar_count a))" using b s(1) by (simp add: unat_word_ariths)
  have put: "\<exists>a'. array_put b x = Some (True, a') \<and> array_ok a' \<and> ar_step a' = ar_step b
      \<and> ar_total a' = ar_total b \<and> array_list a' = array_list b @ [x]"
    if ok: "array_ok b" and r: "ar_count b = ar_count a" "unat (ar_count a) < unat (ar_total b)" for b
  proof -
    obtain d where d: "ar_data b = Some d" "length d = unat (ar_total b)"
      using ok r by (auto simp: array_ok_def split: option.splits)
    have "take (Suc (unat (ar_count a))) (d[unat (ar_count a) := x]) = take (unat (ar_count a)) d @ [x]"
      using d r by (simp add: take_Suc_conv_app_nth)
    then show ?thesis using ok r d c
      by (auto simp: array_put_def eina_array_data_set_def array_ok_def array_list_def word_le_nat_alt)
  qed
  show ?thesis
  proof (cases "ar_count a + 1 > ar_total a")
    case False
    then have "unat (ar_count a) < unat (ar_total a)" using c by (simp add: word_less_nat_alt)
    from put [OF a refl this] obtain a' where "array_put a x = Some (True, a')" "array_ok a'"
      "ar_step a' = ar_step a" "ar_total a' = ar_total a" "array_list a' = array_list a @ [x]" by blast
    with False x show ?thesis
      by (intro exI [of _ True] exI [of _ a']) (simp add: eina_array_push_def)
  next
    case True
    then have t: "unat (ar_total a) = unat (ar_count a)" using c s by (simp add: word_less_nat_alt)
    obtain ok a' where g: "eina_array_grow al a = (ok, a')" "ok = fst al" "array_ok a'" "array_list a' = array_list a"
      "ar_step a' = ar_step a" "ar_count a' = ar_count a"
      "unat (ar_total a') = unat (ar_total a) + (if ok then unat (ar_step a) else 0)"
      using array_grow_ok [OF a, of al] b t by auto
    show ?thesis
    proof (cases ok)
      case False
      with g True x show ?thesis
        by (intro exI [of _ False] exI [of _ a']) (simp add: eina_array_push_def)
    next
      case ok: True
      with g t s have "unat (ar_count a) < unat (ar_total a')" by simp
      from put [OF g(3,6) this] obtain a'' where "array_put a' x = Some (True, a'')" "array_ok a''"
        "ar_step a'' = ar_step a'" "ar_total a'' = ar_total a'" "array_list a'' = array_list a' @ [x]" by blast
      with g t x ok True show ?thesis
        by (intro exI [of _ True] exI [of _ a'']) (simp add: eina_array_push_def)
    qed
  qed
qed

section \<open>Removal\<close>

lemma keep_loop_filters:
  "j \<le> i \<Longrightarrow> i + n \<le> length tmp \<Longrightarrow>
    \<exists>tmp' j'. array_keep_loop keep tmp j i n = Some (tmp', j') \<and> length tmp' = length tmp \<and> j' \<le> i + n
      \<and> take j' tmp' = take j tmp @ filter keep (take n (drop i tmp))"
proof (induction n arbitrary: tmp i j)
  case (Suc n)
  have n: "nth_opt tmp i = Some (tmp ! i)" using Suc.prems by (simp add: nth_opt_def)
  have t: "take (Suc n) (drop i tmp) = tmp ! i # take n (drop (Suc i) tmp)"
    using Suc.prems by (simp add: Cons_nth_drop_Suc [symmetric])
  show ?case
  proof (cases "keep (tmp ! i)")
    case True
    let ?tmp = "tmp[j := tmp ! i]"
    have "take (Suc j) ?tmp = take j tmp @ [tmp ! i]" using Suc.prems by (simp add: take_Suc_conv_app_nth)
    moreover have "drop (Suc i) ?tmp = drop (Suc i) tmp" using Suc.prems by (simp add: drop_update_cancel)
    ultimately show ?thesis using Suc.IH [of "Suc j" "Suc i" ?tmp] Suc.prems True n t by simp
  next
    case False
    then show ?thesis using Suc.IH [of j "Suc i" tmp] Suc.prems n t by simp
  qed
qed simp

lemma round_up:
  fixes c s t :: nat
  assumes "0 < s" "c \<le> t" "s dvd t"
  defines "n \<equiv> (c div s + (if c mod s \<noteq> 0 then 1 else 0)) * s"
  shows "c \<le> n" "n < c + s" "n \<le> t"
proof -
  have c: "c = c div s * s + c mod s" "c mod s < s" using assms(1) by simp_all
  have n: "n = c div s * s + (if c mod s \<noteq> 0 then s else 0)" by (simp add: n_def distrib_right)
  show "c \<le> n" "n < c + s" using c unfolding n by (cases "c mod s = 0"; simp; linarith)+
  obtain k where k: "t = s * k" using assms(3) by blast
  have "c div s + (if c mod s \<noteq> 0 then 1 else 0) \<le> k"
  proof (cases "c mod s = 0")
    case True
    then show ?thesis using assms(1,2) k by (metis Nat.add_0_right div_le_mono nonzero_mult_div_cancel_left less_numeral_extra(3))
  next
    case False
    then have "c div s * s < s * k" using c(1) assms(2) k by linarith
    then have "c div s < k" by (metis mult.commute nat_mult_less_cancel_disj)
    with False show ?thesis by simp
  qed
  then show "n \<le> t" unfolding n_def k by (metis mult.commute mult_le_mono1)
qed

lemma array_remove_ok:
  assumes a: "array_ok a"
  shows "\<exists>r a'. eina_array_remove al keep a = Some (r, a') \<and> array_ok a' \<and> array_list a' = filter keep (array_list a)
    \<and> (r \<longrightarrow> unat (ar_total a') - unat (ar_count a') < unat (ar_step a)) \<and> (fst al \<longrightarrow> r)
    \<and> ar_step a' = ar_step a \<and> ar_total a' \<le> ar_total a"
proof (cases "ar_total a = 0")
  case True
  then have "ar_count a = 0" using a by (simp add: array_ok_def)
  with True a array_ok_length [OF a] show ?thesis by (auto simp: eina_array_remove_def array_ok_def)
next
  case False
  let ?c = "unat (ar_count a)" and ?s = "unat (ar_step a)" and ?t = "unat (ar_total a)"
  obtain d where d: "ar_data a = Some d" "length d = ?t" "?c \<le> ?t" "0 < ?s" "?s dvd ?t"
    using a False by (auto simp: array_ok_def word_le_nat_alt split: option.splits)
  from keep_loop_filters [of 0 0 ?c d keep] d obtain tmp j where
    k: "array_keep_loop keep d 0 0 ?c = Some (tmp, j)" "length tmp = ?t" "j \<le> ?c"
      "take j tmp = filter keep (take ?c d)" by auto
  have l: "array_list a = take ?c d" using d by (simp add: array_list_def)
  have lt: "?t < 2 ^ 32" using unsigned_less [of "ar_total a"] by simp
  have j: "unat (of_nat j :: u32) = j" using k(3) d(3) lt by (simp add: unat_of_nat_below)
  let ?a = "a\<lparr>ar_data := Some tmp, ar_count := of_nat j\<rparr>"
  have ok: "array_ok ?a" "array_list ?a = filter keep (array_list a)"
    using a d k j l by (auto simp: array_ok_def array_list_def word_le_nat_alt)
  have diff: "unat (ar_total a - of_nat j) = ?t - j"
    using j k(3) d(3) by (subst unat_sub) (simp_all add: word_le_nat_alt)
  have start: "eina_array_remove al keep a =
      (if ar_total a - of_nat j \<ge> ar_step a then
         if (of_nat j :: u32) = 0 then Some (True, ?a\<lparr>ar_total := 0, ar_data := None\<rparr>)
         else if ar_step a = 0 then None
         else let size = (of_nat j div ar_step a + (if of_nat j mod ar_step a \<noteq> 0 then 1 else 0)) * ar_step a in
           (case array_realloc al (Some tmp) size of None \<Rightarrow> Some (False, ?a)
            | Some tmp \<Rightarrow> Some (True, ?a\<lparr>ar_total := size, ar_data := Some tmp\<rparr>))
       else Some (True, ?a))"
    using False d(1) k(1) by (simp add: eina_array_remove_def Let_def)
  show ?thesis
  proof (cases "ar_total a - of_nat j \<ge> ar_step a")
    case f: False
    then have "?t - j < ?s" using diff by (simp add: word_le_nat_alt)
    with f ok j show ?thesis unfolding start by auto
  next
    case t: True
    show ?thesis
    proof (cases "j = 0")
      case True
      let ?b = "?a\<lparr>ar_total := 0, ar_data := None\<rparr>"
      have "eina_array_remove al keep a = Some (True, ?b)" using t True unfolding start by simp
      moreover have "array_ok ?b" "array_list ?b = filter keep (array_list a)"
        using True ok(2) d(4) by (simp_all add: array_ok_def array_list_def)
      ultimately show ?thesis using d(4) by (intro exI [of _ True] exI [of _ ?b]) simp
    next
      case False
      let ?n = "(j div ?s + (if j mod ?s \<noteq> 0 then 1 else 0)) * ?s"
      let ?size = "(of_nat j div ar_step a + (if of_nat j mod ar_step a \<noteq> 0 then 1 else 0)) * ar_step a :: u32"
      have n: "j \<le> ?n" "?n < j + ?s" "?n \<le> ?t" using round_up [OF d(4) _ d(5), of j] k(3) d(3) by simp_all
      have sz: "?size = of_nat ?n"
      proof -
        have e1: "of_nat j div ar_step a = (of_nat (j div ?s) :: u32)"
          using word_arith_nat_div [of "of_nat j" "ar_step a"] j by simp
        have e2: "of_nat j mod ar_step a = (of_nat (j mod ?s) :: u32)"
          using word_arith_nat_mod [of "of_nat j" "ar_step a"] j by simp
        have e3: "(of_nat (j mod ?s) :: u32) = 0 \<longleftrightarrow> j mod ?s = 0"
        proof -
          have "?s < 2 ^ 32" using unsigned_less [where ?'a = nat and ?'b = 32, of "ar_step a"] by simp
          then have "j mod ?s < 2 ^ 32" by (rule order.strict_trans [OF mod_less_divisor [OF d(4)]])
          from unat_of_nat_below [OF this] show ?thesis by (simp only: unat_eq_zero [symmetric])
        qed
        have e4: "(of_nat ?s :: u32) = ar_step a" by simp
        show ?thesis
          unfolding e1 e2 e3 of_nat_mult of_nat_add e4 by (cases "j mod ?s = 0") simp_all
      qed
      have u: "unat ?size = ?n" unfolding sz by (rule unat_of_nat_below) (use n(3) lt in linarith)
      have nz: "(of_nat j :: u32) \<noteq> 0" "ar_step a \<noteq> 0" using False j d(4) by auto
      show ?thesis
      proof (cases "fst al")
        case False
        with t nz ok j show ?thesis unfolding start by (auto simp: array_realloc_def Let_def)
      next
        case True
        have re: "array_realloc al (Some tmp) ?size = Some (take ?n tmp)"
          using True u n(3) k(2) by (simp add: array_realloc_def)
        let ?b = "?a\<lparr>ar_total := ?size, ar_data := Some (take ?n tmp)\<rparr>"
        have "array_ok ?b" using u n k j d by (auto simp: array_ok_def word_le_nat_alt)
        moreover have "array_list ?b = filter keep (array_list a)"
          using n(1) k(4) j l by (simp add: array_list_def min_def)
        moreover have "eina_array_remove al keep a = Some (True, ?b)"
          using t nz re unfolding start by (simp add: Let_def)
        moreover have "unat (ar_total ?b) - unat (ar_count ?b) < ?s" "ar_total ?b \<le> ar_total a"
          using u n j by (simp_all add: word_le_nat_alt)
        ultimately show ?thesis by (intro exI [of _ True] exI [of _ ?b]) simp
      qed
    qed
  qed
qed

text \<open>
  C36: \<^verbatim>\<open>eina_array_remove\<close> keeps the elements the callback accepts, in their order, whether or
  not the memory can be made smaller; where it answers success, fewer than a step of slots are
  left unused. It reads and writes only the slots of the array.
\<close>

theorem array_remove_filters:
  assumes "array_ok a"
  shows "\<exists>r a'. eina_array_remove al keep a = Some (r, a') \<and> array_ok a' \<and> array_list a' = filter keep (array_list a)
    \<and> (r \<longrightarrow> unat (ar_total a') - unat (ar_count a') < unat (ar_step a)) \<and> (fst al \<longrightarrow> r)"
  using array_remove_ok [OF assms] by blast

theorem array_remove_filters_witness:
  "\<exists>r a'. eina_array_remove (True, \<lambda>i. 0) even
      \<lparr>ar_data = Some [1, 2, 3, 4], ar_total = 4, ar_count = 4, ar_step = 2\<rparr> = Some (r, a')
    \<and> array_list a' = [2, 4]"
  using array_remove_filters [of "\<lparr>ar_data = Some [1, 2, 3, 4], ar_total = 4, ar_count = 4, ar_step = 2\<rparr>"
    "(True, \<lambda>i. 0)" even]
  by (auto simp: array_ok_def array_list_def)

section \<open>Sequences of operations\<close>

datatype array_op =
    Push allocation voidp
  | Pop
  | Set_at u32 voidp
  | Keep allocation "voidp \<Rightarrow> bool"
  | Clean
  | Flush

datatype array_answer = Answer bool | Element voidp | Done

text \<open>A client sets elements below the count only.\<close>

fun array_step :: "eina_array \<Rightarrow> array_op \<Rightarrow> (array_answer \<times> eina_array) option" where
  "array_step a (Push al x) = map_option (map_prod Answer id) (eina_array_push al a x)"
| "array_step a Pop = map_option (map_prod Element id) (eina_array_pop a)"
| "array_step a (Set_at i x) =
     (if i < eina_array_count a then map_option (Pair Done) (eina_array_data_set a i x) else Some (Done, a))"
| "array_step a (Keep al f) = map_option (map_prod Answer id) (eina_array_remove al f a)"
| "array_step a Clean = Some (Done, eina_array_clean a)"
| "array_step a Flush = Some (Done, eina_array_flush a)"

fun array_run :: "eina_array \<Rightarrow> array_op list \<Rightarrow> (array_answer list \<times> eina_array) option" where
  "array_run a [] = Some ([], a)"
| "array_run a (c # cs) =
     do { (r, a) \<leftarrow> array_step a c; (rs, a) \<leftarrow> array_run a cs; Some (r # rs, a) }"

text \<open>
  What a list allows: an operation on elements \<open>xs\<close> may answer \<open>r\<close> and leave \<open>xs'\<close>. Where an
  allocation fails the push may answer failure, and then changes nothing.
\<close>

fun list_allows :: "voidp list \<Rightarrow> array_op \<Rightarrow> array_answer \<Rightarrow> voidp list \<Rightarrow> bool" where
  "list_allows xs (Push al x) r xs' =
     (r = Answer True \<and> x \<noteq> 0 \<and> xs' = xs @ [x] \<or> r = Answer False \<and> (x = 0 \<or> \<not> fst al) \<and> xs' = xs)"
| "list_allows xs Pop r xs' = (r = Element (if xs = [] then 0 else last xs) \<and> xs' = butlast xs)"
| "list_allows xs (Set_at i x) r xs' = (r = Done \<and> xs' = xs[unat i := x])"
| "list_allows xs (Keep al f) r xs' =
     ((r = Answer True \<or> r = Answer False \<and> \<not> fst al) \<and> xs' = filter f xs)"
| "list_allows xs Clean r xs' = (r = Done \<and> xs' = [])"
| "list_allows xs Flush r xs' = (r = Done \<and> xs' = [])"

fun list_allows_run :: "voidp list \<Rightarrow> array_op list \<Rightarrow> array_answer list \<Rightarrow> voidp list \<Rightarrow> bool" where
  "list_allows_run xs [] [] xs' = (xs' = xs)"
| "list_allows_run xs (c # cs) (r # rs) xs' = (\<exists>ys. list_allows xs c r ys \<and> list_allows_run ys cs rs xs')"
| "list_allows_run xs _ _ xs' = False"

lemma array_step_refines:
  assumes a: "array_ok a" and t: "unat (ar_total a) \<le> n + unat (ar_step a)" "length (array_list a) \<le> n"
    and b: "Suc n + 2 * unat (ar_step a) < 2 ^ 32"
  shows "\<exists>r a'. array_step a c = Some (r, a') \<and> array_ok a' \<and> list_allows (array_list a) c r (array_list a')
    \<and> ar_step a' = ar_step a \<and> unat (ar_total a') \<le> Suc n + unat (ar_step a) \<and> length (array_list a') \<le> Suc n"
proof (cases c)
  case (Push al x)
  have l: "unat (ar_count a) \<le> n" using t(2) array_ok_length [OF a] by simp
  with b have "unat (ar_count a) + unat (ar_step a) < 2 ^ 32" by simp
  from array_push_ok [OF a this, of al x] obtain r a' where
    p: "eina_array_push al a x = Some (r, a')" "array_ok a'" "ar_step a' = ar_step a"
      "array_list a' = (if r then array_list a @ [x] else array_list a)" "r \<longrightarrow> x \<noteq> 0" "x \<noteq> 0 \<and> fst al \<longrightarrow> r"
      "unat (ar_total a') = unat (ar_total a) \<or> unat (ar_total a') = unat (ar_count a) + unat (ar_step a)" by blast
  with Push l t show ?thesis by (intro exI [of _ "Answer r"] exI [of _ a']) auto
next
  case Pop
  from array_pop_ok [OF a] obtain a' where p: "eina_array_pop a = Some (if array_list a = [] then 0 else last (array_list a), a')"
    "array_ok a'" "array_list a' = butlast (array_list a)" "ar_step a' = ar_step a" by blast
  moreover have "ar_total a' = ar_total a"
    using p(1) by (auto simp: eina_array_pop_def Let_def split: if_splits Option.bind_splits)
  ultimately show ?thesis using Pop t by auto
next
  case (Set_at i x)
  show ?thesis
  proof (cases "i < ar_count a")
    case True
    then have "unat i < unat (ar_count a)" by (simp add: word_less_nat_alt)
    from array_data_set_ok [OF a this, of x] obtain a' where d: "eina_array_data_set a i x = Some a'" "array_ok a'"
      "array_list a' = (array_list a)[unat i := x]" "ar_step a' = ar_step a" by blast
    moreover have "ar_total a' = ar_total a"
      using d(1) by (auto simp: eina_array_data_set_def split: if_splits Option.bind_splits)
    ultimately show ?thesis using Set_at True t by (auto simp: eina_array_count_def)
  next
    case False
    then have "(array_list a)[unat i := x] = array_list a"
      using array_ok_length [OF a] by (simp add: word_less_nat_alt list_update_beyond)
    with Set_at False a t show ?thesis by (simp add: eina_array_count_def)
  qed
next
  case (Keep al f)
  from array_remove_ok [OF a, of al f] obtain r a' where
    m: "eina_array_remove al f a = Some (r, a')" "array_ok a'" "array_list a' = filter f (array_list a)" "fst al \<longrightarrow> r"
      "ar_step a' = ar_step a" "ar_total a' \<le> ar_total a" by blast
  have "length (filter f (array_list a)) \<le> n" using t(2) length_filter_le [of f "array_list a"] by linarith
  with Keep m t show ?thesis
    by (intro exI [of _ "Answer r"] exI [of _ a']) (auto simp: word_le_nat_alt)
next
  case Clean
  with array_clean_ok [OF a] t show ?thesis by (simp add: eina_array_clean_def)
next
  case Flush
  with array_flush_ok [OF a] t show ?thesis by (simp add: eina_array_flush_def)
qed

lemma array_run_refines:
  "array_ok a \<Longrightarrow> unat (ar_total a) \<le> n + unat (ar_step a) \<Longrightarrow> length (array_list a) \<le> n
    \<Longrightarrow> n + length cs + 2 * unat (ar_step a) < 2 ^ 32
    \<Longrightarrow> \<exists>rs a'. array_run a cs = Some (rs, a') \<and> array_ok a' \<and> list_allows_run (array_list a) cs rs (array_list a')"
proof (induction cs arbitrary: a n)
  case (Cons c cs)
  then have "Suc n + 2 * unat (ar_step a) < 2 ^ 32" by simp
  from array_step_refines [OF Cons.prems(1-3) this, of c] obtain r a1 where
    s: "array_step a c = Some (r, a1)" "array_ok a1" "list_allows (array_list a) c r (array_list a1)"
      "ar_step a1 = ar_step a" "unat (ar_total a1) \<le> Suc n + unat (ar_step a1)" "length (array_list a1) \<le> Suc n"
    by auto
  with Cons.IH [OF s(2,5,6)] Cons.prems(4) obtain rs a' where
    "array_run a1 cs = Some (rs, a')" "array_ok a'" "list_allows_run (array_list a1) cs rs (array_list a')" by auto
  with s show ?case by (intro exI [of _ "r # rs"] exI [of _ a']) auto
qed simp

text \<open>
  C35: From a new array, any sequence of pushes, pops, changes, removals, cleans and flushes stays
  inside the slots allocated and answers as a list would; a push fails only for a null pointer or
  when an allocation fails, and then changes nothing. The step is not 0, and the number of
  operations and two steps together stay below \<open>2^32\<close>, so that the size does not wrap.
\<close>

theorem array_refines_lists:
  assumes "step \<noteq> 0" "length cs + 2 * unat step < 2 ^ 32"
  shows "\<exists>rs a. array_run (eina_array_new step) cs = Some (rs, a) \<and> array_ok a
    \<and> list_allows_run [] cs rs (array_list a)"
  using array_run_refines [of "eina_array_new step" 0 cs] array_new_ok [OF assms(1)] assms(2)
  by (simp add: eina_array_new_def)

theorem array_refines_lists_witness:
  "\<exists>rs a. array_run (eina_array_new 2)
      [Push (True, \<lambda>i. 0) 7, Push (True, \<lambda>i. 0) 8, Push (False, \<lambda>i. 0) 9, Pop] = Some (rs, a)
    \<and> list_allows_run [] [Push (True, \<lambda>i. 0) 7, Push (True, \<lambda>i. 0) 8, Push (False, \<lambda>i. 0) 9, Pop] rs (array_list a)"
  using array_refines_lists [of 2 "[Push (True, \<lambda>i. 0) 7, Push (True, \<lambda>i. 0) 8, Push (False, \<lambda>i. 0) 9, Pop]"]
  by auto

text \<open>
  A step of 0 is not refused: the first push allocates no slot and writes to it.
\<close>

lemma step_zero_overruns: "x \<noteq> 0 \<Longrightarrow> eina_array_push (True, junk) (eina_array_new 0) x = None"
  by (simp add: eina_array_push_def eina_array_new_def eina_array_grow_def array_realloc_def array_put_def
      eina_array_data_set_def)

section \<open>Walks\<close>

lemma array_foreach_loop_visits:
  assumes "array_ok a"
  shows "i + n \<le> unat (ar_count a) \<Longrightarrow> 0 \<notin> set (array_list a) \<Longrightarrow>
    array_foreach_loop (\<lambda>s x. (True, s @ [x])) a i n s = Some (True, s @ take n (drop i (array_list a)))"
proof (induction n arbitrary: i s)
  case (Suc n)
  then have i: "i < length (array_list a)" using array_ok_length [OF assms] by simp
  have "i < 2 ^ 32"
    using Suc.prems unsigned_less [where ?'a = nat and ?'b = 32, of "ar_count a"] by simp
  then have "eina_array_data_get a (of_nat i) = Some (array_list a ! i)"
    using array_data_get_ok [OF assms, of "of_nat i"] Suc.prems by (simp add: unat_of_nat_below)
  moreover have "array_list a ! i \<noteq> 0" using Suc.prems(2) i by (metis nth_mem)
  ultimately show ?case
    using Suc.IH [of "Suc i"] Suc.prems i by (simp add: Cons_nth_drop_Suc [symmetric])
qed simp

lemma array_foreach_visits:
  assumes "array_ok a" "0 \<notin> set (array_list a)"
  shows "eina_array_foreach (\<lambda>s x. (True, s @ [x])) a [] = Some (True, array_list a)"
  using array_foreach_loop_visits [OF assms(1), of 0 "unat (ar_count a)" "[]"] assms array_ok_length [OF assms(1)]
  by (simp add: eina_array_foreach_def eina_array_count_def)

lemma array_accessor_ok:
  assumes "array_ok a"
  shows "eina_array_accessor_get_at a idx = Some (nth_opt (array_list a) (unat idx))"
  using array_data_get_ok [OF assms, of idx] array_ok_length [OF assms]
  by (auto simp: eina_array_accessor_get_at_def eina_array_count_def nth_opt_def word_less_nat_alt)

end
