(* ===== verification/Efl_Cells.thy ===== *)
theory Efl_Cells
  imports Efl_Prelude
begin

text \<open>
  Blocks of C memory that hold characters. A cell that has not been written holds no value,
  \<open>None\<close>. A read or write outside a block, and a decision on a cell without a value, is
  undefined behaviour, and the result is \<open>None\<close>. A pointer into a block is the list of cells
  from there on, or an index.
\<close>

type_synonym 'c cells = "'c option list"

section \<open>Reading and writing\<close>

definition read_char :: "'c cells \<Rightarrow> nat \<Rightarrow> 'c option" where
  "read_char cs i = (case nth_opt cs i of None \<Rightarrow> None | Some c \<Rightarrow> c)"

text \<open>\<^verbatim>\<open>memcpy\<close> and \<^verbatim>\<open>memmove\<close> are a read of the source and a write to the destination.\<close>

definition read_cells :: "'c cells \<Rightarrow> nat \<Rightarrow> nat \<Rightarrow> 'c cells option" where
  "read_cells cs pos n = (if pos + n \<le> length cs then Some (take n (drop pos cs)) else None)"

definition write_cells :: "'c cells \<Rightarrow> nat \<Rightarrow> 'c cells \<Rightarrow> 'c cells option" where
  "write_cells cs pos ys =
     (if pos + length ys \<le> length cs
      then Some (take pos cs @ ys @ drop (pos + length ys) cs) else None)"

lemma write_cells_length: "write_cells cs pos ys = Some cs' \<Longrightarrow> length cs' = length cs"
  by (auto simp: write_cells_def split: if_splits)

lemma write_cells_append [simp]:
  "write_cells (xs @ zs) (length xs) ys =
     (if length ys \<le> length zs then Some (xs @ ys @ drop (length ys) zs) else None)"
  by (simp add: write_cells_def)

lemma write_cells_start:
  "length ys \<le> length cs \<Longrightarrow> write_cells cs 0 ys = Some (ys @ drop (length ys) cs)"
  by (simp add: write_cells_def)

lemma write_cells_next:
  "n = length xs \<Longrightarrow> length ys \<le> length cs \<Longrightarrow>
   write_cells (xs @ cs) n ys = Some (xs @ ys @ drop (length ys) cs)"
  by simp

lemma read_cells_start: "n \<le> length xs \<Longrightarrow> read_cells (map Some xs @ r) 0 n = Some (map Some (take n xs))"
  by (simp add: read_cells_def take_map)

lemma read_char_append [simp]: "read_char (xs @ c # ys) (length xs) = c"
  by (simp add: read_char_def)

lemma read_char_map: "i < length s \<Longrightarrow> read_char (map Some s @ r) i = Some (s ! i)"
  by (simp add: read_char_def nth_opt_append)

section \<open>Terminated strings\<close>

text \<open>The characters from a pointer to the terminator.\<close>

fun c_string :: "'c::zero cells \<Rightarrow> 'c list option" where
  "c_string [] = None"
| "c_string (None # cs) = None"
| "c_string (Some c # cs) = (if c = 0 then Some [] else map_option ((#) c) (c_string cs))"

definition c_strlen :: "'c::zero cells \<Rightarrow> nat option" where
  "c_strlen cs = map_option length (c_string cs)"

text \<open>A string argument: its characters, the terminator, and whatever follows.\<close>

abbreviation c_str :: "'c::zero list \<Rightarrow> 'c cells \<Rightarrow> 'c cells" where
  "c_str s rest \<equiv> map Some s @ Some 0 # rest"

lemma c_string_str [simp]: "0 \<notin> set s \<Longrightarrow> c_string (c_str s rest) = Some s"
  by (induction s) auto

lemma c_strlen_str [simp]: "0 \<notin> set s \<Longrightarrow> c_strlen (c_str s rest) = Some (length s)"
  by (simp add: c_strlen_def)

lemma c_string_split:
  "c_string cs = Some s \<Longrightarrow> 0 \<notin> set s \<and> (\<exists>rest. cs = c_str s rest)"
proof (induction cs arbitrary: s rule: c_string.induct)
  case (3 c cs)
  show ?case
  proof (cases "c = 0")
    case True
    with 3 show ?thesis by auto
  next
    case False
    with 3 show ?thesis by fastforce
  qed
qed auto

section \<open>Sizes\<close>

text \<open>A \<^verbatim>\<open>size_t\<close> has 64 bits, and its arithmetic wraps.\<close>

definition size_t :: "nat \<Rightarrow> nat" where
  "size_t n = n mod 2 ^ 64"

lemma size_t_id [simp]: "n < 2 ^ 64 \<Longrightarrow> size_t n = n"
  by (simp add: size_t_def)

definition size_sub :: "nat \<Rightarrow> nat \<Rightarrow> nat" where
  "size_sub a b = nat ((int a - int b) mod 2 ^ 64)"

lemma size_sub_diff: "b \<le> a \<Longrightarrow> a < 2 ^ 64 \<Longrightarrow> size_sub a b = a - b"
  by (simp add: size_sub_def)

end
