(* ===== verification/Eina_Str.thy ===== *)
theory Eina_Str
  imports Efl_Cells "HOL-Library.Sublist"
begin

text \<open>
  String utilities of eina (\<^verbatim>\<open>src/src/lib/eina/eina_str.c\<close>, \<^verbatim>\<open>eina_inline_str.x\<close>). The
  functions of the C library they use are given by what they return in the C locale.
\<close>

section \<open>Bounded copies\<close>

text \<open>
  The loop of \<^verbatim>\<open>eina_strlcpy\<close> moves both pointers together; \<open>i\<close> counts their steps. It returns
  what is left of \<open>n\<close>.
\<close>

fun strlcpy_loop :: "nat \<Rightarrow> u8 cells \<Rightarrow> u8 cells \<Rightarrow> nat \<Rightarrow> (nat \<times> u8 cells \<times> nat) option" where
  "strlcpy_loop 0 dst src i = Some (0, dst, i)"
| "strlcpy_loop (Suc n) dst src i =
     (if n = 0 then Some (0, dst, i)
      else do {
        c \<leftarrow> read_char src i;
        dst' \<leftarrow> write_cells dst i [Some c];
        if c = 0 then Some (n, dst', i + 1) else strlcpy_loop n dst' src (i + 1)
      })"

definition eina_strlcpy :: "u8 cells \<Rightarrow> u8 cells \<Rightarrow> nat \<Rightarrow> (nat \<times> u8 cells) option" where
  "eina_strlcpy dst src siz =
     do {
       (n, dst, i) \<leftarrow> strlcpy_loop siz dst src 0;
       if n = 0
       then do {
         dst \<leftarrow> (if siz \<noteq> 0 then write_cells dst i [Some 0] else Some dst);
         l \<leftarrow> c_strlen (drop i src);
         Some (i + l, dst)
       }
       else Some (i - 1, dst)
     }"

text \<open>The end of the destination, at most \<open>n\<close> cells on.\<close>

fun strlcat_end :: "nat \<Rightarrow> u8 cells \<Rightarrow> nat \<Rightarrow> nat option" where
  "strlcat_end 0 dst d = Some d"
| "strlcat_end (Suc n) dst d =
     do { c \<leftarrow> read_char dst d; if c \<noteq> 0 then strlcat_end n dst (d + 1) else Some d }"

fun strlcat_loop :: "u8 cells \<Rightarrow> nat \<Rightarrow> nat \<Rightarrow> u8 cells \<Rightarrow> nat \<Rightarrow> (u8 cells \<times> nat \<times> nat) option" where
  "strlcat_loop dst d n [] k = None"
| "strlcat_loop dst d n (None # s) k = None"
| "strlcat_loop dst d n (Some c # s) k =
     (if c = 0 then Some (dst, d, k)
      else if n \<noteq> 1
      then do { dst \<leftarrow> write_cells dst d [Some c]; strlcat_loop dst (d + 1) (n - 1) s (k + 1) }
      else strlcat_loop dst d n s (k + 1))"

definition eina_strlcat :: "u8 cells \<Rightarrow> u8 cells \<Rightarrow> nat \<Rightarrow> (nat \<times> u8 cells) option" where
  "eina_strlcat dst src siz =
     do {
       dlen \<leftarrow> strlcat_end siz dst 0;
       if siz - dlen = 0
       then do { l \<leftarrow> c_strlen src; Some (dlen + l, dst) }
       else do {
         (dst, d, k) \<leftarrow> strlcat_loop dst dlen (siz - dlen) src 0;
         dst \<leftarrow> write_cells dst d [Some 0];
         Some (dlen + k, dst)
       }
     }"

definition eina_str_join_len ::
    "u8 cells \<Rightarrow> nat \<Rightarrow> u8 \<Rightarrow> u8 cells \<Rightarrow> nat \<Rightarrow> u8 cells \<Rightarrow> nat \<Rightarrow> (nat \<times> u8 cells) option" where
  "eina_str_join_len dst sz sep a a_len b b_len =
     (let ret = size_t (a_len + b_len + 1) in
      if sz < 1 then Some (ret, dst)
      else if sz \<le> a_len
      then do {
        m \<leftarrow> read_cells a 0 (sz - 1);
        dst \<leftarrow> write_cells dst 0 m;
        dst \<leftarrow> write_cells dst (sz - 1) [Some 0];
        Some (ret, dst)
      }
      else do {
        m \<leftarrow> read_cells a 0 a_len;
        dst \<leftarrow> write_cells dst 0 m;
        let off = a_len;
        if sz \<le> off + 1
        then do { dst \<leftarrow> write_cells dst (sz - 1) [Some 0]; Some (ret, dst) }
        else do {
          dst \<leftarrow> write_cells dst off [Some sep];
          let off = off + 1;
          if sz \<le> size_t (off + b_len + 1)
          then do {
            m \<leftarrow> read_cells b 0 (sz - off - 1);
            dst \<leftarrow> write_cells dst off m;
            dst \<leftarrow> write_cells dst (sz - 1) [Some 0];
            Some (ret, dst)
          }
          else do {
            m \<leftarrow> read_cells b 0 b_len;
            dst \<leftarrow> write_cells dst off m;
            dst \<leftarrow> write_cells dst (off + b_len) [Some 0];
            Some (ret, dst)
          }
        }
      })"

definition eina_str_join :: "u8 cells \<Rightarrow> nat \<Rightarrow> u8 \<Rightarrow> u8 cells \<Rightarrow> u8 cells \<Rightarrow> (nat \<times> u8 cells) option" where
  "eina_str_join dst sz sep a b =
     do { la \<leftarrow> c_strlen a; lb \<leftarrow> c_strlen b; eina_str_join_len dst sz sep a la b lb }"

section \<open>Comparisons\<close>

text \<open>The length of a string that is not longer than \<open>maxlen\<close>; \<open>Some None\<close> is \<open>(size_t)-1\<close>.\<close>

fun strlen_bounded_from :: "u8 cells \<Rightarrow> nat \<Rightarrow> nat \<Rightarrow> nat option option" where
  "strlen_bounded_from [] i maxlen = None"
| "strlen_bounded_from (None # cs) i maxlen = None"
| "strlen_bounded_from (Some c # cs) i maxlen =
     (if c = 0 then Some (Some i)
      else if i = maxlen then Some None
      else strlen_bounded_from cs (i + 1) maxlen)"

definition eina_strlen_bounded :: "u8 cells \<Rightarrow> nat \<Rightarrow> nat option option" where
  "eina_strlen_bounded str maxlen = strlen_bounded_from str 0 maxlen"

definition eina_str_has_prefix :: "u8 cells \<Rightarrow> u8 cells \<Rightarrow> bool option" where
  "eina_str_has_prefix str pre =
     do {
       str_len \<leftarrow> c_strlen str;
       l \<leftarrow> eina_strlen_bounded pre str_len;
       case l of
         None \<Rightarrow> Some False
       | Some prefix_len \<Rightarrow>
           do { s \<leftarrow> c_string str; p \<leftarrow> c_string pre; Some (take prefix_len s = take prefix_len p) }
     }"

definition c_tolower :: "u8 \<Rightarrow> u8" where
  "c_tolower c = (if 65 \<le> c \<and> c \<le> 90 then c + 32 else c)"

definition c_toupper :: "u8 \<Rightarrow> u8" where
  "c_toupper c = (if 97 \<le> c \<and> c \<le> 122 then c - 32 else c)"

text \<open>The comparison of a suffix is that of \<^verbatim>\<open>strcmp\<close> or \<^verbatim>\<open>strcasecmp\<close> with zero.\<close>

definition strcmp_equal :: "u8 list \<Rightarrow> u8 list \<Rightarrow> bool" where
  "strcmp_equal s t = (s = t)"

definition strcasecmp_equal :: "u8 list \<Rightarrow> u8 list \<Rightarrow> bool" where
  "strcasecmp_equal s t = (map c_tolower s = map c_tolower t)"

definition eina_str_has_suffix_helper ::
    "u8 cells option \<Rightarrow> u8 cells option \<Rightarrow> (u8 list \<Rightarrow> u8 list \<Rightarrow> bool) \<Rightarrow> bool option" where
  "eina_str_has_suffix_helper str suf cmp =
     (case (str, suf) of
        (Some str, Some suf) \<Rightarrow>
          do {
            str_len \<leftarrow> c_strlen str;
            l \<leftarrow> eina_strlen_bounded suf str_len;
            case l of
              None \<Rightarrow> Some False
            | Some suffix_len \<Rightarrow>
                do {
                  s \<leftarrow> c_string (drop (str_len - suffix_len) str);
                  t \<leftarrow> c_string suf;
                  Some (cmp s t)
                }
          }
      | _ \<Rightarrow> Some False)"

definition eina_str_has_suffix :: "u8 cells option \<Rightarrow> u8 cells option \<Rightarrow> bool option" where
  "eina_str_has_suffix str suf = eina_str_has_suffix_helper str suf strcmp_equal"

definition eina_str_has_extension :: "u8 cells option \<Rightarrow> u8 cells option \<Rightarrow> bool option" where
  "eina_str_has_extension str ext = eina_str_has_suffix_helper str ext strcasecmp_equal"

text \<open>Two pointers: null, or a string; \<open>same\<close> tells that they are one pointer.\<close>

definition eina_streq :: "bool \<Rightarrow> u8 cells option \<Rightarrow> u8 cells option \<Rightarrow> bool option" where
  "eina_streq same a b =
     (if same then Some True
      else case (a, b) of
        (Some a, Some b) \<Rightarrow> do { s \<leftarrow> c_string a; t \<leftarrow> c_string b; Some (s = t) }
      | _ \<Rightarrow> Some False)"

section \<open>Copies and case\<close>

definition escape_char :: "u8 \<Rightarrow> u8 list" where
  "escape_char c =
     (if c = 0x20 \<or> c = 0x5C \<or> c = 0x27 \<or> c = 0x22 then [0x5C, c]
      else if c = 0x0A then [0x5C, 0x6E]
      else if c = 0x09 then [0x5C, 0x74]
      else [c])"

fun str_escape_loop :: "u8 cells \<Rightarrow> u8 cells \<Rightarrow> nat \<Rightarrow> u8 cells option" where
  "str_escape_loop [] s2 d = None"
| "str_escape_loop (None # s) s2 d = None"
| "str_escape_loop (Some c # s) s2 d =
     (if c = 0 then write_cells s2 d [Some 0]
      else do {
        s2 \<leftarrow> write_cells s2 d (map Some (escape_char c));
        str_escape_loop s s2 (d + length (escape_char c))
      })"

text \<open>The result is the new block, \<open>Some None\<close> when it could not be allocated.\<close>

definition eina_str_escape :: "bool \<Rightarrow> u8 cells \<Rightarrow> u8 cells option option" where
  "eina_str_escape ok str =
     do {
       l \<leftarrow> c_strlen str;
       if ok then map_option Some (str_escape_loop str (replicate (size_t (l * 2 + 1)) None) 0) else Some None
     }"

fun map_string :: "(u8 \<Rightarrow> u8) \<Rightarrow> u8 cells \<Rightarrow> u8 cells option" where
  "map_string f [] = None"
| "map_string f (None # p) = None"
| "map_string f (Some c # p) =
     (if c = 0 then Some (Some c # p) else map_option ((#) (Some (f c))) (map_string f p))"

definition eina_str_tolower :: "u8 cells \<Rightarrow> u8 cells option" where
  "eina_str_tolower str = map_string c_tolower str"

definition eina_str_toupper :: "u8 cells \<Rightarrow> u8 cells option" where
  "eina_str_toupper str = map_string c_toupper str"

definition eina_memdup :: "bool \<Rightarrow> u8 cells \<Rightarrow> nat \<Rightarrow> bool \<Rightarrow> u8 cells option option" where
  "eina_memdup ok mem sz terminate =
     (if \<not> ok then Some None
      else do {
        m \<leftarrow> read_cells mem 0 sz;
        ret \<leftarrow> write_cells (replicate (size_t (sz + of_bool terminate)) None) 0 m;
        if terminate then map_option Some (write_cells ret sz [Some 0]) else Some (Some ret)
      })"

text \<open>
  \<^verbatim>\<open>eina_strftime\<close> doubles its buffer until the text fits. \<open>strftime\<close> is the function of the C
  library: the text for a size of the buffer, nothing when it does not fit; \<open>ok\<close> tells which
  allocations succeed.
\<close>

function strftime_loop ::
    "(nat \<Rightarrow> bool) \<Rightarrow> (nat \<Rightarrow> u8 list) \<Rightarrow> nat \<Rightarrow> nat \<Rightarrow> u8 list option" where
  "strftime_loop ok strftime flen buflen =
     (if \<not> ok buflen then None
      else let text = strftime buflen in
      if (length text > 0 \<and> length text < buflen) \<or> (length text = 0 \<and> flen = 0) then Some text
      else if 0 < buflen \<and> buflen * 2 < size_t (128 * flen)
      then strftime_loop ok strftime flen (buflen * 2) else None)"
  by pat_completeness auto
termination by (relation "measure (\<lambda>(ok, strftime, flen, buflen). size_t (128 * flen) - buflen)") auto

declare strftime_loop.simps [simp del]

definition eina_strftime :: "(nat \<Rightarrow> bool) \<Rightarrow> (nat \<Rightarrow> u8 list) \<Rightarrow> nat \<Rightarrow> u8 list option" where
  "eina_strftime ok strftime flen = strftime_loop ok strftime flen 16"

section \<open>What they do\<close>

lemma strlcpy_loop_copies:
  assumes "i \<le> length s" "n \<le> length d" "0 \<notin> set s"
  shows "strlcpy_loop n (map Some (take i s) @ d) (c_str s r) i =
    (if n = 0 then Some (0, map Some (take i s) @ d, i)
     else if length s - i + 1 < n
     then Some (n - (length s - i + 1),
                map Some s @ Some 0 # drop (length s - i + 1) d, length s + 1)
     else Some (0, map Some (take (i + n - 1) s) @ drop (n - 1) d, i + n - 1))"
  using assms
proof (induction n arbitrary: i d)
  case (Suc n)
  show ?case
  proof (cases n)
    case (Suc m)
    with Suc.prems obtain y ys where d: "d = y # ys" by (cases d) auto
    have len: "length (take i s) = i" using Suc.prems by simp
    have w: "write_cells (map Some (take i s) @ y # ys) i [Some c] =
        Some ((map Some (take i s) @ [Some c]) @ ys)" for c
      using write_cells_append [of "map Some (take i s)" "y # ys" "[Some c]"] len by simp
    show ?thesis
    proof (cases "i = length s")
      case True
      then have "read_char (c_str s r) i = Some 0"
        using read_char_append [of "map Some s" "Some 0" r] by simp
      with True Suc w show ?thesis by (auto simp: d)
    next
      case False
      with Suc.prems have i: "i < length s" by simp
      then have c: "read_char (c_str s r) i = Some (s ! i)" by (rule read_char_map)
      from i Suc.prems(3) have "s ! i \<noteq> 0" by (metis nth_mem)
      moreover have "map Some (take i s) @ [Some (s ! i)] = map Some (take (Suc i) s)"
        using i by (simp add: take_Suc_conv_app_nth)
      moreover have "length s - i = Suc (length s - Suc i)" using i by simp
      ultimately show ?thesis
        using Suc.IH [of "Suc i" ys] Suc.prems i Suc w c by (auto simp: d simp del: append_assoc)
    qed
  qed simp
qed simp

text \<open>\<^verbatim>\<open>eina_strlcpy\<close>: the copy is cut to the room, always terminated, and the length is that of
  the source.\<close>

lemma strlcpy_copies:
  assumes "siz \<le> length dst" "0 \<notin> set s"
  shows "eina_strlcpy dst (c_str s r) siz =
    Some (length s,
      if siz = 0 then dst
      else map Some (take (siz - 1) s) @ Some 0 # drop (min (siz - 1) (length s) + 1) dst)"
proof -
  have str: "c_strlen (drop k (c_str s r)) = Some (length s - k)" if "k \<le> length s" for k
  proof -
    from assms(2) have "0 \<notin> set (drop k s)" by (meson in_set_dropD)
    then show ?thesis using c_strlen_str [of "drop k s" r] that by (simp add: drop_map)
  qed
  show ?thesis
  proof (cases "length s + 1 < siz")
    case True
    then show ?thesis
      using strlcpy_loop_copies [of 0 s siz dst r] assms by (simp add: eina_strlcpy_def)
  next
    case False
    have w: "write_cells (map Some (take (siz - 1) s) @ drop (siz - 1) dst) (siz - 1) [Some 0] =
        Some (map Some (take (siz - 1) s) @ Some 0 # drop siz dst)" if "0 < siz"
      using write_cells_append [of "map Some (take (siz - 1) s)" "drop (siz - 1) dst" "[Some 0]"]
        False that assms(1) by simp
    show ?thesis
      using strlcpy_loop_copies [of 0 s siz dst r] assms False w str [of "siz - 1"]
      by (auto simp: eina_strlcpy_def min_def str not_less)
  qed
qed

lemma strlcat_end_finds:
  assumes "0 \<notin> set t" "i \<le> length t"
  shows "strlcat_end n (c_str t d) i = Some (min (i + n) (length t))"
  using assms(2)
proof (induction n arbitrary: i)
  case (Suc n)
  show ?case
  proof (cases "i = length t")
    case True
    then show ?thesis using read_char_append [of "map Some t" "Some 0" d] by simp
  next
    case False
    with Suc.prems have i: "i < length t" by simp
    then have "read_char (c_str t d) i = Some (t ! i)" by (rule read_char_map)
    moreover from i assms(1) have "t ! i \<noteq> 0" by (metis nth_mem)
    ultimately show ?thesis using Suc.IH [of "Suc i"] i by simp
  qed
qed simp

lemma strlcat_loop_copies:
  assumes "0 \<notin> set s" "n \<le> length d" "0 < n"
  shows "strlcat_loop (t @ d) (length t) n (c_str s r) k =
    Some ((t @ map Some (take (n - 1) s)) @ drop (min (n - 1) (length s)) d,
          length t + min (n - 1) (length s), k + length s)"
  using assms
proof (induction s arbitrary: t d n k)
  case (Cons c s)
  show ?case
  proof (cases "n = 1")
    case True
    with Cons.IH [of 1 d t "k + 1"] Cons.prems show ?thesis by simp
  next
    case False
    with Cons.prems obtain m where n: "n = Suc (Suc m)" by (cases n rule: nat.exhaust) (metis One_nat_def not0_implies_Suc not_gr0)+
    with Cons.prems obtain y ys where d: "d = y # ys" by (cases d) auto
    show ?thesis
      using Cons.IH [of "Suc m" ys "t @ [Some c]" "k + 1"] Cons.prems n by (simp add: d)
  qed
qed simp

text \<open>\<^verbatim>\<open>eina_strlcat\<close> on a destination that holds a string: what fits of the source is appended,
  and the length is the one of the whole.\<close>

lemma strlcat_appends:
  assumes "0 \<notin> set t" "0 \<notin> set s" "length t < siz" "siz \<le> length t + 1 + length d"
  shows "eina_strlcat (c_str t d) (c_str s r) siz =
    Some (length t + length s,
      c_str (t @ take (siz - length t - 1) s) (drop (min (siz - length t - 1) (length s)) d))"
proof -
  let ?n = "siz - length t"
  let ?k = "min (?n - 1) (length s)"
  have "strlcat_end siz (c_str t d) 0 = Some (length t)"
    using strlcat_end_finds [OF assms(1), of 0 siz d] assms(3) by simp
  moreover have "strlcat_loop (c_str t d) (length t) ?n (c_str s r) 0 =
      Some ((map Some t @ map Some (take (?n - 1) s)) @ drop ?k (Some 0 # d), length t + ?k, length s)"
    using strlcat_loop_copies [OF assms(2), of ?n "Some 0 # d" "map Some t" r 0] assms by simp
  moreover have "write_cells ((map Some t @ map Some (take (?n - 1) s)) @ drop ?k (Some 0 # d))
      (length t + ?k) [Some 0] = Some (c_str (t @ take (?n - 1) s) (drop ?k d))"
  proof -
    let ?h = "map Some t @ map Some (take (?n - 1) s)"
    have "length t + ?k = length ?h" by (simp add: min.commute)
    moreover have "?k \<le> length d" using assms by simp
    ultimately show ?thesis
      using write_cells_append [of ?h "drop ?k (Some 0 # d)" "[Some 0]"] by simp
  qed
  ultimately show ?thesis using assms(3) by (simp add: eina_strlcat_def)
qed

text \<open>
  \<^verbatim>\<open>eina_str_join_len\<close> writes the joined text cut to the room, terminated, and returns its
  whole length.
\<close>

lemma join_len_joins:
  assumes "siz \<le> length dst" "length a + length b + 2 < 2 ^ 64"
  shows "eina_str_join_len dst siz sep (map Some a @ ra) (length a) (map Some b @ rb) (length b) =
    (let t = a @ sep # b in
     Some (length t,
       if siz = 0 then dst
       else map Some (take (siz - 1) t) @ Some 0 # drop (min (siz - 1) (length t) + 1) dst))"
proof -
  let ?A = "map Some a" and ?B = "map Some b"
  note w = write_cells_next
  have sz: "size_t (Suc (length a + length b)) = Suc (length a + length b)"
    "size_t (Suc (Suc (length a + length b))) = Suc (Suc (length a + length b))"
    using assms(2) by simp_all
  have sz': "size_t (Suc (length b + length a)) = Suc (length b + length a)"
    "size_t (Suc (Suc (length b + length a))) = Suc (Suc (length b + length a))"
    using assms(2) by simp_all
  have copy_a: "length a < siz \<Longrightarrow> write_cells dst 0 ?A = Some (?A @ drop (length a) dst)"
    using assms write_cells_start [of ?A dst] by simp
  have put_sep: "length a + 1 < siz \<Longrightarrow> write_cells (?A @ drop (length a) dst) (length a) [Some sep] =
      Some ((?A @ [Some sep]) @ drop (length a + 1) dst)"
    using assms by (subst w) auto
  consider "siz = 0" | "0 < siz" "siz \<le> length a" | "siz = length a + 1"
    | "length a + 1 < siz" "siz \<le> length a + 2 + length b" | "length a + 2 + length b < siz"
    by linarith
  then show ?thesis
  proof cases
    case 2
    let ?c = "map Some (take (siz - 1) a)"
    have "write_cells dst 0 ?c = Some (?c @ drop (siz - 1) dst)"
      using 2 assms by (subst write_cells_start) (auto simp: min_def)
    moreover have "write_cells (?c @ drop (siz - 1) dst) (siz - 1) [Some 0] =
        Some (?c @ Some 0 # drop siz dst)"
      using 2 assms by (subst w) auto
    ultimately show ?thesis
      using 2 by (simp add: sz sz' eina_str_join_len_def read_cells_start)
  next
    case 3
    have "write_cells (?A @ drop (length a) dst) (length a) [Some 0] =
        Some (?A @ Some 0 # drop (length a + 1) dst)"
      using 3 assms by (subst w) auto
    with 3 copy_a show ?thesis by (simp add: sz sz' eina_str_join_len_def read_cells_start)
  next
    case 4
    let ?c = "map Some (take (siz - length a - 2) b)"
    have s: "Suc (siz - 2) = siz - 1"
      "length b \<le> siz - Suc (Suc (length a)) \<Longrightarrow> Suc (length b + length a) = siz - 1"
      using 4 by simp_all
    have "write_cells ((?A @ [Some sep]) @ drop (length a + 1) dst) (length a + 1) ?c =
        Some ((?A @ [Some sep] @ ?c) @ drop (siz - 1) dst)"
      using 4 assms s by (subst w) (auto simp: min_def)
    moreover have "write_cells ((?A @ [Some sep] @ ?c) @ drop (siz - 1) dst) (siz - 1) [Some 0] =
        Some ((?A @ [Some sep] @ ?c) @ Some 0 # drop siz dst)"
      using 4 assms by (subst w) (auto simp: min_def)
    moreover have "take (siz - 1) (a @ sep # b) = a @ sep # take (siz - length a - 2) b"
      using 4 by (simp add: take_Cons' numeral_2_eq_2)
    ultimately show ?thesis using 4 copy_a put_sep
      by (simp add: sz sz' eina_str_join_len_def read_cells_start numeral_2_eq_2)
  next
    case 5
    have "write_cells ((?A @ [Some sep]) @ drop (length a + 1) dst) (length a + 1) ?B =
        Some ((?A @ [Some sep] @ ?B) @ drop (length a + 1 + length b) dst)"
      using 5 assms by (subst w) (auto simp: ac_simps)
    moreover have "write_cells ((?A @ [Some sep] @ ?B) @ drop (length a + 1 + length b) dst)
        (length a + 1 + length b) [Some 0] =
        Some ((?A @ [Some sep] @ ?B) @ Some 0 # drop (length a + length b + 2) dst)"
      using 5 assms by (subst w) (auto simp: ac_simps)
    ultimately show ?thesis using 5 copy_a put_sep
      by (simp add: sz sz' eina_str_join_len_def read_cells_start min_def ac_simps)
  qed (simp add: sz sz' eina_str_join_len_def Let_def)
qed

lemma strlen_bounded_from_finds:
  "0 \<notin> set s \<Longrightarrow> i \<le> m \<Longrightarrow>
   strlen_bounded_from (c_str s r) i m = Some (if i + length s \<le> m then Some (i + length s) else None)"
  by (induction s arbitrary: i) auto

lemma strlen_bounded_finds:
  "0 \<notin> set s \<Longrightarrow>
   eina_strlen_bounded (c_str s r) m = Some (if length s \<le> m then Some (length s) else None)"
  using strlen_bounded_from_finds [of s 0 m r] by (simp add: eina_strlen_bounded_def)

lemma has_prefix_tests:
  assumes "0 \<notin> set s" "0 \<notin> set p"
  shows "eina_str_has_prefix (c_str s r) (c_str p q) = Some (prefix p s)"
proof -
  have "prefix p s \<longleftrightarrow> length p \<le> length s \<and> take (length p) s = p"
    by (metis prefix_length_le take_is_prefix append_eq_conv_conj prefix_def)
  then show ?thesis using assms by (auto simp: eina_str_has_prefix_def strlen_bounded_finds)
qed

lemma has_suffix_helper_tests:
  assumes "0 \<notin> set s" "0 \<notin> set p"
  shows "eina_str_has_suffix_helper (Some (c_str s r)) (Some (c_str p q)) cmp =
    Some (length p \<le> length s \<and> cmp (drop (length s - length p) s) p)"
proof -
  let ?t = "drop (length s - length p) s"
  have "0 \<notin> set ?t" using assms(1) by (meson in_set_dropD)
  then have "c_string (c_str ?t r) = Some ?t" by simp
  moreover have "drop (length s - length p) (c_str s r) = c_str ?t r" by (simp add: drop_map)
  ultimately show ?thesis
    using assms by (auto simp: eina_str_has_suffix_helper_def strlen_bounded_finds simp del: drop_append)
qed

lemma has_suffix_tests:
  assumes "0 \<notin> set s" "0 \<notin> set p"
  shows "eina_str_has_suffix (Some (c_str s r)) (Some (c_str p q)) = Some (suffix p s)"
proof -
  have "suffix p s \<longleftrightarrow> length p \<le> length s \<and> drop (length s - length p) s = p"
    by (metis suffix_length_le suffix_take append_take_drop_id suffix_drop
        suffix_def append_eq_append_conv length_drop diff_diff_cancel)
  then show ?thesis
    using has_suffix_helper_tests [OF assms]
    by (simp add: eina_str_has_suffix_def strcmp_equal_def)
qed

lemma escape_char_length: "length (escape_char c) \<le> 2"
  by (simp add: escape_char_def)

lemma escape_loop_writes:
  assumes "0 \<notin> set s" "2 * length s + 1 \<le> length d"
  shows "str_escape_loop (c_str s r) (x @ d) (length x) =
    (let t = concat (map escape_char s) in Some (x @ c_str t (drop (length t + 1) d)))"
  using assms
proof (induction s arbitrary: x d)
  case (Cons c s)
  let ?e = "map Some (escape_char c)"
  have e: "length (escape_char c) \<le> 2" by (rule escape_char_length)
  then have "write_cells (x @ d) (length x) ?e = Some ((x @ ?e) @ drop (length (escape_char c)) d)"
    using Cons.prems by simp
  moreover have "2 * length s + 1 \<le> length (drop (length (escape_char c)) d)" using Cons.prems e by simp
  ultimately show ?case
    using Cons.IH [of "drop (length (escape_char c)) d" "x @ ?e"] Cons.prems
    by (simp add: Let_def ac_simps)
qed simp

text \<open>\<^verbatim>\<open>eina_str_escape\<close> stays inside the block it allocates.\<close>

lemma escape_escapes:
  assumes "0 \<notin> set s" "length s < 2 ^ 62"
  shows "\<exists>rest. eina_str_escape True (c_str s r) =
    Some (Some (c_str (concat (map escape_char s)) rest))"
  using escape_loop_writes [OF assms(1), of "replicate (length s * 2 + 1) None" r "[]"] assms
  by (auto simp: eina_str_escape_def Let_def)

lemma map_string_maps:
  "0 \<notin> set s \<Longrightarrow> map_string f (c_str s r) = Some (c_str (map f s) r)"
  by (induction s) auto

lemma tolower_lowers:
  "0 \<notin> set s \<Longrightarrow> eina_str_tolower (c_str s r) = Some (c_str (map c_tolower s) r)"
  by (simp add: eina_str_tolower_def map_string_maps)

lemma memdup_copies:
  "length m < 2 ^ 63 \<Longrightarrow> eina_memdup True (map Some m @ r) (length m) terminate =
   Some (Some (if terminate then c_str m [] else map Some m))"
  by (auto simp: eina_memdup_def read_cells_def write_cells_def)

end
