(* ===== verification/Eina_Strbuf.thy ===== *)
theory Eina_Strbuf
  imports Eina_Str
begin

text \<open>
  The growing string buffers of eina (\<^verbatim>\<open>src/src/lib/eina/eina_strbuf_common.c\<close> with the templates
  \<^verbatim>\<open>eina_binbuf_template_c.x\<close> and \<^verbatim>\<open>eina_strbuf_template_c.x\<close>, and \<^verbatim>\<open>eina_strbuf.c\<close>). The same code
  serves characters of different sizes: \<open>csize\<close> is the size of one in bytes, and memory is
  counted in characters. The flag of each allocation tells whether it succeeds. The text given
  to an operation lies outside the buffer, and is not null. A result \<open>None\<close> is undefined behaviour.
\<close>

section \<open>Buffers\<close>

text \<open>
  The memory of a buffer: a null pointer, a block of the heap, or text of the caller that
  must not be written, which a read-only buffer starts with.
\<close>

datatype 'c memory = Null | Heap "'c cells" | Const "'c cells"

record 'c strbuf =
  sb_buf :: "'c memory"
  sb_len :: nat
  sb_size :: nat
  sb_step :: nat
  sb_ro :: bool

fun mem_read :: "'c memory \<Rightarrow> nat \<Rightarrow> nat \<Rightarrow> 'c cells option" where
  "mem_read Null pos n = None"
| "mem_read (Heap cs) pos n = read_cells cs pos n"
| "mem_read (Const cs) pos n = read_cells cs pos n"

fun mem_write :: "'c memory \<Rightarrow> nat \<Rightarrow> 'c cells \<Rightarrow> 'c memory option" where
  "mem_write Null pos ys = None"
| "mem_write (Heap cs) pos ys = map_option Heap (write_cells cs pos ys)"
| "mem_write (Const cs) pos ys = (if ys = [] then Some (Const cs) else None)"

definition mem_calloc :: "bool \<Rightarrow> nat \<Rightarrow> 'c::zero memory" where
  "mem_calloc ok n = (if ok then Heap (replicate n (Some 0)) else Null)"

definition mem_malloc :: "bool \<Rightarrow> nat \<Rightarrow> 'c memory" where
  "mem_malloc ok n = (if ok then Heap (replicate n None) else Null)"

text \<open>Memory that is not of the heap must not be reallocated; null is an empty block.\<close>

fun mem_realloc :: "bool \<Rightarrow> 'c memory \<Rightarrow> nat \<Rightarrow> 'c memory option" where
  "mem_realloc ok Null n = Some (mem_malloc ok n)"
| "mem_realloc ok (Heap cs) n =
     Some (if ok then Heap (take n cs @ replicate (n - length cs) None) else Null)"
| "mem_realloc ok (Const cs) n = None"

fun mem_free :: "'c memory \<Rightarrow> unit option" where
  "mem_free (Const cs) = None"
| "mem_free m = Some ()"

definition EINA_STRBUF_INIT_SIZE :: nat where "EINA_STRBUF_INIT_SIZE = 32"
definition EINA_STRBUF_INIT_STEP :: nat where "EINA_STRBUF_INIT_STEP = 32"
definition EINA_STRBUF_MAX_STEP :: nat where "EINA_STRBUF_MAX_STEP = 4096"

definition strbuf_init :: "bool \<Rightarrow> 'c::zero strbuf \<Rightarrow> bool \<times> 'c strbuf" where
  "strbuf_init ok b =
     (ok, b\<lparr>sb_ro := False, sb_len := 0, sb_size := EINA_STRBUF_INIT_SIZE,
            sb_step := EINA_STRBUF_INIT_STEP, sb_buf := mem_calloc ok EINA_STRBUF_INIT_SIZE\<rparr>)"

definition strbuf_manage_init :: "'c strbuf \<Rightarrow> 'c memory \<Rightarrow> nat \<Rightarrow> 'c strbuf" where
  "strbuf_manage_init b str len =
     b\<lparr>sb_len := len, sb_size := size_t (len + 1), sb_step := EINA_STRBUF_INIT_STEP, sb_buf := str\<rparr>"

section \<open>Room\<close>

definition resize_step :: "nat \<Rightarrow> 'c strbuf \<Rightarrow> nat \<Rightarrow> nat" where
  "resize_step delta b sz =
     (if delta \<le> sb_step b \<and> sz > sb_size b then sb_step b
      else let new_step = (delta div EINA_STRBUF_INIT_STEP + 1) * EINA_STRBUF_INIT_STEP in
           if new_step > EINA_STRBUF_MAX_STEP then EINA_STRBUF_MAX_STEP else new_step)"

text \<open>
  The move to a block of the new size, whose size in bytes may wrap. The copy out of a read-only buffer counts bytes,
  \<open>len div csize\<close> characters, and the block it goes to is a new one. \<open>on_error\<close> restores the
  pointer.
\<close>

definition strbuf_realloc ::
    "bool \<Rightarrow> nat \<Rightarrow> 'c strbuf \<Rightarrow> nat \<Rightarrow> nat \<Rightarrow> (bool \<times> 'c strbuf) option" where
  "strbuf_realloc ok csize b new_size new_step =
     do {
       let copy = sb_buf b;
       buffer \<leftarrow> mem_realloc ok (if sb_ro b then Null else sb_buf b)
                   (size_t (new_size * csize) div csize);
       if buffer = Null then Some (False, b)
       else do {
         buffer \<leftarrow> (if sb_ro b
                     then do { m \<leftarrow> mem_read copy 0 (sb_len b div csize); mem_write buffer 0 m }
                     else Some buffer);
         Some (True, b\<lparr>sb_ro := False, sb_buf := buffer, sb_size := new_size, sb_step := new_step\<rparr>)
       }
     }"

definition strbuf_resize :: "bool \<Rightarrow> nat \<Rightarrow> 'c strbuf \<Rightarrow> nat \<Rightarrow> (bool \<times> 'c strbuf) option" where
  "strbuf_resize ok csize b sz0 =
     (let sz = size_t (sz0 + 1) in
      if sz = sb_size b then Some (True, b)
      else
        let delta = (if sz > sb_size b then sz - sb_size b else sb_size b - sz);
            new_step = resize_step delta b sz;
            new_size = size_t ((sz div new_step + 1) * new_step)
        in if sb_size b = size_t (new_size * csize) then Some (True, b)
        else strbuf_realloc ok csize b new_size new_step)"

definition strbuf_grow :: "bool \<Rightarrow> nat \<Rightarrow> 'c strbuf \<Rightarrow> nat \<Rightarrow> (bool \<times> 'c strbuf) option" where
  "strbuf_grow ok csize b sz =
     (if size_t (sz + 1) < sb_size b then Some (True, b) else strbuf_resize ok csize b sz)"

section \<open>Creation and release\<close>

definition strbuf_blank :: "'c strbuf" where
  "strbuf_blank = \<lparr>sb_buf = Null, sb_len = 0, sb_size = 0, sb_step = 0, sb_ro = False\<rparr>"

text \<open>The two allocations of a new buffer: the structure, and its text.\<close>

definition eina_strbuf_common_new :: "bool \<Rightarrow> bool \<Rightarrow> 'c::zero strbuf option" where
  "eina_strbuf_common_new ok ok_buf =
     (if \<not> ok then None
      else let (r, b) = strbuf_init ok_buf strbuf_blank in if r then Some b else None)"

definition eina_strbuf_common_manage_new :: "bool \<Rightarrow> 'c memory \<Rightarrow> nat \<Rightarrow> 'c strbuf option" where
  "eina_strbuf_common_manage_new ok str len =
     (if ok then Some (strbuf_manage_init strbuf_blank str len) else None)"

definition eina_strbuf_common_manage_ro_new :: "bool \<Rightarrow> 'c memory \<Rightarrow> nat \<Rightarrow> 'c strbuf option" where
  "eina_strbuf_common_manage_ro_new ok str len =
     (if ok then Some ((strbuf_manage_init strbuf_blank str len)\<lparr>sb_ro := True\<rparr>) else None)"

definition eina_strbuf_common_free :: "'c strbuf \<Rightarrow> unit option" where
  "eina_strbuf_common_free b = (if \<not> sb_ro b then mem_free (sb_buf b) else Some ())"

definition eina_strbuf_common_reset :: "bool \<Rightarrow> 'c::zero strbuf \<Rightarrow> 'c strbuf option" where
  "eina_strbuf_common_reset ok b =
     (if sb_ro b then Some ((snd (strbuf_init ok b))\<lparr>sb_ro := False\<rparr>)
      else do {
        m \<leftarrow> mem_write (sb_buf b) 0 [Some 0];
        Some (b\<lparr>sb_len := 0, sb_step := EINA_STRBUF_INIT_STEP, sb_buf := m\<rparr>)
      })"

text \<open>The slice of unused cells: its start, null when it could not be made, and its length.\<close>

definition eina_strbuf_common_expand ::
    "bool \<Rightarrow> nat \<Rightarrow> 'c strbuf \<Rightarrow> nat \<Rightarrow> ((nat option \<times> nat) \<times> 'c strbuf) option" where
  "eina_strbuf_common_expand ok csize b minimum_unused_space =
     do {
       (r, b) \<leftarrow> (if size_t (sb_len b + minimum_unused_space) < sb_size b then Some (True, b)
                  else strbuf_grow ok csize b (size_t (sb_len b + minimum_unused_space)));
       if r then Some ((Some (sb_len b), size_sub (size_sub (sb_size b) (sb_len b)) 1), b) else Some ((None, 0), b)
     }"

definition eina_strbuf_common_use :: "'c strbuf \<Rightarrow> nat \<Rightarrow> bool \<times> 'c strbuf" where
  "eina_strbuf_common_use b extra_bytes =
     (if sb_size b < size_t (sb_len b + extra_bytes + 1) then (False, b)
      else (True, b\<lparr>sb_len := size_t (sb_len b + extra_bytes)\<rparr>))"

section \<open>Appending and inserting\<close>

definition put_cells :: "'c strbuf \<Rightarrow> nat \<Rightarrow> 'c cells \<Rightarrow> 'c strbuf option" where
  "put_cells b pos ys = do { m \<leftarrow> mem_write (sb_buf b) pos ys; Some (b\<lparr>sb_buf := m\<rparr>) }"

definition eina_strbuf_common_append ::
    "bool \<Rightarrow> nat \<Rightarrow> 'c strbuf \<Rightarrow> 'c cells \<Rightarrow> nat \<Rightarrow> (bool \<times> 'c strbuf) option" where
  "eina_strbuf_common_append ok csize b str len =
     do {
       (r, b) \<leftarrow> strbuf_grow ok csize b (size_t (sb_len b + len));
       if \<not> r then Some (False, b)
       else do {
         m \<leftarrow> read_cells str 0 (len + 1);
         b \<leftarrow> put_cells b (sb_len b) m;
         Some (True, b\<lparr>sb_len := sb_len b + len\<rparr>)
       }
     }"

definition eina_strbuf_common_append_length ::
    "bool \<Rightarrow> nat \<Rightarrow> 'c::zero strbuf \<Rightarrow> 'c cells \<Rightarrow> nat \<Rightarrow> (bool \<times> 'c strbuf) option" where
  "eina_strbuf_common_append_length ok csize b str len =
     do {
       (r, b) \<leftarrow> strbuf_grow ok csize b (size_t (sb_len b + len));
       if \<not> r then Some (False, b)
       else do {
         m \<leftarrow> read_cells str 0 len;
         b \<leftarrow> put_cells b (sb_len b) m;
         let b = b\<lparr>sb_len := sb_len b + len\<rparr>;
         b \<leftarrow> put_cells b (sb_len b) [Some 0];
         Some (True, b)
       }
     }"

definition eina_strbuf_common_append_n ::
    "bool \<Rightarrow> nat \<Rightarrow> 'c::zero strbuf \<Rightarrow> 'c cells \<Rightarrow> nat \<Rightarrow> nat \<Rightarrow> (bool \<times> 'c strbuf) option" where
  "eina_strbuf_common_append_n ok csize b str len maxlen =
     (let len = (if len > maxlen then maxlen else len) in
      do {
        (r, b) \<leftarrow> strbuf_grow ok csize b (size_t (sb_len b + len));
        if \<not> r then Some (False, b)
        else do {
          m \<leftarrow> read_cells str 0 len;
          b \<leftarrow> put_cells b (sb_len b) m;
          let b = b\<lparr>sb_len := sb_len b + len\<rparr>;
          b \<leftarrow> put_cells b (sb_len b) [Some 0];
          Some (True, b)
        }
      })"

definition strbuf_insert_length ::
    "bool \<Rightarrow> nat \<Rightarrow> 'c::zero strbuf \<Rightarrow> 'c cells \<Rightarrow> nat \<Rightarrow> nat \<Rightarrow> (bool \<times> 'c strbuf) option" where
  "strbuf_insert_length ok csize b str len pos =
     do {
       (r, b) \<leftarrow> strbuf_grow ok csize b (size_t (sb_len b + len));
       if \<not> r then Some (False, b)
       else do {
         t \<leftarrow> mem_read (sb_buf b) pos (sb_len b - pos);
         b \<leftarrow> put_cells b (len + pos) t;
         m \<leftarrow> read_cells str 0 len;
         b \<leftarrow> put_cells b pos m;
         let b = b\<lparr>sb_len := sb_len b + len\<rparr>;
         b \<leftarrow> put_cells b (sb_len b) [Some 0];
         Some (True, b)
       }
     }"

definition eina_strbuf_common_insert ::
    "bool \<Rightarrow> nat \<Rightarrow> 'c::zero strbuf \<Rightarrow> 'c cells \<Rightarrow> nat \<Rightarrow> nat \<Rightarrow> (bool \<times> 'c strbuf) option" where
  "eina_strbuf_common_insert ok csize b str len pos =
     (if pos \<ge> sb_len b then eina_strbuf_common_append ok csize b str len
      else strbuf_insert_length ok csize b str len pos)"

definition eina_strbuf_common_insert_n ::
    "bool \<Rightarrow> nat \<Rightarrow> 'c::zero strbuf \<Rightarrow> 'c cells \<Rightarrow> nat \<Rightarrow> nat \<Rightarrow> nat \<Rightarrow> (bool \<times> 'c strbuf) option" where
  "eina_strbuf_common_insert_n ok csize b str len maxlen pos =
     (if pos \<ge> sb_len b then eina_strbuf_common_append_n ok csize b str len maxlen
      else strbuf_insert_length ok csize b str (if len > maxlen then maxlen else len) pos)"

definition eina_strbuf_common_insert_length ::
    "bool \<Rightarrow> nat \<Rightarrow> 'c::zero strbuf \<Rightarrow> 'c cells \<Rightarrow> nat \<Rightarrow> nat \<Rightarrow> (bool \<times> 'c strbuf) option" where
  "eina_strbuf_common_insert_length ok csize b str len pos =
     (if pos \<ge> sb_len b then eina_strbuf_common_append_length ok csize b str len
      else strbuf_insert_length ok csize b str len pos)"

definition eina_strbuf_common_append_char ::
    "bool \<Rightarrow> nat \<Rightarrow> 'c::zero strbuf \<Rightarrow> 'c \<Rightarrow> (bool \<times> 'c strbuf) option" where
  "eina_strbuf_common_append_char ok csize b c =
     do {
       (r, b) \<leftarrow> strbuf_grow ok csize b (size_t (sb_len b + 1));
       if \<not> r then Some (False, b)
       else do {
         b \<leftarrow> put_cells b (sb_len b) [Some c];
         let b = b\<lparr>sb_len := sb_len b + 1\<rparr>;
         b \<leftarrow> put_cells b (sb_len b) [Some 0];
         Some (True, b)
       }
     }"

definition eina_strbuf_common_insert_char ::
    "bool \<Rightarrow> nat \<Rightarrow> 'c::zero strbuf \<Rightarrow> 'c \<Rightarrow> nat \<Rightarrow> (bool \<times> 'c strbuf) option" where
  "eina_strbuf_common_insert_char ok csize b c pos =
     (if pos \<ge> sb_len b then eina_strbuf_common_append_char ok csize b c
      else strbuf_insert_length ok csize b [Some c] 1 pos)"

section \<open>Removing\<close>

text \<open>
  Editing text in place first copies the text of a read-only buffer to a new block, of \<open>size\<close>
  bytes. The copy is \<open>len\<close> bytes, without the terminator, and the buffer stays marked read-only.
\<close>

definition strbuf_own :: "bool \<Rightarrow> nat \<Rightarrow> 'c strbuf \<Rightarrow> (bool \<times> 'c strbuf) option" where
  "strbuf_own ok csize b =
     (if sb_ro b
      then if \<not> ok then Some (False, b)
      else do {
        m \<leftarrow> mem_read (sb_buf b) 0 (sb_len b div csize);
        dest \<leftarrow> mem_write (mem_malloc True (sb_size b div csize)) 0 m;
        Some (True, b\<lparr>sb_buf := dest\<rparr>)
      }
      else Some (True, b))"

text \<open>\<open>ok\<close> is the allocation of the copy, \<open>ok'\<close> the one that fits the buffer to the rest.\<close>

definition eina_strbuf_common_remove ::
    "bool \<Rightarrow> bool \<Rightarrow> nat \<Rightarrow> 'c::zero strbuf \<Rightarrow> nat \<Rightarrow> nat \<Rightarrow> (bool \<times> 'c strbuf) option" where
  "eina_strbuf_common_remove ok ok' csize b start stop =
     (let stop = (if stop \<ge> sb_len b then sb_len b else stop) in
      if stop \<le> start then Some (True, b)
      else do {
        (r, b) \<leftarrow> strbuf_own ok csize b;
        if \<not> r then Some (False, b)
        else
          let remove_len = stop - start in
          if remove_len = sb_len b
          then do { _ \<leftarrow> mem_free (sb_buf b); Some (strbuf_init ok' b) }
          else do {
            t \<leftarrow> mem_read (sb_buf b) stop (sb_len b - stop + 1);
            b \<leftarrow> put_cells b start t;
            let b = b\<lparr>sb_len := sb_len b - remove_len\<rparr>;
            strbuf_resize ok' csize b (sb_len b)
          }
      })"

section \<open>Contents\<close>

definition eina_strbuf_common_string_get :: "'c strbuf \<Rightarrow> 'c memory" where
  "eina_strbuf_common_string_get b = sb_buf b"

definition eina_strbuf_common_string_steal ::
    "bool \<Rightarrow> bool \<Rightarrow> nat \<Rightarrow> 'c::zero strbuf \<Rightarrow> ('c memory \<times> 'c strbuf) option" where
  "eina_strbuf_common_string_steal ok ok' csize b =
     do {
       (r, b) \<leftarrow> strbuf_own ok csize b;
       Some (if \<not> r then (Null, b) else (sb_buf b, snd (strbuf_init ok' b)))
     }"

definition eina_strbuf_common_string_free :: "bool \<Rightarrow> 'c::zero strbuf \<Rightarrow> 'c strbuf option" where
  "eina_strbuf_common_string_free ok b =
     do { _ \<leftarrow> mem_free (sb_buf b); Some (snd (strbuf_init ok b)) }"

definition eina_strbuf_common_length_get :: "'c strbuf \<Rightarrow> nat" where
  "eina_strbuf_common_length_get b = sb_len b"

definition eina_strbuf_common_slice_get :: "'c strbuf \<Rightarrow> nat \<times> 'c memory" where
  "eina_strbuf_common_slice_get b = (sb_len b, sb_buf b)"

definition eina_strbuf_common_rw_slice_get :: "'c strbuf \<Rightarrow> nat \<times> 'c memory" where
  "eina_strbuf_common_rw_slice_get b = (sb_len b, sb_buf b)"

section \<open>The templates\<close>

text \<open>
  The functions of the interface check the magic number, which is compiled out here, and call the
  common ones; those listed here also measure or choose their text. The length of a string is that of \<^verbatim>\<open>strlen\<close> for
  \<^verbatim>\<open>Eina_Strbuf\<close>, of \<^verbatim>\<open>eina_unicode_strlen\<close> for \<^verbatim>\<open>Eina_UStrbuf\<close>.
\<close>

definition eina_strbuf_manage_new :: "bool \<Rightarrow> 'c::zero cells \<Rightarrow> 'c strbuf option option" where
  "eina_strbuf_manage_new ok str =
     do { l \<leftarrow> c_strlen str; Some (eina_strbuf_common_manage_new ok (Heap str) l) }"

definition eina_binbuf_manage_new :: "bool \<Rightarrow> 'c cells \<Rightarrow> nat \<Rightarrow> bool \<Rightarrow> 'c strbuf option" where
  "eina_binbuf_manage_new ok str len ro =
     (if ro then eina_strbuf_common_manage_ro_new ok (Const str) len
      else eina_strbuf_common_manage_new ok (Heap str) len)"

definition eina_strbuf_append ::
    "bool \<Rightarrow> nat \<Rightarrow> 'c::zero strbuf \<Rightarrow> 'c cells \<Rightarrow> (bool \<times> 'c strbuf) option" where
  "eina_strbuf_append ok csize b str =
     do { l \<leftarrow> c_strlen str; eina_strbuf_common_append ok csize b str l }"

definition eina_strbuf_append_n ::
    "bool \<Rightarrow> nat \<Rightarrow> 'c::zero strbuf \<Rightarrow> 'c cells \<Rightarrow> nat \<Rightarrow> (bool \<times> 'c strbuf) option" where
  "eina_strbuf_append_n ok csize b str maxlen =
     do { l \<leftarrow> c_strlen str; eina_strbuf_common_append_n ok csize b str l maxlen }"

definition eina_strbuf_insert ::
    "bool \<Rightarrow> nat \<Rightarrow> 'c::zero strbuf \<Rightarrow> 'c cells \<Rightarrow> nat \<Rightarrow> (bool \<times> 'c strbuf) option" where
  "eina_strbuf_insert ok csize b str pos =
     do { l \<leftarrow> c_strlen str; eina_strbuf_common_insert ok csize b str l pos }"

definition eina_strbuf_insert_n ::
    "bool \<Rightarrow> nat \<Rightarrow> 'c::zero strbuf \<Rightarrow> 'c cells \<Rightarrow> nat \<Rightarrow> nat \<Rightarrow> (bool \<times> 'c strbuf) option" where
  "eina_strbuf_insert_n ok csize b str maxlen pos =
     do { l \<leftarrow> c_strlen str; eina_strbuf_common_insert_n ok csize b str l maxlen pos }"

text \<open>A text that could not be escaped is used as it is.\<close>

definition eina_strbuf_append_escaped ::
    "bool \<Rightarrow> bool \<Rightarrow> u8 strbuf \<Rightarrow> u8 cells \<Rightarrow> (bool \<times> u8 strbuf) option" where
  "eina_strbuf_append_escaped ok_esc ok b str =
     do {
       esc \<leftarrow> eina_str_escape ok_esc str;
       case esc of
         None \<Rightarrow> eina_strbuf_append ok 1 b str
       | Some esc \<Rightarrow> eina_strbuf_append ok 1 b esc
     }"

definition eina_strbuf_insert_escaped ::
    "bool \<Rightarrow> bool \<Rightarrow> u8 strbuf \<Rightarrow> u8 cells \<Rightarrow> nat \<Rightarrow> (bool \<times> u8 strbuf) option" where
  "eina_strbuf_insert_escaped ok_esc ok b str pos =
     do {
       esc \<leftarrow> eina_str_escape ok_esc str;
       case esc of
         None \<Rightarrow> eina_strbuf_insert ok 1 b str pos
       | Some esc \<Rightarrow> eina_strbuf_insert ok 1 b esc pos
     }"

fun mem_cells :: "'c memory \<Rightarrow> 'c cells" where
  "mem_cells Null = []"
| "mem_cells (Heap cs) = cs"
| "mem_cells (Const cs) = cs"

text \<open>Another buffer as the text.\<close>

definition eina_strbuf_append_buffer ::
    "bool \<Rightarrow> nat \<Rightarrow> 'c::zero strbuf \<Rightarrow> 'c strbuf \<Rightarrow> (bool \<times> 'c strbuf) option" where
  "eina_strbuf_append_buffer ok csize b data =
     (if eina_strbuf_common_string_get data = Null then Some (False, b)
      else eina_strbuf_common_append_length ok csize b
             (mem_cells (eina_strbuf_common_string_get data)) (eina_strbuf_common_length_get data))"

definition eina_strbuf_release ::
    "bool \<Rightarrow> bool \<Rightarrow> nat \<Rightarrow> 'c::zero strbuf \<Rightarrow> 'c memory option" where
  "eina_strbuf_release ok ok' csize b =
     do {
       (result, b) \<leftarrow> eina_strbuf_common_string_steal ok ok' csize b;
       _ \<leftarrow> eina_strbuf_common_free b;
       Some result
     }"

section \<open>Formatted text\<close>

text \<open>
  The text that \<^verbatim>\<open>vasprintf\<close> makes of a format is an argument, \<open>None\<close> when it failed; so is
  the one of \<^verbatim>\<open>strftime\<close>.
\<close>

definition eina_strbuf_append_printf ::
    "bool \<Rightarrow> u8 strbuf \<Rightarrow> u8 list option \<Rightarrow> (bool \<times> u8 strbuf) option" where
  "eina_strbuf_append_printf ok b text =
     (case text of
        None \<Rightarrow> Some (False, b)
      | Some str \<Rightarrow>
          if length str = 0 then Some (False, b)
          else eina_strbuf_common_append_length ok 1 b (c_str str []) (length str))"

definition eina_strbuf_insert_printf ::
    "bool \<Rightarrow> u8 strbuf \<Rightarrow> u8 list option \<Rightarrow> nat \<Rightarrow> (bool \<times> u8 strbuf) option" where
  "eina_strbuf_insert_printf ok b text pos =
     (case text of
        None \<Rightarrow> Some (False, b)
      | Some str \<Rightarrow>
          if length str = 0 then Some (False, b) else eina_strbuf_insert ok 1 b (c_str str []) pos)"

definition eina_strbuf_append_strftime ::
    "bool \<Rightarrow> u8 strbuf \<Rightarrow> u8 list option \<Rightarrow> (bool \<times> u8 strbuf) option" where
  "eina_strbuf_append_strftime ok b outputbuf =
     (case outputbuf of
        None \<Rightarrow> Some (False, b)
      | Some out \<Rightarrow> do { (_, b) \<leftarrow> eina_strbuf_append ok 1 b (c_str out []); Some (True, b) })"

definition eina_strbuf_insert_strftime ::
    "bool \<Rightarrow> u8 strbuf \<Rightarrow> u8 list option \<Rightarrow> nat \<Rightarrow> (bool \<times> u8 strbuf) option" where
  "eina_strbuf_insert_strftime ok b outputbuf pos =
     (case outputbuf of
        None \<Rightarrow> Some (False, b)
      | Some out \<Rightarrow>
          do {
            l \<leftarrow> c_strlen (c_str out []);
            (_, b) \<leftarrow> eina_strbuf_common_insert_length ok 1 b (c_str out []) l pos;
            Some (True, b)
          })"

section \<open>Trimming\<close>

definition buf_isspace :: "u8 \<Rightarrow> bool" where
  "buf_isspace c = (c = 0x20 \<or> (9 \<le> c \<and> c \<le> 13))"

definition mem_char :: "'c memory \<Rightarrow> nat \<Rightarrow> 'c option" where
  "mem_char m i = read_char (mem_cells m) i"

fun rtrim_len :: "u8 memory \<Rightarrow> nat \<Rightarrow> nat option" where
  "rtrim_len m 0 = Some 0"
| "rtrim_len m (Suc n) =
     do { c \<leftarrow> mem_char m n; if buf_isspace c then rtrim_len m n else Some (Suc n) }"

text \<open>The start moves on while the length drops.\<close>

fun ltrim_skip :: "u8 memory \<Rightarrow> nat \<Rightarrow> nat \<Rightarrow> (nat \<times> nat) option" where
  "ltrim_skip m c 0 = Some (c, 0)"
| "ltrim_skip m c (Suc n) =
     do { x \<leftarrow> mem_char m c; if buf_isspace x then ltrim_skip m (c + 1) n else Some (c, Suc n) }"

definition eina_strbuf_trim :: "u8 strbuf \<Rightarrow> u8 strbuf option" where
  "eina_strbuf_trim b =
     do {
       l \<leftarrow> rtrim_len (sb_buf b) (sb_len b);
       (c, l) \<leftarrow> ltrim_skip (sb_buf b) 0 l;
       m \<leftarrow> mem_read (sb_buf b) c l;
       b \<leftarrow> put_cells b 0 m;
       b \<leftarrow> put_cells b l [Some 0];
       Some (b\<lparr>sb_len := l\<rparr>)
     }"

definition eina_strbuf_ltrim :: "u8 strbuf \<Rightarrow> u8 strbuf option" where
  "eina_strbuf_ltrim b =
     do {
       (c, l) \<leftarrow> ltrim_skip (sb_buf b) 0 (sb_len b);
       m \<leftarrow> mem_read (sb_buf b) c l;
       b \<leftarrow> put_cells b 0 m;
       b \<leftarrow> put_cells b l [Some 0];
       Some (b\<lparr>sb_len := l\<rparr>)
     }"

definition eina_strbuf_rtrim :: "u8 strbuf \<Rightarrow> u8 strbuf option" where
  "eina_strbuf_rtrim b =
     do {
       l \<leftarrow> rtrim_len (sb_buf b) (sb_len b);
       b \<leftarrow> put_cells b l [Some 0];
       Some (b\<lparr>sb_len := l\<rparr>)
     }"

definition eina_strbuf_tolower :: "u8 strbuf \<Rightarrow> u8 strbuf option" where
  "eina_strbuf_tolower b =
     (case sb_buf b of
        Null \<Rightarrow> Some b
      | Heap cs \<Rightarrow> do { cs \<leftarrow> eina_str_tolower cs; Some (b\<lparr>sb_buf := Heap cs\<rparr>) }
      | Const cs \<Rightarrow> if c_string cs = Some [] then Some b else None)"

text \<open>
  \<^verbatim>\<open>strncpy\<close> copies up to the terminator, and fills the rest with zeros. The sum of position and
  length wraps, so does the size of the new text, and its allocation, \<open>ok_str\<close>, is not checked.
\<close>

fun strncpy_chars :: "u8 cells \<Rightarrow> nat \<Rightarrow> u8 list option" where
  "strncpy_chars cs 0 = Some []"
| "strncpy_chars [] (Suc n) = None"
| "strncpy_chars (None # cs) (Suc n) = None"
| "strncpy_chars (Some c # cs) (Suc n) =
     (if c = 0 then Some (replicate (Suc n) 0) else map_option ((#) c) (strncpy_chars cs n))"

definition eina_strbuf_substr_get ::
    "bool \<Rightarrow> bool \<Rightarrow> u8 strbuf \<Rightarrow> nat \<Rightarrow> nat \<Rightarrow> u8 strbuf option option" where
  "eina_strbuf_substr_get ok_str ok b pos len =
     (if size_t (pos + len) > sb_len b then Some None
      else if \<not> ok_str \<or> size_t (len + 1) \<le> len \<or> length (mem_cells (sb_buf b)) < pos then None
      else do {
        s \<leftarrow> strncpy_chars (drop pos (mem_cells (sb_buf b))) len;
        eina_strbuf_manage_new ok (map Some s @ [Some 0])
      })"

end
