(* ===== verification/Eina_Strbuf_List.thy ===== *)
theory Eina_Strbuf_List
  imports Eina_Strbuf
begin

text \<open>
  String buffers as lists: a buffer that owns its memory holds a text with a terminator behind
  it, the operations edit that text as they say, whatever allocations fail, and they stay in the
  memory of the buffer. Lengths below \<open>2 ^ 60\<close> and characters of at most eight bytes keep the
  sizes from wrapping.
\<close>

section \<open>The representation\<close>

definition heap_buf :: "'c::zero list \<Rightarrow> 'c cells \<Rightarrow> nat \<Rightarrow> nat \<Rightarrow> 'c strbuf" where
  "heap_buf xs rest sz st =
     \<lparr>sb_buf = Heap (c_str xs rest), sb_len = length xs, sb_size = sz, sb_step = st, sb_ro = False\<rparr>"

definition strbuf_rep :: "'c::zero strbuf \<Rightarrow> 'c list \<Rightarrow> bool" where
  "strbuf_rep b xs \<longleftrightarrow>
     (\<exists>rest sz st. b = heap_buf xs rest sz st \<and> length xs < sz \<and> sz \<le> length xs + 1 + length rest \<and>
        32 \<le> st \<and> st \<le> 4096)"

lemma strbuf_repI:
  "length xs < sz \<Longrightarrow> sz \<le> length xs + 1 + length rest \<Longrightarrow> 32 \<le> st \<Longrightarrow> st \<le> 4096 \<Longrightarrow>
   strbuf_rep (heap_buf xs rest sz st) xs"
  by (auto simp: strbuf_rep_def)

lemma strbuf_repE:
  assumes "strbuf_rep b xs"
  obtains rest sz st where "b = heap_buf xs rest sz st" "length xs < sz"
    "sz \<le> length xs + 1 + length rest" "32 \<le> st" "st \<le> 4096"
  using assms by (auto simp: strbuf_rep_def)

lemma heap_buf_sel [simp]:
  "sb_buf (heap_buf xs rest sz st) = Heap (c_str xs rest)"
  "sb_len (heap_buf xs rest sz st) = length xs"
  "sb_size (heap_buf xs rest sz st) = sz"
  "sb_step (heap_buf xs rest sz st) = st"
  "sb_ro (heap_buf xs rest sz st) = False"
  by (simp_all add: heap_buf_def)

lemma rep_len: "strbuf_rep b xs \<Longrightarrow> eina_strbuf_common_length_get b = length xs"
  by (auto simp: eina_strbuf_common_length_get_def elim: strbuf_repE)

section \<open>Room\<close>

lemma resize_step_range:
  assumes "32 \<le> sb_step b" "sb_step b \<le> 4096"
  shows "32 \<le> resize_step d b n" "resize_step d b n \<le> 4096"
  using assms
  by (auto simp: resize_step_def Let_def EINA_STRBUF_INIT_STEP_def EINA_STRBUF_MAX_STEP_def)

lemma round_up_above:
  assumes "0 < (st :: nat)"
  shows "n < (n div st + 1) * st" "(n div st + 1) * st \<le> n + st"
  using assms by (metis Suc_eq_plus1 dividend_less_div_times add.commute mult_Suc,
    metis add_mult_distrib div_times_less_eq_dividend mult_1 add_le_mono1)

text \<open>
  The shape of a buffer whose cells are being rewritten: a block of the heap with the size it
  says. A resize to more than \<open>n\<close> cells keeps what lies before; or it changes nothing.
\<close>

definition strbuf_shape :: "'c strbuf \<Rightarrow> 'c cells \<Rightarrow> bool" where
  "strbuf_shape b cs \<longleftrightarrow>
     sb_buf b = Heap cs \<and> sb_size b \<le> length cs \<and> \<not> sb_ro b \<and> 32 \<le> sb_step b \<and> sb_step b \<le> 4096"

lemma resize_eq:
  assumes b: "32 \<le> sb_step b" "sb_step b \<le> 4096" and n: "n < 2 ^ 60" and c: "0 < csize" "csize \<le> 8"
  obtains sz' st' where "n + 1 < sz'" "sz' \<le> n + 1 + 4096" "32 \<le> st'" "st' \<le> 4096"
    "strbuf_resize ok csize b n =
       (if n + 1 = sb_size b \<or> sb_size b = sz' * csize then Some (True, b)
        else strbuf_realloc ok csize b sz' st')"
proof -
  define sz where "sz = sb_size b"
  define delta where "delta = (if n + 1 > sz then n + 1 - sz else sz - (n + 1))"
  define st' where "st' = resize_step delta b (n + 1)"
  define sz' where "sz' = ((n + 1) div st' + 1) * st'"
  have st': "32 \<le> st'" "st' \<le> 4096"
    unfolding st'_def using resize_step_range [of b delta "n + 1"] b by simp_all
  then have sz': "n + 1 < sz'" "sz' \<le> n + 1 + 4096"
    unfolding sz'_def using round_up_above [of st' "n + 1"] by linarith+
  have "sz' * csize \<le> (2 ^ 60 + 4096) * 8"
    using sz' n c by (intro mult_le_mono) auto
  then have small: "size_t (n + 1) = n + 1" "size_t sz' = sz'" "size_t (sz' * csize) = sz' * csize"
    using n sz' by simp_all
  have "strbuf_resize ok csize b n =
      (if n + 1 = sb_size b \<or> sb_size b = sz' * csize then Some (True, b)
       else strbuf_realloc ok csize b sz' st')"
    unfolding strbuf_resize_def Let_def small(1) sz_def [symmetric] delta_def [symmetric]
      st'_def [symmetric] sz'_def [symmetric] small(2,3)
    by simp
  then show thesis by (rule that [OF sz' st'])
qed

lemma bytes_fit:
  assumes "sz' \<le> n + 1 + 4096" "n < 2 ^ 60" "0 < csize" "csize \<le> (8 :: nat)"
  shows "size_t (sz' * csize) div csize = sz'"
proof -
  have "sz' * csize \<le> (2 ^ 60 + 4096) * 8" using assms by (intro mult_le_mono) auto
  then have "size_t (sz' * csize) = sz' * csize" by simp
  then show ?thesis using assms(3) by simp
qed

lemma resize_shape:
  assumes shape: "strbuf_shape b cs" and n: "n < 2 ^ 60" and c: "0 < csize" "csize \<le> 8"
  shows "\<exists>r b' cs'. strbuf_resize ok csize b n = Some (r, b') \<and> strbuf_shape b' cs' \<and>
    sb_len b' = sb_len b \<and> (\<forall>k. k \<le> length cs \<and> k \<le> n + 1 \<longrightarrow> take k cs' = take k cs) \<and>
    (r \<longrightarrow> n < sb_size b') \<and> (ok \<longrightarrow> r) \<and> (\<not> r \<longrightarrow> b' = b)"
proof -
  define sz where "sz = sb_size b"
  from shape have b: "sb_buf b = Heap cs" "\<not> sb_ro b" "32 \<le> sb_step b" "sb_step b \<le> 4096"
    by (simp_all add: strbuf_shape_def)
  obtain sz' st' where sz': "n + 1 < sz'" "sz' \<le> n + 1 + 4096" and st': "32 \<le> st'" "st' \<le> 4096"
    and resize: "strbuf_resize ok csize b n =
      (if n + 1 = sb_size b \<or> sb_size b = sz' * csize then Some (True, b)
       else strbuf_realloc ok csize b sz' st')"
    by (rule resize_eq [OF b(3,4) n c, of ok])
  have eq: "strbuf_resize ok csize b n =
      (if n + 1 = sz \<or> sz = sz' * csize then Some (True, b)
       else if \<not> ok then Some (False, b)
       else Some (True, b\<lparr>sb_ro := False,
         sb_buf := Heap (take sz' cs @ replicate (sz' - length cs) None),
         sb_size := sz', sb_step := st'\<rparr>))"
    unfolding resize sz_def strbuf_realloc_def bytes_fit [OF sz'(2) n c] using b by simp
  consider "n + 1 = sz \<or> sz = sz' * csize" | "\<not> (n + 1 = sz \<or> sz = sz' * csize)" "\<not> ok"
    | "\<not> (n + 1 = sz \<or> sz = sz' * csize)" "ok" by blast
  then show ?thesis
  proof cases
    case 1
    moreover have "n < sb_size b"
    proof (cases "n + 1 = sz")
      case False
      with 1 have "sz' \<le> sz" using c by simp
      with sz' show ?thesis by (simp add: sz_def)
    qed (simp add: sz_def)
    ultimately show ?thesis using shape eq by auto
  next
    case 2
    then show ?thesis using shape eq by auto
  next
    case 3
    let ?cs = "take sz' cs @ replicate (sz' - length cs) None"
    let ?b = "b\<lparr>sb_ro := False, sb_buf := Heap ?cs, sb_size := sz', sb_step := st'\<rparr>"
    have "strbuf_shape ?b ?cs" using st' by (simp add: strbuf_shape_def)
    moreover have "take k ?cs = take k cs" if "k \<le> length cs" "k \<le> n + 1" for k
      using that sz' by (simp add: min_def)
    moreover have "strbuf_resize ok csize b n = Some (True, ?b)" using 3 eq by simp
    moreover have "sb_len ?b = sb_len b" "n < sb_size ?b" using sz' by simp_all
    ultimately show ?thesis by (intro exI conjI) (assumption, assumption, auto)
  qed
qed

lemma grow_shape:
  assumes shape: "strbuf_shape b cs" and n: "n < 2 ^ 60" and c: "0 < csize" "csize \<le> 8"
  shows "\<exists>r b' cs'. strbuf_grow ok csize b n = Some (r, b') \<and> strbuf_shape b' cs' \<and>
    sb_len b' = sb_len b \<and> (\<forall>k. k \<le> length cs \<and> k \<le> n + 1 \<longrightarrow> take k cs' = take k cs) \<and>
    (r \<longrightarrow> n < sb_size b') \<and> (ok \<longrightarrow> r) \<and> (\<not> r \<longrightarrow> b' = b)"
proof (cases "n + 1 < sb_size b")
  case True
  then show ?thesis using shape n by (auto simp: strbuf_grow_def)
next
  case False
  then show ?thesis using resize_shape [OF assms, of ok] n by (simp add: strbuf_grow_def)
qed

lemma rep_shape: "strbuf_rep b xs \<Longrightarrow> \<exists>rest. strbuf_shape b (c_str xs rest)"
  by (elim strbuf_repE) (auto simp: strbuf_shape_def)

lemma shape_rep:
  assumes "strbuf_shape b cs" "take (length xs + 1) cs = c_str xs []" "sb_len b = length xs"
    "length xs < sb_size b"
  shows "strbuf_rep b xs"
proof -
  have "cs = c_str xs [] @ drop (length xs + 1) cs" using assms(2) by (metis append_take_drop_id)
  then obtain rest where cs: "cs = c_str xs rest" by auto
  have "b = heap_buf xs rest (sb_size b) (sb_step b)"
    using assms(1,3) unfolding cs strbuf_shape_def heap_buf_def by (cases b) simp
  moreover have "strbuf_rep (heap_buf xs rest (sb_size b) (sb_step b)) xs"
    using assms(1,4) unfolding cs strbuf_shape_def by (intro strbuf_repI) auto
  ultimately show ?thesis by simp
qed

lemma take_c_str: "take (length xs + 1) (c_str xs rest) = c_str xs []"
  by simp

text \<open>
  A buffer is resized to hold more than \<open>n\<close> cells, or the allocation failed and nothing has
  changed.
\<close>

lemma resize_rep:
  assumes rep: "strbuf_rep b xs" and n: "length xs \<le> n" "n < 2 ^ 60" and c: "0 < csize" "csize \<le> 8"
  shows "\<exists>r b'. strbuf_resize ok csize b n = Some (r, b') \<and> strbuf_rep b' xs \<and>
    (r \<longrightarrow> n < sb_size b') \<and> (ok \<longrightarrow> r) \<and> (\<not> r \<longrightarrow> b' = b)"
proof -
  obtain rest where shape: "strbuf_shape b (c_str xs rest)" using rep_shape [OF rep] by blast
  obtain r b' cs' where res: "strbuf_resize ok csize b n = Some (r, b')" "strbuf_shape b' cs'"
    "sb_len b' = sb_len b" "\<forall>k. k \<le> length (c_str xs rest) \<and> k \<le> n + 1 \<longrightarrow> take k cs' = take k (c_str xs rest)"
    "r \<longrightarrow> n < sb_size b'" "ok \<longrightarrow> r" "\<not> r \<longrightarrow> b' = b"
    using resize_shape [OF shape n(2) c, of ok] by (elim exE conjE) (rule that; assumption)
  have "strbuf_rep b' xs"
  proof (cases r)
    case True
    have "take (length xs + 1) cs' = c_str xs []" using res(4) n take_c_str [of xs rest] by simp
    moreover have "sb_len b' = length xs" using res(3) rep by (auto elim: strbuf_repE)
    ultimately show ?thesis using shape_rep [OF res(2)] res(5) True n by simp
  qed (use rep res in simp)
  with res show ?thesis by blast
qed

lemma grow_rep:
  assumes rep: "strbuf_rep b xs" and n: "n < 2 ^ 60" and c: "0 < csize" "csize \<le> 8"
  shows "\<exists>r b'. strbuf_grow ok csize b n = Some (r, b') \<and> strbuf_rep b' xs \<and>
    (r \<longrightarrow> n < sb_size b') \<and> (ok \<longrightarrow> r) \<and> (\<not> r \<longrightarrow> b' = b)"
proof (cases "n + 1 < sb_size b")
  case True
  then show ?thesis using rep n by (auto simp: strbuf_grow_def)
next
  case False
  then have "length xs \<le> n" using rep by (auto elim!: strbuf_repE)
  with False show ?thesis using resize_rep [OF rep _ n c, of ok] n by (simp add: strbuf_grow_def)
qed

section \<open>Edits\<close>

text \<open>
  What an edit promises: it succeeds when memory can be had, and the buffer then holds the new
  text; it fails without a change.
\<close>

definition edits_to :: "bool \<Rightarrow> 'c::zero strbuf \<Rightarrow> 'c list \<Rightarrow> (bool \<times> 'c strbuf) option \<Rightarrow> bool" where
  "edits_to ok b ys res \<longleftrightarrow>
     (\<exists>r b'. res = Some (r, b') \<and> (ok \<longrightarrow> r) \<and> (if r then strbuf_rep b' ys else b' = b))"

lemma grow_then_edits:
  assumes rep: "strbuf_rep b xs" and n: "length xs \<le> n" "n < 2 ^ 60" and c: "0 < csize" "csize \<le> 8"
    and k: "\<And>rest sz st. length xs < sz \<Longrightarrow> sz \<le> length xs + 1 + length rest \<Longrightarrow> n < sz \<Longrightarrow>
      32 \<le> st \<Longrightarrow> st \<le> 4096 \<Longrightarrow>
      \<exists>b'. k (heap_buf xs rest sz st) = Some (True, b') \<and> strbuf_rep b' ys"
  shows "edits_to ok b ys
    (do { (r, b) \<leftarrow> strbuf_grow ok csize b n; if \<not> r then Some (False, b) else k b })"
proof -
  obtain r b' where g: "strbuf_grow ok csize b n = Some (r, b')" "strbuf_rep b' xs"
    "r \<longrightarrow> n < sb_size b'" "ok \<longrightarrow> r" "\<not> r \<longrightarrow> b' = b"
    using grow_rep [OF rep n(2) c, of ok] by blast
  show ?thesis
  proof (cases r)
    case True
    from g(2) obtain rest sz st where b': "b' = heap_buf xs rest sz st"
      and "length xs < sz" "sz \<le> length xs + 1 + length rest" "32 \<le> st" "st \<le> 4096"
      by (rule strbuf_repE)
    with k [of sz rest st] g True show ?thesis by (auto simp: edits_to_def)
  next
    case False
    with g show ?thesis by (auto simp: edits_to_def)
  qed
qed

lemma put_cells_heap [simp]:
  "put_cells (heap_buf xs rest sz st) pos ys =
     map_option (\<lambda>cs. (heap_buf xs rest sz st)\<lparr>sb_buf := Heap cs\<rparr>) (write_cells (c_str xs rest) pos ys)"
  by (cases "write_cells (c_str xs rest) pos ys") (simp_all add: put_cells_def)

lemma edit_memory_eq:
  "(heap_buf xs rest sz st)\<lparr>sb_buf := Heap (c_str ys rest'), sb_len := length ys\<rparr> = heap_buf ys rest' sz st"
  by (simp add: heap_buf_def)

text \<open>The writes of all appending functions: the text at the end, and a terminator.\<close>

lemma append_writes:
  assumes "length xs + length ys < sz" "sz \<le> length xs + 1 + length rest"
  shows "\<exists>cs. write_cells (c_str xs rest) (length xs) (map Some ys) = Some cs \<and>
    write_cells cs (length xs + length ys) [Some 0] = Some (c_str (xs @ ys) (drop (length ys) rest))"
proof -
  have "write_cells (c_str xs rest) (length xs) (map Some ys) =
      Some ((map Some xs @ map Some ys) @ drop (length ys) (Some 0 # rest))"
    using assms by (subst write_cells_next) auto
  moreover have "write_cells ((map Some xs @ map Some ys) @ drop (length ys) (Some 0 # rest))
      (length xs + length ys) [Some 0] = Some (c_str (xs @ ys) (drop (length ys) rest))"
    using assms by (subst write_cells_next) auto
  ultimately show ?thesis by blast
qed

lemma append_writes_str:
  assumes "length xs + length ys < sz" "sz \<le> length xs + 1 + length rest"
  shows "write_cells (c_str xs rest) (length xs) (c_str ys []) =
    Some (c_str (xs @ ys) (drop (length ys) rest))"
  using assms by (subst write_cells_next) auto

text \<open>The writes of the inserting functions: the rest moves up, the text goes in between.\<close>

lemma insert_writes:
  assumes "length (p @ q) + length ys < sz" "sz \<le> length (p @ q) + 1 + length rest"
  shows "\<exists>cs cs'. write_cells (c_str (p @ q) rest) (length ys + length p) (map Some q) = Some cs \<and>
    write_cells cs (length p) (map Some ys) = Some cs' \<and>
    write_cells cs' (length (p @ q) + length ys) [Some 0] =
      Some (c_str (p @ ys @ q) (drop (length ys) rest))"
proof -
  let ?cs = "c_str (p @ q) rest"
  let ?m = "take (length ys + length p) ?cs"
  have len: "length ?m = length ys + length p" using assms by auto
  have m: "?m = map Some p @ take (length ys) (map Some q @ Some 0 # rest)" by (simp add: ac_simps)
  have 1: "write_cells ?cs (length ys + length p) (map Some q) =
      Some (map Some p @ take (length ys) (map Some q @ Some 0 # rest) @ map Some q @
        drop (length ys + length p + length q) ?cs)"
    using assms by (simp add: write_cells_def m)
  have d: "drop (length ys + length p + length q) ?cs = drop (length ys) (Some 0 # rest)"
    by (simp add: ac_simps)
  have 2: "write_cells (map Some p @ take (length ys) (map Some q @ Some 0 # rest) @ map Some q @
        drop (length ys) (Some 0 # rest)) (length p) (map Some ys) =
      Some ((map Some p @ map Some ys @ map Some q) @ drop (length ys) (Some 0 # rest))"
    using assms len by (subst write_cells_next) (auto simp: m)
  have 3: "write_cells ((map Some p @ map Some ys @ map Some q) @ drop (length ys) (Some 0 # rest))
      (length (p @ q) + length ys) [Some 0] = Some (c_str (p @ ys @ q) (drop (length ys) rest))"
    using assms by (subst write_cells_next) auto
  show ?thesis using 1 2 3 d by auto
qed

text \<open>One size in the lemmas below: the text and what is added, and the size of a character.\<close>

definition buf_room :: "nat \<Rightarrow> nat \<Rightarrow> bool" where
  "buf_room csize n \<longleftrightarrow> 0 < csize \<and> csize \<le> 8 \<and> n < 2 ^ 60"

lemma roomD: "buf_room csize n \<Longrightarrow> 0 < csize" "buf_room csize n \<Longrightarrow> csize \<le> 8"
  "buf_room csize n \<Longrightarrow> n < 2 ^ 60" "buf_room csize n \<Longrightarrow> size_t n = n"
  by (simp_all add: buf_room_def)

lemma append_length_edits:
  assumes "strbuf_rep b xs" "buf_room csize (length xs + length ys)"
  shows "edits_to ok b (xs @ ys)
    (eina_strbuf_common_append_length ok csize b (map Some ys @ r) (length ys))"
proof -
  have len: "sb_len b = length xs" using assms(1) by (auto elim: strbuf_repE)
  show ?thesis
    unfolding eina_strbuf_common_append_length_def len roomD(4) [OF assms(2)]
  proof (rule grow_then_edits [OF assms(1) _ roomD(3) [OF assms(2)] roomD(1,2) [OF assms(2)]])
    fix rest :: "'a cells" and sz st :: nat
    assume sz: "sz \<le> length xs + 1 + length rest" "length xs + length ys < sz" and st: "32 \<le> st" "st \<le> 4096"
    obtain cs where w: "write_cells (c_str xs rest) (length xs) (map Some ys) = Some cs"
      "write_cells cs (length xs + length ys) [Some 0] = Some (c_str (xs @ ys) (drop (length ys) rest))"
      using append_writes [OF sz(2,1)] by blast
    have "strbuf_rep (heap_buf (xs @ ys) (drop (length ys) rest) sz st) (xs @ ys)"
      using sz st by (intro strbuf_repI) auto
    with w show "\<exists>b'. (do {
         m \<leftarrow> read_cells (map Some ys @ r) 0 (length ys);
         b \<leftarrow> put_cells (heap_buf xs rest sz st) (sb_len (heap_buf xs rest sz st)) m;
         let b = b\<lparr>sb_len := sb_len b + length ys\<rparr>;
         b \<leftarrow> put_cells b (sb_len b) [Some 0];
         Some (True, b)
       }) = Some (True, b') \<and> strbuf_rep b' (xs @ ys)"
      by (simp add: read_cells_start put_cells_def heap_buf_def)
  qed simp
qed

lemma append_edits:
  assumes "strbuf_rep b xs" "buf_room csize (length xs + length ys)"
  shows "edits_to ok b (xs @ ys) (eina_strbuf_common_append ok csize b (c_str ys r) (length ys))"
proof -
  have len: "sb_len b = length xs" using assms(1) by (auto elim: strbuf_repE)
  have str: "read_cells (c_str ys r) 0 (length ys + 1) = Some (c_str ys [])" by (simp add: read_cells_def)
  show ?thesis
    unfolding eina_strbuf_common_append_def len roomD(4) [OF assms(2)]
  proof (rule grow_then_edits [OF assms(1) _ roomD(3) [OF assms(2)] roomD(1,2) [OF assms(2)]])
    fix rest :: "'a cells" and sz st :: nat
    assume sz: "sz \<le> length xs + 1 + length rest" "length xs + length ys < sz" and st: "32 \<le> st" "st \<le> 4096"
    have "strbuf_rep (heap_buf (xs @ ys) (drop (length ys) rest) sz st) (xs @ ys)"
      using sz st by (intro strbuf_repI) auto
    with append_writes_str [OF sz(2,1)] str show "\<exists>b'. (do {
         m \<leftarrow> read_cells (c_str ys r) 0 (length ys + 1);
         b \<leftarrow> put_cells (heap_buf xs rest sz st) (sb_len (heap_buf xs rest sz st)) m;
         Some (True, b\<lparr>sb_len := sb_len b + length ys\<rparr>)
       }) = Some (True, b') \<and> strbuf_rep b' (xs @ ys)"
      by (simp add: put_cells_def heap_buf_def)
  qed simp
qed

lemma append_n_is_append_length:
  "eina_strbuf_common_append_n ok csize b str len maxlen =
   eina_strbuf_common_append_length ok csize b str (min len maxlen)"
proof -
  have "(if len > maxlen then maxlen else len) = min len maxlen" by simp
  then show ?thesis
    by (simp only: eina_strbuf_common_append_n_def eina_strbuf_common_append_length_def Let_def)
qed

lemma append_char_is_append_length:
  "eina_strbuf_common_append_char ok csize b c =
   eina_strbuf_common_append_length ok csize b [Some c] 1"
  by (simp add: eina_strbuf_common_append_char_def eina_strbuf_common_append_length_def
      read_cells_def Let_def cong: if_cong)

lemma append_n_edits:
  assumes "strbuf_rep b xs" "buf_room csize (length xs + length ys)"
  shows "edits_to ok b (xs @ take n ys)
    (eina_strbuf_common_append_n ok csize b (map Some ys @ r) (length ys) n)"
proof -
  have "map Some ys @ r = map Some (take n ys) @ (map Some (drop n ys) @ r)"
    by (metis append.assoc append_take_drop_id map_append)
  moreover have "buf_room csize (length xs + length (take n ys))" using assms(2) by (auto simp: buf_room_def)
  ultimately show ?thesis
    using append_length_edits [OF assms(1), of csize "take n ys" ok "map Some (drop n ys) @ r"]
    by (simp add: append_n_is_append_length min.commute)
qed

lemma append_char_edits:
  assumes "strbuf_rep b xs" "buf_room csize (length xs + 1)"
  shows "edits_to ok b (xs @ [c]) (eina_strbuf_common_append_char ok csize b c)"
  using append_length_edits [OF assms(1), of csize "[c]" ok "[]"] assms(2)
  by (simp add: append_char_is_append_length)

text \<open>The text after an insertion: at the end when the position lies behind it.\<close>

definition put_at :: "nat \<Rightarrow> 'a list \<Rightarrow> 'a list \<Rightarrow> 'a list" where
  "put_at pos ys xs = take pos xs @ ys @ drop pos xs"

lemma insert_at_end: "length xs \<le> pos \<Longrightarrow> put_at pos ys xs = xs @ ys"
  by (simp add: put_at_def)

lemma insert_inside_edits:
  assumes "strbuf_rep b xs" "buf_room csize (length xs + length ys)" "pos \<le> length xs"
  shows "edits_to ok b (put_at pos ys xs)
    (strbuf_insert_length ok csize b (map Some ys @ r) (length ys) pos)"
proof -
  define p q where "p = take pos xs" and "q = drop pos xs"
  have xs: "xs = p @ q" and pos: "pos = length p" using assms(3) by (simp_all add: p_def q_def)
  have len: "sb_len b = length (p @ q)" using assms(1) by (auto simp: xs elim: strbuf_repE)
  have rm: "buf_room csize (length (p @ q) + length ys)" using assms(2) by (simp add: xs)
  have at: "put_at pos ys xs = p @ ys @ q" by (simp add: put_at_def p_def q_def)
  show ?thesis
    unfolding strbuf_insert_length_def len roomD(4) [OF rm] at
  proof (rule grow_then_edits [OF assms(1) [unfolded xs] _ roomD(3) [OF rm] roomD(1,2) [OF rm]])
    fix rest :: "'a cells" and sz st :: nat
    assume sz: "sz \<le> length (p @ q) + 1 + length rest" "length (p @ q) + length ys < sz"
      and st: "32 \<le> st" "st \<le> 4096"
    obtain cs cs' where w:
      "write_cells (c_str (p @ q) rest) (length ys + length p) (map Some q) = Some cs"
      "write_cells cs (length p) (map Some ys) = Some cs'"
      "write_cells cs' (length (p @ q) + length ys) [Some 0] =
        Some (c_str (p @ ys @ q) (drop (length ys) rest))"
      using insert_writes [OF sz(2,1)] by blast
    have tail: "read_cells (c_str (p @ q) rest) (length p) (length q) = Some (map Some q)"
      by (simp add: read_cells_def)
    have "strbuf_rep (heap_buf (p @ ys @ q) (drop (length ys) rest) sz st) (p @ ys @ q)"
      using sz st by (intro strbuf_repI) auto
    moreover have "length p + (length ys + length q) = length p + length q + length ys" by simp
    ultimately show "\<exists>b'. (do {
         t \<leftarrow> mem_read (sb_buf (heap_buf (p @ q) rest sz st)) pos
               (sb_len (heap_buf (p @ q) rest sz st) - pos);
         b \<leftarrow> put_cells (heap_buf (p @ q) rest sz st) (length ys + pos) t;
         m \<leftarrow> read_cells (map Some ys @ r) 0 (length ys);
         b \<leftarrow> put_cells b pos m;
         let b = b\<lparr>sb_len := sb_len b + length ys\<rparr>;
         b \<leftarrow> put_cells b (sb_len b) [Some 0];
         Some (True, b)
       }) = Some (True, b') \<and> strbuf_rep b' (p @ ys @ q)"
      using w tail by (simp add: read_cells_start put_cells_def heap_buf_def pos)
  qed simp
qed

lemma insert_length_edits:
  assumes "strbuf_rep b xs" "buf_room csize (length xs + length ys)"
  shows "edits_to ok b (put_at pos ys xs)
    (eina_strbuf_common_insert_length ok csize b (map Some ys @ r) (length ys) pos)"
proof -
  have len: "sb_len b = length xs" using assms(1) by (auto elim: strbuf_repE)
  show ?thesis
    using append_length_edits [OF assms, of ok r] insert_inside_edits [OF assms, of pos ok r]
    by (simp add: eina_strbuf_common_insert_length_def len insert_at_end)
qed

lemma insert_edits:
  assumes "strbuf_rep b xs" "buf_room csize (length xs + length ys)"
  shows "edits_to ok b (put_at pos ys xs)
    (eina_strbuf_common_insert ok csize b (c_str ys r) (length ys) pos)"
proof -
  have len: "sb_len b = length xs" using assms(1) by (auto elim: strbuf_repE)
  show ?thesis
    using append_edits [OF assms, of ok r] insert_inside_edits [OF assms, of pos ok "Some 0 # r"]
    by (simp add: eina_strbuf_common_insert_def len insert_at_end)
qed

lemma insert_n_edits:
  assumes "strbuf_rep b xs" "buf_room csize (length xs + length ys)"
  shows "edits_to ok b (put_at pos (take n ys) xs)
    (eina_strbuf_common_insert_n ok csize b (map Some ys @ r) (length ys) n pos)"
proof -
  have len: "sb_len b = length xs" using assms(1) by (auto elim: strbuf_repE)
  have str: "map Some ys @ r = map Some (take n ys) @ (map Some (drop n ys) @ r)"
    by (metis append.assoc append_take_drop_id map_append)
  have rm: "buf_room csize (length xs + length (take n ys))" using assms(2) by (auto simp: buf_room_def)
  have l: "(if length ys > n then n else length ys) = length (take n ys)" by (simp add: min_def)
  show ?thesis
    using append_n_edits [OF assms, of ok n r]
      insert_inside_edits [OF assms(1) rm, of pos ok "map Some (drop n ys) @ r"]
    unfolding eina_strbuf_common_insert_n_def len l str [symmetric]
    by (simp add: insert_at_end)
qed

lemma insert_char_edits:
  assumes "strbuf_rep b xs" "buf_room csize (length xs + 1)"
  shows "edits_to ok b (put_at pos [c] xs) (eina_strbuf_common_insert_char ok csize b c pos)"
proof -
  have len: "sb_len b = length xs" using assms(1) by (auto elim: strbuf_repE)
  show ?thesis
    using append_char_edits [OF assms, of ok c] insert_inside_edits [OF assms(1), of csize "[c]" pos ok "[]"]
      assms(2)
    by (simp add: eina_strbuf_common_insert_char_def len insert_at_end)
qed

section \<open>Removal\<close>

definition remove_range :: "nat \<Rightarrow> nat \<Rightarrow> 'a list \<Rightarrow> 'a list" where
  "remove_range start stop xs = take start xs @ drop (max start stop) xs"

text \<open>The move of the tail over the range, with its terminator.\<close>

lemma remove_writes:
  "write_cells (c_str (p @ m @ q) rest) (length p) (c_str q []) =
     Some (c_str (p @ q) (drop (length q + 1) (map Some m @ c_str q rest)))"
  by (simp add: write_cells_def ac_simps)

lemma strbuf_init_rep: "strbuf_rep (snd (strbuf_init True b)) []"
proof -
  have "replicate 32 (Some 0) = Some 0 # replicate 31 (Some 0)"
    using replicate_Suc [of 31 "Some 0"] by simp
  then have "snd (strbuf_init True b) = heap_buf [] (replicate 31 (Some 0)) 32 32"
    by (cases b) (simp add: strbuf_init_def heap_buf_def mem_calloc_def EINA_STRBUF_INIT_SIZE_def
        EINA_STRBUF_INIT_STEP_def)
  then show ?thesis by (simp add: strbuf_repI)
qed

text \<open>
  The text is removed even when the block cannot be made to fit; the result is then false. Only
  a buffer that is emptied needs memory.
\<close>

lemma remove_removes:
  assumes rep: "strbuf_rep b xs" and rm: "buf_room csize (length xs)"
  shows "\<exists>r b'. eina_strbuf_common_remove ok ok' csize b start stop = Some (r, b') \<and> (ok' \<longrightarrow> r) \<and>
    (ok' \<or> remove_range start stop xs \<noteq> [] \<or> xs = [] \<longrightarrow> strbuf_rep b' (remove_range start stop xs))"
proof -
  define e where "e = min stop (length xs)"
  from rep obtain rest sz st where b: "b = heap_buf xs rest sz st"
    and sz: "length xs < sz" "sz \<le> length xs + 1 + length rest" and st: "32 \<le> st" "st \<le> 4096"
    by (rule strbuf_repE)
  have e: "(if stop \<ge> sb_len b then sb_len b else stop) = e" by (simp add: b e_def)
  have own: "strbuf_own ok csize b = Some (True, b)" by (simp add: strbuf_own_def b)
  show ?thesis
  proof (cases "e \<le> start")
    case True
    then have "remove_range start stop xs = xs"
      by (auto simp: remove_range_def e_def max_def min_def split: if_splits)
    with True rep show ?thesis by (auto simp: eina_strbuf_common_remove_def e Let_def)
  next
    case inside: False
    define p m q where "p = take start xs" and "m = take (e - start) (drop start xs)" and "q = drop e xs"
    have xs: "xs = p @ m @ q"
      using inside by (simp add: p_def m_def q_def)
        (metis append_take_drop_id drop_drop le_add_diff_inverse2 nat_le_linear)
    have lens: "length p = start" "length m = e - start" "length q = length xs - e" "start < e" "e \<le> length xs"
      using inside by (auto simp: p_def m_def q_def e_def)
    have result: "remove_range start stop xs = p @ q"
      using inside by (auto simp: remove_range_def p_def q_def e_def max_def min_def split: if_splits)
    show ?thesis
    proof (cases "e - start = length xs")
      case True
      with lens have "length p = 0" "length q = 0" "xs \<noteq> []" by auto
      then have "p @ q = []" "xs \<noteq> []" by simp_all
      moreover have "mem_free (sb_buf b) = Some ()" "sb_len b = length xs" by (simp_all add: b)
      then have "eina_strbuf_common_remove ok ok' csize b start stop = Some (strbuf_init ok' b)"
        unfolding eina_strbuf_common_remove_def e Let_def own using inside True by simp
      moreover have "strbuf_init ok' b = (ok', snd (strbuf_init ok' b))" by (simp add: strbuf_init_def)
      ultimately show ?thesis using strbuf_init_rep [of b] unfolding result
        by (cases ok') fastforce+
    next
      case False
      define rest' where "rest' = drop (length q + 1) (map Some m @ c_str q rest)"
      let ?b = "heap_buf (p @ q) rest' sz st"
      let ?b1 = "b\<lparr>sb_buf := Heap (c_str (p @ q) rest')\<rparr>"
      have tail: "mem_read (sb_buf b) e (sb_len b - e + 1) = Some (c_str q [])"
        using lens by (simp add: b read_cells_def xs)
      have put: "put_cells b start (c_str q []) = Some ?b1"
        using remove_writes [of p m q rest] lens(1) unfolding rest'_def by (simp add: b xs put_cells_def)
      have new: "?b1\<lparr>sb_len := sb_len ?b1 - (e - start)\<rparr> = ?b"
        using lens by (simp add: b heap_buf_def xs)
      have ne: "(e - start = sb_len b) = False" using False by (simp add: b)
      have "eina_strbuf_common_remove ok ok' csize b start stop =
          strbuf_resize ok' csize ?b (sb_len ?b)"
        unfolding eina_strbuf_common_remove_def e Let_def own
        using inside by (simp only: tail put new ne bind.bind_lunit prod.case simp_thms if_False if_True)
      then have "eina_strbuf_common_remove ok ok' csize b start stop =
          strbuf_resize ok' csize ?b (length (p @ q))" by simp
      moreover have "strbuf_rep ?b (p @ q)"
      proof (rule strbuf_repI)
        have total: "length xs = length p + length m + length q" by (simp add: xs)
        then show "length (p @ q) < sz" using sz by simp
        show "sz \<le> length (p @ q) + 1 + length rest'" using sz total by (simp add: rest'_def)
      qed (use st in auto)
      moreover have "length (p @ q) < 2 ^ 60" using roomD(3) [OF rm] by (simp add: xs)
      ultimately show ?thesis
        using resize_rep [of ?b "p @ q" "length (p @ q)" csize ok'] roomD(1,2) [OF rm]
        unfolding result by fastforce
    qed
  qed
qed

section \<open>Any sequence of edits\<close>

datatype 'c edit =
    Append "'c list"
  | Append_Length "'c list"
  | Append_N "'c list" nat
  | Append_Char 'c
  | Insert "'c list" nat
  | Insert_Length "'c list" nat
  | Insert_N "'c list" nat nat
  | Insert_Char 'c nat
  | Remove nat nat

text \<open>The call of each edit; what lies behind the text of the caller does not matter.\<close>

fun apply_edit ::
    "nat \<Rightarrow> 'c::zero strbuf \<Rightarrow> bool \<times> 'c cells \<times> 'c edit \<Rightarrow> (bool \<times> 'c strbuf) option" where
  "apply_edit csize b (ok, r, Append ys) =
     eina_strbuf_common_append ok csize b (c_str ys r) (length ys)"
| "apply_edit csize b (ok, r, Append_Length ys) =
     eina_strbuf_common_append_length ok csize b (map Some ys @ r) (length ys)"
| "apply_edit csize b (ok, r, Append_N ys n) =
     eina_strbuf_common_append_n ok csize b (map Some ys @ r) (length ys) n"
| "apply_edit csize b (ok, r, Append_Char c) = eina_strbuf_common_append_char ok csize b c"
| "apply_edit csize b (ok, r, Insert ys pos) =
     eina_strbuf_common_insert ok csize b (c_str ys r) (length ys) pos"
| "apply_edit csize b (ok, r, Insert_Length ys pos) =
     eina_strbuf_common_insert_length ok csize b (map Some ys @ r) (length ys) pos"
| "apply_edit csize b (ok, r, Insert_N ys n pos) =
     eina_strbuf_common_insert_n ok csize b (map Some ys @ r) (length ys) n pos"
| "apply_edit csize b (ok, r, Insert_Char c pos) = eina_strbuf_common_insert_char ok csize b c pos"
| "apply_edit csize b (ok, r, Remove start stop) = eina_strbuf_common_remove ok ok csize b start stop"

fun edit_text :: "'c edit \<Rightarrow> 'c list \<Rightarrow> 'c list" where
  "edit_text (Append ys) xs = xs @ ys"
| "edit_text (Append_Length ys) xs = xs @ ys"
| "edit_text (Append_N ys n) xs = xs @ take n ys"
| "edit_text (Append_Char c) xs = xs @ [c]"
| "edit_text (Insert ys pos) xs = put_at pos ys xs"
| "edit_text (Insert_Length ys pos) xs = put_at pos ys xs"
| "edit_text (Insert_N ys n pos) xs = put_at pos (take n ys) xs"
| "edit_text (Insert_Char c pos) xs = put_at pos [c] xs"
| "edit_text (Remove start stop) xs = remove_range start stop xs"

fun edit_size :: "'c edit \<Rightarrow> nat" where
  "edit_size (Append ys) = length ys"
| "edit_size (Append_Length ys) = length ys"
| "edit_size (Append_N ys n) = length ys"
| "edit_size (Append_Char c) = 1"
| "edit_size (Insert ys pos) = length ys"
| "edit_size (Insert_Length ys pos) = length ys"
| "edit_size (Insert_N ys n pos) = length ys"
| "edit_size (Insert_Char c pos) = 1"
| "edit_size (Remove start stop) = 0"

fun is_remove :: "'c edit \<Rightarrow> bool" where
  "is_remove (Remove start stop) = True"
| "is_remove _ = False"

lemma edit_text_length: "length (edit_text e xs) \<le> length xs + edit_size e"
  by (cases e) (auto simp: put_at_def remove_range_def)

lemma apply_edit_edits:
  assumes "strbuf_rep b xs" "buf_room csize (length xs + edit_size e)" "is_remove e \<Longrightarrow> ok"
  shows "edits_to ok b (edit_text e xs) (apply_edit csize b (ok, r, e))"
proof (cases e)
  case (Remove start stop)
  with assms show ?thesis
    using remove_removes [of b xs csize ok ok start stop] by (fastforce simp: edits_to_def)
qed (use assms in \<open>auto intro: append_edits append_length_edits append_n_edits append_char_edits
      insert_edits insert_length_edits insert_n_edits insert_char_edits\<close>)

fun run_edits ::
    "nat \<Rightarrow> 'c::zero strbuf \<Rightarrow> (bool \<times> 'c cells \<times> 'c edit) list \<Rightarrow> (bool list \<times> 'c strbuf) option" where
  "run_edits csize b [] = Some ([], b)"
| "run_edits csize b (e # es) =
     do {
       (r, b) \<leftarrow> apply_edit csize b e;
       (rs, b) \<leftarrow> run_edits csize b es;
       Some (r # rs, b)
     }"

fun run_text :: "bool list \<Rightarrow> 'c edit list \<Rightarrow> 'c list \<Rightarrow> 'c list" where
  "run_text (r # rs) (e # es) xs = run_text rs es (if r then edit_text e xs else xs)"
| "run_text _ _ xs = xs"

lemma run_edits_edit:
  assumes "strbuf_rep b xs" "buf_room csize (length xs + sum_list (map (\<lambda>(ok, r, e). edit_size e) es))"
    "\<forall>(ok, r, e) \<in> set es. is_remove e \<longrightarrow> ok"
  shows "\<exists>rs b'. run_edits csize b es = Some (rs, b') \<and>
    strbuf_rep b' (run_text rs (map (\<lambda>(ok, r, e). e) es) xs) \<and>
    list_all2 (\<lambda>(ok, r, e) r. ok \<longrightarrow> r) es rs"
  using assms
proof (induction es arbitrary: b xs)
  case (Cons x es)
  obtain ok r e where x: "x = (ok, r, e)" by (cases x)
  let ?total = "sum_list (map (\<lambda>(ok, r, e). edit_size e) es)"
  have "buf_room csize (length xs + edit_size e)" using Cons.prems(2) by (auto simp: buf_room_def x)
  then have "edits_to ok b (edit_text e xs) (apply_edit csize b x)"
    using apply_edit_edits [OF Cons.prems(1), of csize e ok r] Cons.prems(3) by (simp add: x)
  then obtain r' b' where a: "apply_edit csize b x = Some (r', b')" "ok \<longrightarrow> r'"
    "strbuf_rep b' (if r' then edit_text e xs else xs)"
    using Cons.prems(1) by (auto simp: edits_to_def split: if_splits)
  have "buf_room csize (length (if r' then edit_text e xs else xs) + ?total)"
    using Cons.prems(2) edit_text_length [of e xs] by (auto simp: buf_room_def x)
  from Cons.IH [OF a(3) this] Cons.prems(3) a show ?case by (force simp: x)
qed simp

end
