(* ===== verification/Eina_Strbuf_Replace.thy ===== *)
theory Eina_Strbuf_Replace
  imports Eina_Strbuf_List
begin

text \<open>
  Replacement in string buffers (\<^verbatim>\<open>eina_strbuf_replace\<close> and \<^verbatim>\<open>eina_strbuf_replace_all\<close> in
  \<^verbatim>\<open>src/src/lib/eina/eina_strbuf_common.c\<close>), and what goes wrong in a buffer that manages
  read-only text.
\<close>

section \<open>Searching\<close>

text \<open>\<^verbatim>\<open>strstr\<close>: the first occurrence of a string in a string.\<close>

fun find_sub :: "'a list \<Rightarrow> 'a list \<Rightarrow> nat option" where
  "find_sub [] pat = (if pat = [] then Some 0 else None)"
| "find_sub (x # xs) pat =
     (if prefix pat (x # xs) then Some 0 else map_option Suc (find_sub xs pat))"

text \<open>From a position in a block, as an index; the outer option is undefined behaviour.\<close>

definition strstr_from :: "u8 cells \<Rightarrow> nat \<Rightarrow> u8 list \<Rightarrow> nat option option" where
  "strstr_from cs pos pat =
     (if length cs < pos then None
      else do { s \<leftarrow> c_string (drop pos cs); Some (map_option ((+) pos) (find_sub s pat)) })"

section \<open>One occurrence\<close>

text \<open>
  The search for the occurrence \<open>n\<close>; after each but the last it goes on one character further.
  \<open>Some None\<close> is the return with \<open>EINA_FALSE\<close>.
\<close>

fun replace_search :: "u8 cells \<Rightarrow> u8 list \<Rightarrow> nat \<Rightarrow> nat \<Rightarrow> nat option option" where
  "replace_search cs str 0 spos = Some (Some spos)"
| "replace_search cs str (Suc n) spos =
     do {
       f \<leftarrow> strstr_from cs spos str;
       case f of
         None \<Rightarrow> Some None
       | Some spos \<Rightarrow>
           do {
             c \<leftarrow> read_char cs spos;
             if c = 0 then Some None
             else replace_search cs str n (if n \<noteq> 0 then spos + 1 else spos)
           }
     }"

text \<open>
  In a read-only buffer the text is copied to a new block after the search, and the position
  is then the difference of two pointers into different blocks: undefined behaviour.
\<close>

definition eina_strbuf_replace ::
    "bool \<Rightarrow> bool \<Rightarrow> u8 strbuf \<Rightarrow> u8 list \<Rightarrow> u8 list \<Rightarrow> u32 \<Rightarrow> (bool \<times> u8 strbuf) option" where
  "eina_strbuf_replace ok ok' b str wth n =
     (if n = 0 then Some (False, b)
      else do {
        found \<leftarrow> replace_search (mem_cells (sb_buf b)) str (unat n) 0;
        case found of
          None \<Rightarrow> Some (False, b)
        | Some spos \<Rightarrow>
            do {
              let ro = sb_ro b;
              (r, b) \<leftarrow> strbuf_own ok 1 b;
              if \<not> r then Some (False, b)
              else if ro then None
              else do {
                let pos = spos;
                let len1 = length str;
                let len2 = length wth;
                (r, b) \<leftarrow> (if len1 \<noteq> len2
                  then do {
                    (r, b) \<leftarrow> strbuf_grow ok' 1 b (size_t (size_sub (sb_len b) len1 + len2));
                    if \<not> r then Some (False, b)
                    else do {
                      t \<leftarrow> mem_read (sb_buf b) (pos + len1) (size_sub (size_sub (sb_len b) pos) len1);
                      b \<leftarrow> put_cells b (pos + len2) t;
                      Some (True, b)
                    }
                  }
                  else Some (True, b));
                if \<not> r then Some (False, b)
                else do {
                  b \<leftarrow> put_cells b pos (map Some wth);
                  let b = b\<lparr>sb_len := size_sub (sb_len b + len2) len1\<rparr>;
                  b \<leftarrow> put_cells b (sb_len b) [Some 0];
                  Some (True, b)
                }
              }
            }
      })"

section \<open>All occurrences\<close>

text \<open>
  Both loops take fuel: without an end of the loop the result is \<open>None\<close>, and \<open>Undefined\<close> is
  undefined behaviour. In the first the two strings have the same length, and the text is
  overwritten in place. \<open>k\<close> counts the replacements.
\<close>

definition of_option :: "'a option \<Rightarrow> 'a c_result" where
  "of_option r = (case r of None \<Rightarrow> Undefined | Some x \<Rightarrow> Returned x)"

fun replace_same :: "nat \<Rightarrow> u8 list \<Rightarrow> u8 list \<Rightarrow> u8 strbuf \<Rightarrow> nat option \<Rightarrow> nat \<Rightarrow>
    (nat \<times> u8 strbuf) c_result option" where
  "replace_same fuel str wth b None k = Some (Returned (k, b))"
| "replace_same 0 str wth b (Some spos) k = None"
| "replace_same (Suc fuel) str wth b (Some spos) k =
     (case do {
        b \<leftarrow> put_cells b spos (map Some wth);
        f \<leftarrow> strstr_from (mem_cells (sb_buf b)) (spos + length wth) str;
        Some (b, f)
      } of
        None \<Rightarrow> Some Undefined
      | Some (b, f) \<Rightarrow> replace_same fuel str wth b f (k + 1))"

text \<open>
  In the second the result is built in a new block, from the old one: \<open>start\<close> and \<open>pos\<close> are
  positions in the new, \<open>start_tmp\<close> and \<open>pos_tmp\<close> in the old block. The allocations that make
  room are counted by \<open>k\<close>. The result is the state behind the loop.
\<close>

record rep_state =
  rs_buf :: "u8 strbuf"
  rs_start :: nat
  rs_start_tmp :: nat
  rs_pos :: nat
  rs_pos_tmp :: nat
  rs_len :: nat

definition rep_step ::
    "bool \<Rightarrow> u8 cells \<Rightarrow> u8 list \<Rightarrow> u8 list \<Rightarrow> rep_state \<Rightarrow> (bool \<times> rep_state) option" where
  "rep_step ok tmp_buf str wth s =
     do {
       let len1 = length str;
       let len2 = length wth;
       let len = size_sub (rs_len s + len2) len1;
       (r, b) \<leftarrow> strbuf_grow ok 1 (rs_buf s) len;
       if \<not> r then Some (False, s\<lparr>rs_len := size_sub (len + len1) len2\<rparr>)
       else do {
         m \<leftarrow> read_cells tmp_buf (rs_start_tmp s) (size_sub (rs_pos s) (rs_start s));
         b \<leftarrow> put_cells b (rs_start s) m;
         b \<leftarrow> put_cells b (rs_pos s) (map Some wth);
         let start_tmp = rs_pos_tmp s + len1;
         let start = rs_pos s + len2;
         f \<leftarrow> strstr_from tmp_buf start_tmp str;
         Some (case f of
           None \<Rightarrow> (False, s\<lparr>rs_buf := b, rs_start := start, rs_start_tmp := start_tmp, rs_len := len\<rparr>)
         | Some pos_tmp \<Rightarrow>
             (True, s\<lparr>rs_buf := b, rs_start := start, rs_start_tmp := start_tmp, rs_len := len,
                      rs_pos_tmp := pos_tmp, rs_pos := size_sub (start + pos_tmp) start_tmp\<rparr>))
       }
     }"

fun rep_loop :: "nat \<Rightarrow> (nat \<Rightarrow> bool) \<Rightarrow> u8 cells \<Rightarrow> u8 list \<Rightarrow> u8 list \<Rightarrow> rep_state \<Rightarrow> nat \<Rightarrow>
    (nat \<times> rep_state) c_result option" where
  "rep_loop 0 ok tmp_buf str wth s k = None"
| "rep_loop (Suc fuel) ok tmp_buf str wth s k =
     (case rep_step (ok k) tmp_buf str wth s of
        None \<Rightarrow> Some Undefined
      | Some (go_on, s) \<Rightarrow>
          if go_on then rep_loop fuel ok tmp_buf str wth s (k + 1) else Some (Returned (k + 1, s)))"

definition rep_finish :: "u8 cells \<Rightarrow> nat \<times> rep_state \<Rightarrow> (nat \<times> u8 strbuf) option" where
  "rep_finish tmp_buf = (\<lambda>(n, s).
     do {
       m \<leftarrow> read_cells tmp_buf (rs_start_tmp s) (size_sub (rs_len s) (rs_start s));
       b \<leftarrow> put_cells (rs_buf s) (rs_start s) m;
       let b = b\<lparr>sb_len := rs_len s\<rparr>;
       b \<leftarrow> put_cells b (sb_len b) [Some 0];
       Some (n, b)
     })"

text \<open>
  \<open>ok_copy\<close> is the copy of a read-only text, \<open>ok_new\<close> the new block, \<open>ok k\<close> the room for the
  replacement \<open>k\<close>.
\<close>

definition eina_strbuf_replace_all ::
    "nat \<Rightarrow> bool \<Rightarrow> bool \<Rightarrow> (nat \<Rightarrow> bool) \<Rightarrow> u8 strbuf \<Rightarrow> u8 list \<Rightarrow> u8 list \<Rightarrow>
     (nat \<times> u8 strbuf) c_result option" where
  "eina_strbuf_replace_all fuel ok_copy ok_new ok b str wth =
     (case strstr_from (mem_cells (sb_buf b)) 0 str of
        None \<Rightarrow> Some Undefined
      | Some None \<Rightarrow> Some (Returned (0, b))
      | Some (Some spos) \<Rightarrow>
          if read_char (mem_cells (sb_buf b)) spos = Some 0 then Some (Returned (0, b))
          else if sb_ro b \<and> \<not> ok_copy then Some (Returned (0, b))
          else if sb_ro b then Some Undefined
          else if length str = length wth then replace_same fuel str wth b (Some spos) 0
          else if \<not> ok_new then Some (Returned (0, b))
          else
            let tmp_buf = mem_cells (sb_buf b);
                s = \<lparr>rs_buf = b\<lparr>sb_buf := mem_malloc True (sb_size b)\<rparr>, rs_start = 0, rs_start_tmp = 0,
                     rs_pos = spos, rs_pos_tmp = spos, rs_len = sb_len b\<rparr>
            in (case rep_loop fuel ok tmp_buf str wth s 0 of
                  None \<Rightarrow> None
                | Some Undefined \<Rightarrow> Some Undefined
                | Some (Returned r) \<Rightarrow> Some (of_option (rep_finish tmp_buf r))))"

section \<open>What a search finds\<close>

lemma find_sub_Some:
  "find_sub xs pat = Some i \<Longrightarrow>
   prefix pat (drop i xs) \<and> i + length pat \<le> length xs \<and> (\<forall>j<i. \<not> prefix pat (drop j xs))"
proof (induction xs arbitrary: i)
  case (Cons x xs)
  show ?case
  proof (cases "prefix pat (x # xs)")
    case True
    with Cons.prems show ?thesis by (auto dest: prefix_length_le)
  next
    case False
    with Cons.prems obtain i' where i: "i = Suc i'" "find_sub xs pat = Some i'" by auto
    from Cons.IH [OF i(2)] False show ?thesis by (auto simp: i(1) less_Suc_eq_0_disj)
  qed
qed (auto split: if_splits)

lemma find_sub_None:
  "find_sub xs pat = None \<Longrightarrow> \<not> prefix pat (drop j xs)"
proof (induction xs arbitrary: j)
  case (Cons x xs)
  then show ?case by (cases j) (auto split: if_splits)
qed (auto split: if_splits)

lemma strstr_from_finds:
  assumes "0 \<notin> set xs" "pos \<le> length xs"
  shows "strstr_from (c_str xs rest) pos pat = Some (map_option ((+) pos) (find_sub (drop pos xs) pat))"
proof -
  have "0 \<notin> set (drop pos xs)" using assms(1) by (meson in_set_dropD)
  then have "c_string (c_str (drop pos xs) rest) = Some (drop pos xs)" by simp
  moreover have "drop pos (c_str xs rest) = c_str (drop pos xs) rest" using assms(2) by (simp add: drop_map)
  ultimately show ?thesis using assms(2) by (simp add: strstr_from_def del: drop_append)
qed

text \<open>The occurrences of a string, overlapping ones too, from a position on.\<close>

definition occurrences :: "'a list \<Rightarrow> 'a list \<Rightarrow> nat \<Rightarrow> nat list" where
  "occurrences pat xs i = filter (\<lambda>j. prefix pat (drop j xs)) [i..<length xs]"

lemma occurrences_step:
  assumes "pat \<noteq> []" "i \<le> length xs"
  shows "occurrences pat xs i =
    (case find_sub (drop i xs) pat of
       None \<Rightarrow> []
     | Some d \<Rightarrow> (i + d) # occurrences pat xs (i + d + 1))"
proof (cases "find_sub (drop i xs) pat")
  case None
  have "\<not> prefix pat (drop j xs)" if "i \<le> j" for j
    using find_sub_None [OF None, of "j - i"] that by simp
  with None show ?thesis by (simp add: occurrences_def)
next
  case (Some d)
  from find_sub_Some [OF Some] assms
  have d: "prefix pat (drop (i + d) xs)" "i + d < length xs" "\<forall>j<d. \<not> prefix pat (drop (i + j) xs)"
    by (cases pat, auto simp: add.commute)+
  have "[i..<length xs] = [i..<i + d] @ (i + d) # [i + d + 1..<length xs]"
    using d(2) by (metis Suc_eq_plus1 le_add1 less_imp_le_nat upt_add_eq_append upt_rec le_add_diff_inverse)
  moreover have "filter (\<lambda>j. prefix pat (drop j xs)) [i..<i + d] = []"
  proof -
    have "\<not> prefix pat (drop j xs)" if "i \<le> j" "j < i + d" for j
      using d(3) that by (metis le_add_diff_inverse nat_add_left_cancel_less)
    then show ?thesis by auto
  qed
  ultimately show ?thesis using d(1) Some by (simp add: occurrences_def)
qed

lemma read_char_inside: "0 \<notin> set xs \<Longrightarrow> i < length xs \<Longrightarrow> \<exists>c. read_char (c_str xs rest) i = Some c \<and> c \<noteq> 0"
  using read_char_map [of i xs "Some 0 # rest"] by (metis nth_mem)

lemma replace_search_finds:
  assumes "0 \<notin> set xs" "pat \<noteq> []" "i \<le> length xs"
  shows "replace_search (c_str xs rest) pat (Suc n) i =
    Some (let os = occurrences pat xs i in if n < length os then Some (os ! n) else None)"
  using assms(3)
proof (induction n arbitrary: i)
  case (0 i)
  show ?case
  proof (cases "find_sub (drop i xs) pat")
    case (Some d)
    with find_sub_Some [OF this] assms(2) "0" have d: "i + d < length xs" by (cases pat) auto
    from read_char_inside [OF assms(1) d, of rest] Some "0" show ?thesis
      using occurrences_step [OF assms(2) "0"] strstr_from_finds [OF assms(1) "0", of rest pat] by auto
  qed (use occurrences_step [OF assms(2) "0"] strstr_from_finds [OF assms(1) "0", of rest pat] in simp)
next
  case (Suc n)
  show ?case
  proof (cases "find_sub (drop i xs) pat")
    case (Some d)
    with find_sub_Some [OF this] assms(2) Suc.prems have d: "i + d < length xs" by (cases pat) auto
    then have "i + d + 1 \<le> length xs" by simp
    from Suc.IH [OF this] read_char_inside [OF assms(1) d, of rest] Some show ?thesis
      using occurrences_step [OF assms(2) Suc.prems] strstr_from_finds [OF assms(1) Suc.prems, of rest pat]
      by (auto simp: Let_def)
  qed (use occurrences_step [OF assms(2) Suc.prems] strstr_from_finds [OF assms(1) Suc.prems, of rest pat] in simp)
qed

section \<open>Replacing one\<close>

lemma replace_writes:
  assumes "length p + length w + length q < length cs" "take (length p) cs = p"
  shows "\<exists>c1 c2 c3. write_cells cs (length p + length w) q = Some c1 \<and>
    write_cells c1 (length p) w = Some c2 \<and>
    write_cells c2 (length p + (length q + length w)) [z] = Some c3 \<and>
    take (length p + (length q + length w) + 1) c3 = p @ w @ q @ [z] \<and> length c3 = length cs"
proof -
  let ?a = "take (length p + length w) cs" and ?d = "drop (length p + length w + length q) cs"
  have a: "length ?a = length p + length w" "take (length p) ?a = p"
    using assms by (auto simp: min_def)
  have 1: "write_cells cs (length p + length w) q = Some (?a @ q @ ?d)"
    using assms by (simp add: write_cells_def)
  have 2: "write_cells (?a @ q @ ?d) (length p) w = Some (p @ w @ q @ ?d)"
    using assms a by (simp add: write_cells_def min_def)
  have "write_cells ((p @ w @ q) @ ?d) (length p + length w + length q) [z] =
      Some ((p @ w @ q) @ [z] @ drop 1 ?d)"
    using assms by (subst write_cells_next) auto
  moreover have total: "length p + (length q + length w) = length p + length w + length q" by simp
  ultimately show ?thesis using assms 1 2 unfolding total by (simp add: Suc_diff_Suc)
qed

definition replace_at :: "nat \<Rightarrow> nat \<Rightarrow> 'a list \<Rightarrow> 'a list \<Rightarrow> 'a list" where
  "replace_at pos k w xs = take pos xs @ w @ drop (pos + k) xs"

text \<open>The edit behind the search, as one function of the position.\<close>

definition replace_found ::
    "bool \<Rightarrow> u8 strbuf \<Rightarrow> nat \<Rightarrow> nat \<Rightarrow> u8 list \<Rightarrow> (bool \<times> u8 strbuf) option" where
  "replace_found ok' b pos len1 wth =
     (let len2 = length wth in do {
        (r, b) \<leftarrow> (if len1 \<noteq> len2
          then do {
            (r, b) \<leftarrow> strbuf_grow ok' 1 b (size_t (size_sub (sb_len b) len1 + len2));
            if \<not> r then Some (False, b)
            else do {
              t \<leftarrow> mem_read (sb_buf b) (pos + len1) (size_sub (size_sub (sb_len b) pos) len1);
              b \<leftarrow> put_cells b (pos + len2) t;
              Some (True, b)
            }
          }
          else Some (True, b));
        if \<not> r then Some (False, b)
        else do {
          b \<leftarrow> put_cells b pos (map Some wth);
          let b = b\<lparr>sb_len := size_sub (sb_len b + len2) len1\<rparr>;
          b \<leftarrow> put_cells b (sb_len b) [Some 0];
          Some (True, b)
        }
      })"

lemma replace_search_then_found:
  assumes "strbuf_rep b xs" "0 \<notin> set xs" "str \<noteq> []"
  shows "eina_strbuf_replace ok ok' b str wth n =
    (let os = occurrences str xs 0 in
     if n \<noteq> 0 \<and> unat n \<le> length os
     then replace_found ok' b (os ! (unat n - 1)) (length str) wth else Some (False, b))"
proof -
  obtain rest where b: "sb_buf b = Heap (c_str xs rest)" "\<not> sb_ro b"
    using assms(1) by (auto elim: strbuf_repE)
  then have own: "strbuf_own ok 1 b = Some (True, b)" by (simp add: strbuf_own_def)
  show ?thesis
  proof (cases "n = 0")
    case False
    then obtain k where k: "unat n = Suc k" by (metis not0_implies_Suc unat_eq_0)
    show ?thesis
      using replace_search_finds [OF assms(2,3), of 0 rest k] False b own
      by (auto simp: eina_strbuf_replace_def replace_found_def Let_def k)
  qed (simp add: eina_strbuf_replace_def)
qed

lemma replace_found_edits:
  assumes rep: "strbuf_rep b (p @ s @ q)" and rm: "length p + length q + length s + length wth < 2 ^ 60"
  shows "edits_to ok' b (p @ wth @ q) (replace_found ok' b (length p) (length s) wth)"
proof -
  have len: "sb_len b = length p + length s + length q" using rep by (auto elim: strbuf_repE)
  show ?thesis
  proof (cases "length s = length wth")
    case True
    from rep obtain rest sz st where b: "b = heap_buf (p @ s @ q) rest sz st"
      and sz: "length (p @ s @ q) < sz" "sz \<le> length (p @ s @ q) + 1 + length rest" "32 \<le> st" "st \<le> 4096"
      by (rule strbuf_repE)
    have w1: "write_cells (c_str (p @ s @ q) rest) (length p) (map Some wth) =
        Some ((map Some p @ map Some wth @ map Some q) @ Some 0 # rest)"
      using True by (simp add: write_cells_def)
    have w2: "write_cells ((map Some p @ map Some wth @ map Some q) @ Some 0 # rest)
        (length p + length wth + length q) [Some 0] = Some (c_str (p @ wth @ q) rest)"
      by (subst write_cells_next) auto
    have "replace_found ok' b (length p) (length s) wth = Some (True, heap_buf (p @ wth @ q) rest sz st)"
      using True w1 w2 rm
      by (simp add: replace_found_def b put_cells_def heap_buf_def size_sub_diff ac_simps)
    moreover have "strbuf_rep (heap_buf (p @ wth @ q) rest sz st) (p @ wth @ q)"
      using sz True by (intro strbuf_repI) auto
    ultimately show ?thesis by (auto simp: edits_to_def)
  next
    case differ: False
    let ?n = "length p + (length q + length wth)"
    have n: "size_t (size_sub (sb_len b) (length s) + length wth) = ?n"
      using rm len by (simp add: size_sub_diff)
    have small: "?n < 2 ^ 60" using rm by simp
    obtain r b' where g: "strbuf_grow ok' 1 b ?n = Some (r, b')" "strbuf_rep b' (p @ s @ q)"
      "r \<longrightarrow> ?n < sb_size b'" "ok' \<longrightarrow> r" "\<not> r \<longrightarrow> b' = b"
      using grow_rep [OF rep small, of 1 ok'] by auto
    show ?thesis
    proof (cases r)
      case True
      obtain rest where shape: "strbuf_shape b' (c_str (p @ s @ q) rest)" using rep_shape [OF g(2)] by blast
      let ?cs = "c_str (p @ s @ q) rest"
      have sh: "sb_buf b' = Heap ?cs" "sb_size b' \<le> length ?cs" using shape by (simp_all add: strbuf_shape_def)
      have len': "sb_len b' = length p + length s + length q" using g(2) by (auto elim: strbuf_repE)
      have after: "size_sub (sb_len b' + length wth) (length s) = ?n"
        using rm by (simp add: len' size_sub_diff)
      have tail: "mem_read (sb_buf b') (length p + length s) (size_sub (size_sub (sb_len b') (length p)) (length s)) =
          Some (map Some q)"
        using rm by (simp add: sh(1) len' read_cells_def size_sub_diff)
      obtain c1 c2 c3 where w: "write_cells ?cs (length p + length wth) (map Some q) = Some c1"
        "write_cells c1 (length p) (map Some wth) = Some c2" "write_cells c2 ?n [Some 0] = Some c3"
        "take (?n + 1) c3 = c_str (p @ wth @ q) []" "length c3 = length ?cs"
        using replace_writes [of "map Some p" "map Some wth" "map Some q" ?cs "Some 0"] g(3) True sh(2) by auto
      let ?b = "b'\<lparr>sb_buf := Heap c3, sb_len := ?n\<rparr>"
      have "replace_found ok' b (length p) (length s) wth = Some (True, ?b)"
        using differ g(1) True tail sh(1) len' w(1,2,3) after
        by (simp add: replace_found_def Let_def n put_cells_def del: append_assoc)
      moreover have "strbuf_rep ?b (p @ wth @ q)"
      proof (rule shape_rep)
        show "strbuf_shape ?b c3" using shape w(5) by (simp add: strbuf_shape_def)
      qed (use w(4) g(3) True in \<open>simp_all add: ac_simps\<close>)
      ultimately show ?thesis by (auto simp: edits_to_def)
    next
      case False
      then show ?thesis using differ n g by (auto simp: replace_found_def edits_to_def)
    qed
  qed
qed

lemma occurrences_split:
  assumes "pos \<in> set (occurrences pat xs i)"
  shows "xs = take pos xs @ pat @ drop (pos + length pat) xs" "pos + length pat \<le> length xs"
proof -
  from assms have pos: "pos < length xs" and pre: "prefix pat (drop pos xs)" by (auto simp: occurrences_def)
  have "length pat \<le> length (drop pos xs)" by (rule prefix_length_le [OF pre])
  with pos show "pos + length pat \<le> length xs" by simp
  from pre have "drop pos xs = pat @ drop (length pat) (drop pos xs)"
    by (metis append_eq_conv_conj prefix_def)
  then show "xs = take pos xs @ pat @ drop (pos + length pat) xs"
    by (metis append_take_drop_id drop_drop add.commute)
qed

lemma replace_edits:
  assumes rep: "strbuf_rep b xs" and "0 \<notin> set xs" "str \<noteq> []" and rm: "length xs + length wth < 2 ^ 60"
  shows "if n \<noteq> 0 \<and> unat n \<le> length (occurrences str xs 0)
    then edits_to ok' b (replace_at (occurrences str xs 0 ! (unat n - 1)) (length str) wth xs)
           (eina_strbuf_replace ok ok' b str wth n)
    else eina_strbuf_replace ok ok' b str wth n = Some (False, b)"
proof (cases "n \<noteq> 0 \<and> unat n \<le> length (occurrences str xs 0)")
  case True
  define pos where "pos = occurrences str xs 0 ! (unat n - 1)"
  have "0 < unat n" using True by (simp add: unat_gt_0)
  with True have "unat n - 1 < length (occurrences str xs 0)" by linarith
  then have "pos \<in> set (occurrences str xs 0)" unfolding pos_def by (rule nth_mem)
  from occurrences_split [OF this]
  have xs: "xs = take pos xs @ str @ drop (pos + length str) xs" and pos: "pos + length str \<le> length xs"
    by simp_all
  have "edits_to ok' b (take pos xs @ wth @ drop (pos + length str) xs)
      (replace_found ok' b (length (take pos xs)) (length str) wth)"
  proof (rule replace_found_edits)
    show "strbuf_rep b (take pos xs @ str @ drop (pos + length str) xs)" using rep xs by simp
    show "length (take pos xs) + length (drop (pos + length str) xs) + length str + length wth < 2 ^ 60"
      using rm pos by simp
  qed
  then show ?thesis
    using True pos replace_search_then_found [OF assms(1-3), of ok ok' wth n]
    by (simp add: pos_def replace_at_def Let_def)
next
  case False
  then show ?thesis
    using replace_search_then_found [OF assms(1-3), of ok ok' wth n] by (simp only: Let_def if_False)
qed

section \<open>Replacing all\<close>

text \<open>The replacements from left to right, and their number.\<close>

function subst_all :: "'a list \<Rightarrow> 'a list \<Rightarrow> 'a list \<Rightarrow> nat \<times> 'a list" where
  "subst_all pat w [] = (0, [])"
| "subst_all pat w (x # xs) =
     (if pat \<noteq> [] \<and> prefix pat (x # xs)
      then let (k, t) = subst_all pat w (drop (length pat) (x # xs)) in (Suc k, w @ t)
      else let (k, t) = subst_all pat w xs in (k, x # t))"
  by pat_completeness auto
termination by (relation "measure (\<lambda>(pat, w, xs). length xs)") auto

lemma subst_all_find:
  assumes "pat \<noteq> []"
  shows "subst_all pat w xs =
    (case find_sub xs pat of
       None \<Rightarrow> (0, xs)
     | Some d \<Rightarrow> let (k, t) = subst_all pat w (drop (d + length pat) xs) in (Suc k, take d xs @ w @ t))"
proof (induction xs)
  case (Cons x xs)
  show ?case
  proof (cases "prefix pat (x # xs)")
    case False
    with Cons show ?thesis by (auto split: option.splits prod.splits)
  qed (use assms in simp)
qed (use assms in simp)

lemma put_same_length:
  assumes "strbuf_rep b (p @ s @ q)" "length w = length s"
  shows "\<exists>b' rest. put_cells b (length p) (map Some w) = Some b' \<and> strbuf_rep b' (p @ w @ q) \<and>
    mem_cells (sb_buf b') = c_str (p @ w @ q) rest"
proof -
  from assms(1) obtain rest sz st where b: "b = heap_buf (p @ s @ q) rest sz st"
    and sz: "length (p @ s @ q) < sz" "sz \<le> length (p @ s @ q) + 1 + length rest" "32 \<le> st" "st \<le> 4096"
    by (rule strbuf_repE)
  have "put_cells b (length p) (map Some w) = Some (heap_buf (p @ w @ q) rest sz st)"
    using assms(2) by (simp add: b write_cells_def put_cells_def heap_buf_def)
  moreover have "strbuf_rep (heap_buf (p @ w @ q) rest sz st) (p @ w @ q)"
    using sz assms(2) by (intro strbuf_repI) auto
  ultimately show ?thesis by fastforce
qed

lemma find_sub_split:
  assumes "find_sub ys pat = Some d" "pat \<noteq> []"
  shows "ys = take d ys @ pat @ drop (d + length pat) ys" "d + length pat \<le> length ys"
    "length (drop (d + length pat) ys) < length ys" "d < length ys"
proof -
  from find_sub_Some [OF assms(1)]
  have pre: "prefix pat (drop d ys)" and len: "d + length pat \<le> length ys" by simp_all
  from pre have "drop d ys = pat @ drop (length pat) (drop d ys)"
    by (metis append_eq_conv_conj prefix_def)
  then show "ys = take d ys @ pat @ drop (d + length pat) ys"
    by (metis append_take_drop_id drop_drop add.commute)
  show "d + length pat \<le> length ys" by fact
  show "length (drop (d + length pat) ys) < length ys" "d < length ys"
    using len assms(2) by (cases pat; auto)+
qed

lemma replace_same_replaces:
  assumes "strbuf_rep b (t @ ys)" "0 \<notin> set t" "0 \<notin> set ys" "0 \<notin> set w" "pat \<noteq> []"
    "length w = length pat" "length ys \<le> fuel"
  shows "\<exists>b'. replace_same fuel pat w b (map_option ((+) (length t)) (find_sub ys pat)) k =
      Some (Returned (k + fst (subst_all pat w ys), b')) \<and>
    strbuf_rep b' (t @ snd (subst_all pat w ys))"
  using assms
proof (induction fuel arbitrary: b t ys k)
  case 0
  then show ?case by auto
next
  case (Suc fuel)
  show ?case
  proof (cases "find_sub ys pat")
    case None
    with Suc.prems show ?thesis by (simp add: subst_all_find [OF Suc.prems(5)])
  next
    case (Some d)
    define p q where "p = take d ys" and "q = drop (d + length pat) ys"
    have ys: "ys = p @ pat @ q" and p: "length p = d" and q: "length q < length ys"
      using find_sub_split [OF Some Suc.prems(5)] by (simp_all add: p_def q_def)
    have zeros: "0 \<notin> set (t @ p @ w)" "0 \<notin> set q" using Suc.prems by (auto simp: ys)
    obtain b' rest where b': "put_cells b (length (t @ p)) (map Some w) = Some b'"
      "strbuf_rep b' (((t @ p) @ w @ q))" "mem_cells (sb_buf b') = c_str ((t @ p) @ w @ q) rest"
      using put_same_length [of b "t @ p" pat q w] Suc.prems(1,6) by (auto simp: ys)
    have f: "strstr_from (c_str ((t @ p) @ w @ q) rest) (length (t @ p @ w)) pat =
        Some (map_option ((+) (length (t @ p @ w))) (find_sub q pat))"
      using strstr_from_finds [of "(t @ p @ w) @ q" "length (t @ p @ w)" rest pat] zeros by simp
    have pos: "length t + d = length (t @ p)" "length (t @ p) + length w = length (t @ p @ w)"
      using p by simp_all
    have "replace_same (Suc fuel) pat w b (map_option ((+) (length t)) (find_sub ys pat)) k =
        replace_same fuel pat w b' (map_option ((+) (length (t @ p @ w))) (find_sub q pat)) (k + 1)"
      unfolding Some option.map replace_same.simps pos b'(1) bind.bind_lunit b'(3) f by simp
    moreover have "subst_all pat w ys = (Suc (fst (subst_all pat w q)), p @ w @ snd (subst_all pat w q))"
      using subst_all_find [OF Suc.prems(5), of w ys] Some by (simp add: p_def q_def case_prod_unfold Let_def)
    moreover have "\<exists>b''. replace_same fuel pat w b' (map_option ((+) (length (t @ p @ w))) (find_sub q pat)) (k + 1) =
        Some (Returned (k + 1 + fst (subst_all pat w q), b'')) \<and>
      strbuf_rep b'' ((t @ p @ w) @ snd (subst_all pat w q))"
      using Suc.IH [of b' "t @ p @ w" q "k + 1"] Suc.prems b'(2) zeros q by simp
    ultimately show ?thesis by simp
  qed
qed

text \<open>
  The state of the other loop: \<open>t\<close> has been written, \<open>ys\<close> is left of the text \<open>p @ ys\<close>.
\<close>

definition rep_inv :: "u8 list \<Rightarrow> nat \<Rightarrow> u8 list \<Rightarrow> u8 list \<Rightarrow> rep_state \<Rightarrow> bool" where
  "rep_inv xs lw t ys s \<longleftrightarrow>
     (\<exists>cs. strbuf_shape (rs_buf s) cs \<and> take (length t) cs = map Some t) \<and>
     rs_len s < sb_size (rs_buf s) \<and>
     rs_start s = length t \<and> rs_start_tmp s + length ys = length xs \<and>
     rs_len s = length t + length ys \<and> length t \<le> rs_start_tmp s * (lw + 1) \<and>
     drop (rs_start_tmp s) xs = ys"

lemma write_cells_take:
  assumes "write_cells cs pos ys = Some cs'"
  shows "take (pos + length ys) cs' = take pos cs @ ys" "length cs' = length cs"
proof -
  from assms have fits: "pos + length ys \<le> length cs"
    and cs': "cs' = take pos cs @ ys @ drop (pos + length ys) cs"
    by (simp_all add: write_cells_def split: if_splits)
  from fits have "length (take pos cs) = pos" by simp
  then show "take (pos + length ys) cs' = take pos cs @ ys" "length cs' = length cs"
    using fits by (simp_all add: cs')
qed

lemma write_cells_fits: "pos + length ys \<le> length cs \<Longrightarrow> \<exists>cs'. write_cells cs pos ys = Some cs'"
  by (simp add: write_cells_def)

text \<open>Two pieces one after the other.\<close>

lemma write_two:
  assumes "take (length t) cs = t" "length t + length a + length c \<le> length cs"
  shows "\<exists>c1 c2. write_cells cs (length t) a = Some c1 \<and> write_cells c1 (length t + length a) c = Some c2 \<and>
    take (length t + length a + length c) c2 = t @ a @ c \<and> length c2 = length cs"
proof -
  obtain c1 where 1: "write_cells cs (length t) a = Some c1"
    using write_cells_fits [of "length t" a cs] assms by auto
  note l1 = write_cells_take [OF 1]
  obtain c2 where 2: "write_cells c1 (length t + length a) c = Some c2"
    using write_cells_fits [of "length t + length a" c c1] assms l1 by auto
  show ?thesis using 1 2 l1 write_cells_take [OF 2] assms(1) by auto
qed

lemma rep_step_replaces:
  assumes inv: "rep_inv xs (length w) t ys s" and find: "find_sub ys pat = Some d" and pat: "pat \<noteq> []"
    and zeros: "0 \<notin> set xs" and pos: "rs_pos s = length t + d" "rs_pos_tmp s = rs_start_tmp s + d"
    and room: "length xs * (length w + 1) < 2 ^ 60"
  defines "t' \<equiv> t @ take d ys @ w" and "ys' \<equiv> drop (d + length pat) ys"
  shows "\<exists>s'. rep_step True (c_str xs rest) pat w s = Some (find_sub ys' pat \<noteq> None, s') \<and>
    rep_inv xs (length w) t' ys' s' \<and>
    (\<forall>d'. find_sub ys' pat = Some d' \<longrightarrow> rs_pos s' = length t' + d' \<and> rs_pos_tmp s' = rs_start_tmp s' + d')"
proof -
  let ?i = "rs_start_tmp s" and ?i' = "rs_start_tmp s + d + length pat"
  let ?len = "rs_len s + length w - length pat"
  from inv obtain cs where shape: "strbuf_shape (rs_buf s) cs" and cs: "take (length t) cs = map Some t"
    and st: "rs_len s < sb_size (rs_buf s)" "rs_start s = length t" "?i + length ys = length xs"
      "rs_len s = length t + length ys" "length t \<le> ?i * (length w + 1)" and ys: "drop ?i xs = ys"
    by (auto simp: rep_inv_def)
  note split = find_sub_split [OF find pat]
  have len: "?len = length t' + length ys'"
    using split st by (simp add: t'_def ys'_def)
  have t': "length t' \<le> ?i' * (length w + 1)"
  proof -
    have "length t' = length t + d + length w" using split by (simp add: t'_def)
    also have "\<dots> \<le> ?i * (length w + 1) + d + length w" using st(5) by simp
    also have "\<dots> \<le> ?i * (length w + 1) + d * (length w + 1) + length pat * (length w + 1)"
    proof -
      have "length w \<le> length pat * (length w + 1)" using pat by (cases pat) auto
      then show ?thesis by simp
    qed
    also have "\<dots> = ?i' * (length w + 1)" by (simp add: algebra_simps)
    finally show ?thesis .
  qed
  have i': "?i' + length ys' = length xs" "drop ?i' xs = ys'"
    using split st ys by (auto simp: ys'_def add.commute add.left_commute)
  have "length t' + length ys' \<le> ?i' * (length w + 1) + length ys' * (length w + 1)"
    using t' by simp
  also have "\<dots> = length xs * (length w + 1)" using i'(1) by (metis add_mult_distrib)
  finally have small: "?len < 2 ^ 60" using room len by simp
  have one: "(0::nat) < 1" "(1::nat) \<le> 8" by simp_all
  obtain r b cs' where g: "strbuf_grow True 1 (rs_buf s) ?len = Some (r, b)" "strbuf_shape b cs'"
    "\<forall>k. k \<le> length cs \<and> k \<le> ?len + 1 \<longrightarrow> take k cs' = take k cs" "r \<longrightarrow> ?len < sb_size b" "True \<longrightarrow> r"
    using grow_shape [OF shape small one(1) one(2), of True] by (elim exE conjE) (rule that; assumption)
  then have r: "r" and size: "?len < sb_size b" "sb_size b \<le> length cs'" "sb_buf b = Heap cs'"
    by (simp_all add: strbuf_shape_def)
  have "length t \<le> length cs" using shape st by (auto simp: strbuf_shape_def)
  then have keep: "take (length t) cs' = map Some t" using g(3) len cs by (simp add: t'_def)
  have xs: "length xs < 2 ^ 60"
  proof -
    have "length xs \<le> length xs * (length w + 1)" by simp
    with room show ?thesis by linarith
  qed
  have L1: "size_sub (rs_len s + length w) (length pat) = ?len"
    by (rule size_sub_diff) (use split(2) st(3,4) xs small in simp_all)
  have L2: "size_sub (length t + d) (length t) = d"
    by (subst size_sub_diff) (use small xs split(2) st(3,4) in simp_all)
  have L3: "size_sub (length t' + (?i' + d')) ?i' = length t' + d'" if "find_sub ys' pat = Some d'" for d'
  proof -
    have "d' \<le> length ys'" using find_sub_Some [OF that] by simp
    then show ?thesis using xs small len i'(1) by (subst size_sub_diff) simp_all
  qed
  have m: "read_cells (c_str xs rest) ?i (size_sub (rs_pos s) (rs_start s)) = Some (map Some (take d ys))"
  proof -
    have "take d (drop ?i (c_str xs rest)) = map Some (take d ys)"
      using st split ys by (simp add: drop_map take_map)
    then show ?thesis using st pos split L2 by (simp add: read_cells_def)
  qed
  have d: "length (take d ys) = d" using split by simp
  obtain c1 c2 where w: "write_cells cs' (length t) (map Some (take d ys)) = Some c1"
    "write_cells c1 (length t + d) (map Some w) = Some c2" "take (length t + d + length w) c2 = map Some t'"
    "length c2 = length cs'"
    using write_two [of "map Some t" cs' "map Some (take d ys)" "map Some w"] keep size len d
    by (auto simp: t'_def ys'_def)
  have f: "strstr_from (c_str xs rest) ?i' pat = Some (map_option ((+) ?i') (find_sub ys' pat))"
    using strstr_from_finds [OF zeros, of ?i' rest pat] i' by simp
  let ?b = "b\<lparr>sb_buf := Heap c2\<rparr>"
  let ?s = "s\<lparr>rs_buf := ?b, rs_start := length t', rs_start_tmp := ?i', rs_len := ?len\<rparr>"
  have lt': "length t + d + length w = length t'" using d by (simp add: t'_def)
  have inv': "rep_inv xs (length w) t' ys' (?s\<lparr>rs_pos_tmp := x, rs_pos := y\<rparr>)" for x y
    using g(2) w(3,4) size len t' i' lt' by (auto simp: rep_inv_def strbuf_shape_def)
  have put: "put_cells b (rs_start s) (map Some (take d ys)) = Some (b\<lparr>sb_buf := Heap c1\<rparr>)"
    "put_cells (b\<lparr>sb_buf := Heap c1\<rparr>) (rs_pos s) (map Some w) = Some ?b"
    using w size st pos by (simp_all add: put_cells_def)
  have "rep_step True (c_str xs rest) pat w s = Some (case find_sub ys' pat of
      None \<Rightarrow> (False, ?s)
    | Some d' \<Rightarrow> (True, ?s\<lparr>rs_pos_tmp := ?i' + d', rs_pos := length t' + d'\<rparr>))"
    unfolding rep_step_def Let_def L1 g(1) bind.bind_lunit prod.case
    by (simp only: r simp_thms if_False m [unfolded pos] put [unfolded pos] bind.bind_lunit pos f lt')
      (cases "find_sub ys' pat"; simp add: L3)
  note step = this
  show ?thesis
  proof (cases "find_sub ys' pat")
    case None
    have "?s\<lparr>rs_pos_tmp := rs_pos_tmp ?s, rs_pos := rs_pos ?s\<rparr> = ?s" by simp
    with inv' have "rep_inv xs (length w) t' ys' ?s" by metis
    then show ?thesis using step None by (intro exI [of _ ?s]) simp
  next
    case (Some d')
    let ?s' = "?s\<lparr>rs_pos_tmp := ?i' + d', rs_pos := length t' + d'\<rparr>"
    have "rep_inv xs (length w) t' ys' ?s'" by (rule inv')
    then show ?thesis using step Some by (intro exI [of _ ?s']) simp
  qed
qed

lemma rep_loop_replaces:
  assumes "rep_inv xs (length w) t ys s" "find_sub ys pat = Some d" "pat \<noteq> []" "0 \<notin> set xs"
    "rs_pos s = length t + d" "rs_pos_tmp s = rs_start_tmp s + d"
    "length xs * (length w + 1) < 2 ^ 60" "length ys \<le> fuel"
  shows "\<exists>s' t' ys'. rep_loop fuel (\<lambda>_. True) (c_str xs rest) pat w s k =
      Some (Returned (k + fst (subst_all pat w ys), s')) \<and>
    rep_inv xs (length w) t' ys' s' \<and> t' @ ys' = t @ snd (subst_all pat w ys)"
  using assms
proof (induction fuel arbitrary: t ys s d k)
  case 0
  then show ?case by auto
next
  case (Suc fuel)
  define p ys' where "p = take d ys" and "ys' = drop (d + length pat) ys"
  from rep_step_replaces [OF Suc.prems(1-7), of rest] obtain s' where
    s': "rep_step True (c_str xs rest) pat w s = Some (find_sub ys' pat \<noteq> None, s')"
    "rep_inv xs (length w) (t @ p @ w) ys' s'"
    "\<forall>d'. find_sub ys' pat = Some d' \<longrightarrow>
      rs_pos s' = length (t @ p @ w) + d' \<and> rs_pos_tmp s' = rs_start_tmp s' + d'"
    by (auto simp: p_def ys'_def)
  have sub: "subst_all pat w ys = (Suc (fst (subst_all pat w ys')), p @ w @ snd (subst_all pat w ys'))"
    using subst_all_find [OF Suc.prems(3), of w ys] Suc.prems(2)
    by (simp add: p_def ys'_def case_prod_unfold Let_def)
  show ?case
  proof (cases "find_sub ys' pat")
    case None
    with s' have "rep_loop (Suc fuel) (\<lambda>_. True) (c_str xs rest) pat w s k = Some (Returned (k + 1, s'))"
      by simp
    moreover have "subst_all pat w ys' = (0, ys')"
      using None subst_all_find [OF Suc.prems(3), of w ys'] by simp
    ultimately show ?thesis using s'(2) sub by (intro exI [of _ s'] exI [of _ "t @ p @ w"] exI [of _ ys']) simp
  next
    case (Some d')
    with s'(3) have pos: "rs_pos s' = length (t @ p @ w) + d'" "rs_pos_tmp s' = rs_start_tmp s' + d'"
      by blast+
    have "length ys' \<le> fuel"
      using find_sub_split(3) [OF Suc.prems(2,3)] Suc.prems(8) by (simp add: ys'_def)
    from Suc.IH [OF s'(2) Some Suc.prems(3,4) pos Suc.prems(7) this, of "k + 1"] obtain s'' t'' ys'' where
      "rep_loop fuel (\<lambda>_. True) (c_str xs rest) pat w s' (k + 1) =
        Some (Returned (k + 1 + fst (subst_all pat w ys'), s''))"
      "rep_inv xs (length w) t'' ys'' s''" "t'' @ ys'' = (t @ p @ w) @ snd (subst_all pat w ys')"
      by auto
    moreover have "rep_loop (Suc fuel) (\<lambda>_. True) (c_str xs rest) pat w s k =
        rep_loop fuel (\<lambda>_. True) (c_str xs rest) pat w s' (k + 1)"
      using s'(1) Some by simp
    ultimately show ?thesis using sub
      by (intro exI [of _ s''] exI [of _ "t''"] exI [of _ ys'']) simp
  qed
qed

lemma rep_finish_rep:
  assumes inv: "rep_inv xs lw t ys s" and room: "length xs * (lw + 1) < 2 ^ 60"
  shows "\<exists>b. rep_finish (c_str xs rest) (n, s) = Some (n, b) \<and> strbuf_rep b (t @ ys)"
proof -
  from inv obtain cs where shape: "strbuf_shape (rs_buf s) cs" and cs: "take (length t) cs = map Some t"
    and st: "rs_len s < sb_size (rs_buf s)" "rs_start s = length t" "rs_start_tmp s + length ys = length xs"
      "rs_len s = length t + length ys" and ys: "drop (rs_start_tmp s) xs = ys"
    by (auto simp: rep_inv_def)
  have b: "sb_buf (rs_buf s) = Heap cs" "sb_size (rs_buf s) \<le> length cs"
    using shape by (simp_all add: strbuf_shape_def)
  have "length t + length ys \<le> rs_start_tmp s * (lw + 1) + length ys * (lw + 1)"
    using inv by (simp add: rep_inv_def)
  also have "\<dots> = length xs * (lw + 1)" using st(3) by (metis add_mult_distrib)
  finally have "size_sub (rs_len s) (rs_start s) = length ys"
    using st(2,4) room by (subst size_sub_diff) simp_all
  then have m: "read_cells (c_str xs rest) (rs_start_tmp s) (size_sub (rs_len s) (rs_start s)) = Some (map Some ys)"
    using st ys by (simp add: read_cells_def drop_map)
  obtain c1 c2 where w: "write_cells cs (length t) (map Some ys) = Some c1"
    "write_cells c1 (length t + length ys) [Some 0] = Some c2"
    "take (length t + length ys + 1) c2 = map Some t @ map Some ys @ [Some 0]" "length c2 = length cs"
    using write_two [of "map Some t" cs "map Some ys" "[Some 0]"] cs st b by auto
  let ?b = "(rs_buf s)\<lparr>sb_buf := Heap c2, sb_len := length t + length ys\<rparr>"
  have "rep_finish (c_str xs rest) (n, s) = Some (n, ?b)"
    using m w(1,2) b(1) st(2,4) by (simp add: rep_finish_def put_cells_def)
  moreover have "strbuf_rep ?b (t @ ys)"
  proof (rule shape_rep)
    show "strbuf_shape ?b c2" using shape w(4) by (simp add: strbuf_shape_def)
  qed (use w(3) st in simp_all)
  ultimately show ?thesis by blast
qed

lemma replace_all_new_block:
  assumes rep: "strbuf_rep b xs" and zeros: "0 \<notin> set xs" and pat: "pat \<noteq> []"
    and room: "length xs * (length w + 1) < 2 ^ 60" and fuel: "length xs \<le> fuel"
    and find: "find_sub xs pat = Some d" and b: "sb_buf b = Heap (c_str xs rest)"
  defines "s \<equiv> \<lparr>rs_buf = b\<lparr>sb_buf := mem_malloc True (sb_size b)\<rparr>, rs_start = 0, rs_start_tmp = 0,
    rs_pos = d, rs_pos_tmp = d, rs_len = sb_len b\<rparr>"
  shows "\<exists>s' b'. rep_loop fuel (\<lambda>_. True) (c_str xs rest) pat w s 0 =
      Some (Returned (fst (subst_all pat w xs), s')) \<and>
    rep_finish (c_str xs rest) (fst (subst_all pat w xs), s') = Some (fst (subst_all pat w xs), b') \<and>
    strbuf_rep b' (snd (subst_all pat w xs))"
proof -
  have "sb_len b = length xs" "\<not> sb_ro b" "32 \<le> sb_step b" "sb_step b \<le> 4096" "length xs < sb_size b"
    using rep by (auto elim: strbuf_repE)
  then have inv: "rep_inv xs (length w) [] xs s"
    by (simp add: rep_inv_def s_def strbuf_shape_def mem_malloc_def)
  have pos: "rs_pos s = length ([] :: u8 list) + d" "rs_pos_tmp s = rs_start_tmp s + d"
    by (simp_all add: s_def)
  obtain s' t' ys' where loop: "rep_loop fuel (\<lambda>_. True) (c_str xs rest) pat w s 0 =
      Some (Returned (0 + fst (subst_all pat w xs), s'))"
    "rep_inv xs (length w) t' ys' s'" "t' @ ys' = [] @ snd (subst_all pat w xs)"
    using rep_loop_replaces [OF inv find pat zeros pos room fuel, of rest 0] by blast
  from rep_finish_rep [OF loop(2) room] loop(1,3) show ?thesis by auto
qed

lemma replace_all_edits:
  assumes rep: "strbuf_rep b xs" and zeros: "0 \<notin> set xs" "0 \<notin> set w" and pat: "pat \<noteq> []"
    and room: "length xs * (length w + 1) < 2 ^ 60" and fuel: "length xs \<le> fuel"
  shows "\<exists>b'. eina_strbuf_replace_all fuel ok_copy True (\<lambda>_. True) b pat w =
      Some (Returned (fst (subst_all pat w xs), b')) \<and> strbuf_rep b' (snd (subst_all pat w xs))"
proof -
  obtain rest where b: "sb_buf b = Heap (c_str xs rest)" "\<not> sb_ro b"
    using rep by (auto elim: strbuf_repE)
  have find: "strstr_from (mem_cells (sb_buf b)) 0 pat = Some (find_sub xs pat)"
    using strstr_from_finds [OF zeros(1), of 0 rest pat] by (cases "find_sub xs pat") (simp_all add: b(1))
  show ?thesis
  proof (cases "find_sub xs pat")
    case None
    then show ?thesis using rep find
      by (simp add: eina_strbuf_replace_all_def subst_all_find [OF pat])
  next
    case (Some d)
    have "d < length xs" using find_sub_split [OF Some pat] by simp
    with read_char_inside [OF zeros(1)] obtain c where c: "read_char (mem_cells (sb_buf b)) d = Some c" "c \<noteq> 0"
      by (force simp: b(1))
    show ?thesis
    proof (cases "length pat = length w")
      case True
      then have "eina_strbuf_replace_all fuel ok_copy True (\<lambda>_. True) b pat w =
          replace_same fuel pat w b (Some d) 0"
        using find Some b(2) c by (simp add: eina_strbuf_replace_all_def)
      then show ?thesis
        using replace_same_replaces [of b "[]" xs w pat fuel 0] assms True Some by simp
    next
      case False
      obtain s' b' where r: "rep_loop fuel (\<lambda>_. True) (c_str xs rest) pat w
          \<lparr>rs_buf = b\<lparr>sb_buf := mem_malloc True (sb_size b)\<rparr>, rs_start = 0, rs_start_tmp = 0,
            rs_pos = d, rs_pos_tmp = d, rs_len = sb_len b\<rparr> 0 =
          Some (Returned (fst (subst_all pat w xs), s'))"
        "rep_finish (c_str xs rest) (fst (subst_all pat w xs), s') = Some (fst (subst_all pat w xs), b')"
        "strbuf_rep b' (snd (subst_all pat w xs))"
        using replace_all_new_block [OF rep zeros(1) pat room fuel Some b(1)] by blast
      then have "eina_strbuf_replace_all fuel ok_copy True (\<lambda>_. True) b pat w =
          Some (Returned (fst (subst_all pat w xs), b'))"
        using find Some b c False by (simp add: eina_strbuf_replace_all_def of_option_def Let_def)
      with r(3) show ?thesis by blast
    qed
  qed
qed

text \<open>Nothing replaced by nothing is found again for ever.\<close>

lemma replace_same_empty:
  assumes "strbuf_rep b xs" "0 \<notin> set xs"
  shows "replace_same fuel [] [] b (Some 0) k = None"
proof (induction fuel arbitrary: k)
  case (Suc fuel)
  obtain rest sz st where b: "b = heap_buf xs rest sz st" using assms(1) by (rule strbuf_repE)
  have "put_cells b 0 [] = Some b" by (simp add: b put_cells_def write_cells_def heap_buf_def)
  moreover have "strstr_from (mem_cells (sb_buf b)) 0 [] = Some (Some 0)"
    using strstr_from_finds [OF assms(2), of 0 rest "[]"] by (cases xs) (simp_all add: b)
  ultimately show ?case using Suc by simp
qed simp

lemma replace_all_empty_pattern:
  assumes "strbuf_rep b xs" "0 \<notin> set xs" "xs \<noteq> []"
  shows "eina_strbuf_replace_all fuel ok_copy ok_new ok b [] [] = None"
proof -
  obtain rest where b: "sb_buf b = Heap (c_str xs rest)" "\<not> sb_ro b"
    using assms(1) by (auto elim: strbuf_repE)
  have "strstr_from (mem_cells (sb_buf b)) 0 [] = Some (Some 0)"
    using strstr_from_finds [OF assms(2), of 0 rest "[]"] by (cases xs) (simp_all add: b)
  moreover obtain c where "read_char (mem_cells (sb_buf b)) 0 = Some c" "c \<noteq> 0"
    using read_char_inside [OF assms(2), of 0 rest] assms(3) by (auto simp: b(1))
  ultimately show ?thesis
    using b(2) replace_same_empty [OF assms(1,2)] by (simp add: eina_strbuf_replace_all_def)
qed

end
