(* ===== verification/Eina_Strbuf_Text.thy ===== *)
theory Eina_Strbuf_Text
  imports Eina_Strbuf_Replace
begin

text \<open>
  The remaining operations of string buffers: creation, release, trimming and cutting of the
  text; and the buffers that manage text they must not write, where the edits in place go wrong.
  The properties of the buffers stand at the end.
\<close>

section \<open>Creation and release\<close>

lemma new_empty: "\<exists>b. eina_strbuf_common_new True True = Some b \<and> strbuf_rep b []"
  using strbuf_init_rep [of strbuf_blank]
  by (auto simp: eina_strbuf_common_new_def Let_def case_prod_unfold strbuf_init_def)

lemma new_fails: "\<not> (ok \<and> ok_buf) \<Longrightarrow> eina_strbuf_common_new ok ok_buf = None"
  by (auto simp: eina_strbuf_common_new_def Let_def strbuf_init_def)

lemma manage_new_holds:
  assumes "0 \<notin> set xs" "length xs < 2 ^ 60"
  shows "\<exists>b. eina_strbuf_manage_new True (c_str xs rest) = Some (Some b) \<and> strbuf_rep b xs"
proof -
  have "eina_strbuf_manage_new True (c_str xs rest) =
      Some (Some (heap_buf xs rest (length xs + 1) 32))"
    using assms by (simp add: eina_strbuf_manage_new_def eina_strbuf_common_manage_new_def
        strbuf_manage_init_def strbuf_blank_def heap_buf_def EINA_STRBUF_INIT_STEP_def)
  moreover have "strbuf_rep (heap_buf xs rest (length xs + 1) 32) xs" by (intro strbuf_repI) auto
  ultimately show ?thesis by blast
qed

lemma steal_empties:
  assumes "strbuf_rep b xs"
  shows "\<exists>b' rest. eina_strbuf_common_string_steal ok True csize b = Some (Heap (c_str xs rest), b') \<and>
    strbuf_rep b' []"
proof -
  from assms have "\<not> sb_ro b" "\<exists>rest. sb_buf b = Heap (c_str xs rest)" by (auto elim: strbuf_repE)
  then show ?thesis using strbuf_init_rep [of b]
    by (auto simp: eina_strbuf_common_string_steal_def strbuf_own_def)
qed

lemma reset_empties:
  assumes "strbuf_rep b xs"
  shows "\<exists>b'. eina_strbuf_common_reset ok b = Some b' \<and> strbuf_rep b' []"
proof -
  from assms obtain rest sz st where b: "b = heap_buf xs rest sz st"
    and sz: "length xs < sz" "sz \<le> length xs + 1 + length rest" by (rule strbuf_repE)
  let ?rest = "drop 1 (c_str xs rest)"
  have "eina_strbuf_common_reset ok b = Some (heap_buf [] ?rest sz 32)"
    by (simp add: eina_strbuf_common_reset_def b write_cells_def heap_buf_def EINA_STRBUF_INIT_STEP_def)
  moreover have "strbuf_rep (heap_buf [] ?rest sz 32) []" using sz by (intro strbuf_repI) auto
  ultimately show ?thesis by blast
qed

text \<open>
  Marking more cells as used adds whatever the caller has written there; the check of the room
  lets numbers pass whose sum wraps, and then the text is cut.
\<close>

lemma use_extends:
  assumes "strbuf_rep b xs" "length xs + n + 1 < 2 ^ 64"
  shows "eina_strbuf_common_use b n =
    (if length xs + n < sb_size b then (True, b\<lparr>sb_len := length xs + n\<rparr>) else (False, b))"
  using assms by (auto simp: eina_strbuf_common_use_def elim!: strbuf_repE)

lemma use_wraps:
  assumes "strbuf_rep b xs" "0 < k" "k \<le> length xs" "length xs < 2 ^ 64"
  shows "eina_strbuf_common_use b (2 ^ 64 - k) = (True, b\<lparr>sb_len := length xs - k\<rparr>)"
proof -
  have "length xs + (2 ^ 64 - k) + 1 = 2 ^ 64 + (length xs - k + 1)"
    "length xs + (2 ^ 64 - k) = 2 ^ 64 + (length xs - k)" using assms by simp_all
  then have "size_t (length xs + (2 ^ 64 - k) + 1) = size_t (length xs - k + 1)"
    "size_t (length xs + (2 ^ 64 - k)) = size_t (length xs - k)"
    by (simp_all only: size_t_def mod_add_self1)
  moreover have "length xs < sb_size b" "sb_len b = length xs" using assms(1) by (auto elim: strbuf_repE)
  ultimately show ?thesis using assms by (simp add: eina_strbuf_common_use_def)
qed

section \<open>Trimming\<close>

lemma rtrim_len_finds:
  "n \<le> length xs \<Longrightarrow>
   rtrim_len (Heap (map Some xs @ r)) n = Some (length (dropWhile buf_isspace (rev (take n xs))))"
proof (induction n)
  case (Suc n)
  have "mem_char (Heap (map Some xs @ r)) n = Some (xs ! n)"
    using Suc.prems by (simp add: mem_char_def read_char_map)
  moreover have "rev (take (Suc n) xs) = xs ! n # rev (take n xs)"
    using Suc.prems by (simp add: take_Suc_conv_app_nth)
  ultimately show ?case using Suc by simp
qed simp

lemma ltrim_skip_finds:
  "c + n \<le> length xs \<Longrightarrow>
   ltrim_skip (Heap (map Some xs @ r)) c n =
     (let t = dropWhile buf_isspace (take n (drop c xs)) in Some (c + n - length t, length t))"
proof (induction n arbitrary: c)
  case (Suc n)
  have "mem_char (Heap (map Some xs @ r)) c = Some (xs ! c)"
    using Suc.prems by (simp add: mem_char_def read_char_map)
  moreover have "take (Suc n) (drop c xs) = xs ! c # take n (drop (c + 1) xs)"
    using Suc.prems by (simp add: Cons_nth_drop_Suc [symmetric])
  ultimately show ?case using Suc by (simp add: Let_def)
qed simp

definition rtrim :: "u8 list \<Rightarrow> u8 list" where
  "rtrim xs = rev (dropWhile buf_isspace (rev xs))"

lemma rtrim_prefix: "\<exists>s. xs = rtrim xs @ s"
  unfolding rtrim_def using takeWhile_dropWhile_id [of buf_isspace "rev xs"]
  by (metis rev_append rev_rev_ident)

lemma dropWhile_suffix: "\<exists>p. xs = p @ dropWhile P xs"
  using takeWhile_dropWhile_id [of P xs] by metis

text \<open>The move of a piece of the text to the front, and its terminator.\<close>

lemma keep_piece:
  assumes rep: "strbuf_rep b (p @ t @ q)"
  shows "\<exists>b' b'' m. mem_read (sb_buf b) (length p) (length t) = Some m \<and>
    put_cells b 0 m = Some b' \<and> put_cells b' (length t) [Some 0] = Some b'' \<and>
    strbuf_rep (b''\<lparr>sb_len := length t\<rparr>) t"
proof -
  from rep obtain rest sz st where b: "b = heap_buf (p @ t @ q) rest sz st"
    and sz: "length (p @ t @ q) < sz" "sz \<le> length (p @ t @ q) + 1 + length rest"
    and st: "32 \<le> st" "st \<le> 4096"
    by (rule strbuf_repE)
  let ?cs = "c_str (p @ t @ q) rest"
  obtain c1 c2 where w: "write_cells ?cs 0 (map Some t) = Some c1" "write_cells c1 (length t) [Some 0] = Some c2"
    "take (length t + 1) c2 = c_str t []" "length c2 = length ?cs"
    using write_two [of "[]" ?cs "map Some t" "[Some 0]"] by auto
  let ?b = "b\<lparr>sb_buf := Heap c2, sb_len := length t\<rparr>"
  have "strbuf_rep ?b t"
  proof (rule shape_rep)
    show "strbuf_shape ?b c2" using w(4) sz st by (simp add: strbuf_shape_def b)
  qed (use w(3) sz in \<open>simp_all add: b\<close>)
  then show ?thesis using w(1,2) by (simp add: b read_cells_def put_cells_def)
qed

lemma trim_trims:
  assumes rep: "strbuf_rep b xs"
  shows "\<exists>b'. eina_strbuf_trim b = Some b' \<and> strbuf_rep b' (dropWhile buf_isspace (rtrim xs))"
proof -
  obtain rest where b: "sb_buf b = Heap (c_str xs rest)" "sb_len b = length xs"
    using rep by (auto elim: strbuf_repE)
  let ?t = "dropWhile buf_isspace (rtrim xs)"
  obtain s where s: "xs = rtrim xs @ s" using rtrim_prefix by blast
  obtain p where p: "rtrim xs = p @ ?t" using dropWhile_suffix by blast
  have len: "length (rtrim xs) = length p + length ?t" using p by (metis length_append)
  have r: "rtrim_len (sb_buf b) (sb_len b) = Some (length (rtrim xs))"
    using rtrim_len_finds [of "length xs" xs "Some 0 # rest"] by (simp add: b rtrim_def)
  have "take (length (rtrim xs)) xs = rtrim xs" using s by (metis append_eq_conv_conj)
  moreover have "length (rtrim xs) \<le> length xs" using s by (metis le_add1 length_append)
  ultimately have l: "ltrim_skip (sb_buf b) 0 (length (rtrim xs)) = Some (length p, length ?t)"
    using ltrim_skip_finds [of 0 "length (rtrim xs)" xs "Some 0 # rest"] len by (simp add: b Let_def)
  have "strbuf_rep b (p @ ?t @ s)" using rep s p by (metis append.assoc)
  from keep_piece [OF this] obtain b' b'' m where
    "mem_read (sb_buf b) (length p) (length ?t) = Some m" "put_cells b 0 m = Some b'"
    "put_cells b' (length ?t) [Some 0] = Some b''" "strbuf_rep (b''\<lparr>sb_len := length ?t\<rparr>) ?t"
    by blast
  with r l show ?thesis by (simp add: eina_strbuf_trim_def)
qed

lemma ltrim_trims:
  assumes rep: "strbuf_rep b xs"
  shows "\<exists>b'. eina_strbuf_ltrim b = Some b' \<and> strbuf_rep b' (dropWhile buf_isspace xs)"
proof -
  obtain rest where b: "sb_buf b = Heap (c_str xs rest)" "sb_len b = length xs"
    using rep by (auto elim: strbuf_repE)
  let ?t = "dropWhile buf_isspace xs"
  obtain p where p: "xs = p @ ?t" using dropWhile_suffix by blast
  have len: "length xs = length p + length ?t" using p by (metis length_append)
  have l: "ltrim_skip (sb_buf b) 0 (sb_len b) = Some (length p, length ?t)"
    using ltrim_skip_finds [of 0 "length xs" xs "Some 0 # rest"] len by (simp add: b Let_def)
  have "strbuf_rep b (p @ ?t @ [])" using rep p by simp
  from keep_piece [OF this] obtain b' b'' m where
    "mem_read (sb_buf b) (length p) (length ?t) = Some m" "put_cells b 0 m = Some b'"
    "put_cells b' (length ?t) [Some 0] = Some b''" "strbuf_rep (b''\<lparr>sb_len := length ?t\<rparr>) ?t"
    by blast
  with l show ?thesis by (simp add: eina_strbuf_ltrim_def)
qed

lemma rtrim_trims:
  assumes rep: "strbuf_rep b xs"
  shows "\<exists>b'. eina_strbuf_rtrim b = Some b' \<and> strbuf_rep b' (rtrim xs)"
proof -
  from rep obtain rest sz st where b: "b = heap_buf xs rest sz st"
    and sz: "length xs < sz" "sz \<le> length xs + 1 + length rest" and st: "32 \<le> st" "st \<le> 4096"
    by (rule strbuf_repE)
  obtain s where s: "xs = rtrim xs @ s" using rtrim_prefix by blast
  let ?t = "rtrim xs"
  have total: "length xs = length ?t + length s" using s by (metis length_append)
  have r: "rtrim_len (sb_buf b) (sb_len b) = Some (length ?t)"
    using rtrim_len_finds [of "length xs" xs "Some 0 # rest"] by (simp add: b rtrim_def)
  let ?rest = "drop 1 (map Some s @ Some 0 # rest)"
  have "write_cells (map Some ?t @ map Some s @ Some 0 # rest) (length ?t) [Some 0] = Some (c_str ?t ?rest)"
    by (subst write_cells_next) auto
  moreover have "c_str xs rest = map Some ?t @ map Some s @ Some 0 # rest" using s by (metis append.assoc map_append)
  ultimately have "eina_strbuf_rtrim b = Some (heap_buf ?t ?rest sz st)"
    using r by (simp add: eina_strbuf_rtrim_def b put_cells_def heap_buf_def)
  moreover have "strbuf_rep (heap_buf ?t ?rest sz st) ?t"
    using sz st total by (intro strbuf_repI) auto
  ultimately show ?thesis by blast
qed

lemma tolower_text:
  assumes "strbuf_rep b xs" "0 \<notin> set xs"
  shows "\<exists>b'. eina_strbuf_tolower b = Some b' \<and> strbuf_rep b' (map c_tolower xs)"
proof -
  from assms(1) obtain rest sz st where b: "b = heap_buf xs rest sz st"
    and sz: "length xs < sz" "sz \<le> length xs + 1 + length rest" and st: "32 \<le> st" "st \<le> 4096"
    by (rule strbuf_repE)
  have "eina_strbuf_tolower b = Some (heap_buf (map c_tolower xs) rest sz st)"
    using tolower_lowers [OF assms(2), of rest] by (simp add: eina_strbuf_tolower_def b heap_buf_def)
  moreover have "strbuf_rep (heap_buf (map c_tolower xs) rest sz st) (map c_tolower xs)"
    using sz st by (intro strbuf_repI) auto
  ultimately show ?thesis by blast
qed

section \<open>Substrings\<close>

lemma strncpy_chars_copies:
  "0 \<notin> set xs \<Longrightarrow> n \<le> length xs \<Longrightarrow> strncpy_chars (c_str xs r) n = Some (take n xs)"
proof (induction xs arbitrary: n)
  case (Cons x xs)
  then show ?case by (cases n) auto
qed simp

lemma substr_cuts:
  assumes rep: "strbuf_rep b xs" and zeros: "0 \<notin> set xs" and room: "length xs < 2 ^ 60"
    and range: "pos + len < 2 ^ 64"
  shows "if pos + len \<le> length xs
    then \<exists>b'. eina_strbuf_substr_get True True b pos len = Some (Some b') \<and>
           strbuf_rep b' (take len (drop pos xs))
    else eina_strbuf_substr_get True True b pos len = Some None"
proof (cases "pos + len \<le> length xs")
  case True
  obtain rest where b: "sb_buf b = Heap (c_str xs rest)" "sb_len b = length xs"
    using rep by (auto elim: strbuf_repE)
  let ?s = "take len (drop pos xs)"
  have z: "0 \<notin> set (drop pos xs)" using zeros by (meson in_set_dropD)
  then have zs: "0 \<notin> set ?s" by (meson in_set_takeD)
  have "drop pos (c_str xs rest) = c_str (drop pos xs) rest" using True by (simp add: drop_map)
  then have "strncpy_chars (drop pos (c_str xs rest)) len = Some ?s"
    using strncpy_chars_copies [OF z, of len rest] True by simp
  then have "eina_strbuf_substr_get True True b pos len = eina_strbuf_manage_new True (c_str ?s [])"
    using True room b by (simp add: eina_strbuf_substr_get_def)
  moreover have "length ?s < 2 ^ 60" using room by simp
  ultimately show ?thesis using manage_new_holds [OF zs, of "[]"] True by simp
next
  case False
  have "sb_len b = length xs" using rep by (auto elim: strbuf_repE)
  with False range show ?thesis by (simp add: eina_strbuf_substr_get_def)
qed

text \<open>The sum of position and length may wrap past the check.\<close>

lemma substr_wraps:
  assumes rep: "strbuf_rep b xs" and "0 < len" "len + length (mem_cells (sb_buf b)) < 2 ^ 64"
  shows "eina_strbuf_substr_get ok_str ok b (2 ^ 64 - len) len = None"
proof -
  have "size_t (2 ^ 64 - len + len) = 0" using assms(3) by (simp add: size_t_def)
  moreover have "length (mem_cells (sb_buf b)) < 2 ^ 64 - len" using assms(3) by simp
  ultimately show ?thesis by (simp add: eina_strbuf_substr_get_def)
qed

section \<open>Read-only text\<close>

text \<open>A buffer that manages text of the caller; nothing is said of what follows the text.\<close>

definition ro_rep :: "'c strbuf \<Rightarrow> 'c list \<Rightarrow> bool" where
  "ro_rep b xs \<longleftrightarrow>
     (\<exists>rest. b = \<lparr>sb_buf = Const (map Some xs @ rest), sb_len = length xs,
                  sb_size = length xs + 1, sb_step = 32, sb_ro = True\<rparr>)"

lemma manage_ro_holds:
  assumes "length xs < 2 ^ 60"
  shows "\<exists>b. eina_binbuf_manage_new True (map Some xs @ rest) (length xs) True = Some b \<and> ro_rep b xs"
  using assms by (auto simp: eina_binbuf_manage_new_def eina_strbuf_common_manage_ro_new_def
      strbuf_manage_init_def strbuf_blank_def ro_rep_def EINA_STRBUF_INIT_STEP_def)

text \<open>The first edit that needs room copies the text to a block of its own.\<close>

lemma ro_grow:
  assumes rep: "ro_rep b xs" and n: "length xs < n" "n < 2 ^ 60"
  shows "\<exists>r b' cs. strbuf_grow ok 1 b n = Some (r, b') \<and> (ok \<longrightarrow> r) \<and>
    (if r then strbuf_shape b' cs \<and> take (length xs) cs = map Some xs \<and> sb_len b' = length xs \<and>
       n < sb_size b' else b' = b)"
proof -
  from rep obtain rest where b: "b = \<lparr>sb_buf = Const (map Some xs @ rest), sb_len = length xs,
      sb_size = length xs + 1, sb_step = 32, sb_ro = True\<rparr>" by (auto simp: ro_rep_def)
  have b': "32 \<le> sb_step b" "sb_step b \<le> 4096" by (simp_all add: b)
  have one: "(0::nat) < 1" "(1::nat) \<le> 8" by simp_all
  obtain sz' st' where sz': "n + 1 < sz'" "sz' \<le> n + 1 + 4096" and st': "32 \<le> st'" "st' \<le> 4096"
    and resize: "strbuf_resize ok 1 b n =
      (if n + 1 = sb_size b \<or> sb_size b = sz' * 1 then Some (True, b)
       else strbuf_realloc ok 1 b sz' st')"
    by (rule resize_eq [OF b' n(2) one, of ok])
  have "\<not> (n + 1 = sb_size b \<or> sb_size b = sz' * 1)" using n sz' by (simp add: b)
  then have grow: "strbuf_grow ok 1 b n = strbuf_realloc ok 1 b sz' st'"
    unfolding strbuf_grow_def resize using n by (simp add: b)
  let ?cs = "map Some xs @ drop (length xs) (replicate sz' None)"
  have m: "read_cells (map Some xs @ rest) 0 (length xs) = Some (map Some xs)"
    using read_cells_start [of "length xs" xs rest] by simp
  have w: "write_cells (replicate sz' None) 0 (map Some xs) = Some ?cs"
    using n sz' by (subst write_cells_start) auto
  have "strbuf_realloc ok 1 b sz' st' =
      (if ok then Some (True, b\<lparr>sb_ro := False, sb_buf := Heap ?cs, sb_size := sz', sb_step := st'\<rparr>)
       else Some (False, b))"
    using m w bytes_fit [OF sz'(2) n(2) one] by (simp add: strbuf_realloc_def b mem_malloc_def)
  note realloc = this
  show ?thesis
  proof (cases ok)
    case True
    let ?b = "b\<lparr>sb_ro := False, sb_buf := Heap ?cs, sb_size := sz', sb_step := st'\<rparr>"
    have "strbuf_shape ?b ?cs" using sz' st' n by (simp add: strbuf_shape_def)
    moreover have "take (length xs) ?cs = map Some xs" "sb_len ?b = length xs" "n < sb_size ?b"
      using sz' by (simp_all add: b)
    ultimately show ?thesis using True grow realloc
      by (intro exI [of _ True] exI [of _ ?b] exI [of _ ?cs]) simp
  next
    case False
    then show ?thesis using grow realloc by (intro exI [of _ False] exI [of _ b]) simp
  qed
qed

lemma ro_append_edits:
  assumes rep: "ro_rep b xs" and ys: "ys \<noteq> []" and room: "length xs + length ys < 2 ^ 60"
  shows "\<exists>r b'. eina_strbuf_common_append_length ok 1 b (map Some ys @ rest) (length ys) = Some (r, b') \<and>
    (ok \<longrightarrow> r) \<and> (if r then strbuf_rep b' (xs @ ys) else b' = b)"
proof -
  have len: "sb_len b = length xs" using rep by (auto simp: ro_rep_def)
  have n: "length xs < length xs + length ys" using ys by simp
  obtain r b' cs where g: "strbuf_grow ok 1 b (length xs + length ys) = Some (r, b')" "ok \<longrightarrow> r"
    "if r then strbuf_shape b' cs \<and> take (length xs) cs = map Some xs \<and> sb_len b' = length xs \<and>
       length xs + length ys < sb_size b' else b' = b"
    using ro_grow [OF rep n room, of ok] by blast
  show ?thesis
  proof (cases r)
    case True
    with g(3) have shape: "strbuf_shape b' cs" and old: "take (length xs) cs = map Some xs"
      and st: "sb_len b' = length xs" "length xs + length ys < sb_size b'" by simp_all
    obtain c1 c2 where w: "write_cells cs (length xs) (map Some ys) = Some c1"
      "write_cells c1 (length xs + length ys) [Some 0] = Some c2"
      "take (length xs + length ys + 1) c2 = map Some xs @ map Some ys @ [Some 0]" "length c2 = length cs"
      using write_two [of "map Some xs" cs "map Some ys" "[Some 0]"] shape old st
      by (auto simp: strbuf_shape_def)
    let ?b = "b'\<lparr>sb_buf := Heap c2, sb_len := length xs + length ys\<rparr>"
    have "eina_strbuf_common_append_length ok 1 b (map Some ys @ rest) (length ys) = Some (True, ?b)"
      using g(1) True room len st w(1,2) shape
      by (simp add: eina_strbuf_common_append_length_def read_cells_start put_cells_def strbuf_shape_def)
    moreover have "strbuf_rep ?b (xs @ ys)"
    proof (rule shape_rep)
      show "strbuf_shape ?b c2" using shape w(4) by (simp add: strbuf_shape_def)
    qed (use w(3) st in simp_all)
    ultimately show ?thesis by fastforce
  next
    case False
    with g room len show ?thesis by (auto simp: eina_strbuf_common_append_length_def)
  qed
qed

text \<open>
  Removing text copies it first, but not its terminator, and the resize may copy it once more:
  what is left has no end.
\<close>

lemma c_string_unterminated: "0 \<notin> set xs \<Longrightarrow> c_string (map Some xs @ None # rest) = None"
  by (induction xs) auto

lemma ro_remove_unterminated:
  assumes rep: "ro_rep b xs" and zeros: "0 \<notin> set xs" and range: "start < stop" "stop \<le> length xs"
    and part: "stop - start < length xs" and room: "length xs < 2 ^ 60"
  shows "\<exists>r b'. eina_strbuf_common_remove True ok 1 b start stop = Some (r, b') \<and>
    sb_len b' = length xs - (stop - start) \<and> c_string (mem_cells (sb_buf b')) = None"
proof -
  from rep obtain rest where b: "b = \<lparr>sb_buf = Const (map Some xs @ rest), sb_len = length xs,
      sb_size = length xs + 1, sb_step = 32, sb_ro = True\<rparr>" by (auto simp: ro_rep_def)
  define p m q where "p = take start xs" and "m = take (stop - start) (drop start xs)" and "q = drop stop xs"
  have xs: "xs = p @ m @ q"
    using range by (simp add: p_def m_def q_def)
      (metis append_take_drop_id drop_drop le_add_diff_inverse2 less_imp_le_nat)
  have lens: "length p = start" "length m = stop - start" "length q = length xs - stop"
    using range by (simp_all add: p_def m_def q_def)
  have at: "start = length p" "stop = length p + length m" using lens range by simp_all
  have pq: "0 \<notin> set (p @ q)" "length (p @ q) = length xs - (stop - start)"
    using zeros by (auto simp: xs at)
  let ?copy = "map Some xs @ [None]"
  let ?b = "b\<lparr>sb_buf := Heap ?copy\<rparr>"
  have m1: "read_cells (map Some xs @ rest) 0 (length xs) = Some (map Some xs)"
    using read_cells_start [of "length xs" xs rest] by simp
  have d: "drop (length xs) (replicate (length xs + 1) None) = [None]"
    unfolding drop_replicate by simp
  have "write_cells (replicate (length xs + 1) None) 0 (map Some xs) =
      Some (map Some xs @ drop (length (map Some xs)) (replicate (length xs + 1) None))"
    by (rule write_cells_start) simp
  then have m2: "write_cells (replicate (length xs + 1) None) 0 (map Some xs) = Some ?copy"
    by (simp only: length_map d)
  have own: "strbuf_own True 1 b = Some (True, ?b)"
    using m1 m2 by (simp add: strbuf_own_def b mem_malloc_def del: replicate.simps)
  have tail: "mem_read (sb_buf ?b) stop (sb_len ?b - stop + 1) = Some (map Some q @ [None])"
    by (simp add: b read_cells_def xs at)
  obtain junk where w: "write_cells ?copy start (map Some q @ [None]) = Some (map Some (p @ q) @ None # junk)"
    by (simp add: write_cells_def xs at)
  let ?b1 = "?b\<lparr>sb_buf := Heap (map Some (p @ q) @ None # junk)\<rparr>"
  have put: "put_cells ?b start (map Some q @ [None]) = Some ?b1"
    using w by (simp add: put_cells_def)
  let ?b2 = "?b1\<lparr>sb_len := sb_len ?b1 - (stop - start)\<rparr>"
  have stop: "(if stop \<ge> sb_len b then sb_len b else stop) = stop" using range by (simp add: b)
  have ne: "(stop - start = sb_len ?b) = False" "\<not> stop \<le> start" using part range by (simp_all add: b)
  have remove: "eina_strbuf_common_remove True ok 1 b start stop = strbuf_resize ok 1 ?b2 (sb_len ?b2)"
    unfolding eina_strbuf_common_remove_def stop Let_def own
    using ne by (simp only: tail put bind.bind_lunit prod.case simp_thms if_False if_True)
  have st: "32 \<le> sb_step ?b2" "sb_step ?b2 \<le> 4096" by (simp_all add: b)
  have n: "sb_len ?b2 < 2 ^ 60" using room by (simp add: b)
  have one: "(0::nat) < 1" "(1::nat) \<le> 8" by simp_all
  have c: "c_string (map Some (p @ q) @ None # j) = None" for j
    using c_string_unterminated [OF pq(1)] .
  obtain sz' st' where sz': "sb_len ?b2 + 1 < sz'" "sz' \<le> sb_len ?b2 + 1 + 4096"
    and resize: "strbuf_resize ok 1 ?b2 (sb_len ?b2) =
      (if sb_len ?b2 + 1 = sb_size ?b2 \<or> sb_size ?b2 = sz' * 1 then Some (True, ?b2)
       else strbuf_realloc ok 1 ?b2 sz' st')"
    by (rule resize_eq [OF st n one, of ok])
  have len: "sb_len ?b2 = length (p @ q)" using pq(2) by (simp add: b)
  have "\<exists>r b'. strbuf_realloc ok 1 ?b2 sz' st' = Some (r, b') \<and> sb_len b' = length (p @ q) \<and>
      c_string (mem_cells (sb_buf b')) = None"
  proof -
    have r: "read_cells (map Some (p @ q) @ None # junk) 0 (length (p @ q)) = Some (map Some (p @ q))"
      using read_cells_start [of "length (p @ q)" "p @ q" "None # junk"] by simp
    obtain k where k: "sz' - length (p @ q) = Suc k" using sz' len by (metis Suc_diff_Suc add.commute Suc_lessD plus_1_eq_Suc)
    have wr: "write_cells (replicate sz' None) 0 (map Some (p @ q)) =
        Some (map Some (p @ q) @ None # replicate k None)"
      using sz' len k by (subst write_cells_start) auto
    show ?thesis using r wr len c [of "junk"] c [of "replicate k None"] bytes_fit [OF sz'(2) n one]
      by (auto simp: strbuf_realloc_def b mem_malloc_def)
  qed
  then show ?thesis using c [of junk] len pq(2) unfolding remove resize by auto
qed

section \<open>Properties\<close>

text \<open>
  C39: Any sequence of appends, insertions and removals acts on a string buffer as on a list,
  through every pattern of allocations that fail: the buffer stays well-formed and terminated,
  every access is inside its block, an edit that fails leaves the text, and one that has memory
  does not fail. A removal is taken to have the memory it asks for, the characters have at most
  eight bytes, and the text and all that is added to it have fewer than \<^verbatim>\<open>2^60\<close> characters.
\<close>

theorem strbuf_refines_lists:
  assumes "strbuf_rep b xs" "buf_room csize (length xs + sum_list (map (\<lambda>(ok, r, e). edit_size e) es))"
    "\<forall>(ok, r, e) \<in> set es. is_remove e \<longrightarrow> ok"
  shows "\<exists>rs b'. run_edits csize b es = Some (rs, b') \<and>
    strbuf_rep b' (run_text rs (map (\<lambda>(ok, r, e). e) es) xs) \<and>
    list_all2 (\<lambda>(ok, r, e) r. ok \<longrightarrow> r) es rs"
  using assms by (rule run_edits_edit)

theorem strbuf_refines_lists_witness:
  "let es = [(False, [], Append [7, 8]), (True, [], Insert [5, 6] 1), (True, [], Remove 0 2),
       (True, [None], Append_N [9, 9, 9 :: u32] 2)]
   in \<exists>rs b'. run_edits 4 (heap_buf [1, 2, 3] [] 4 32) es = Some (rs, b') \<and>
     strbuf_rep b' (run_text rs (map (\<lambda>(ok, r, e). e) es) [1, 2, 3]) \<and>
     list_all2 (\<lambda>(ok, r, e) r. ok \<longrightarrow> r) es rs"
proof -
  let ?es = "[(False, [], Append [7, 8]), (True, [], Insert [5, 6] 1), (True, [], Remove 0 2),
    (True, [None], Append_N [9, 9, 9 :: u32] 2)]"
  have "strbuf_rep (heap_buf [1, 2, 3 :: u32] [] 4 32) [1, 2, 3]" by (rule strbuf_repI) simp_all
  moreover have "buf_room 4 (length [1, 2, 3 :: u32] + sum_list (map (\<lambda>(ok, r, e). edit_size e) ?es))"
    by (simp add: buf_room_def)
  moreover have "\<forall>(ok, r, e) \<in> set ?es. is_remove e \<longrightarrow> ok" by simp
  ultimately show ?thesis unfolding Let_def by (rule strbuf_refines_lists)
qed



text \<open>
  Replacing the empty string by the empty string in a text never returns.
\<close>

theorem replace_all_never_ends:
  assumes "strbuf_rep b xs" "0 \<notin> set xs" "xs \<noteq> []"
  shows "eina_strbuf_replace_all fuel ok_copy ok_new ok b [] [] = None"
  using assms by (rule replace_all_empty_pattern)

theorem replace_all_never_ends_witness:
  "eina_strbuf_replace_all 1000000 True True (\<lambda>_. True) (heap_buf [97] [] 2 32) [] [] = None"
  by (rule replace_all_never_ends [of _ "[97]"]) (simp_all add: strbuf_repI)

text \<open>
  Removing a part of the text of a read-only buffer leaves a text without a terminator.
\<close>

theorem ro_remove_loses_end:
  assumes "ro_rep b xs" "0 \<notin> set xs" "start < stop" "stop \<le> length xs"
    "stop - start < length xs" "length xs < 2 ^ 60"
  shows "\<exists>r b'. eina_strbuf_common_remove True ok 1 b start stop = Some (r, b') \<and>
    sb_len b' = length xs - (stop - start) \<and> c_string (mem_cells (sb_buf b')) = None"
  using assms by (rule ro_remove_unterminated)

theorem ro_remove_loses_end_witness:
  "\<exists>r b'. eina_strbuf_common_remove True True 1
      \<lparr>sb_buf = Const (c_str [104, 105 :: u8] []), sb_len = 2, sb_size = 3, sb_step = 32, sb_ro = True\<rparr>
      0 1 = Some (r, b') \<and>
    sb_len b' = 1 \<and> c_string (mem_cells (sb_buf b')) = None"
proof -
  let ?b = "\<lparr>sb_buf = Const (c_str [104, 105 :: u8] []), sb_len = 2, sb_size = 3, sb_step = 32, sb_ro = True\<rparr>"
  have "ro_rep ?b [104, 105]" by (auto simp: ro_rep_def)
  then show ?thesis using ro_remove_loses_end [of ?b "[104, 105]" 0 1 True] by simp
qed

text \<open>
  The number that replacing all returns counts a replacement that found no memory: here none is
  made, and the text is as it was.
\<close>

lemma replace_all_counts_failure:
  "eina_strbuf_replace_all 1 True True (\<lambda>_. False) (heap_buf [97] [] 2 32) [97] [120, 121] =
   Some (Returned (1, heap_buf [97] [] 2 32))"
  by (simp add: eina_strbuf_replace_all_def strstr_from_def heap_buf_def read_char_def rep_step_def
      strbuf_grow_def strbuf_resize_def resize_step_def strbuf_realloc_def mem_malloc_def
      rep_finish_def read_cells_def put_cells_def write_cells_def of_option_def Let_def
      size_sub_def EINA_STRBUF_INIT_STEP_def EINA_STRBUF_MAX_STEP_def)

end
