(* ===== verification/Eina_Convert.thy ===== *)
theory Eina_Convert
  imports Efl_Cells "HOL-Library.Signed_Division"
begin

text \<open>
  The conversions between numbers and texts of eina (\<^verbatim>\<open>src/src/lib/eina/eina_convert.c\<close>):
  decimal and hexadecimal integers, and the numbers of 32.32 bits, which are written as
  hexadecimal floating-point numbers. The conversions of a \<^verbatim>\<open>double\<close> are not modelled. C integers
  are \<open>int\<close>s, with the range of their type where it can be left; a result \<open>None\<close> is undefined
  behaviour: an access outside the buffer, or a signed overflow.
\<close>

section \<open>Integers\<close>

text \<open>Writes of characters, one after the other.\<close>

definition put_char :: "u8 cells \<Rightarrow> nat \<Rightarrow> u8 \<Rightarrow> (u8 cells \<times> nat) option" where
  "put_char s d c = do { s \<leftarrow> write_cells s d [Some c]; Some (s, d + 1) }"

fun put_chars :: "u8 cells \<Rightarrow> nat \<Rightarrow> u8 list \<Rightarrow> (u8 cells \<times> nat) option" where
  "put_chars s d [] = Some (s, d)"
| "put_chars s d (c # cs) = do { (s, d) \<leftarrow> put_char s d c; put_chars s d cs }"

definition look_up_table :: "u8 list" where
  "look_up_table = bytes_of ''0123456789abcdef''"

text \<open>\<open>reverse\<close> swaps from both ends; \<open>i\<close> and \<open>j\<close> are positions in the block.\<close>

function reverse_loop :: "u8 cells \<Rightarrow> nat \<Rightarrow> nat \<Rightarrow> u8 cells option" where
  "reverse_loop s i j =
     (if i < j
      then do {
        a \<leftarrow> read_cells s i 1;
        b \<leftarrow> read_cells s j 1;
        s \<leftarrow> write_cells s i b;
        s \<leftarrow> write_cells s j a;
        reverse_loop s (i + 1) (j - 1)
      }
      else Some s)"
  by pat_completeness auto
termination by (relation "measure (\<lambda>(s, i, j). j - i)") auto

declare reverse_loop.simps [simp del]

definition reverse_chars :: "u8 cells \<Rightarrow> nat \<Rightarrow> nat \<Rightarrow> u8 cells option" where
  "reverse_chars s pos len = reverse_loop s pos (pos + len - 1)"

text \<open>The digits from the last one on; division and remainder truncate.\<close>

function itoa_loop :: "int \<Rightarrow> u8 cells \<Rightarrow> nat \<Rightarrow> (u8 cells \<times> nat) option" where
  "itoa_loop n s i =
     do {
       (s, i) \<leftarrow> put_char s i (of_int \<bar>n smod 10\<bar> + 0x30);
       if n sdiv 10 \<noteq> 0 then itoa_loop (n sdiv 10) s i else Some (s, i)
     }"
  by pat_completeness auto
termination
proof (relation "measure (\<lambda>(n, s, i). nat \<bar>n\<bar>)")
  fix n :: int and s i x s' i'
  assume "n sdiv 10 \<noteq> 0"
  then have "n \<noteq> 0" "\<bar>n sdiv 10\<bar> < \<bar>n\<bar>"
    by (auto simp: signed_divide_int_def abs_mult) 
  then show "((n sdiv 10, s', i'), n, s, i) \<in> measure (\<lambda>(n, s, i). nat \<bar>n\<bar>)" by simp
qed simp

declare itoa_loop.simps [simp del]

definition eina_convert_itoa :: "int \<Rightarrow> u8 cells \<Rightarrow> nat \<Rightarrow> (int \<times> u8 cells) option" where
  "eina_convert_itoa n s pos =
     do {
       (s, base, r) \<leftarrow> (if n < 0 then do { (s, d) \<leftarrow> put_char s pos 0x2D; Some (s, d, 1) }
                        else Some (s, pos, 0));
       (s, stop) \<leftarrow> itoa_loop n s base;
       s \<leftarrow> write_cells s stop [Some 0];
       s \<leftarrow> reverse_chars s base (stop - base);
       Some (int (stop - base) + r, s)
     }"

function xtoa_loop :: "u32 \<Rightarrow> u8 cells \<Rightarrow> nat \<Rightarrow> (u8 cells \<times> nat) option" where
  "xtoa_loop n s i =
     do {
       c \<leftarrow> nth_opt look_up_table (unat (n AND 0xF));
       (s, i) \<leftarrow> put_char s i c;
       if drop_bit 4 n > 0 then xtoa_loop (drop_bit 4 n) s i else Some (s, i)
     }"
  by pat_completeness auto
termination
proof (relation "measure (\<lambda>(n, s, i). unat n)")
  fix n :: u32 and s i c x s' i'
  assume "0 < drop_bit 4 n"
  then have "unat (drop_bit 4 n) \<noteq> 0" by (simp add: unat_gt_0 word_gt_0)
  then have "unat (drop_bit 4 n) < unat n" by (simp add: unat_drop_bit_div)
  then show "((drop_bit 4 n, s', i'), n, s, i) \<in> measure (\<lambda>(n, s, i). unat n)" by simp
qed simp

declare xtoa_loop.simps [simp del]

definition eina_convert_xtoa :: "u32 \<Rightarrow> u8 cells \<Rightarrow> nat \<Rightarrow> (int \<times> u8 cells) option" where
  "eina_convert_xtoa n s pos =
     do {
       (s, stop) \<leftarrow> xtoa_loop n s pos;
       s \<leftarrow> write_cells s stop [Some 0];
       s \<leftarrow> reverse_chars s pos (stop - pos);
       Some (int (stop - pos), s)
     }"

section \<open>Reading hexadecimal floating-point numbers\<close>

text \<open>Characters are signed. A \<^verbatim>\<open>long long\<close> and a \<^verbatim>\<open>long\<close> have 64 bits.\<close>

definition hexa_to_int :: "u8 \<Rightarrow> int" where
  "hexa_to_int c = (if sint c \<ge> 97 then sint c - 97 + 10 else sint c - 48)"

definition int64 :: "int \<Rightarrow> int option" where
  "int64 x = (if - (2 ^ 63) \<le> x \<and> x < 2 ^ 63 then Some x else None)"

text \<open>The digits behind the point; \<open>len\<close> is what is left of the length.\<close>

function mantisse_loop :: "u8 cells \<Rightarrow> nat \<Rightarrow> int \<Rightarrow> int \<Rightarrow> int \<Rightarrow> (nat \<times> int \<times> int \<times> int) option" where
  "mantisse_loop s pos len m k =
     (if len > 0
      then do {
        c \<leftarrow> read_char s pos;
        if c \<noteq> 0x70
        then do {
          m \<leftarrow> int64 (m * 16);
          m \<leftarrow> int64 (m + hexa_to_int c);
          mantisse_loop s (pos + 1) (len - 1) m (k + 1)
        }
        else Some (pos, len, m, k)
      }
      else Some (pos, len, m, k))"
  by pat_completeness auto
termination by (relation "measure (\<lambda>(s, pos, len, m, k). nat len)") auto

declare mantisse_loop.simps [simp del]

function exponent_loop :: "u8 cells \<Rightarrow> nat \<Rightarrow> int \<Rightarrow> int \<Rightarrow> int option" where
  "exponent_loop s pos len e =
     (if len > 0
      then do {
        c \<leftarrow> read_char s pos;
        if c \<noteq> 0
        then do {
          e \<leftarrow> int64 (e * 10);
          e \<leftarrow> int64 (e + (sint c - 48));
          exponent_loop s (pos + 1) (len - 1) e
        }
        else Some e
      }
      else Some e)"
  by pat_completeness auto
termination by (relation "measure (\<lambda>(s, pos, len, e). nat len)") auto

declare exponent_loop.simps [simp del]

text \<open>
  \<open>Some None\<close> is the return with \<open>EINA_FALSE\<close>. \<^verbatim>\<open>strncmp\<close> stops at the first difference;
  \<^verbatim>\<open>strchr\<close> finds the terminator too.
\<close>

definition eina_convert_atod :: "u8 cells \<Rightarrow> int \<Rightarrow> (int \<times> int) option option" where
  "eina_convert_atod src len =
     (if len \<le> 0 then Some None
      else do {
        c \<leftarrow> read_char src 0;
        let sign = (if c = 0x2D then -1 else 1 :: int);
        let str = (if c = 0x2D then 1 else 0);
        let len = (if c = 0x2D then len - 1 else len);
        if len \<le> 2 then Some None
        else do {
          c0 \<leftarrow> read_char src str;
          zero_x \<leftarrow> (if c0 \<noteq> 0x30 then Some False
                      else do { c1 \<leftarrow> read_char src (str + 1); Some (c1 = 0x78) });
          if \<not> zero_x then Some None
          else do {
            let str = str + 2;
            let len = len - 2;
            c \<leftarrow> read_char src str;
            let mantisse = hexa_to_int c;
            let str = str + 1;
            let len = len - 1;
            if len \<le> 0 then Some None
            else do {
              c \<leftarrow> read_char src str;
              (str, len, mantisse, nbr_decimals) \<leftarrow>
                (if c = 0x2E then mantisse_loop src (str + 1) (len - 1) mantisse 0
                 else Some (str, len, mantisse, 0));
              mantisse \<leftarrow> int64 (if sign < 0 then - mantisse else mantisse);
              c \<leftarrow> read_char src str;
              if c \<noteq> 0x70 then Some None
              else do {
                let str = str + 1;
                let len = len - 1;
                if len \<le> 0 then Some None
                else do {
                  c \<leftarrow> read_char src str;
                  let signed = (c = 0x2D \<or> c = 0x2B \<or> c = 0);
                  let sign = (if c = 0x2D then -1 else 1 :: int);
                  let str = (if signed then str + 1 else str);
                  let len = (if signed then len - 1 else len);
                  exponent \<leftarrow> exponent_loop src str len 0;
                  let exponent = (if sign < 0 then - exponent else exponent);
                  e \<leftarrow> int64 (exponent - nbr_decimals * 4);
                  Some (Some (mantisse, e))
                }
              }
            }
          }
        }
      })"

text \<open>A shift by 64 bits or more is undefined; a shift to the left drops the bits above.\<close>

definition eina_convert_atofp :: "u8 cells \<Rightarrow> int \<Rightarrow> int option option" where
  "eina_convert_atofp src len =
     do {
       r \<leftarrow> eina_convert_atod src len;
       case r of
         None \<Rightarrow> Some None
       | Some (m, e) \<Rightarrow>
           do {
             e \<leftarrow> int64 (e + 32);
             if e > 0
             then if e < 64 then Some (Some (sint (push_bit (nat e) (word_of_int m :: 64 word)))) else None
             else if - e < 64 then Some (Some (m div 2 ^ nat (- e))) else None
           }
     }"

section \<open>Writing hexadecimal floating-point numbers\<close>

text \<open>
  The number is brought to one digit before the point. The second loop is only reached with a
  positive number.
\<close>

function fptoa_down :: "int \<Rightarrow> int \<Rightarrow> int \<times> int" where
  "fptoa_down fp p = (if fp \<ge> 0x100000000 then fptoa_down (fp div 2) (p + 1) else (fp, p))"
  by pat_completeness auto
termination by (relation "measure (\<lambda>(fp, p). nat fp)") auto

declare fptoa_down.simps [simp del]

function fptoa_up :: "int \<Rightarrow> int \<Rightarrow> int \<times> int" where
  "fptoa_up fp p = (if 0 < fp \<and> fp < 0x80000000 then fptoa_up (fp * 2) (p - 1) else (fp, p))"
  by pat_completeness auto
termination by (relation "measure (\<lambda>(fp, p). nat (0x80000000 - fp))") auto

declare fptoa_up.simps [simp del]

fun fptoa_digits :: "nat \<Rightarrow> int \<Rightarrow> u8 cells \<Rightarrow> nat \<Rightarrow> int \<Rightarrow> (u8 cells \<times> nat \<times> int) option" where
  "fptoa_digits 0 fp des d len = Some (des, d, len)"
| "fptoa_digits (Suc i) fp des d len =
     (let fp = fp mod 0x100000000 * 16 in
      do {
        c \<leftarrow> nth_opt look_up_table (nat (fp div 0x100000000));
        (des, d) \<leftarrow> put_char des d c;
        fptoa_digits i fp des d (len + 1)
      })"

fun fptoa_strip :: "u8 cells \<Rightarrow> nat \<Rightarrow> int \<Rightarrow> (nat \<times> int) option" where
  "fptoa_strip des 0 len = None"
| "fptoa_strip des (Suc d) len =
     do { c \<leftarrow> read_char des d; if c = 0x30 then fptoa_strip des d (len - 1) else Some (Suc d, len) }"

definition eina_convert_fptoa :: "int \<Rightarrow> u8 cells \<Rightarrow> (int \<times> u8 cells) option" where
  "eina_convert_fptoa fp des =
     (if fp = 0
      then do { des \<leftarrow> write_cells des 0 (map Some (bytes_of ''0x0p+0'') @ [Some 0]); Some (7, des) }
      else do {
        (fp, des, d, len) \<leftarrow>
          (if fp < 0
           then do { fp \<leftarrow> int64 (- fp); (des, d) \<leftarrow> put_char des 0 0x2D; Some (fp, des, d, 1) }
           else Some (fp, des, 0, 0));
        let (fp, p) =
          (if fp \<ge> 0x100000000 then fptoa_down fp 0
           else if fp < 0x80000000 then fptoa_up fp 0 else (fp, 0));
        let (fp, p) = (if p \<noteq> 0 then (fp * 2, p - 1) else (fp, p));
        (des, d) \<leftarrow> put_chars des d (bytes_of ''0x'');
        c \<leftarrow> nth_opt look_up_table (nat (fp div 0x100000000));
        (des, d) \<leftarrow> put_chars des d [c, 0x2E];
        let len = len + 4;
        (des, d, len) \<leftarrow> fptoa_digits 16 fp des d len;
        (d, len) \<leftarrow> fptoa_strip des d len;
        c \<leftarrow> read_char des (d - 1);
        let (d, len) = (if c = 0x2E then (d - 1, len - 1) else (d, len));
        (des, d) \<leftarrow> put_chars des d [0x70, if p < 0 then 0x2D else 0x2B];
        let p = (if p < 0 then - p else p);
        let len = len + 2;
        (n, des) \<leftarrow> eina_convert_itoa p des d;
        Some (len + n, des)
      })"

end
