(* ===== verification/Eina_Convert_Print.thy ===== *)
theory Eina_Convert_Print
  imports Eina_Convert
begin

text \<open>
  What the conversions of eina print, and what the reader of hexadecimal floating-point numbers
  makes of a text of the form that is printed.
\<close>

section \<open>Writing forward\<close>

lemma put_char_next:
  "r \<noteq> [] \<Longrightarrow> put_char (t @ r) (length t) c = Some ((t @ [Some c]) @ tl r, length t + 1)"
  by (cases r) (simp_all add: put_char_def)

lemma put_chars_next:
  "length cs \<le> length r \<Longrightarrow>
   put_chars (t @ r) (length t) cs = Some ((t @ map Some cs) @ drop (length cs) r, length t + length cs)"
proof (induction cs arbitrary: t r)
  case (Cons c cs)
  then obtain x r' where r: "r = x # r'" by (cases r) auto
  then show ?case
    using Cons.IH [of r' "t @ [Some c]"] Cons.prems put_char_next [of r t c] by simp
qed simp

lemma reverse_loop_reverses:
  "reverse_loop (t @ xs @ r) (length t) (length t + length xs - 1) = Some (t @ rev xs @ r)"
proof (induction xs arbitrary: t r rule: length_induct)
  case (1 xs)
  consider "length xs \<le> 1" | a ys b where "xs = a # ys @ [b]"
    by (metis append_butlast_last_id le_numeral_extra(4) length_0_conv length_Cons list.exhaust
        list.size(3) One_nat_def zero_le)
  then show ?case
  proof cases
    case 1
    then have "rev xs = xs" by (cases xs) auto
    moreover have "\<not> length t < length t + length xs - 1" using 1 by simp
    ultimately show ?thesis by (simp add: reverse_loop.simps [of _ "length t"])
  next
    case 2
    let ?i = "length t" and ?j = "length t + length xs - 1"
    have j: "?j = length (t @ a # ys)" "?i < ?j" by (simp_all add: 2)
    have "read_cells (t @ xs @ r) ?i 1 = Some [a]" by (simp add: read_cells_def 2)
    moreover have "read_cells (t @ xs @ r) ?j 1 = Some [b]" by (simp add: read_cells_def 2)
    moreover have "write_cells (t @ xs @ r) ?i [b] = Some ((t @ b # ys) @ b # r)" by (simp add: 2)
    moreover have "write_cells ((t @ b # ys) @ b # r) ?j [a] = Some ((t @ b # ys) @ a # r)"
      unfolding j(1) by (subst write_cells_next) auto
    ultimately have "reverse_loop (t @ xs @ r) ?i ?j = reverse_loop ((t @ b # ys) @ a # r) (?i + 1) (?j - 1)"
      using j(2) by (subst reverse_loop.simps) simp
    moreover have "reverse_loop ((t @ [b]) @ ys @ a # r) (length (t @ [b])) (length (t @ [b]) + length ys - 1) =
        Some ((t @ [b]) @ rev ys @ a # r)"
      using "1.IH" [rule_format, of ys "t @ [b]" "a # r"] by (simp add: 2)
    ultimately show ?thesis by (simp add: 2)
  qed
qed

lemma reverse_chars_reverses:
  "reverse_chars (t @ xs @ r) (length t) (length xs) = Some (t @ rev xs @ r)"
  using reverse_loop_reverses by (simp add: reverse_chars_def)

section \<open>Decimal numbers\<close>

fun digits_rev :: "nat \<Rightarrow> nat list" where
  "digits_rev n = n mod 10 # (if n < 10 then [] else digits_rev (n div 10))"

declare digits_rev.simps [simp del]

definition digit_char :: "nat \<Rightarrow> u8" where
  "digit_char d = of_nat d + 0x30"

definition decimal :: "nat \<Rightarrow> u8 list" where
  "decimal n = map digit_char (rev (digits_rev n))"

definition decimal_text :: "int \<Rightarrow> u8 list" where
  "decimal_text n = (if n < 0 then 0x2D # decimal (nat (- n)) else decimal (nat n))"

lemma digits_rev_bound: "d \<in> set (digits_rev n) \<Longrightarrow> d < 10"
  by (induction n rule: digits_rev.induct) (subst (asm) (2) digits_rev.simps, auto split: if_splits)

lemma digits_rev_length: "n < 10 ^ k \<Longrightarrow> 0 < k \<Longrightarrow> length (digits_rev n) \<le> k"
proof (induction k arbitrary: n)
  case (Suc k)
  show ?case
  proof (cases "n < 10")
    case False
    then have "0 < k" using Suc.prems by (cases k) auto
    moreover have "n div 10 < 10 ^ k" using Suc.prems by (simp add: less_mult_imp_div_less mult.commute)
    ultimately show ?thesis using Suc.IH [of "n div 10"] False by (subst digits_rev.simps) simp
  qed (subst digits_rev.simps, simp)
qed simp

text \<open>The value of digits, the first one first.\<close>

definition base_value :: "int \<Rightarrow> int \<Rightarrow> int list \<Rightarrow> int" where
  "base_value base = foldl (\<lambda>a d. base * a + d)"

lemma base_value_simps [simp]:
  "base_value b a [] = a" "base_value b a (d # ds) = base_value b (b * a + d) ds"
  "base_value b a (ds @ es) = base_value b (base_value b a ds) es"
  by (simp_all add: base_value_def)

lemma decimal_value: "base_value 10 0 (map int (rev (digits_rev n))) = int n"
  by (induction n rule: digits_rev.induct) (subst digits_rev.simps, auto simp: zdiv_int zmod_int)

lemma int_div_10: "\<bar>n sdiv 10\<bar> = \<bar>n\<bar> div 10" and int_mod_10: "\<bar>n smod 10\<bar> = \<bar>n\<bar> mod (10 :: int)"
proof -
  have d: "n sdiv 10 = sgn n * (\<bar>n\<bar> div 10)" by (simp add: signed_divide_int_def sgn_mult)
  show "\<bar>n sdiv 10\<bar> = \<bar>n\<bar> div 10" by (cases "n = 0") (simp_all add: d abs_mult abs_sgn_eq)
  have "n smod 10 = sgn n * (\<bar>n\<bar> mod 10)" by (simp add: signed_modulo_int_def)
  then show "\<bar>n smod 10\<bar> = \<bar>n\<bar> mod 10" by (auto simp: abs_mult abs_sgn_eq)
qed

lemma itoa_loop_writes:
  "length (digits_rev (nat \<bar>n\<bar>)) \<le> length r \<Longrightarrow>
   itoa_loop n (t @ r) (length t) =
     (let ds = map digit_char (digits_rev (nat \<bar>n\<bar>)) in
      Some ((t @ map Some ds) @ drop (length ds) r, length t + length ds))"
proof (induction "nat \<bar>n\<bar>" arbitrary: n t r rule: less_induct)
  case less
  define m where "m = nat \<bar>n\<bar>"
  have c: "of_int \<bar>n smod 10\<bar> + 0x30 = digit_char (m mod 10)"
  proof -
    have "\<bar>n smod 10\<bar> = int (m mod 10)" by (simp add: int_mod_10 m_def zmod_int)
    then show ?thesis by (simp add: digit_char_def)
  qed
  have div_m: "nat \<bar>n sdiv 10\<bar> = m div 10"
    by (simp add: int_div_10 m_def nat_div_distrib)
  have stop: "n sdiv 10 = 0 \<longleftrightarrow> m < 10"
  proof -
    have "n sdiv 10 = 0 \<longleftrightarrow> nat \<bar>n sdiv 10\<bar> = 0" by simp
    also have "\<dots> \<longleftrightarrow> m < 10" by (auto simp: div_m)
    finally show ?thesis .
  qed
  have ds: "digits_rev m = m mod 10 # (if m < 10 then [] else digits_rev (m div 10))"
    by (rule digits_rev.simps)
  with less.prems obtain x r' where r: "r = x # r'" by (cases r) (auto simp: m_def)
  have put: "put_char (t @ r) (length t) (of_int \<bar>n smod 10\<bar> + 0x30) =
      Some ((t @ [Some (digit_char (m mod 10))]) @ r', length t + 1)"
    unfolding c using put_char_next [of r t "digit_char (m mod 10)"] by (simp add: r)
  show ?case
  proof (cases "m < 10")
    case True
    then show ?thesis using put stop ds
      by (subst itoa_loop.simps) (simp add: m_def [symmetric] r Let_def)
  next
    case False
    have len: "length (digits_rev (nat \<bar>n sdiv 10\<bar>)) \<le> length r'"
      using less.prems ds False unfolding div_m m_def [symmetric] by (simp add: r)
    have smaller: "nat \<bar>n sdiv 10\<bar> < nat \<bar>n\<bar>" using False unfolding div_m m_def [symmetric] by simp
    show ?thesis
      using less.hyps [OF smaller len, of "t @ [Some (digit_char (m mod 10))]"] put stop ds False
      unfolding div_m
      by (subst itoa_loop.simps) (simp add: m_def [symmetric] r Let_def)
  qed
qed

text \<open>\<^verbatim>\<open>eina_convert_itoa\<close> writes the decimal text and its terminator.\<close>

lemma itoa_writes:
  assumes "length (decimal_text n) < length r"
  shows "eina_convert_itoa n (t @ r) (length t) =
    Some (int (length (decimal_text n)),
          t @ c_str (decimal_text n) (drop (length (decimal_text n) + 1) r))"
proof -
  define m where "m = nat \<bar>n\<bar>"
  define ds where "ds = map digit_char (digits_rev m)"
  have rev: "decimal m = rev ds" by (simp add: decimal_def ds_def rev_map)
  have finish: "(do {
       (s, stop) \<leftarrow> itoa_loop n (t' @ r') (length t');
       s \<leftarrow> write_cells s stop [Some 0];
       s \<leftarrow> reverse_chars s (length t') (stop - length t');
       Some (int (stop - length t') + k, s)
     }) = Some (int (length ds) + k, t' @ c_str (decimal m) (drop (length ds + 1) r'))"
    if "length ds < length r'" for t' r' :: "u8 cells" and k
  proof -
    have 1: "itoa_loop n (t' @ r') (length t') =
        Some ((t' @ map Some ds) @ drop (length ds) r', length t' + length ds)"
      using itoa_loop_writes [of n r' t'] that by (simp add: ds_def m_def Let_def)
    have 2: "write_cells ((t' @ map Some ds) @ drop (length ds) r') (length t' + length ds) [Some 0] =
        Some (t' @ map Some ds @ Some 0 # drop (length ds + 1) r')"
      using that by (subst write_cells_next) auto
    have 3: "reverse_chars (t' @ map Some ds @ Some 0 # drop (length ds + 1) r') (length t') (length ds) =
        Some (t' @ map Some (rev ds) @ Some 0 # drop (length ds + 1) r')"
      using reverse_chars_reverses [of t' "map Some ds"] by (simp add: rev_map)
    show ?thesis unfolding 1 bind.bind_lunit prod.case 2 using 3 by (simp add: rev)
  qed
  show ?thesis
  proof (cases "n < 0")
    case True
    then have m: "m = nat (- n)" by (simp add: m_def)
    have len: "length (decimal_text n) = Suc (length ds)" using True by (simp add: decimal_text_def m [symmetric] rev)
    with assms obtain x r' where r: "r = x # r'" "length ds < length r'" by (cases r) auto
    have put: "put_char (t @ r) (length t) 0x2D = Some ((t @ [Some 0x2D]) @ r', length (t @ [Some 0x2D]))"
      using put_char_next [of r t "0x2D"] by (simp add: r)
    show ?thesis
      using finish [OF r(2), where t' = "t @ [Some 0x2D]" and k = 1] True len
      by (simp add: eina_convert_itoa_def put del: append_assoc) (simp add: r decimal_text_def m)
  next
    case False
    then have m: "m = nat n" by (simp add: m_def)
    have len: "length (decimal_text n) = length ds" using False by (simp add: decimal_text_def m [symmetric] rev)
    show ?thesis
      using finish [where r' = r and t' = t and k = 0] False assms len
      by (simp add: eina_convert_itoa_def decimal_text_def m)
  qed
qed

lemma decimal_length_int:
  assumes "- (2 ^ 31) \<le> n" "n < 2 ^ 31"
  shows "length (decimal_text n) \<le> 11"
proof -
  have "length (digits_rev (nat \<bar>n\<bar>)) \<le> 10" using assms by (intro digits_rev_length) auto
  then show ?thesis using assms by (auto simp: decimal_text_def decimal_def)
qed

section \<open>Hexadecimal numbers\<close>

definition hex_char :: "nat \<Rightarrow> u8" where
  "hex_char d = look_up_table ! d"

fun hex_digits_rev :: "nat \<Rightarrow> nat list" where
  "hex_digits_rev n = n mod 16 # (if n < 16 then [] else hex_digits_rev (n div 16))"

declare hex_digits_rev.simps [simp del]

definition xtoa_text :: "nat \<Rightarrow> u8 list" where
  "xtoa_text n = map hex_char (rev (hex_digits_rev n))"

lemma look_up_digit: "d < 16 \<Longrightarrow> nth_opt look_up_table d = Some (hex_char d)"
  by (simp add: nth_opt_def hex_char_def look_up_table_def bytes_of_def)

lemma xtoa_loop_writes:
  "length (hex_digits_rev (unat n)) \<le> length r \<Longrightarrow>
   xtoa_loop n (t @ r) (length t) =
     (let ds = map hex_char (hex_digits_rev (unat n)) in
      Some ((t @ map Some ds) @ drop (length ds) r, length t + length ds))"
proof (induction "unat n" arbitrary: n t r rule: less_induct)
  case less
  define m where "m = unat n"
  have d: "unat (n AND 0xF) = m mod 16"
  proof -
    have "n AND 0xF = take_bit 4 n" by (simp add: take_bit_eq_mask mask_eq_decr_exp)
    then show ?thesis by (simp add: unat_take_bit_mod m_def)
  qed
  have div_m: "unat (drop_bit 4 n) = m div 16" by (simp add: unat_drop_bit_div m_def)
  have stop: "drop_bit 4 n > 0 \<longleftrightarrow> \<not> m < 16"
  proof -
    have "drop_bit 4 n > 0 \<longleftrightarrow> unat (drop_bit 4 n) \<noteq> 0" by (simp add: unat_gt_0 word_gt_0)
    also have "\<dots> \<longleftrightarrow> \<not> m < 16" by (auto simp: div_m)
    finally show ?thesis .
  qed
  have ds: "hex_digits_rev m = m mod 16 # (if m < 16 then [] else hex_digits_rev (m div 16))"
    by (rule hex_digits_rev.simps)
  with less.prems obtain x r' where r: "r = x # r'" by (cases r) (auto simp: m_def)
  have c: "nth_opt look_up_table (m mod 16) = Some (hex_char (m mod 16))" by (simp add: look_up_digit)
  have put: "put_char (t @ r) (length t) (hex_char (m mod 16)) =
      Some ((t @ [Some (hex_char (m mod 16))]) @ r', length t + 1)"
    using put_char_next [of r t "hex_char (m mod 16)"] by (simp add: r)
  show ?case
  proof (cases "m < 16")
    case True
    then show ?thesis using put stop ds c
      by (subst xtoa_loop.simps) (simp add: d m_def [symmetric] r Let_def)
  next
    case False
    have len: "length (hex_digits_rev (unat (drop_bit 4 n))) \<le> length r'"
      using less.prems ds False unfolding div_m m_def [symmetric] by (simp add: r)
    have smaller: "unat (drop_bit 4 n) < unat n" using False unfolding div_m m_def [symmetric] by simp
    show ?thesis
      using less.hyps [OF smaller len, of "t @ [Some (hex_char (m mod 16))]"] put stop ds c False
      unfolding div_m
      by (subst xtoa_loop.simps) (simp add: d m_def [symmetric] r Let_def)
  qed
qed

lemma xtoa_writes:
  assumes "length (xtoa_text (unat n)) < length r"
  shows "eina_convert_xtoa n (t @ r) (length t) =
    Some (int (length (xtoa_text (unat n))),
          t @ c_str (xtoa_text (unat n)) (drop (length (xtoa_text (unat n)) + 1) r))"
proof -
  define ds where "ds = map hex_char (hex_digits_rev (unat n))"
  have rev: "xtoa_text (unat n) = rev ds" by (simp add: xtoa_text_def ds_def rev_map)
  have len: "length ds < length r" using assms by (simp add: rev)
  have 1: "xtoa_loop n (t @ r) (length t) = Some ((t @ map Some ds) @ drop (length ds) r, length t + length ds)"
    using xtoa_loop_writes [of n r t] len by (simp add: ds_def Let_def)
  have 2: "write_cells ((t @ map Some ds) @ drop (length ds) r) (length t + length ds) [Some 0] =
      Some (t @ map Some ds @ Some 0 # drop (length ds + 1) r)"
    using len by (subst write_cells_next) auto
  have 3: "reverse_chars (t @ map Some ds @ Some 0 # drop (length ds + 1) r) (length t) (length ds) =
      Some (t @ map Some (rev ds) @ Some 0 # drop (length ds + 1) r)"
    using reverse_chars_reverses [of t "map Some ds"] by (simp add: rev_map)
  show ?thesis
    unfolding eina_convert_xtoa_def 1 bind.bind_lunit prod.case 2 using 3 by (simp add: rev)
qed

lemma hex_char_parse:
  assumes "d < 16"
  shows "hexa_to_int (hex_char d) = int d" "hex_char d \<noteq> 0x70" "hex_char d \<noteq> 0" "hex_char d \<noteq> 0x2E"
    "hex_char d = 0x30 \<longleftrightarrow> d = 0"
proof -
  have "\<forall>d \<in> set [0..<16]. hexa_to_int (hex_char d) = int d \<and> hex_char d \<noteq> 0x70 \<and> hex_char d \<noteq> 0 \<and>
      hex_char d \<noteq> 0x2E \<and> (hex_char d = 0x30 \<longleftrightarrow> d = 0)"
    by code_simp
  with assms show "hexa_to_int (hex_char d) = int d" "hex_char d \<noteq> 0x70" "hex_char d \<noteq> 0" "hex_char d \<noteq> 0x2E"
    "hex_char d = 0x30 \<longleftrightarrow> d = 0"
    by auto
qed

lemma digit_char_parse:
  assumes "d < 10"
  shows "sint (digit_char d) = 48 + int d" "digit_char d \<noteq> 0" "digit_char d \<noteq> 0x2D" "digit_char d \<noteq> 0x2B"
proof -
  have "\<forall>d \<in> set [0..<10]. sint (digit_char d) = 48 + int d \<and> digit_char d \<noteq> 0 \<and>
      digit_char d \<noteq> 0x2D \<and> digit_char d \<noteq> 0x2B"
    by code_simp
  with assms show "sint (digit_char d) = 48 + int d" "digit_char d \<noteq> 0" "digit_char d \<noteq> 0x2D"
    "digit_char d \<noteq> 0x2B"
    by auto
qed

section \<open>Reading digits\<close>

lemma read_char_at: "pos = length p \<Longrightarrow> read_char (map Some p @ Some c # r) pos = Some c"
  using read_char_append [of "map Some p" "Some c" r] by simp

lemma base_value_mono:
  assumes "0 \<le> a" "1 \<le> b" "\<forall>d \<in> set ds. 0 \<le> d"
  shows "a \<le> base_value b a ds"
  using assms
proof (induction ds arbitrary: a)
  case (Cons d ds)
  have "a \<le> b * a + d" using Cons.prems mult_right_mono [of 1 b a] by simp
  also have "\<dots> \<le> base_value b (b * a + d) ds" using Cons.prems calculation by (intro Cons.IH) auto
  finally show ?case by simp
qed simp

text \<open>Behind the digits of an exponent comes the end of the length.\<close>

lemma exponent_loop_reads:
  assumes "\<forall>d \<in> set ds. d < 10" "0 \<le> e" "base_value 10 e (map int ds) < 2 ^ 63"
  shows "exponent_loop (map Some p @ map Some (map digit_char ds) @ r) (length p) (int (length ds)) e =
    Some (base_value 10 e (map int ds))"
  using assms
proof (induction ds arbitrary: p e)
  case Nil
  then show ?case by (subst exponent_loop.simps) simp
next
  case (Cons d ds)
  have d: "d < 10" using Cons.prems by simp
  have le: "10 * e + int d \<le> base_value 10 (10 * e + int d) (map int ds)"
    using Cons.prems by (intro base_value_mono) auto
  have "int64 (e * 10) = Some (e * 10)" "int64 (e * 10 + int d) = Some (10 * e + int d)"
    using le Cons.prems by (simp_all add: int64_def)
  then show ?case
    using digit_char_parse [OF d] Cons.IH [of "10 * e + int d" "p @ [digit_char d]"] Cons.prems
    by (subst exponent_loop.simps) (simp add: read_char_at)
qed

lemma mantisse_loop_reads:
  assumes "\<forall>d \<in> set ds. d < 16" "0 \<le> m" "base_value 16 m (map int ds) < 2 ^ 63" "int (length ds) < len"
  shows "mantisse_loop (map Some p @ map Some (map hex_char ds) @ Some 0x70 # r) (length p) len m k =
    Some (length p + length ds, len - int (length ds), base_value 16 m (map int ds), k + int (length ds))"
  using assms
proof (induction ds arbitrary: p len m k)
  case Nil
  then show ?case by (subst mantisse_loop.simps) (simp add: read_char_at)
next
  case (Cons d ds)
  have d: "d < 16" using Cons.prems by simp
  have le: "16 * m + int d \<le> base_value 16 (16 * m + int d) (map int ds)"
    using Cons.prems by (intro base_value_mono) auto
  have "int64 (m * 16) = Some (m * 16)" "int64 (m * 16 + int d) = Some (16 * m + int d)"
    using le Cons.prems by (simp_all add: int64_def)
  then show ?case
    using hex_char_parse [OF d] Cons.IH [of "16 * m + int d" "len - 1" "p @ [hex_char d]" "k + 1"] Cons.prems
    by (subst mantisse_loop.simps) (simp add: read_char_at)
qed

section \<open>Reading the whole number\<close>

text \<open>The text of a number: its sign, the digits in front of and behind the point, the exponent of two.\<close>

definition fp_text :: "bool \<Rightarrow> nat \<Rightarrow> nat list \<Rightarrow> int \<Rightarrow> u8 list" where
  "fp_text neg lead ds p =
     (if neg then [0x2D] else []) @ [0x30, 0x78, hex_char lead] @
     (if ds = [] then [] else 0x2E # map hex_char ds) @
     [0x70, if p < 0 then 0x2D else 0x2B] @ decimal (nat \<bar>p\<bar>)"

lemma decimal_nonempty: "decimal n \<noteq> []"
  by (subst decimal_def, subst digits_rev.simps) simp

lemma atod_reads:
  assumes lead: "lead < 16" and ds: "\<forall>d \<in> set ds. d < 16" and p: "\<bar>p\<bar> < 2 ^ 31"
    and m: "base_value 16 (int lead) (map int ds) < 2 ^ 63" and n: "length ds < 2 ^ 31"
  shows "eina_convert_atod (c_str (fp_text neg lead ds p) r) (int (length (fp_text neg lead ds p))) =
    Some (Some ((if neg then - 1 else 1) * base_value 16 (int lead) (map int ds), p - 4 * int (length ds)))"
proof -
  define pre where "pre = (if neg then [0x2D] else [] :: u8 list)"
  define f where "f = (if ds = [] then [] else 0x2E # map hex_char ds)"
  define sg where "sg = (if p < 0 then 0x2D else 0x2B :: u8)"
  define es where "es = rev (digits_rev (nat \<bar>p\<bar>))"
  define src where "src = c_str (fp_text neg lead ds p) r"
  define M where "M = base_value 16 (int lead) (map int ds)"
  define s where "s = length pre"
  define q where "q = Suc (Suc (Suc (s + length f)))"
  have txt_eq: "fp_text neg lead ds p = pre @ [0x30, 0x78, hex_char lead] @ f @ [0x70, sg] @ map digit_char es"
    by (simp add: fp_text_def pre_def f_def sg_def es_def decimal_def)
  have es: "es \<noteq> []" using decimal_nonempty [of "nat \<bar>p\<bar>"] by (simp add: decimal_def es_def)
  have r0: "read_char src 0 = Some (if neg then 0x2D else 0x30)"
    by (simp add: src_def txt_eq pre_def read_char_def)
  have r1: "read_char src s = Some 0x30"
    unfolding src_def txt_eq using read_char_at [of s pre] by (simp add: s_def)
  have r2: "read_char src (Suc s) = Some 0x78"
    unfolding src_def txt_eq using read_char_at [of "Suc s" "pre @ [0x30]"] by (simp add: s_def)
  have r3: "read_char src (Suc (Suc s)) = Some (hex_char lead)"
    unfolding src_def txt_eq using read_char_at [of "Suc (Suc s)" "pre @ [0x30, 0x78]"] by (simp add: s_def)
  have r4: "read_char src (Suc (Suc (Suc s))) = Some (if ds = [] then 0x70 else 0x2E)"
    unfolding src_def txt_eq f_def
    using read_char_at [of "Suc (Suc (Suc s))" "pre @ [0x30, 0x78, hex_char lead]"] by (simp add: s_def)
  have rp: "read_char src q = Some 0x70"
    unfolding src_def txt_eq using read_char_at [of q "pre @ [0x30, 0x78, hex_char lead] @ f"]
    by (simp add: s_def q_def)
  have rs: "read_char src (Suc q) = Some sg"
    unfolding src_def txt_eq using read_char_at [of "Suc q" "pre @ [0x30, 0x78, hex_char lead] @ f @ [0x70]"]
    by (simp add: s_def q_def)
  have val: "base_value 10 0 (map int es) = \<bar>p\<bar>" by (simp add: es_def decimal_value)
  have e: "exponent_loop src (Suc (Suc q)) (int (length es)) 0 = Some \<bar>p\<bar>"
    using exponent_loop_reads [of es 0 "pre @ [0x30, 0x78, hex_char lead] @ f @ [0x70, sg]" "Some 0 # r"]
      digits_rev_bound [of _ "nat \<bar>p\<bar>"] p val
    by (simp add: src_def txt_eq es_def s_def q_def)
  have mant: "mantisse_loop src (Suc (Suc (Suc (Suc s)))) l (int lead) 0 =
      Some (q, l - int (length ds), M, int (length ds))" if "ds \<noteq> []" "int (length ds) < l" for l
    using mantisse_loop_reads [of ds "int lead" l "pre @ [0x30, 0x78, hex_char lead, 0x2E]"
        "Some sg # map Some (map digit_char es) @ Some 0 # r" 0] ds m that
    by (simp add: src_def txt_eq f_def s_def q_def M_def)
  have m0: "0 \<le> M" using base_value_mono [of "int lead" 16 "map int ds"] by (simp add: M_def)
  have neg: "int64 (if neg then - M else M) = Some ((if neg then - 1 else 1) * M)"
    using m m0 by (simp add: int64_def M_def)
  have e64: "int64 (p - int (length ds) * 4) = Some (p - 4 * int (length ds))"
  proof -
    have "int (length ds) < 2 ^ 31" using n by simp
    with p show ?thesis by (simp add: int64_def abs_less_iff)
  qed
  have lead16: "hexa_to_int (hex_char lead) = int lead" by (rule hex_char_parse [OF lead])
  have len: "length (fp_text neg lead ds p) = s + 3 + length f + 2 + length es"
    by (simp add: txt_eq s_def)
  have start: "s = (if neg then Suc 0 else 0)" by (simp add: s_def pre_def)
  have lens: "int (length (fp_text neg lead ds p)) = int s + 5 + int (length f) + int (length es)"
    by (simp add: len)
  have es1: "1 \<le> int (length es)" using es by (cases es) auto
  note facts = r0 r1 r2 r3 r4 rp rs e neg e64 lead16
  have "eina_convert_atod src (int s + 5 + int (length f) + int (length es)) =
      Some (Some ((if neg then - 1 else 1) * M, p - 4 * int (length ds)))"
  proof (cases "ds = []")
    case True
    then have q: "q = Suc (Suc (Suc s))" and f: "f = []" and M: "M = int lead" by (simp_all add: q_def f_def M_def)
    show ?thesis
      using es1 True facts start unfolding q f M sg_def
      by (cases neg; cases "p < 0") (simp_all add: eina_convert_atod_def Let_def)
  next
    case False
    then have f: "length f = Suc (length ds)" by (simp add: f_def)
    show ?thesis
      using es1 False facts start mant unfolding f sg_def
      by (cases neg; cases "p < 0") (simp_all add: eina_convert_atod_def Let_def)
  qed
  then show ?thesis by (simp add: lens src_def M_def)
qed

end
