(* ===== verification/Spec2Isabelle.thy ===== *)
theory Spec2Isabelle
  imports
    Emile_Base64
    Embryo_Arith
    Embryo_Reach
    Embryo_Lookup
    Embryo_Load
    Embryo_Natives_Text
    Eina_Utf8
    Eina_Hash_Keys
    Eina_Inlist_Table
    Eina_Array
    Eina_Crc
    Eina_Strbuf_Text
    Eina_Convert_Print
begin

text \<open>
  This library verifies parts of the Enlightenment Foundation Libraries, a stack of C libraries
  under \<^verbatim>\<open>src/src/lib\<close>. It covers code at the bottom of the stack, which the rest
  calls everywhere and which computes its results itself: the codec of \<^verbatim>\<open>emile\<close>, the
  bytecode machine \<^verbatim>\<open>embryo\<close> that runs the scripts of \<^verbatim>\<open>edje\<close> themes, and data
  structures, string buffers and text routines of \<^verbatim>\<open>eina\<close>.

  \<^bold>\<open>How the parts meet.\<close> Red-black trees (\<^verbatim>\<open>eina_rbtree\<close>) hold the buckets
  of the hash tables (\<^verbatim>\<open>eina_hash\<close>), whose iterators run over the iterators of the trees;
  the checksum (\<^verbatim>\<open>eina_crc\<close>) is one of the hash functions. The machine of \<^verbatim>\<open>embryo\<close>
  is loaded from a file image, run by one loop over its instructions, and calls native functions
  of the embedding program, which is a parameter of the model. The comparison of keys is the
  interface between the trees, the hash tables, the sorted lists and the symbol tables: the locale
  \<open>key_order\<close>.

  \<^bold>\<open>Conventions.\<close> A C integer of \<open>w\<close> bits is a \<open>w word\<close>, and its arithmetic
  wraps; counters that cannot leave their range are numbers. Where the size of a block is computed
  in an \<^verbatim>\<open>int\<close> or a \<^verbatim>\<open>size_t\<close> that can wrap, the wrapped size is the size of the block, and the
  theorems state the lengths below which it is what the code means. Memory that the code indexes is a
  list, read through \<open>nth_opt\<close>; a result \<open>None\<close> (in the machine, \<open>Fault\<close>) is
  undefined behaviour of the C code, an access outside a block or through a null pointer, so a
  theorem that a result is \<open>Some\<close> is a theorem of memory safety. Errors of the code are values
  of its own. Allocation is an argument where its failure changes the result, and is taken to
  succeed elsewhere. The machine is little-endian, \<^verbatim>\<open>int\<close> has 32 bits and
  \<^verbatim>\<open>char\<close> is signed. The checks of magic numbers and of null arguments, which only reject
  calls, and locks are left out.

  \<^bold>\<open>Shared theories.\<close> \<^verbatim>\<open>Efl_Prelude\<close>: words, checked reads, lists.
  \<^verbatim>\<open>Efl_Cells\<close>: blocks of characters that may be unwritten, terminated strings and the
  arithmetic of \<^verbatim>\<open>size_t\<close>. \<^verbatim>\<open>Efl_Order\<close>: the contract of a comparison (\<open>cmp_preorder\<close>, and
  \<open>key_order\<close> where ties are equal keys), its instance \<^verbatim>\<open>strcmp\<close>, and tables sorted
  by it.

  \<^bold>\<open>Base64\<close> (\<^verbatim>\<open>emile/emile_base64.c\<close>). \<^verbatim>\<open>Emile_Base64\<close> has both directions with both
  dictionaries, the size the decoder allocates and the failing allocations. Decoding inverts
  encoding, encoding is that of RFC 4648, and decoding any bytes stays inside the allocated block
  for fewer than 1431655763 characters; at that length the size wraps, and the decoder overruns it
  (\<open>base64_decode_overruns\<close>).

  \<^bold>\<open>Embryo machine\<close> (\<^verbatim>\<open>embryo/embryo_amx.c\<close>, \<^verbatim>\<open>embryo_private.h\<close>,
  \<^verbatim>\<open>Embryo.h\<close>). \<^verbatim>\<open>Embryo_Program\<close> has the record \<^verbatim>\<open>Embryo_Program\<close>, the
  memory block and the file header; \<^verbatim>\<open>Embryo_Ops\<close> the macros and \<^verbatim>\<open>Embryo_Ops_Control\<close>,
  \<^verbatim>\<open>_Alu\<close>, \<^verbatim>\<open>_Block\<close> one definition per instruction; \<^verbatim>\<open>Embryo_Run\<close> the dispatch
  and the loop; \<^verbatim>\<open>Embryo_Api\<close> the functions of the interface. A step gives \<open>Next\<close>,
  \<open>Stop\<close> or \<open>Fault\<close>. The loop takes fuel, one unit an instruction; with a limit on
  the cycles of the run \<^verbatim>\<open>limited_run_ends\<close> gives fuel that is enough, without a limit a program
  may run for ever. \<^verbatim>\<open>Embryo_Frame\<close>, \<^verbatim>\<open>_Safety\<close>, \<^verbatim>\<open>_Resume\<close> prove facts of every
  instruction macro by macro; \<^verbatim>\<open>Embryo_Reach\<close> lifts them to reachable states: what a run
  restores, that a suspended run continues as if it had not been, that in the checked build
  accesses stay in the block. \<^verbatim>\<open>_Calls\<close> proves the calling convention, \<^verbatim>\<open>_Lookup\<close> the searches of the
  symbol tables, \<^verbatim>\<open>_Data\<close> the heap and the strings, \<^verbatim>\<open>_Arith\<close> the division and the
  switch tables.

  \<^verbatim>\<open>_Load\<close> has the loading of a program from a block or a file, its release, the fields
  and the messages.

  \<^bold>\<open>Natives of Embryo\<close> (\<^verbatim>\<open>embryo/embryo_str.c\<close>, \<^verbatim>\<open>embryo_args.c\<close>).
  \<^verbatim>\<open>Embryo_Natives\<close> has the functions that a script calls on strings and on the arguments of
  its caller, over parameters in the memory block and buffers of the C stack. \<^verbatim>\<open>Embryo_Natives_Ok\<close>
  states in the locale \<open>native_functions\<close> what the machine relies on, and proves it of all of them.
  \<^verbatim>\<open>Embryo_Natives_Text\<close> shows what they write, and the bounds of the formatter. The
  matcher \<^verbatim>\<open>fnmatch\<close> and the text that \<^verbatim>\<open>%f\<close> prints are parameters. The natives for floating
  point, random numbers and time are registered but not modelled: they return what the mathematical
  library, the generator and the clock of the system return.

  \<^bold>\<open>Unicode\<close> (\<^verbatim>\<open>eina/eina_unicode.c\<close>, \<^verbatim>\<open>eina_inline_unicode.x\<close>).
  \<^verbatim>\<open>Eina_Unicode\<close> has the string functions and the UTF-8 codec, \<^verbatim>\<open>Eina_Utf8\<close> its round trips
  in both directions, the lengths for which the encoder stays in its block and those for which it
  does not (\<open>to_utf8_overruns\<close>), and the safety of the decoder.

  \<^bold>\<open>Red-black trees\<close> (\<^verbatim>\<open>eina/eina_rbtree.c\<close>, \<^verbatim>\<open>eina_inline_rbtree.x\<close>).
  \<^verbatim>\<open>Eina_Rbtree\<close> has the rotations and the two rebalancing loops over the stack of links, which
  the model keeps as a list of frames, and their invariants. \<^verbatim>\<open>Eina_Rbtree_Map\<close> gives the
  contents as lists and, in \<open>rbtree_keys\<close>, as maps, and bounds the stack, whose 48 places the code does
  not check. \<^verbatim>\<open>Eina_Rbtree_Iter\<close> has the iterators.

  \<^bold>\<open>Hash tables\<close> (\<^verbatim>\<open>eina/eina_hash.c\<close>, \<^verbatim>\<open>eina_inline_hash.x\<close>).
  \<^verbatim>\<open>Eina_Hash\<close> has the tables, \<^verbatim>\<open>Eina_Hash_Map\<close> their invariant and refinement to maps,
  \<^verbatim>\<open>Eina_Hash_Keys\<close> the hash functions and key callbacks, and the results for
  each kind of table through the locale \<open>hash_keys\<close>.

  \<^bold>\<open>Inlined lists\<close> (\<^verbatim>\<open>eina/eina_inlist.c\<close>, \<^verbatim>\<open>eina_inline_inlist.x\<close>).
  The nodes live in a heap. \<^verbatim>\<open>Eina_Inlist_List\<close> relates the links to lists and refines
  the operations; \<^verbatim>\<open>_Sort\<close> proves the merge sort inside its stack of 32 chains;
  \<^verbatim>\<open>_Sorted\<close>, \<^verbatim>\<open>_Search\<close> and \<^verbatim>\<open>_Table\<close> have insertion into sorted lists: the two
  bisections, and the jump table as an invariant. The loops are partial functions, since a
  circular list has no end; the theorems show that they end on lists.

  \<^bold>\<open>Arrays\<close> (\<^verbatim>\<open>eina/eina_array.c\<close>, \<^verbatim>\<open>eina_inline_array.x\<close>).
  \<^verbatim>\<open>Eina_Array\<close> has the growing array of pointers and its refinement to lists under
  allocations that may fail.

  \<^bold>\<open>Checksum\<close> (\<^verbatim>\<open>eina/eina_crc.c\<close>). \<^verbatim>\<open>Eina_Crc\<close> has the tables as they are
  in the source and proves the loops over them equal to the division of polynomials bit by bit.

  \<^bold>\<open>Strings and string buffers\<close> (\<^verbatim>\<open>eina/eina_str.c\<close>, \<^verbatim>\<open>eina_strbuf_common.c\<close>,
  \<^verbatim>\<open>eina_strbuf.c\<close>, \<^verbatim>\<open>eina_binbuf.c\<close> and their templates). \<^verbatim>\<open>Eina_Str\<close> has the
  bounded copies, the joins, the tests of prefix and suffix and the escaping, with what each
  leaves in its block. \<^verbatim>\<open>Eina_Strbuf\<close> has every operation of the buffers, for characters of any
  size, over a block of the heap, no block, or text of the caller that must not be written;
  \<^verbatim>\<open>Eina_Strbuf_List\<close> refines the edits to lists through allocations that fail,
  \<^verbatim>\<open>_Replace\<close> shows what replacing one or all occurrences gives, and \<^verbatim>\<open>_Text\<close> the rest,
  with what goes wrong in read-only buffers. The two loops that replace all occurrences take
  fuel; the length of the text is enough, but for replacing nothing by nothing, which has no end.

  \<^bold>\<open>Numbers as text\<close> (\<^verbatim>\<open>eina/eina_convert.c\<close>). \<^verbatim>\<open>Eina_Convert\<close> has integers in
  decimal and hexadecimal and the fixed-point numbers of 32.32 bits; \<^verbatim>\<open>Eina_Convert_Print\<close>
  shows what the integers print and what the reader makes of a printed number. The conversions of
  a \<^verbatim>\<open>double\<close> are not modelled.

  \<^bold>\<open>Not modelled.\<close> The graphical libraries (\<^verbatim>\<open>evas\<close>, \<^verbatim>\<open>edje\<close>,
  \<^verbatim>\<open>elementary\<close>, \<^verbatim>\<open>ector\<close>), the object system (\<^verbatim>\<open>eo\<close>, \<^verbatim>\<open>eolian\<close>)
  and the main loop (\<^verbatim>\<open>ecore\<close>) work on the state of the system, a display, or
  objects of all other libraries; the ciphers and compression of \<^verbatim>\<open>emile\<close> call libraries that
  are not part of the repository; the compiler \<^verbatim>\<open>embryo_cc\<close> is a third-party program adapted
  to it. Of \<^verbatim>\<open>eina\<close>, what wraps the operating system (files, threads, modules, logging) is
  left out, and so are its other containers, the splitting and the character conversion of
  strings, and the shared strings.
\<close>

end
